(* ===== verification/Rb_Prelude.thy ===== *)
theory Rb_Prelude
  imports Main "HOL-Library.Word"
begin

text \<open>
  The prelude of the development: bytes and byte-addressed memory, the 32-bit integers of the C++
  code as they are stored in a page, the state-and-exception type in which the stateful operations
  are written, and the generic lemmas on lists and maps that several components share.

  A buffer (a page frame, a record buffer, a file) is a function from offsets to bytes, so that a
  \<open>memcpy\<close>, \<open>memmove\<close> or \<open>memset\<close> of the source is one update of the function and a
  read through a cast pointer is a function of the bytes at its offset. That an access stays inside
  its buffer is not a side condition of the model: it is stated and proved as a theorem of the
  component that makes the access.
\<close>

section \<open>Simplification collections\<close>

named_theorems mem_simps \<open>reading a buffer after a write\<close>
named_theorems run_simps \<open>evaluation of the state-and-exception type\<close>

section \<open>Bytes and memory\<close>

type_synonym byte = "8 word"
type_synonym mem = "nat \<Rightarrow> byte"

abbreviation zero_mem :: mem where
  "zero_mem \<equiv> \<lambda>_. 0"

text \<open>\<open>memcpy(dst + doff, src + soff, n)\<close>; with \<open>dst = src\<close> this is \<open>memmove\<close>.\<close>

definition mcopy :: "mem \<Rightarrow> nat \<Rightarrow> mem \<Rightarrow> nat \<Rightarrow> nat \<Rightarrow> mem" where
  "mcopy dst doff src soff n = (\<lambda>i. if doff \<le> i \<and> i < doff + n then src (soff + (i - doff)) else dst i)"

definition mread :: "mem \<Rightarrow> nat \<Rightarrow> nat \<Rightarrow> byte list" where
  "mread m off n = map (\<lambda>i. m (off + i)) [0..<n]"

definition mwrite :: "mem \<Rightarrow> nat \<Rightarrow> byte list \<Rightarrow> mem" where
  "mwrite m off bs = (\<lambda>i. if off \<le> i \<and> i < off + length bs then bs ! (i - off) else m i)"

lemma mcopy_in [mem_simps]:
  "doff \<le> i \<Longrightarrow> i < doff + n \<Longrightarrow> mcopy dst doff src soff n i = src (soff + (i - doff))"
  by (simp add: mcopy_def)

lemma mcopy_out [mem_simps]:
  "i < doff \<or> doff + n \<le> i \<Longrightarrow> mcopy dst doff src soff n i = dst i"
  by (auto simp: mcopy_def)

lemma length_mread [simp]: "length (mread m off n) = n"
  by (simp add: mread_def)

lemma nth_mread [simp]: "i < n \<Longrightarrow> mread m off n ! i = m (off + i)"
  by (simp add: mread_def)

lemma mread_cong:
  "(\<And>i. off \<le> i \<Longrightarrow> i < off + n \<Longrightarrow> m i = m' i) \<Longrightarrow> mread m off n = mread m' off n"
  by (simp add: mread_def)

lemma mread_mcopy_out [mem_simps]:
  "off + n \<le> doff \<or> doff + k \<le> off \<Longrightarrow> mread (mcopy dst doff src soff k) off n = mread dst off n"
  by (rule mread_cong) (auto simp: mcopy_def)

lemma mread_mcopy_in [mem_simps]:
  "doff \<le> off \<Longrightarrow> off + n \<le> doff + k \<Longrightarrow>
   mread (mcopy dst doff src soff k) off n = mread src (soff + (off - doff)) n"
  by (auto simp: mread_def mcopy_def intro!: arg_cong [where f = src])

lemma mread_mwrite_same [mem_simps]: "n = length bs \<Longrightarrow> mread (mwrite m off bs) off n = bs"
  by (rule nth_equalityI) (simp_all add: mwrite_def)

lemma mread_mwrite_out [mem_simps]:
  "off + n \<le> doff \<or> doff + length bs \<le> off \<Longrightarrow> mread (mwrite m doff bs) off n = mread m off n"
  by (rule mread_cong) (auto simp: mwrite_def)

lemma mwrite_out [mem_simps]:
  "i < off \<or> off + length bs \<le> i \<Longrightarrow> mwrite m off bs i = m i"
  by (auto simp: mwrite_def)

section \<open>32-bit integers\<close>

text \<open>
  \<open>to_i32\<close> is the value an \<open>int\<close> or \<open>int32_t\<close> variable holds after the mathematical result
  has been reduced to 32 bits in two's complement. \<open>get_i32\<close> and \<open>put_i32\<close> are the little-endian
  accesses behind \<open>reinterpret_cast<int *>\<close>.
\<close>

definition to_i32 :: "int \<Rightarrow> int" where
  "to_i32 x = signed_take_bit 31 x"

definition is_i32 :: "int \<Rightarrow> bool" where
  "is_i32 x \<longleftrightarrow> - (2 ^ 31) \<le> x \<and> x < 2 ^ 31"

definition i32_bytes :: "int \<Rightarrow> byte list" where
  "i32_bytes v = [word_of_int v, word_of_int (v div 2 ^ 8), word_of_int (v div 2 ^ 16),
     word_of_int (v div 2 ^ 24)]"

definition bytes_i32 :: "byte list \<Rightarrow> int" where
  "bytes_i32 bs = to_i32 (uint (bs ! 0) + uint (bs ! 1) * 2 ^ 8 + uint (bs ! 2) * 2 ^ 16
     + uint (bs ! 3) * 2 ^ 24)"

definition get_i32 :: "mem \<Rightarrow> nat \<Rightarrow> int" where
  "get_i32 m off = bytes_i32 (mread m off 4)"

definition put_i32 :: "mem \<Rightarrow> nat \<Rightarrow> int \<Rightarrow> mem" where
  "put_i32 m off v = mwrite m off (i32_bytes v)"

lemma to_i32_id [simp]: "is_i32 x \<Longrightarrow> to_i32 x = x"
  unfolding to_i32_def is_i32_def by (intro signed_take_bit_int_eq_self) auto

lemma is_i32_to_i32 [simp]: "is_i32 (to_i32 x)"
  unfolding to_i32_def is_i32_def
  using signed_take_bit_int_greater_eq_minus_exp [of 31 x] signed_take_bit_int_less_exp [of 31 x]
  by simp

lemma to_i32_mod: "to_i32 (x mod 2 ^ 32) = to_i32 x"
proof -
  have "signed_take_bit 31 (take_bit 32 x) = signed_take_bit 31 x"
    by (simp add: signed_take_bit_take_bit)
  then show ?thesis
    by (simp add: to_i32_def take_bit_eq_mod)
qed

lemma length_i32_bytes [simp]: "length (i32_bytes v) = 4"
  by (simp add: i32_bytes_def)

lemma digits_step:
  fixes v a b c d e f m :: int
  assumes "m = 256 * a + b" "a = 256 * c + d" "c = 256 * e + f"
  shows "b + d * 256 + f * 65536 + e * 16777216 = m"
  using assms by simp

lemma base256_digits:
  fixes v :: int
  shows "v mod 256 + (v div 256) mod 256 * 256 + (v div 65536) mod 256 * 65536
     + (v div 16777216) mod 256 * 16777216 = v mod 4294967296"
proof (rule digits_step)
  show "v mod 4294967296 = 256 * (v div 256 mod 16777216) + v mod 256"
    using zmod_zmult2_eq [of 16777216 v 256] by simp
  show "v div 256 mod 16777216 = 256 * (v div 65536 mod 65536) + v div 256 mod 256"
    using zmod_zmult2_eq [of 65536 "v div 256" 256] zdiv_zmult2_eq [of 256 v 256] by simp
  show "v div 65536 mod 65536 = 256 * (v div 16777216 mod 256) + v div 65536 mod 256"
    using zmod_zmult2_eq [of 256 "v div 65536" 256] zdiv_zmult2_eq [of 256 v 65536] by simp
qed

lemma bytes_i32_i32_bytes [simp]: "bytes_i32 (i32_bytes v) = to_i32 v"
proof -
  have "bytes_i32 (i32_bytes v) = to_i32 (v mod 2 ^ 32)"
    unfolding bytes_i32_def i32_bytes_def
    by (rule arg_cong [where f = to_i32]) (simp add: uint_word_of_int base256_digits)
  then show ?thesis by (simp only: to_i32_mod)
qed

lemma get_put_i32_same [mem_simps]: "get_i32 (put_i32 m off v) off = to_i32 v"
  by (simp add: get_i32_def put_i32_def mem_simps)

lemma get_put_i32_other [mem_simps]:
  "off + 4 \<le> doff \<or> doff + 4 \<le> off \<Longrightarrow> get_i32 (put_i32 m doff v) off = get_i32 m off"
  by (simp add: get_i32_def put_i32_def mem_simps)

lemma get_i32_mcopy_out [mem_simps]:
  "off + 4 \<le> doff \<or> doff + k \<le> off \<Longrightarrow> get_i32 (mcopy dst doff src soff k) off = get_i32 dst off"
  by (simp add: get_i32_def mem_simps)

lemma get_i32_mcopy_in [mem_simps]:
  "doff \<le> off \<Longrightarrow> off + 4 \<le> doff + k \<Longrightarrow>
   get_i32 (mcopy dst doff src soff k) off = get_i32 src (soff + (off - doff))"
  by (simp add: get_i32_def mem_simps)

lemma get_i32_mwrite_out [mem_simps]:
  "off + 4 \<le> doff \<or> doff + length bs \<le> off \<Longrightarrow> get_i32 (mwrite m doff bs) off = get_i32 m off"
  by (simp add: get_i32_def mem_simps)

lemma mread_put_i32_out [mem_simps]:
  "off + n \<le> doff \<or> doff + 4 \<le> off \<Longrightarrow> mread (put_i32 m doff v) off n = mread m off n"
  by (simp add: put_i32_def mem_simps)

lemma put_i32_out [mem_simps]: "i < off \<or> off + 4 \<le> i \<Longrightarrow> put_i32 m off v i = m i"
  by (simp add: put_i32_def mem_simps)

lemma is_i32_get [simp]: "is_i32 (get_i32 m off)"
  by (simp add: get_i32_def bytes_i32_def)

lemma get_i32_zero [simp]: "get_i32 zero_mem off = 0"
  by (simp add: get_i32_def bytes_i32_def mread_def to_i32_def upt_rec)

section \<open>Lists\<close>

lemma distinct_last_butlast:
  assumes "distinct xs" and "xs \<noteq> []"
  shows "last xs \<notin> set (butlast xs)" and "set xs = insert (last xs) (set (butlast xs))"
  using assms by (induction xs rule: rev_induct) auto

lemma sorted_wrt_butlast: "sorted_wrt P xs \<Longrightarrow> sorted_wrt P (butlast xs)"
  by (simp add: butlast_conv_take sorted_wrt_take)

section \<open>State and exceptions\<close>

text \<open>
  An operation that changes state and may throw maps a state to its outcome (\<open>Inl\<close> the
  exception, \<open>Inr\<close> the value returned) and the state it leaves. What was written before an exception was thrown
  stays written.
\<close>

type_synonym ('e, 's, 'a) op = "'s \<Rightarrow> ('e + 'a) \<times> 's"

definition ret :: "'a \<Rightarrow> ('e, 's, 'a) op" where
  "ret x s = (Inr x, s)"

definition throw :: "'e \<Rightarrow> ('e, 's, 'a) op" where
  "throw e s = (Inl e, s)"

definition andthen :: "('e, 's, 'a) op \<Rightarrow> ('a \<Rightarrow> ('e, 's, 'b) op) \<Rightarrow> ('e, 's, 'b) op" where
  "andthen m f s = (case m s of (Inl e, s') \<Rightarrow> (Inl e, s') | (Inr x, s') \<Rightarrow> f x s')"

definition read_st :: "('s \<Rightarrow> 'a) \<Rightarrow> ('e, 's, 'a) op" where
  "read_st f s = (Inr (f s), s)"

definition modify_st :: "('s \<Rightarrow> 's) \<Rightarrow> ('e, 's, unit) op" where
  "modify_st f s = (Inr (), f s)"

definition guard :: "'e \<Rightarrow> ('s \<Rightarrow> bool) \<Rightarrow> ('e, 's, unit) op" where
  "guard e b s = (if b s then (Inr (), s) else (Inl e, s))"

fun for_each :: "('a \<Rightarrow> ('e, 's, unit) op) \<Rightarrow> 'a list \<Rightarrow> ('e, 's, unit) op" where
  "for_each f [] s = (Inr (), s)"
| "for_each f (x # xs) s = (case f x s of (Inl e, s') \<Rightarrow> (Inl e, s') | (Inr _, s') \<Rightarrow> for_each f xs s')"

lemma ret_run [run_simps]: "ret x s = (Inr x, s)"
  by (simp add: ret_def)

lemma throw_run [run_simps]: "throw e s = (Inl e, s)"
  by (simp add: throw_def)

lemma read_run [run_simps]: "read_st f s = (Inr (f s), s)"
  by (simp add: read_st_def)

lemma modify_run [run_simps]: "modify_st f s = (Inr (), f s)"
  by (simp add: modify_st_def)

lemma guard_run [run_simps]: "guard e b s = (if b s then (Inr (), s) else (Inl e, s))"
  by (simp add: guard_def)

lemma andthen_ok: "m s = (Inr x, s') \<Longrightarrow> andthen m f s = f x s'"
  by (simp add: andthen_def)

lemma andthen_err: "m s = (Inl e, s') \<Longrightarrow> andthen m f s = (Inl e, s')"
  by (simp add: andthen_def)

lemma andthen_Inr_iff:
  "andthen m f s = (Inr y, t) \<longleftrightarrow> (\<exists>x u. m s = (Inr x, u) \<and> f x u = (Inr y, t))"
  by (auto simp: andthen_def split: prod.splits sum.splits)

lemma for_each_invariant:
  assumes "\<And>x t r t'. x \<in> set xs \<Longrightarrow> I t \<Longrightarrow> f x t = (r, t') \<Longrightarrow> I t'"
    and "I s" and "for_each f xs s = (r, s')"
  shows "I s'"
  using assms
proof (induction xs arbitrary: s)
  case Nil
  then show ?case by simp
next
  case (Cons x xs)
  show ?case
  proof (cases "f x s")
    case (Pair q t)
    then have "I t" using Cons.prems(1) [of x s q t] Cons.prems(2) by simp
    then show ?thesis
      using Cons.IH [of t] Cons.prems Pair by (cases q) auto
  qed
qed

section \<open>Runs of a step relation\<close>

inductive steps :: "('s \<Rightarrow> 'l \<Rightarrow> 's \<Rightarrow> bool) \<Rightarrow> 's \<Rightarrow> 'l list \<Rightarrow> 's \<Rightarrow> bool" for step where
  steps_Nil: "steps step s [] s"
| steps_Cons: "step s l t \<Longrightarrow> steps step t ls u \<Longrightarrow> steps step s (l # ls) u"

inductive_simps steps_Nil_iff [simp]: "steps step s [] t"
inductive_simps steps_Cons_iff [simp]: "steps step s (l # ls) t"

text \<open>A store whose steps are labelled with the write they make, if any.\<close>

fun put_label :: "('k \<times> 'v) option \<Rightarrow> ('k \<Rightarrow> 'v) \<Rightarrow> ('k \<Rightarrow> 'v)" where
  "put_label None m = m"
| "put_label (Some (k, v)) m = m(k := v)"

locale content_store =
  fixes invar :: "'s \<Rightarrow> bool"
    and valid :: "'s \<Rightarrow> 'k \<Rightarrow> bool"
    and view :: "'s \<Rightarrow> 'k \<Rightarrow> 'v"
    and step :: "'s \<Rightarrow> ('k \<times> 'v) option \<Rightarrow> 's \<Rightarrow> bool"
  assumes step_invar: "invar s \<Longrightarrow> step s l t \<Longrightarrow> invar t"
    and step_valid: "invar s \<Longrightarrow> step s l t \<Longrightarrow> valid t = valid s"
    and step_view: "invar s \<Longrightarrow> step s l t \<Longrightarrow> valid s k \<Longrightarrow> view t k = put_label l (view s) k"
begin

lemma put_label_cong: "m k = m' k \<Longrightarrow> put_label l m k = put_label l m' k"
  by (cases "(l, m)" rule: put_label.cases) auto

lemma fold_put_cong:
  assumes "m k = m' k"
  shows "fold put_label ls m k = fold put_label ls m' k"
  using assms
proof (induction ls arbitrary: m m')
  case (Cons l ls)
  show ?case unfolding fold_simps by (rule Cons.IH, rule put_label_cong, rule Cons.prems)
qed simp

lemma steps_invar: "steps step s ls t \<Longrightarrow> invar s \<Longrightarrow> invar t \<and> valid t = valid s"
proof (induction rule: steps.induct)
  case (steps_Cons s l t ls u)
  then show ?case using step_invar step_valid by metis
qed simp

lemma steps_view: "steps step s ls t \<Longrightarrow> invar s \<Longrightarrow> valid s k \<Longrightarrow> view t k = fold put_label ls (view s) k"
proof (induction rule: steps.induct)
  case (steps_Cons s l t ls u)
  have "view u k = fold put_label ls (view t) k"
    using steps_Cons step_invar step_valid by metis
  also have "\<dots> = fold put_label ls (put_label l (view s)) k"
    by (rule fold_put_cong) (rule step_view [OF steps_Cons.prems(1) steps_Cons.hyps(1) steps_Cons.prems(2)])
  finally show ?case by simp
qed simp

lemma untouched:
  assumes "steps step s ls t" and "invar s" and "valid s k" and "\<And>v. Some (k, v) \<notin> set ls"
  shows "view t k = view s k"
proof -
  have "fold put_label ls m k = m k" if "\<And>v. Some (k, v) \<notin> set ls" for m
    using that
  proof (induction ls arbitrary: m)
    case (Cons l ls)
    have "put_label l m k = m k"
      using Cons.prems by (cases "(l, m)" rule: put_label.cases) auto
    then show ?case using Cons by simp
  qed simp
  then show ?thesis using steps_view [OF assms(1-3)] assms(4) by simp
qed

end

end
