(* ===== verification/Rb_Defs.thy ===== *)
theory Rb_Defs
  imports Rb_Prelude
begin

text \<open>
  The constants, identifiers and exceptions every layer of the program uses:
  \<open>common/config.h\<close>, \<open>defs.h\<close> and \<open>errors.h\<close>. An exception class is a constructor of
  \<open>rb_error\<close>; its message is computed by \<open>what\<close>. Four constructors stand for the ways the
  program stops without an exception class of its own: a failed \<open>assert\<close>, a use of a null
  pointer, \<open>std::out_of_range\<close> from a container's \<open>at\<close> (or an index outside an array), and a use of a variable that was never set. \<open>OutOfFuel\<close> is no
  outcome of the program: it says that the bound a definition puts on the rounds of a loop was too small.
\<close>

section \<open>Configuration constants\<close>

definition INVALID_PAGE_ID :: int where "INVALID_PAGE_ID = -1"
definition PAGE_SIZE :: nat where "PAGE_SIZE = 4096"
definition BUFFER_POOL_SIZE :: nat where "BUFFER_POOL_SIZE = 65536"
definition LOG_FILE_NAME :: string where "LOG_FILE_NAME = ''db.log''"

type_synonym frame_id = nat
type_synonym path = string

section \<open>Identifiers and column types\<close>

record Rid =
  rid_page :: int
  rid_slot :: int

datatype ColType = TYPE_INT | TYPE_FLOAT | TYPE_STRING

fun coltype2str :: "ColType \<Rightarrow> string" where
  "coltype2str TYPE_INT = ''INT''"
| "coltype2str TYPE_FLOAT = ''FLOAT''"
| "coltype2str TYPE_STRING = ''STRING''"

text \<open>The stream operators on enumerations go through the underlying integer.\<close>

fun coltype_to_int :: "ColType \<Rightarrow> int" where
  "coltype_to_int TYPE_INT = 0"
| "coltype_to_int TYPE_FLOAT = 1"
| "coltype_to_int TYPE_STRING = 2"

definition int_to_coltype :: "int \<Rightarrow> ColType option" where
  "int_to_coltype i = (if i = 0 then Some TYPE_INT else if i = 1 then Some TYPE_FLOAT
     else if i = 2 then Some TYPE_STRING else None)"

lemma int_to_coltype_roundtrip [simp]: "int_to_coltype (coltype_to_int t) = Some t"
  by (cases t) (simp_all add: int_to_coltype_def)

section \<open>Decimal text\<close>

text \<open>\<open>std::to_string\<close> and \<open>operator<<\<close> on integers, and the digits \<open>operator>>\<close> reads back.\<close>

definition digit_char :: "nat \<Rightarrow> char" where
  "digit_char d = char_of (48 + d)"

definition digit_val :: "char \<Rightarrow> nat option" where
  "digit_val c = (let k = of_char c :: nat in if 48 \<le> k \<and> k \<le> 57 then Some (k - 48) else None)"

fun nat_digits :: "nat \<Rightarrow> string" where
  "nat_digits n = (if n < 10 then [digit_char n] else nat_digits (n div 10) @ [digit_char (n mod 10)])"

declare nat_digits.simps [simp del]

definition to_string :: "int \<Rightarrow> string" where
  "to_string i = (if i < 0 then CHR ''-'' # nat_digits (nat (- i)) else nat_digits (nat i))"

definition digits_val :: "string \<Rightarrow> nat" where
  "digits_val cs = foldl (\<lambda>n c. 10 * n + (case digit_val c of Some d \<Rightarrow> d | None \<Rightarrow> 0)) 0 cs"

definition parse_int :: "string \<Rightarrow> int option" where
  "parse_int s = (case s of
       [] \<Rightarrow> None
     | c # cs \<Rightarrow>
         if c = CHR ''-'' then
           (if cs \<noteq> [] \<and> list_all (\<lambda>c. digit_val c \<noteq> None) cs then Some (- int (digits_val cs)) else None)
         else if list_all (\<lambda>c. digit_val c \<noteq> None) s then Some (int (digits_val s)) else None)"

lemma digit_val_char [simp]: "d < 10 \<Longrightarrow> digit_val (digit_char d) = Some d"
  by (simp add: digit_val_def digit_char_def Let_def of_char_of)

lemma digit_char_not_minus [simp]: "d < 10 \<Longrightarrow> digit_char d \<noteq> CHR ''-''"
proof
  assume "d < 10" and "digit_char d = CHR ''-''"
  then have "of_char (digit_char d) = (45 :: nat)" by simp
  with \<open>d < 10\<close> show False by (simp add: digit_char_def of_char_of)
qed

lemma nat_digits_nonempty [simp]: "nat_digits n \<noteq> []"
  by (subst nat_digits.simps) simp

lemma nat_digits_all_digits: "list_all (\<lambda>c. digit_val c \<noteq> None) (nat_digits n)"
proof (induction n rule: nat_digits.induct)
  case (1 n)
  then show ?case by (cases "n < 10") (simp_all add: nat_digits.simps [of n])
qed

lemma digits_val_nat_digits [simp]: "digits_val (nat_digits n) = n"
proof (induction n rule: nat_digits.induct)
  case (1 n)
  then show ?case
    by (cases "n < 10") (simp_all add: nat_digits.simps [of n] digits_val_def)
qed

lemma hd_nat_digits: "hd (nat_digits n) \<noteq> CHR ''-''"
proof (induction n rule: nat_digits.induct)
  case (1 n)
  then show ?case by (cases "n < 10") (simp_all add: nat_digits.simps [of n])
qed

lemma parse_int_to_string [simp]: "parse_int (to_string i) = Some i"
proof (cases "i < 0")
  case True
  then show ?thesis
    using nat_digits_all_digits [of "nat (- i)"] by (simp add: parse_int_def to_string_def)
next
  case False
  obtain c cs where "nat_digits (nat i) = c # cs"
    by (cases "nat_digits (nat i)") simp_all
  moreover from this have "c \<noteq> CHR ''-''"
    using hd_nat_digits [of "nat i"] by simp
  ultimately show ?thesis
    using False nat_digits_all_digits [of "nat i"] digits_val_nat_digits [of "nat i"]
    by (simp add: parse_int_def to_string_def)
qed

section \<open>Exceptions\<close>

datatype rb_error =
    InternalError string
  | UnixError
  | FileNotOpenError int
  | FileNotClosedError string
  | FileExistsError string
  | FileNotFoundError string
  | RecordNotFoundError int int
  | InvalidRecordSizeError int
  | InvalidColLengthError int
  | IndexEntryNotFoundError
  | DatabaseNotFoundError string
  | DatabaseExistsError string
  | TableNotFoundError string
  | TableExistsError string
  | ColumnNotFoundError string
  | IndexNotFoundError string string
  | IndexExistsError string string
  | InvalidValueCountError
  | StringOverflowError
  | IncompatibleTypeError string string
  | AmbiguousColumnError string
  | PageNotExistError string int
  | AssertionFailure
  | NullDereference
  | OutOfRange
  | Indeterminate
  | OutOfFuel

text \<open>
  \<open>what\<close> is \<open>RedBaseError::what\<close>: the prefix \<open>Error: \<close> and the message of the class. The text of
  \<open>UnixError\<close> is \<open>strerror(errno)\<close>, a parameter here. The last five constructors are no
  \<open>RedBaseError\<close> and have no message.
\<close>

fun error_text :: "string \<Rightarrow> rb_error \<Rightarrow> string option" where
  "error_text strerr (InternalError msg) = Some msg"
| "error_text strerr UnixError = Some strerr"
| "error_text strerr (FileNotOpenError fd) = Some (''Invalid file descriptor: '' @ to_string fd)"
| "error_text strerr (FileNotClosedError f) = Some (''File is opened: '' @ f)"
| "error_text strerr (FileExistsError f) = Some (''File already exists: '' @ f)"
| "error_text strerr (FileNotFoundError f) = Some (''File not found: '' @ f)"
| "error_text strerr (RecordNotFoundError p s) =
     Some (''Record not found: ('' @ to_string p @ '','' @ to_string s @ '')'')"
| "error_text strerr (InvalidRecordSizeError n) = Some (''Invalid record size: '' @ to_string n)"
| "error_text strerr (InvalidColLengthError n) = Some (''Invalid column length: '' @ to_string n)"
| "error_text strerr IndexEntryNotFoundError = Some ''Index entry not found''"
| "error_text strerr (DatabaseNotFoundError d) = Some (''Database not found: '' @ d)"
| "error_text strerr (DatabaseExistsError d) = Some (''Database already exists: '' @ d)"
| "error_text strerr (TableNotFoundError t) = Some (''Table not found: '' @ t)"
| "error_text strerr (TableExistsError t) = Some (''Table already exists: '' @ t)"
| "error_text strerr (ColumnNotFoundError c) = Some (''Column not found: '' @ c)"
| "error_text strerr (IndexNotFoundError t c) = Some (''Index not found: '' @ t @ ''.'' @ c)"
| "error_text strerr (IndexExistsError t c) = Some (''Index already exists: '' @ t @ ''.'' @ c)"
| "error_text strerr InvalidValueCountError = Some ''Invalid value count''"
| "error_text strerr StringOverflowError = Some ''String is too long''"
| "error_text strerr (IncompatibleTypeError l r) =
     Some (''Incompatible type error: lhs '' @ l @ '', rhs '' @ r)"
| "error_text strerr (AmbiguousColumnError c) = Some (''Ambiguous column: '' @ c)"
| "error_text strerr (PageNotExistError t p) =
     Some (''Page '' @ to_string p @ '' in table '' @ t @ ''not exits'')"
| "error_text strerr AssertionFailure = None"
| "error_text strerr NullDereference = None"
| "error_text strerr OutOfRange = None"
| "error_text strerr Indeterminate = None"
| "error_text strerr OutOfFuel = None"

definition what :: "string \<Rightarrow> rb_error \<Rightarrow> string option" where
  "what strerr e = map_option (\<lambda>msg. ''Error: '' @ msg) (error_text strerr e)"

end
