(* ===== verification/Lru_Replacer.thy ===== *)
theory Lru_Replacer
  imports Rb_Defs
begin

text \<open>
  \<open>replacer/lru_replacer.cpp\<close>. The \<open>std::list\<close> of frames is a list of nodes, each with its address
  (what an iterator points to) and its value; \<open>LRUhash_\<close> maps a frame to the address of
  its node. \<open>erase(iterator)\<close> removes the node at the address. The invariant says that
  list and hash agree, and the locale \<open>replacer\<close> is the contract that \<open>replacer/replacer.h\<close>
  declares for a replacement policy; the buffer pool relies on it.
\<close>

section \<open>The replacer and its operations\<close>

record LRUReplacer =
  LRUlist :: "(nat \<times> frame_id) list"
  LRUhash :: "frame_id \<rightharpoonup> nat"
  LRUalloc :: nat
  LRUmax_size :: nat

definition LRUReplacer_new :: "nat \<Rightarrow> LRUReplacer" where
  "LRUReplacer_new num_pages =
     \<lparr>LRUlist = [], LRUhash = Map.empty, LRUalloc = 0, LRUmax_size = num_pages\<rparr>"

definition list_erase :: "nat \<Rightarrow> (nat \<times> 'a) list \<Rightarrow> (nat \<times> 'a) list" where
  "list_erase it xs = filter (\<lambda>n. fst n \<noteq> it) xs"

definition Victim :: "LRUReplacer \<Rightarrow> frame_id option \<times> LRUReplacer" where
  "Victim r =
     (if LRUlist r = [] then (None, r)
      else let f = snd (last (LRUlist r))
        in (Some f, r\<lparr>LRUlist := butlast (LRUlist r), LRUhash := (LRUhash r)(f := None)\<rparr>))"

definition Pin :: "frame_id \<Rightarrow> LRUReplacer \<Rightarrow> LRUReplacer" where
  "Pin f r = (case LRUhash r f of
       None \<Rightarrow> r
     | Some it \<Rightarrow> r\<lparr>LRUlist := list_erase it (LRUlist r), LRUhash := (LRUhash r)(f := None)\<rparr>)"

definition Unpin :: "frame_id \<Rightarrow> LRUReplacer \<Rightarrow> LRUReplacer" where
  "Unpin f r = (case LRUhash r f of
       None \<Rightarrow> r\<lparr>LRUlist := (LRUalloc r, f) # LRUlist r, LRUhash := (LRUhash r)(f \<mapsto> LRUalloc r),
                 LRUalloc := Suc (LRUalloc r)\<rparr>
     | Some it \<Rightarrow> r)"

definition Size :: "LRUReplacer \<Rightarrow> nat" where
  "Size r = length (LRUlist r)"

text \<open>
  \<open>replacer/clock_replacer.cpp\<close>: its operations are placeholders. \<open>return -1\<close> as a \<open>size_t\<close> is \<open>2^64 - 1\<close>. The
  operations never look at the state, so the constructor is not modelled.
\<close>

datatype ClockStatus = UNTOUCHED | ACCESSED | EMPTY_OR_PINNED

record ClockReplacer =
  circular :: "ClockStatus list"
  hand :: nat
  capacity :: nat

definition Clock_Victim :: "ClockReplacer \<Rightarrow> frame_id option \<times> ClockReplacer" where
  "Clock_Victim r = (None, r)"

definition Clock_Pin :: "frame_id \<Rightarrow> ClockReplacer \<Rightarrow> ClockReplacer" where
  "Clock_Pin f r = r"

definition Clock_Unpin :: "frame_id \<Rightarrow> ClockReplacer \<Rightarrow> ClockReplacer" where
  "Clock_Unpin f r = r"

definition Clock_Size :: "ClockReplacer \<Rightarrow> nat" where
  "Clock_Size r = 2 ^ 64 - 1"

section \<open>List and hash agree\<close>

definition lru_inv :: "LRUReplacer \<Rightarrow> bool" where
  "lru_inv r \<longleftrightarrow>
     distinct (map fst (LRUlist r)) \<and> distinct (map snd (LRUlist r)) \<and>
     (\<forall>(a, f) \<in> set (LRUlist r). a < LRUalloc r) \<and>
     (\<forall>f a. LRUhash r f = Some a \<longleftrightarrow> (a, f) \<in> set (LRUlist r))"

definition lru_frames :: "LRUReplacer \<Rightarrow> frame_id list" where
  "lru_frames r = map snd (LRUlist r)"

lemma lru_invD:
  assumes "lru_inv r"
  shows "distinct (map fst (LRUlist r))" "distinct (map snd (LRUlist r))"
    "(a, f) \<in> set (LRUlist r) \<Longrightarrow> a < LRUalloc r"
    "LRUhash r f = Some a \<longleftrightarrow> (a, f) \<in> set (LRUlist r)"
  using assms by (auto simp: lru_inv_def)

lemma lru_hash_None: "lru_inv r \<Longrightarrow> LRUhash r f = None \<longleftrightarrow> f \<notin> set (lru_frames r)"
  unfolding lru_frames_def
  by (metis (no_types, lifting) image_iff list.set_map lru_invD(4) not_Some_eq prod.collapse snd_conv)

lemma distinct_pair_unique:
  assumes "distinct (map fst xs)" and "distinct (map snd xs)"
    and "(a, f) \<in> set xs" and "(b, g) \<in> set xs"
  shows "a = b \<longleftrightarrow> f = g"
  using assms by (metis eq_key_imp_eq_value map_of_eq_Some_iff distinct_map fst_conv inj_onD snd_conv)

lemma lru_inv_new [simp]: "lru_inv (LRUReplacer_new n)"
  by (simp add: lru_inv_def LRUReplacer_new_def)

lemma lru_frames_new [simp]: "lru_frames (LRUReplacer_new n) = []"
  by (simp add: lru_frames_def LRUReplacer_new_def)

lemma list_erase_frames:
  assumes inv: "lru_inv r" and h: "LRUhash r f = Some it"
  shows "map snd (list_erase it (LRUlist r)) = removeAll f (lru_frames r)"
proof -
  have "filter (\<lambda>n. fst n \<noteq> it) (LRUlist r) = filter (\<lambda>n. snd n \<noteq> f) (LRUlist r)"
  proof (rule filter_cong [OF refl])
    fix n assume "n \<in> set (LRUlist r)"
    then show "(fst n \<noteq> it) = (snd n \<noteq> f)"
      using distinct_pair_unique [OF lru_invD(1,2) [OF inv], of "fst n" "snd n" it f]
        lru_invD(4) [OF inv] h by simp
  qed
  then show ?thesis
    by (simp add: list_erase_def lru_frames_def filter_map removeAll_filter_not_eq comp_def eq_commute)
qed

lemma lru_inv_Pin:
  assumes inv: "lru_inv r"
  shows "lru_inv (Pin f r)" "lru_frames (Pin f r) = removeAll f (lru_frames r)"
proof -
  show "lru_frames (Pin f r) = removeAll f (lru_frames r)"
    using inv list_erase_frames [OF inv]
    by (auto simp: Pin_def lru_frames_def lru_hash_None split: option.splits)
  show "lru_inv (Pin f r)"
  proof (cases "LRUhash r f")
    case None
    with inv show ?thesis by (simp add: Pin_def)
  next
    case (Some it)
    have uni: "\<And>a g. (a, g) \<in> set (LRUlist r) \<Longrightarrow> a = it \<longleftrightarrow> g = f"
      using distinct_pair_unique [OF lru_invD(1,2) [OF inv]] lru_invD(4) [OF inv] Some by blast
    have "distinct (map fst (list_erase it (LRUlist r)))"
      and "distinct (map snd (list_erase it (LRUlist r)))"
      using lru_invD(1,2) [OF inv] by (auto simp: list_erase_def distinct_map_filter)
    moreover have "\<And>a g. (a, g) \<in> set (list_erase it (LRUlist r)) \<longleftrightarrow> (a, g) \<in> set (LRUlist r) \<and> g \<noteq> f"
      using uni by (auto simp: list_erase_def)
    moreover have "Pin f r = r\<lparr>LRUlist := list_erase it (LRUlist r), LRUhash := (LRUhash r)(f := None)\<rparr>"
      using Some by (simp add: Pin_def)
    ultimately show ?thesis
      using lru_invD(3,4) [OF inv] by (auto simp: lru_inv_def)
  qed
qed

lemma lru_inv_Unpin:
  assumes inv: "lru_inv r"
  shows "lru_inv (Unpin f r)"
    "lru_frames (Unpin f r) = (if f \<in> set (lru_frames r) then lru_frames r else f # lru_frames r)"
proof -
  show "lru_frames (Unpin f r) = (if f \<in> set (lru_frames r) then lru_frames r else f # lru_frames r)"
    using lru_hash_None [OF inv, of f]
    by (auto simp: Unpin_def lru_frames_def split: option.splits)
  show "lru_inv (Unpin f r)"
  proof (cases "LRUhash r f")
    case None
    then have fresh: "f \<notin> snd ` set (LRUlist r)" "LRUalloc r \<notin> fst ` set (LRUlist r)"
      using lru_hash_None [OF inv, of f] by (auto simp: lru_frames_def dest: lru_invD(3) [OF inv])
    then have "\<And>a. (a, f) \<notin> set (LRUlist r)" by (metis image_eqI snd_conv)
    then show ?thesis using inv None fresh
      by (auto simp: Unpin_def lru_inv_def less_Suc_eq)
  next
    case (Some it)
    with inv show ?thesis by (simp add: Unpin_def)
  qed
qed

lemma Victim_empty: "lru_frames r = [] \<Longrightarrow> Victim r = (None, r)"
  by (simp add: Victim_def lru_frames_def)

lemma lru_Victim_nonempty:
  assumes inv: "lru_inv r" and ne: "lru_frames r \<noteq> []"
  shows "fst (Victim r) = Some (last (lru_frames r))" "lru_inv (snd (Victim r))"
    "lru_frames (snd (Victim r)) = butlast (lru_frames r)"
proof -
  have ne': "LRUlist r \<noteq> []" using ne by (simp add: lru_frames_def)
  then obtain xs a f where xs: "LRUlist r = xs @ [(a, f)]"
    by (metis append_butlast_last_id prod.collapse)
  show "fst (Victim r) = Some (last (lru_frames r))"
    using ne' by (simp add: Victim_def Let_def lru_frames_def last_map)
  show "lru_frames (snd (Victim r)) = butlast (lru_frames r)"
    using ne' by (simp add: Victim_def Let_def lru_frames_def map_butlast)
  have "\<And>b. (b, f) \<notin> set xs"
    using lru_invD(2) [OF inv] xs by (auto simp: rev_image_eqI)
  then show "lru_inv (snd (Victim r))"
    using inv xs by (auto simp: Victim_def Let_def lru_inv_def)
qed

section \<open>The contract of a replacement policy\<close>

text \<open>
  \<open>Replacer\<close> of \<open>replacer/replacer.h\<close>: \<open>frames\<close> lists the frames that may be chosen, the most recently
  added first.
\<close>

locale replacer =
  fixes invar :: "'r \<Rightarrow> bool"
    and frames :: "'r \<Rightarrow> frame_id list"
    and victim :: "'r \<Rightarrow> frame_id option \<times> 'r"
    and pin :: "frame_id \<Rightarrow> 'r \<Rightarrow> 'r"
    and unpin :: "frame_id \<Rightarrow> 'r \<Rightarrow> 'r"
    and size_of :: "'r \<Rightarrow> nat"
  assumes frames_distinct: "invar r \<Longrightarrow> distinct (frames r)"
    and victim_none: "invar r \<Longrightarrow> frames r = [] \<Longrightarrow> victim r = (None, r)"
    and victim_some: "invar r \<Longrightarrow> frames r \<noteq> [] \<Longrightarrow>
      \<exists>r'. victim r = (Some (last (frames r)), r') \<and> invar r' \<and> frames r' = butlast (frames r)"
    and pin_frames: "invar r \<Longrightarrow> invar (pin f r) \<and> frames (pin f r) = removeAll f (frames r)"
    and unpin_frames: "invar r \<Longrightarrow> invar (unpin f r) \<and>
      frames (unpin f r) = (if f \<in> set (frames r) then frames r else f # frames r)"
    and size_frames: "invar r \<Longrightarrow> size_of r = length (frames r)"
begin

lemma victim_cases:
  assumes "invar r"
  obtains "frames r = []" and "victim r = (None, r)"
  | f r' where "victim r = (Some f, r')" and "f \<in> set (frames r)" and "invar r'"
      and "set (frames r') = set (frames r) - {f}"
proof (cases "frames r = []")
  case True
  with assms that(1) show ?thesis by (simp add: victim_none)
next
  case False
  obtain r' where r': "victim r = (Some (last (frames r)), r')" "invar r'" "frames r' = butlast (frames r)"
    using victim_some [OF assms False] by blast
  then show ?thesis
    using that(2) [OF r'(1)] distinct_last_butlast [OF frames_distinct [OF assms] False] by simp
qed

lemma set_frames_pin: "invar r \<Longrightarrow> set (frames (pin f r)) = set (frames r) - {f}"
  by (simp add: pin_frames)

lemma set_frames_unpin: "invar r \<Longrightarrow> set (frames (unpin f r)) = insert f (set (frames r))"
  by (simp add: unpin_frames insert_absorb)

lemma pinned_is_no_victim:
  assumes "invar r"
  shows "fst (victim (pin f r)) \<noteq> Some f"
proof -
  have "invar (pin f r)" and "f \<notin> set (frames (pin f r))"
    using assms by (simp_all add: pin_frames)
  then show ?thesis by (metis fst_conv option.inject option.simps(3) victim_cases)
qed

lemma size_is_card: "invar r \<Longrightarrow> size_of r = card (set (frames r))"
  by (simp add: size_frames distinct_card frames_distinct)

end

interpretation lru: replacer lru_inv lru_frames Victim Pin Unpin Size
proof unfold_locales
  fix r :: LRUReplacer and f
  assume inv: "lru_inv r"
  show "distinct (lru_frames r)" using lru_invD(2) [OF inv] by (simp add: lru_frames_def)
  show "lru_frames r = [] \<Longrightarrow> Victim r = (None, r)" by (rule Victim_empty)
  show "\<exists>r'. Victim r = (Some (last (lru_frames r)), r') \<and> lru_inv r' \<and> lru_frames r' = butlast (lru_frames r)"
    if "lru_frames r \<noteq> []"
    using lru_Victim_nonempty [OF inv that] by (cases "Victim r") simp
  show "lru_inv (Pin f r) \<and> lru_frames (Pin f r) = removeAll f (lru_frames r)"
    using lru_inv_Pin [OF inv] by simp
  show "lru_inv (Unpin f r) \<and>
      lru_frames (Unpin f r) = (if f \<in> set (lru_frames r) then lru_frames r else f # lru_frames r)"
    using lru_inv_Unpin [OF inv] by simp
  show "Size r = length (lru_frames r)" by (simp add: Size_def lru_frames_def)
qed

section \<open>Least recently used\<close>

text \<open>
  A history of calls, run together with the time at which each frame now in the replacer entered it.
\<close>

datatype lru_call = CallPin frame_id | CallUnpin frame_id | CallVictim

fun lru_call_step :: "lru_call \<Rightarrow> LRUReplacer \<Rightarrow> LRUReplacer" where
  "lru_call_step (CallPin f) r = Pin f r"
| "lru_call_step (CallUnpin f) r = Unpin f r"
| "lru_call_step CallVictim r = snd (Victim r)"

fun entered_step :: "nat \<Rightarrow> lru_call \<Rightarrow> LRUReplacer \<Rightarrow> (frame_id \<rightharpoonup> nat) \<Rightarrow> (frame_id \<rightharpoonup> nat)" where
  "entered_step t (CallPin f) r m = m(f := None)"
| "entered_step t (CallUnpin f) r m = (if m f = None then m(f \<mapsto> t) else m)"
| "entered_step t CallVictim r m = (case fst (Victim r) of None \<Rightarrow> m | Some f \<Rightarrow> m(f := None))"

fun lru_history :: "nat \<Rightarrow> lru_call list \<Rightarrow> LRUReplacer \<times> (frame_id \<rightharpoonup> nat) \<Rightarrow>
    LRUReplacer \<times> (frame_id \<rightharpoonup> nat)" where
  "lru_history t [] (r, m) = (r, m)"
| "lru_history t (c # cs) (r, m) = lru_history (Suc t) cs (lru_call_step c r, entered_step t c r m)"

definition lru_aged :: "nat \<Rightarrow> LRUReplacer \<Rightarrow> (frame_id \<rightharpoonup> nat) \<Rightarrow> bool" where
  "lru_aged t r m \<longleftrightarrow> lru_inv r \<and> dom m = set (lru_frames r) \<and> (\<forall>f k. m f = Some k \<longrightarrow> k < t) \<and>
     sorted_wrt (\<lambda>f g. the (m g) < the (m f)) (lru_frames r)"

lemma sorted_wrt_stamp_cong:
  "(\<And>x. x \<in> set xs \<Longrightarrow> m x = m' x) \<Longrightarrow>
   sorted_wrt (\<lambda>f g. the (m g) < the (m f)) xs \<longleftrightarrow> sorted_wrt (\<lambda>f g. the (m' g) < the (m' f)) xs"
  by (induction xs) auto

lemma lru_aged_step:
  assumes a: "lru_aged t r m"
  shows "lru_aged (Suc t) (lru_call_step c r) (entered_step t c r m)"
proof -
  have inv: "lru_inv r" and dom: "dom m = set (lru_frames r)"
    and lt: "\<And>f k. m f = Some k \<Longrightarrow> k < t"
    and so: "sorted_wrt (\<lambda>f g. the (m g) < the (m f)) (lru_frames r)"
    using a by (auto simp: lru_aged_def)
  note d = lru.frames_distinct [OF inv]
  show ?thesis
  proof (cases c)
    case (CallPin f)
    have "sorted_wrt (\<lambda>h g. the ((m(f := None)) g) < the ((m(f := None)) h)) (removeAll f (lru_frames r))"
      using sorted_wrt_filter [OF so, of "\<lambda>x. f \<noteq> x"]
      by (subst sorted_wrt_stamp_cong [of _ _ m]) (auto simp: removeAll_filter_not_eq)
    then show ?thesis
      using CallPin lru.pin_frames [OF inv, of f] dom lt
      by (auto simp: lru_aged_def less_Suc_eq split: if_splits)
  next
    case (CallUnpin f)
    have "\<forall>g \<in> set (lru_frames r). the (m g) < t" using dom lt by force
    moreover have "f \<notin> set (lru_frames r) \<Longrightarrow>
        sorted_wrt (\<lambda>h g. the ((m(f \<mapsto> t)) g) < the ((m(f \<mapsto> t)) h)) (lru_frames r)"
      using so by (subst sorted_wrt_stamp_cong [of _ _ m]) auto
    ultimately show ?thesis
      using CallUnpin lru.unpin_frames [OF inv, of f] dom lt so
      by (auto simp: lru_aged_def domIff less_Suc_eq)
  next
    case CallVictim
    show ?thesis
    proof (cases "lru_frames r = []")
      case True
      then show ?thesis
        using CallVictim lru.victim_none [OF inv] a by (auto simp: lru_aged_def less_Suc_eq)
    next
      case False
      obtain r' where r': "Victim r = (Some (last (lru_frames r)), r')" "lru_inv r'"
        "lru_frames r' = butlast (lru_frames r)"
        using lru.victim_some [OF inv False] by blast
      let ?f = "last (lru_frames r)"
      note nf = distinct_last_butlast(1) [OF d False] and ins = distinct_last_butlast(2) [OF d False]
      have "sorted_wrt (\<lambda>h g. the ((m(?f := None)) g) < the ((m(?f := None)) h)) (butlast (lru_frames r))"
        using sorted_wrt_butlast [OF so] nf by (subst sorted_wrt_stamp_cong [of _ _ m]) auto
      then show ?thesis
        using CallVictim r' dom lt nf ins by (auto simp: lru_aged_def less_Suc_eq split: if_splits)
    qed
  qed
qed

lemma lru_aged_history:
  assumes "lru_aged t r m" and "lru_history t cs (r, m) = (r', m')"
  shows "lru_aged (t + length cs) r' m'"
  using assms
proof (induction cs arbitrary: t r m)
  case Nil
  then show ?case by simp
next
  case (Cons c cs)
  from Cons.IH [OF lru_aged_step [OF Cons.prems(1), of c]] Cons.prems(2) show ?case by simp
qed

lemma lru_aged_new: "lru_aged 0 (LRUReplacer_new n) Map.empty"
  by (simp add: lru_aged_def)

lemma sorted_wrt_last:
  "sorted_wrt (\<lambda>f g. (h g :: nat) < h f) xs \<Longrightarrow> x \<in> set xs \<Longrightarrow> h (last xs) \<le> h x"
  by (induction xs) (auto split: if_splits intro: less_imp_le)

section \<open>Properties\<close>

text \<open>
  C4. After any history of \<open>Pin\<close>, \<open>Unpin\<close> and \<open>Victim\<close> calls on a new replacer, \<open>Victim\<close> finds no
  frame exactly when every frame is pinned or was never unpinned; otherwise it returns the frame that has been evictable for the
  longest time (unpinning a frame that is already evictable does not renew it), and \<open>Size\<close> is the number of evictable frames.
\<close>

theorem Victim_is_least_recently_used:
  assumes run: "lru_history 0 cs (LRUReplacer_new n, Map.empty) = (r, m)"
  shows "(fst (Victim r) = None \<longleftrightarrow> m = Map.empty) \<and>
    (\<forall>f. fst (Victim r) = Some f \<longrightarrow> f \<in> dom m \<and> (\<forall>g \<in> dom m. the (m f) \<le> the (m g))) \<and>
    Size r = card (dom m)"
proof -
  have a: "lru_aged (length cs) r m" using lru_aged_history [OF lru_aged_new run] by simp
  then have inv: "lru_inv r" and dom: "dom m = set (lru_frames r)"
    and so: "sorted_wrt (\<lambda>f g. the (m g) < the (m f)) (lru_frames r)"
    by (simp_all add: lru_aged_def)
  have sz: "Size r = card (dom m)" using lru.size_is_card [OF inv] dom by simp
  show ?thesis
  proof (cases "lru_frames r = []")
    case True
    then show ?thesis using lru.victim_none [OF inv True] dom sz by simp
  next
    case False
    then have "fst (Victim r) = Some (last (lru_frames r))" using lru.victim_some [OF inv False] by auto
    moreover have "m \<noteq> Map.empty" using dom False by auto
    moreover have "last (lru_frames r) \<in> dom m" using dom False by simp
    moreover have "\<forall>g \<in> dom m. the (m (last (lru_frames r))) \<le> the (m g)"
      using sorted_wrt_last [OF so] dom by simp
    ultimately show ?thesis using sz by simp
  qed
qed

theorem Victim_is_least_recently_used_witness:
  "\<exists>r m. lru_history 0 [CallUnpin 1, CallUnpin 2, CallUnpin 1] (LRUReplacer_new 3, Map.empty) = (r, m) \<and>
    fst (Victim r) = Some 1 \<and> 1 \<in> dom m \<and> (\<forall>g \<in> dom m. the (m 1) \<le> the (m g)) \<and> Size r = card (dom m)"
proof -
  obtain r m where run: "lru_history 0 [CallUnpin 1, CallUnpin 2, CallUnpin 1] (LRUReplacer_new 3, Map.empty) = (r, m)"
    by fastforce
  then have "fst (Victim r) = Some 1"
    by (auto simp: Unpin_def LRUReplacer_new_def Victim_def)
  then show ?thesis using run Victim_is_least_recently_used [OF run] by blast
qed

end
