(* ===== verification/Disk_Manager.thy ===== *)
theory Disk_Manager
  imports Rb_Defs
begin

text \<open>
  \<open>storage/disk_manager.cpp\<close> on a model of the system calls it makes. A file is an inode with a size
  and its bytes (a byte at or beyond the size reads as zero once the file is extended over it); a
  path names an inode, an open descriptor is an inode and a file offset, \<open>open\<close> returns the lowest
  free descriptor or fails when the table is full, \<open>unlink\<close> removes the name and leaves an open
  inode alone, \<open>lseek\<close> fails on a negative offset and then leaves the file offset where it was.
  Media errors and a full disk are not modelled: a \<open>write\<close> fails on a descriptor that is not
  open and is complete otherwise.
\<close>

section \<open>System calls\<close>

record os =
  os_names :: "path \<rightharpoonup> nat"
  os_dirs :: "path set"
  os_size :: "nat \<Rightarrow> nat"
  os_bytes :: "nat \<Rightarrow> mem"
  os_fds :: "int \<rightharpoonup> nat \<times> nat"
  os_next_ino :: nat
  os_max_fd :: nat

definition free_fd :: "os \<Rightarrow> int option" where
  "free_fd s = find (\<lambda>fd. os_fds s fd = None) (map int [0..<os_max_fd s])"

definition sys_open :: "path \<Rightarrow> os \<Rightarrow> int \<times> os" where
  "sys_open p s = (case (os_names s p, free_fd s) of
       (Some ino, Some fd) \<Rightarrow> (fd, s\<lparr>os_fds := (os_fds s)(fd \<mapsto> (ino, 0))\<rparr>)
     | _ \<Rightarrow> (-1, s))"

definition sys_creat :: "path \<Rightarrow> os \<Rightarrow> int \<times> os" where
  "sys_creat p s = (case os_names s p of
       Some ino \<Rightarrow> sys_open p s
     | None \<Rightarrow>
         if p \<in> os_dirs s \<or> free_fd s = None then (-1, s)
         else sys_open p (s\<lparr>os_names := (os_names s)(p \<mapsto> os_next_ino s),
                os_size := (os_size s)(os_next_ino s := 0),
                os_bytes := (os_bytes s)(os_next_ino s := zero_mem),
                os_next_ino := Suc (os_next_ino s)\<rparr>))"

definition sys_close :: "int \<Rightarrow> os \<Rightarrow> os" where
  "sys_close fd s = s\<lparr>os_fds := (os_fds s)(fd := None)\<rparr>"

definition sys_unlink :: "path \<Rightarrow> os \<Rightarrow> int \<times> os" where
  "sys_unlink p s = (case os_names s p of
       None \<Rightarrow> (-1, s)
     | Some ino \<Rightarrow> (0, s\<lparr>os_names := (os_names s)(p := None)\<rparr>))"

definition sys_lseek :: "int \<Rightarrow> int \<Rightarrow> os \<Rightarrow> os" where
  "sys_lseek fd off s = (case os_fds s fd of
       None \<Rightarrow> s
     | Some (ino, pos) \<Rightarrow> if off < 0 then s else s\<lparr>os_fds := (os_fds s)(fd \<mapsto> (ino, nat off))\<rparr>)"

definition sys_lseek_end :: "int \<Rightarrow> os \<Rightarrow> os" where
  "sys_lseek_end fd s = (case os_fds s fd of
       None \<Rightarrow> s
     | Some (ino, pos) \<Rightarrow> s\<lparr>os_fds := (os_fds s)(fd \<mapsto> (ino, os_size s ino))\<rparr>)"

definition sys_write :: "int \<Rightarrow> mem \<Rightarrow> nat \<Rightarrow> os \<Rightarrow> int \<times> os" where
  "sys_write fd buf n s = (case os_fds s fd of
       None \<Rightarrow> (-1, s)
     | Some (ino, pos) \<Rightarrow>
         (int n, s\<lparr>os_bytes := (os_bytes s)(ino := (\<lambda>i. if pos \<le> i \<and> i < pos + n then buf (i - pos)
                      else if i < os_size s ino then os_bytes s ino i else 0)),
                  os_size := (os_size s)(ino := (if n = 0 then os_size s ino else max (os_size s ino) (pos + n))),
                  os_fds := (os_fds s)(fd \<mapsto> (ino, pos + n))\<rparr>))"

definition sys_read :: "int \<Rightarrow> mem \<Rightarrow> nat \<Rightarrow> os \<Rightarrow> int \<times> mem \<times> os" where
  "sys_read fd buf n s = (case os_fds s fd of
       None \<Rightarrow> (-1, buf, s)
     | Some (ino, pos) \<Rightarrow>
         let k = min n (os_size s ino - pos)
         in (int k, mcopy buf 0 (os_bytes s ino) pos k, s\<lparr>os_fds := (os_fds s)(fd \<mapsto> (ino, pos + k))\<rparr>))"

definition sys_stat_size :: "path \<Rightarrow> os \<Rightarrow> int" where
  "sys_stat_size p s = (case os_names s p of Some ino \<Rightarrow> int (os_size s ino) | None \<Rightarrow> -1)"

section \<open>The disk manager\<close>

record DiskManager =
  dm_os :: os
  path2fd :: "path \<rightharpoonup> int"
  fd2path :: "int \<rightharpoonup> path"
  log_fd :: int
  fd2pageno :: "int \<Rightarrow> int"

definition MAX_FD :: int where "MAX_FD = 8192"

definition DiskManager_new :: "os \<Rightarrow> DiskManager" where
  "DiskManager_new s =
     \<lparr>dm_os = s, path2fd = Map.empty, fd2path = Map.empty, log_fd = -1, fd2pageno = (\<lambda>_. 0)\<rparr>"

text \<open>\<open>page_no * PAGE_SIZE\<close> is a product of two \<open>int\<close>s, passed on as an \<open>off_t\<close>.\<close>

definition page_offset :: "int \<Rightarrow> int" where
  "page_offset page_no = to_i32 (page_no * int PAGE_SIZE)"

definition write_page :: "int \<Rightarrow> int \<Rightarrow> mem \<Rightarrow> nat \<Rightarrow> (rb_error, DiskManager, unit) op" where
  "write_page fd page_no buf num_bytes d =
     (let s1 = sys_lseek fd (page_offset page_no) (dm_os d);
          (written, s2) = sys_write fd buf num_bytes s1
      in if written \<noteq> int num_bytes then (Inl UnixError, d\<lparr>dm_os := s2\<rparr>)
         else (Inr (), d\<lparr>dm_os := s2\<rparr>))"

definition read_page :: "int \<Rightarrow> int \<Rightarrow> mem \<Rightarrow> nat \<Rightarrow> DiskManager \<Rightarrow> (rb_error + unit) \<times> mem \<times> DiskManager" where
  "read_page fd page_no buf num_bytes d =
     (let s1 = sys_lseek fd (page_offset page_no) (dm_os d);
          (got, buf', s2) = sys_read fd buf num_bytes s1
      in if got \<noteq> int num_bytes then (Inl UnixError, buf', d\<lparr>dm_os := s2\<rparr>)
         else (Inr (), buf', d\<lparr>dm_os := s2\<rparr>))"

definition AllocatePage :: "int \<Rightarrow> (rb_error, DiskManager, int) op" where
  "AllocatePage fd d =
     (if 0 \<le> fd \<and> fd < MAX_FD
      then (Inr (fd2pageno d fd), d\<lparr>fd2pageno := (fd2pageno d)(fd := to_i32 (fd2pageno d fd + 1))\<rparr>)
      else (Inl OutOfRange, d))"

definition DeallocatePage :: "int \<Rightarrow> DiskManager \<Rightarrow> DiskManager" where
  "DeallocatePage page_id d = d"

definition set_fd2pageno :: "int \<Rightarrow> int \<Rightarrow> (rb_error, DiskManager, unit) op" where
  "set_fd2pageno fd start d =
     (if 0 \<le> fd \<and> fd < MAX_FD then (Inr (), d\<lparr>fd2pageno := (fd2pageno d)(fd := start)\<rparr>)
      else (Inl OutOfRange, d))"

definition get_fd2pageno :: "int \<Rightarrow> (rb_error, DiskManager, int) op" where
  "get_fd2pageno fd d = (if 0 \<le> fd \<and> fd < MAX_FD then (Inr (fd2pageno d fd), d) else (Inl OutOfRange, d))"

definition is_dir :: "path \<Rightarrow> DiskManager \<Rightarrow> bool" where
  "is_dir p d = (p \<in> os_dirs (dm_os d))"

definition is_file :: "path \<Rightarrow> DiskManager \<Rightarrow> bool" where
  "is_file p d = (os_names (dm_os d) p \<noteq> None)"

text \<open>
  The directory operations run a shell command through \<open>system\<close>; the shell \<open>sh\<close> is a parameter that maps a command line and the
  state of the system to the status \<open>system\<close> returns (negative only when the shell could not be started) and the new state.
\<close>

definition create_dir :: "(string \<Rightarrow> os \<Rightarrow> int \<times> os) \<Rightarrow> path \<Rightarrow> (rb_error, DiskManager, unit) op" where
  "create_dir sh p d =
     (let (rc, s1) = sh (''mkdir '' @ p) (dm_os d)
      in if rc < 0 then (Inl UnixError, d\<lparr>dm_os := s1\<rparr>) else (Inr (), d\<lparr>dm_os := s1\<rparr>))"

definition destroy_dir :: "(string \<Rightarrow> os \<Rightarrow> int \<times> os) \<Rightarrow> path \<Rightarrow> (rb_error, DiskManager, unit) op" where
  "destroy_dir sh p d =
     (let (rc, s1) = sh (''rm -r '' @ p) (dm_os d)
      in if rc < 0 then (Inl UnixError, d\<lparr>dm_os := s1\<rparr>) else (Inr (), d\<lparr>dm_os := s1\<rparr>))"

definition create_file :: "path \<Rightarrow> (rb_error, DiskManager, unit) op" where
  "create_file p d =
     (if \<not> is_file p d then
        (let (fd, s1) = sys_creat p (dm_os d)
         in if fd < 0 then (Inl UnixError, d\<lparr>dm_os := s1\<rparr>)
            else (Inr (), d\<lparr>dm_os := sys_close fd s1\<rparr>))
      else (Inl (FileExistsError p), d))"

definition destroy_file :: "path \<Rightarrow> (rb_error, DiskManager, unit) op" where
  "destroy_file p d =
     (if is_file p d then
        (let (rc, s1) = sys_unlink p (dm_os d)
         in if rc < 0 then (Inl UnixError, d\<lparr>dm_os := s1\<rparr>) else (Inr (), d\<lparr>dm_os := s1\<rparr>))
      else (Inl (FileNotFoundError p), d))"

definition open_file :: "path \<Rightarrow> (rb_error, DiskManager, int) op" where
  "open_file p d =
     (if is_file p d \<and> path2fd d p = None then
        (let (fd, s1) = sys_open p (dm_os d)
         in if fd < 0 then (Inl UnixError, d\<lparr>dm_os := s1\<rparr>)
            else (Inr fd, d\<lparr>dm_os := s1, path2fd := (path2fd d)(p \<mapsto> fd), fd2path := (fd2path d)(fd \<mapsto> p)\<rparr>))
      else (Inl (FileNotFoundError p), d))"

definition close_file :: "int \<Rightarrow> DiskManager \<Rightarrow> DiskManager" where
  "close_file fd d =
     (case fd2path d fd of
        Some p \<Rightarrow>
          if fd \<ge> 0 then d\<lparr>dm_os := sys_close fd (dm_os d), path2fd := (path2fd d)(p := None),
              fd2path := (fd2path d)(fd := None)\<rparr>
          else d
      | None \<Rightarrow> d)"

definition GetFileSize :: "path \<Rightarrow> DiskManager \<Rightarrow> int" where
  "GetFileSize p d = to_i32 (sys_stat_size p (dm_os d))"

definition GetFileName :: "int \<Rightarrow> DiskManager \<Rightarrow> rb_error + path" where
  "GetFileName fd d = (case fd2path d fd of None \<Rightarrow> Inl (FileNotOpenError fd) | Some p \<Rightarrow> Inr p)"

definition GetFileFd :: "path \<Rightarrow> (rb_error, DiskManager, int) op" where
  "GetFileFd p d = (case path2fd d p of None \<Rightarrow> open_file p d | Some fd \<Rightarrow> (Inr fd, d))"

definition SetLogFd :: "int \<Rightarrow> DiskManager \<Rightarrow> DiskManager" where
  "SetLogFd fd d = d\<lparr>log_fd := fd\<rparr>"

definition GetLogFd :: "DiskManager \<Rightarrow> int" where
  "GetLogFd d = log_fd d"

text \<open>\<open>ReadLog\<close> and \<open>WriteLog\<close> open the log file at their first use.\<close>

definition open_log :: "(rb_error, DiskManager, unit) op" where
  "open_log d =
     (if log_fd d = -1 then
        (case open_file LOG_FILE_NAME d of
           (Inl e, d1) \<Rightarrow> (Inl e, d1)
         | (Inr fd, d1) \<Rightarrow> (Inr (), d1\<lparr>log_fd := fd\<rparr>))
      else (Inr (), d))"

definition ReadLog :: "mem \<Rightarrow> int \<Rightarrow> int \<Rightarrow> int \<Rightarrow> DiskManager \<Rightarrow> (rb_error + bool) \<times> mem \<times> DiskManager" where
  "ReadLog log_data req offset prev_log_end d =
     (case open_log d of
        (Inl e, d1) \<Rightarrow> (Inl e, log_data, d1)
      | (Inr _, d1) \<Rightarrow>
          let off = to_i32 (offset + prev_log_end); file_size = GetFileSize LOG_FILE_NAME d1
          in if off \<ge> file_size then (Inr False, log_data, d1)
             else let sz = min req (file_size - off);
                      s1 = sys_lseek (log_fd d1) off (dm_os d1);
                      (got, buf, s2) = sys_read (log_fd d1) log_data (nat sz) s1
                  in if got \<noteq> sz then (Inl UnixError, buf, d1\<lparr>dm_os := s2\<rparr>)
                     else (Inr True, buf, d1\<lparr>dm_os := s2\<rparr>))"

definition WriteLog :: "mem \<Rightarrow> nat \<Rightarrow> (rb_error, DiskManager, unit) op" where
  "WriteLog log_data n d =
     (case open_log d of
        (Inl e, d1) \<Rightarrow> (Inl e, d1)
      | (Inr _, d1) \<Rightarrow>
          let s1 = sys_lseek_end (log_fd d1) (dm_os d1);
              (written, s2) = sys_write (log_fd d1) log_data n s1
          in if written \<noteq> int n then (Inl UnixError, d1\<lparr>dm_os := s2\<rparr>)
             else (Inr (), d1\<lparr>dm_os := s2\<rparr>))"

section \<open>Pages on disk\<close>

text \<open>
  \<open>addressable\<close>: the page numbers whose byte offset fits an \<open>int\<close> (a file below 2 GiB). \<open>disk_page\<close> is
  what a descriptor's file holds in the bytes of a page, zeros beyond the end of the file.
\<close>

definition addressable :: "int \<Rightarrow> bool" where
  "addressable page_no \<longleftrightarrow> 0 \<le> page_no \<and> page_no < 524288"

definition fd_ino :: "DiskManager \<Rightarrow> int \<rightharpoonup> nat" where
  "fd_ino d fd = map_option fst (os_fds (dm_os d) fd)"

definition file_byte :: "DiskManager \<Rightarrow> nat \<Rightarrow> mem" where
  "file_byte d ino i = (if i < os_size (dm_os d) ino then os_bytes (dm_os d) ino i else 0)"

definition disk_page :: "DiskManager \<Rightarrow> int \<Rightarrow> int \<Rightarrow> mem" where
  "disk_page d fd page_no = (\<lambda>i. case fd_ino d fd of
       None \<Rightarrow> 0
     | Some ino \<Rightarrow> if i < PAGE_SIZE then file_byte d ino (nat page_no * PAGE_SIZE + i) else 0)"

definition on_disk :: "DiskManager \<Rightarrow> int \<Rightarrow> int \<Rightarrow> bool" where
  "on_disk d fd page_no = (case fd_ino d fd of
       None \<Rightarrow> False
     | Some ino \<Rightarrow> (nat page_no + 1) * PAGE_SIZE \<le> os_size (dm_os d) ino)"

text \<open>The descriptors \<open>DiskManager\<close> handed out and the names it keeps for them.\<close>

definition open_files_ok :: "DiskManager \<Rightarrow> bool" where
  "open_files_ok d \<longleftrightarrow>
     (\<forall>p fd. path2fd d p = Some fd \<longleftrightarrow> fd2path d fd = Some p) \<and>
     (\<forall>fd. (fd2path d fd \<noteq> None) = (os_fds (dm_os d) fd \<noteq> None)) \<and>
     (\<forall>fd p. fd2path d fd = Some p \<longrightarrow> 0 \<le> fd) \<and>
     (\<forall>fd p ino. fd2path d fd = Some p \<and> fd_ino d fd = Some ino \<longrightarrow>
        ino < os_next_ino (dm_os d) \<and> (\<forall>q. os_names (dm_os d) q = Some ino \<longrightarrow> q = p)) \<and>
     (\<forall>fd fd' ino. fd_ino d fd = Some ino \<and> fd_ino d fd' = Some ino \<longrightarrow> fd = fd') \<and>
     (\<forall>p ino. os_names (dm_os d) p = Some ino \<longrightarrow> ino < os_next_ino (dm_os d)) \<and>
     (\<forall>p q ino. os_names (dm_os d) p = Some ino \<and> os_names (dm_os d) q = Some ino \<longrightarrow> p = q)"


section \<open>Reading and writing a page\<close>

lemma page_offset_addressable [simp]: "addressable p \<Longrightarrow> page_offset p = p * 4096"
  by (simp add: page_offset_def addressable_def PAGE_SIZE_def is_i32_def)

text \<open>The product wraps around to a multiple of the page size, so a page that lies in the range of \<open>int\<close> is hit or the seek fails.\<close>

lemma page_offset_range:
  "page_offset p < 0 \<or> 0 \<le> page_offset p \<and> page_offset p + 4096 \<le> 2 ^ 31"
proof -
  have "page_offset p = (p * 4096 + 2 ^ 31) mod 2 ^ 32 - 2 ^ 31"
    by (simp add: page_offset_def to_i32_def signed_take_bit_eq_take_bit_shift take_bit_eq_mod PAGE_SIZE_def)
  moreover have "4096 dvd (p * 4096 + 2 ^ 31) mod (2 ^ 32 :: int)"
    by (rule dvd_mod) simp_all
  ultimately have "4096 dvd page_offset p" by simp
  then obtain k where k: "page_offset p = 4096 * k" by (elim dvdE)
  have "page_offset p < 2 ^ 31"
    using is_i32_to_i32 [of "p * int PAGE_SIZE"] by (simp add: is_i32_def page_offset_def)
  then have "k < 524288" by (simp add: k)
  then have "page_offset p + 4096 \<le> 2 ^ 31" by (simp add: k)
  then show ?thesis by linarith
qed

text \<open>Everything but the bytes of one inode and the file offset of one descriptor is kept.\<close>

definition same_tables :: "DiskManager \<Rightarrow> DiskManager \<Rightarrow> bool" where
  "same_tables d d' \<longleftrightarrow> path2fd d' = path2fd d \<and> fd2path d' = fd2path d \<and> fd2pageno d' = fd2pageno d \<and>
     log_fd d' = log_fd d \<and> fd_ino d' = fd_ino d \<and> os_names (dm_os d') = os_names (dm_os d) \<and>
     os_next_ino (dm_os d') = os_next_ino (dm_os d) \<and> os_max_fd (dm_os d') = os_max_fd (dm_os d) \<and>
     os_dirs (dm_os d') = os_dirs (dm_os d)"

lemma same_tables_refl [simp]: "same_tables d d"
  by (simp add: same_tables_def)

lemma same_tables_trans [trans]: "same_tables d d' \<Longrightarrow> same_tables d' d'' \<Longrightarrow> same_tables d d''"
  by (simp add: same_tables_def)

lemma fd_ino_Some: "fd_ino d fd = Some ino \<longleftrightarrow> (\<exists>pos. os_fds (dm_os d) fd = Some (ino, pos))"
  by (auto simp: fd_ino_def)

lemma fd_ino_None: "fd_ino d fd = None \<longleftrightarrow> os_fds (dm_os d) fd = None"
  by (auto simp: fd_ino_def)

lemma open_files_ok_same_tables: "same_tables d d' \<Longrightarrow> open_files_ok d' \<longleftrightarrow> open_files_ok d"
  by (simp add: same_tables_def open_files_ok_def fd_ino_None [symmetric])

lemma write_page_run:
  assumes ino: "fd_ino d fd = Some ino" and p: "addressable p"
  obtains d' where "write_page fd p buf n d = (Inr (), d')" and "same_tables d d'"
    and "\<And>j i. file_byte d' j i = (if j = ino \<and> nat p * 4096 \<le> i \<and> i < nat p * 4096 + n
             then buf (i - nat p * 4096) else file_byte d j i)"
    and "\<And>j. os_size (dm_os d') j = (if j = ino \<and> n \<noteq> 0 then max (os_size (dm_os d) ino) (nat p * 4096 + n)
             else os_size (dm_os d) j)"
proof -
  obtain pos where fds: "os_fds (dm_os d) fd = Some (ino, pos)" using ino by (auto simp: fd_ino_Some)
  let ?s1 = "sys_lseek fd (page_offset p) (dm_os d)"
  let ?d' = "d\<lparr>dm_os := snd (sys_write fd buf n ?s1)\<rparr>"
  have off: "nat (p * 4096) = nat p * 4096" "0 \<le> p"
    using p by (simp_all add: addressable_def nat_mult_distrib)
  have run: "write_page fd p buf n d = (Inr (), ?d')"
    using fds p off by (simp add: write_page_def sys_lseek_def sys_write_def Let_def)
  have tab: "same_tables d ?d'"
    using fds p off by (auto simp: same_tables_def sys_lseek_def sys_write_def fd_ino_def fun_eq_iff)
  have bytes: "file_byte ?d' j i = (if j = ino \<and> nat p * 4096 \<le> i \<and> i < nat p * 4096 + n
      then buf (i - nat p * 4096) else file_byte d j i)" for j i
    using fds p off by (auto simp: file_byte_def sys_lseek_def sys_write_def)
  have sz: "os_size (dm_os ?d') j = (if j = ino \<and> n \<noteq> 0 then max (os_size (dm_os d) ino) (nat p * 4096 + n)
      else os_size (dm_os d) j)" for j
    using fds p off by (auto simp: sys_lseek_def sys_write_def)
  show ?thesis using that [OF run tab] bytes sz by blast
qed

lemma write_page_closed:
  "fd_ino d fd = None \<Longrightarrow> write_page fd p buf n d = (Inl UnixError, d)"
  by (simp add: write_page_def sys_lseek_def sys_write_def fd_ino_None)

lemma page_bytes_disjoint:
  assumes "p \<noteq> q" and "0 \<le> p" and "0 \<le> q" and "i < 4096" and "j < 4096"
  shows "nat p * 4096 + i \<noteq> nat q * 4096 + j"
proof
  assume "nat p * 4096 + i = nat q * 4096 + j"
  then have "(nat p * 4096 + i) div 4096 = (nat q * 4096 + j) div 4096" by simp
  with assms show False by simp
qed

text \<open>Writing a page changes that page of that file and no other.\<close>

lemma write_page_disk:
  assumes ok: "open_files_ok d" and ino: "fd_ino d fd = Some ino" and p: "addressable p"
  obtains d' where "write_page fd p buf PAGE_SIZE d = (Inr (), d')" and "same_tables d d'"
    and "disk_page d' fd p = (\<lambda>i. if i < PAGE_SIZE then buf i else 0)" and "on_disk d' fd p"
    and "\<And>fd' q. 0 \<le> q \<Longrightarrow> (fd', q) \<noteq> (fd, p) \<Longrightarrow> disk_page d' fd' q = disk_page d fd' q"
    and "\<And>fd' q. on_disk d fd' q \<Longrightarrow> on_disk d' fd' q"
proof -
  obtain d' where run: "write_page fd p buf PAGE_SIZE d = (Inr (), d')" and tab: "same_tables d d'"
    and bytes: "\<And>j i. file_byte d' j i = (if j = ino \<and> nat p * 4096 \<le> i \<and> i < nat p * 4096 + PAGE_SIZE
             then buf (i - nat p * 4096) else file_byte d j i)"
    and sz: "\<And>j. os_size (dm_os d') j = (if j = ino \<and> PAGE_SIZE \<noteq> 0
             then max (os_size (dm_os d) ino) (nat p * 4096 + PAGE_SIZE) else os_size (dm_os d) j)"
    using write_page_run [OF ino p, of buf PAGE_SIZE] by blast
  have same: "fd_ino d' = fd_ino d" using tab by (simp add: same_tables_def)
  have uniq: "\<And>fd'. fd_ino d fd' = Some ino \<Longrightarrow> fd' = fd"
    using ok ino unfolding open_files_ok_def by metis
  have p0: "0 \<le> p" using p by (simp add: addressable_def)
  show ?thesis
  proof (rule that [OF run tab])
    show "disk_page d' fd p = (\<lambda>i. if i < PAGE_SIZE then buf i else 0)"
      using same ino by (auto simp: disk_page_def bytes PAGE_SIZE_def)
    show "on_disk d' fd p" using same ino by (simp add: on_disk_def sz PAGE_SIZE_def)
  next
    fix fd' q assume q: "(0::int) \<le> q" and ne: "(fd', q) \<noteq> (fd, p)"
    show "disk_page d' fd' q = disk_page d fd' q"
    proof (cases "fd_ino d fd'")
      case None
      then show ?thesis by (simp add: disk_page_def same)
    next
      case (Some j)
      have "file_byte d' j (nat q * 4096 + i) = file_byte d j (nat q * 4096 + i)" if "i < 4096" for i
      proof (cases "j = ino")
        case True
        then have "fd' = fd" using uniq Some by simp
        with ne have pq: "p \<noteq> q" by simp
        have "\<not> (nat p * 4096 \<le> nat q * 4096 + i \<and> nat q * 4096 + i < nat p * 4096 + PAGE_SIZE)"
        proof
          assume a: "nat p * 4096 \<le> nat q * 4096 + i \<and> nat q * 4096 + i < nat p * 4096 + PAGE_SIZE"
          then have "nat q * 4096 + i = nat p * 4096 + (nat q * 4096 + i - nat p * 4096)"
            and "nat q * 4096 + i - nat p * 4096 < 4096" by (auto simp: PAGE_SIZE_def less_diff_conv2)
          then show False using page_bytes_disjoint [OF pq p0 q _ that] by metis
        qed
        then show ?thesis by (auto simp: bytes)
      next
        case False
        then show ?thesis by (simp add: bytes)
      qed
      then show ?thesis using Some by (simp add: disk_page_def same PAGE_SIZE_def fun_eq_iff)
    qed
  next
    fix fd' q assume "on_disk d fd' q"
    then show "on_disk d' fd' q"
      by (auto simp: on_disk_def same sz split: option.splits)
  qed
qed

definition move_offset :: "int \<Rightarrow> nat \<Rightarrow> nat \<Rightarrow> DiskManager \<Rightarrow> DiskManager" where
  "move_offset fd ino pos d = d\<lparr>dm_os := (dm_os d)\<lparr>os_fds := (os_fds (dm_os d))(fd \<mapsto> (ino, pos))\<rparr>\<rparr>"

lemma move_offset_keeps:
  assumes "fd_ino d fd = Some ino"
  shows "same_tables d (move_offset fd ino pos d)"
    and "disk_page (move_offset fd ino pos d) = disk_page d"
    and "on_disk (move_offset fd ino pos d) = on_disk d"
proof -
  have ino: "fd_ino (move_offset fd ino pos d) = fd_ino d"
    using assms by (auto simp: fd_ino_def fun_eq_iff move_offset_def)
  then show "same_tables d (move_offset fd ino pos d)"
    by (simp add: same_tables_def, simp add: move_offset_def)
  have bytes: "file_byte (move_offset fd ino pos d) = file_byte d"
    by (intro ext) (simp add: file_byte_def move_offset_def)
  show "disk_page (move_offset fd ino pos d) = disk_page d"
    unfolding disk_page_def ino bytes ..
  have size: "os_size (dm_os (move_offset fd ino pos d)) = os_size (dm_os d)"
    by (simp add: move_offset_def)
  show "on_disk (move_offset fd ino pos d) = on_disk d"
    unfolding on_disk_def ino size ..
qed

lemma read_page_disk:
  assumes ino: "fd_ino d fd = Some ino" and p: "addressable p" and on: "on_disk d fd p"
  obtains d' where "read_page fd p buf PAGE_SIZE d = (Inr (), mcopy buf 0 (disk_page d fd p) 0 PAGE_SIZE, d')"
    and "same_tables d d'" and "disk_page d' = disk_page d" and "on_disk d' = on_disk d"
proof -
  obtain pos where fds: "os_fds (dm_os d) fd = Some (ino, pos)" using ino by (auto simp: fd_ino_Some)
  have off: "nat (p * 4096) = nat p * 4096" "0 \<le> p"
    using p by (simp_all add: addressable_def nat_mult_distrib)
  have sz: "nat p * 4096 + 4096 \<le> os_size (dm_os d) ino"
    using on ino by (simp add: on_disk_def PAGE_SIZE_def algebra_simps)
  have "mcopy buf 0 (os_bytes (dm_os d) ino) (nat p * 4096) PAGE_SIZE
      = mcopy buf 0 (disk_page d fd p) 0 PAGE_SIZE"
    using sz ino by (auto simp: mcopy_def disk_page_def file_byte_def PAGE_SIZE_def fun_eq_iff)
  then have "read_page fd p buf PAGE_SIZE d = (Inr (), mcopy buf 0 (disk_page d fd p) 0 PAGE_SIZE,
      move_offset fd ino (nat p * 4096 + PAGE_SIZE) d)"
    using fds p off sz
    by (simp add: read_page_def sys_lseek_def sys_read_def Let_def move_offset_def PAGE_SIZE_def)
  then show ?thesis using that move_offset_keeps [OF ino] by blast
qed

lemma read_page_short:
  assumes p: "addressable p" and on: "\<not> on_disk d fd p"
  obtains buf' d' where "read_page fd p buf PAGE_SIZE d = (Inl UnixError, buf', d')"
    and "same_tables d d'" and "disk_page d' = disk_page d" and "on_disk d' = on_disk d"
    and "buf = zero_mem \<Longrightarrow> buf' = disk_page d fd p"
proof (cases "fd_ino d fd")
  case None
  then have "read_page fd p buf PAGE_SIZE d = (Inl UnixError, buf, d)"
    by (simp add: read_page_def sys_lseek_def sys_read_def fd_ino_None)
  moreover have "zero_mem = disk_page d fd p" using None by (simp add: disk_page_def)
  ultimately show ?thesis using that by force
next
  case (Some ino)
  then obtain pos where fds: "os_fds (dm_os d) fd = Some (ino, pos)" by (auto simp: fd_ino_Some)
  have off: "nat (p * 4096) = nat p * 4096" "0 \<le> p"
    using p by (simp_all add: addressable_def nat_mult_distrib)
  have sz: "os_size (dm_os d) ino < nat p * 4096 + 4096"
    using on Some by (simp add: on_disk_def PAGE_SIZE_def algebra_simps)
  let ?k = "os_size (dm_os d) ino - nat p * 4096"
  have "min 4096 ?k = ?k" and "?k \<noteq> 4096" using sz by simp_all
  then have "read_page fd p buf PAGE_SIZE d
      = (Inl UnixError, mcopy buf 0 (os_bytes (dm_os d) ino) (nat p * 4096) ?k, move_offset fd ino (nat p * 4096 + ?k) d)"
    using fds p off
    by (simp add: read_page_def sys_lseek_def sys_read_def Let_def move_offset_def PAGE_SIZE_def)
  moreover have "mcopy zero_mem 0 (os_bytes (dm_os d) ino) (nat p * 4096) ?k = disk_page d fd p"
    using Some sz by (auto simp: mcopy_def disk_page_def file_byte_def PAGE_SIZE_def fun_eq_iff)
  ultimately show ?thesis using that move_offset_keeps [OF Some] by blast
qed

section \<open>The table of open files\<close>

lemma open_files_okD:
  assumes "open_files_ok d"
  shows "path2fd d p = Some fd \<longleftrightarrow> fd2path d fd = Some p"
    and "fd2path d fd = None \<longleftrightarrow> os_fds (dm_os d) fd = None"
    and "fd2path d fd = Some p \<Longrightarrow> 0 \<le> fd"
    and "fd2path d fd = Some p \<Longrightarrow> fd_ino d fd = Some ino \<Longrightarrow> ino < os_next_ino (dm_os d)"
    and "fd2path d fd = Some p \<Longrightarrow> fd_ino d fd = Some ino \<Longrightarrow> os_names (dm_os d) q = Some ino \<Longrightarrow> q = p"
    and "fd_ino d fd = Some ino \<Longrightarrow> fd_ino d fd' = Some ino \<Longrightarrow> fd = fd'"
    and "os_names (dm_os d) p = Some ino \<Longrightarrow> ino < os_next_ino (dm_os d)"
    and "os_names (dm_os d) p = Some ino \<Longrightarrow> os_names (dm_os d) q = Some ino \<Longrightarrow> p = q"
proof -
  note a = assms [unfolded open_files_ok_def]
  show "path2fd d p = Some fd \<longleftrightarrow> fd2path d fd = Some p" using a by blast
  show "fd2path d fd = None \<longleftrightarrow> os_fds (dm_os d) fd = None" using a by blast
  show "fd2path d fd = Some p \<Longrightarrow> 0 \<le> fd" using a by blast
  show "fd2path d fd = Some p \<Longrightarrow> fd_ino d fd = Some ino \<Longrightarrow> ino < os_next_ino (dm_os d)" using a by blast
  show "fd2path d fd = Some p \<Longrightarrow> fd_ino d fd = Some ino \<Longrightarrow> os_names (dm_os d) q = Some ino \<Longrightarrow> q = p"
    using a by blast
  show "fd_ino d fd = Some ino \<Longrightarrow> fd_ino d fd' = Some ino \<Longrightarrow> fd = fd'" using a by blast
  show "os_names (dm_os d) p = Some ino \<Longrightarrow> ino < os_next_ino (dm_os d)" using a by blast
  show "os_names (dm_os d) p = Some ino \<Longrightarrow> os_names (dm_os d) q = Some ino \<Longrightarrow> p = q" using a by blast
qed

lemma free_fd_Some: "free_fd s = Some fd \<Longrightarrow> 0 \<le> fd \<and> os_fds s fd = None"
  by (auto simp: free_fd_def find_Some_iff)

lemma open_file_cases:
  obtains (fail) e where "open_file p d = (Inl e, d)" "e = UnixError \<or> e = FileNotFoundError p"
  | (ok) fd ino where "open_file p d = (Inr fd, d\<lparr>dm_os := (dm_os d)\<lparr>os_fds := (os_fds (dm_os d))(fd \<mapsto> (ino, 0))\<rparr>,
        path2fd := (path2fd d)(p \<mapsto> fd), fd2path := (fd2path d)(fd \<mapsto> p)\<rparr>)"
      "os_names (dm_os d) p = Some ino" "path2fd d p = None" "0 \<le> fd" "os_fds (dm_os d) fd = None"
proof (cases "is_file p d \<and> path2fd d p = None")
  case True
  then obtain ino where ino: "os_names (dm_os d) p = Some ino" by (auto simp: is_file_def)
  show ?thesis
  proof (cases "free_fd (dm_os d)")
    case None
    then show ?thesis using True ino that(1) by (simp add: open_file_def sys_open_def)
  next
    case (Some fd)
    then show ?thesis using True ino that(2) [of fd ino] free_fd_Some [OF Some]
      by (simp add: open_file_def sys_open_def)
  qed
next
  case False
  then have "open_file p d = (Inl (FileNotFoundError p), d)" by (auto simp: open_file_def)
  then show ?thesis using that(1) by blast
qed

lemma open_files_ok_open:
  assumes ok: "open_files_ok d" and run: "open_file p d = (r, d')"
  shows "open_files_ok d'"
proof (cases rule: open_file_cases [of p d])
  case (fail e)
  then show ?thesis using ok run by simp
next
  case (ok fd ino)
  note D = open_files_okD [OF \<open>open_files_ok d\<close>]
  have new: "fd2path d fd = None" using ok D(2) by simp
  have d': "d' = d\<lparr>dm_os := (dm_os d)\<lparr>os_fds := (os_fds (dm_os d))(fd \<mapsto> (ino, 0))\<rparr>,
        path2fd := (path2fd d)(p \<mapsto> fd), fd2path := (fd2path d)(fd \<mapsto> p)\<rparr>"
    using ok run by simp
  have ino': "fd_ino d' = (fd_ino d)(fd \<mapsto> ino)"
    by (auto simp: d' fd_ino_def fun_eq_iff)
  have fresh: "\<And>fd'. fd_ino d fd' \<noteq> Some ino"
  proof
    fix fd' assume f: "fd_ino d fd' = Some ino"
    then have "os_fds (dm_os d) fd' \<noteq> None" by (auto simp: fd_ino_Some)
    then obtain p' where p': "fd2path d fd' = Some p'" using D(2) [of fd'] by (cases "fd2path d fd'") simp_all
    then have "p = p'" using D(5) [OF p' f ok(2)] by simp
    then show False using ok(3) p' D(1) [of p fd'] by simp
  qed
  have nofd: "\<And>q. path2fd d q \<noteq> Some fd" using D(1) new by simp
  have nop: "\<And>g. fd2path d g \<noteq> Some p" using D(1) ok(3) by (metis option.simps(3))
  show ?thesis unfolding open_files_ok_def ino'
  proof (intro conjI allI impI)
    show "path2fd d' q = Some g \<longleftrightarrow> fd2path d' g = Some q" for q g
      using D(1) nofd nop by (auto simp: d')
    show "(fd2path d' g \<noteq> None) = (os_fds (dm_os d') g \<noteq> None)" for g
      using D(2) [of g] by (auto simp: d')
    show "0 \<le> g" if "fd2path d' g = Some q" for g q
      using that D(3) ok(4) by (auto simp: d' split: if_splits)
    show "i < os_next_ino (dm_os d')"
      if "fd2path d' g = Some q \<and> ((fd_ino d)(fd \<mapsto> ino)) g = Some i" for g q i
      using that D(4,7) ok(2) by (auto simp: d' split: if_splits)
    show "q' = q"
      if "fd2path d' g = Some q \<and> ((fd_ino d)(fd \<mapsto> ino)) g = Some i" "os_names (dm_os d') q' = Some i" for g q i q'
      using that D(5,8) ok(2) by (auto simp: d' split: if_splits)
    show "g = g'" if "((fd_ino d)(fd \<mapsto> ino)) g = Some i \<and> ((fd_ino d)(fd \<mapsto> ino)) g' = Some i" for g g' i
      using that D(6) fresh by (auto split: if_splits)
    show "i < os_next_ino (dm_os d')" if "os_names (dm_os d') q = Some i" for q i
      using that D(7) by (simp add: d')
    show "q = q'" if "os_names (dm_os d') q = Some i \<and> os_names (dm_os d') q' = Some i" for q q' i
      using that D(8) by (simp add: d')
  qed
qed

lemma open_files_ok_close:
  assumes ok: "open_files_ok d"
  shows "open_files_ok (close_file fd d)"
proof (cases "fd2path d fd")
  case None
  then show ?thesis using ok by (simp add: close_file_def)
next
  case (Some p)
  note D = open_files_okD [OF ok]
  define d' where "d' = close_file fd d"
  have d': "d' = d\<lparr>dm_os := (dm_os d)\<lparr>os_fds := (os_fds (dm_os d))(fd := None)\<rparr>,
        path2fd := (path2fd d)(p := None), fd2path := (fd2path d)(fd := None)\<rparr>"
    using Some D(3) by (simp add: d'_def close_file_def sys_close_def)
  have ino': "fd_ino d' = (fd_ino d)(fd := None)"
    by (auto simp: d' fd_ino_def fun_eq_iff)
  have "open_files_ok d'" unfolding open_files_ok_def ino'
  proof (intro conjI allI impI)
    show "path2fd d' q = Some g \<longleftrightarrow> fd2path d' g = Some q" for q g
    proof -
      have "path2fd d q = Some fd \<longleftrightarrow> q = p" "fd2path d g = Some p \<longleftrightarrow> g = fd"
        using D(1) Some by (metis option.inject)+
      then show ?thesis using D(1) [of q g] by (auto simp: d')
    qed
    show "(fd2path d' g \<noteq> None) = (os_fds (dm_os d') g \<noteq> None)" for g
      using D(2) [of g] by (auto simp: d')
    show "0 \<le> g" if "fd2path d' g = Some q" for g q
      using that D(3) by (auto simp: d' split: if_splits)
    show "i < os_next_ino (dm_os d')"
      if "fd2path d' g = Some q \<and> ((fd_ino d)(fd := None)) g = Some i" for g q i
      using that D(4) by (auto simp: d' split: if_splits)
    show "q' = q"
      if "fd2path d' g = Some q \<and> ((fd_ino d)(fd := None)) g = Some i" "os_names (dm_os d') q' = Some i" for g q i q'
      using that D(5) by (auto simp: d' split: if_splits)
    show "g = g'" if "((fd_ino d)(fd := None)) g = Some i \<and> ((fd_ino d)(fd := None)) g' = Some i" for g g' i
      using that D(6) by (auto split: if_splits)
    show "i < os_next_ino (dm_os d')" if "os_names (dm_os d') q = Some i" for q i
      using that D(7) by (simp add: d')
    show "q = q'" if "os_names (dm_os d') q = Some i \<and> os_names (dm_os d') q' = Some i" for q q' i
      using that D(8) by (simp add: d')
  qed
  then show ?thesis by (simp add: d'_def)
qed

lemma open_files_ok_destroy:
  assumes ok: "open_files_ok d" and run: "destroy_file p d = (r, d')"
  shows "open_files_ok d'"
proof -
  have "d' = d \<or> d' = d\<lparr>dm_os := (dm_os d)\<lparr>os_names := (os_names (dm_os d))(p := None)\<rparr>\<rparr>"
    using run by (auto simp: destroy_file_def is_file_def sys_unlink_def split: if_splits option.splits)
  then show ?thesis
  proof
    assume d': "d' = d\<lparr>dm_os := (dm_os d)\<lparr>os_names := (os_names (dm_os d))(p := None)\<rparr>\<rparr>"
    have "fd_ino d' = fd_ino d" by (auto simp: d' fd_ino_def)
    then show ?thesis
      using ok unfolding open_files_ok_def by (auto simp: d' split: if_splits)
  qed (use ok in simp)
qed

lemma create_file_cases:
  obtains (fail) e where "create_file p d = (Inl e, d)" "e = UnixError \<or> e = FileExistsError p"
  | (ok) fd where "create_file p d = (Inr (), d\<lparr>dm_os := (dm_os d)\<lparr>
        os_names := (os_names (dm_os d))(p \<mapsto> os_next_ino (dm_os d)),
        os_size := (os_size (dm_os d))(os_next_ino (dm_os d) := 0),
        os_bytes := (os_bytes (dm_os d))(os_next_ino (dm_os d) := zero_mem),
        os_next_ino := Suc (os_next_ino (dm_os d)),
        os_fds := (os_fds (dm_os d))(fd := None)\<rparr>\<rparr>)"
      "os_names (dm_os d) p = None" "os_fds (dm_os d) fd = None"
proof (cases "is_file p d")
  case True
  then show ?thesis using that(1) by (simp add: create_file_def)
next
  case False
  then have new: "os_names (dm_os d) p = None" by (simp add: is_file_def)
  show ?thesis
  proof (cases "p \<in> os_dirs (dm_os d) \<or> free_fd (dm_os d) = None")
    case True
    then show ?thesis using False new that(1) by (simp add: create_file_def sys_creat_def)
  next
    case nd: False
    then obtain fd where fd: "free_fd (dm_os d) = Some fd" by auto
    then have same: "free_fd ((dm_os d)\<lparr>os_names := x, os_size := y, os_bytes := z, os_next_ino := w\<rparr>) = Some fd"
      for x y z w by (simp add: free_fd_def)
    show ?thesis
      using False new nd fd same that(2) [of fd] free_fd_Some [OF fd]
      by (simp add: create_file_def sys_creat_def sys_open_def sys_close_def)
  qed
qed

lemma open_files_ok_create:
  assumes ok: "open_files_ok d" and run: "create_file p d = (r, d')"
  shows "open_files_ok d'"
proof (cases rule: create_file_cases [of p d])
  case (fail e)
  then show ?thesis using ok run by simp
next
  case (ok fd)
  note D = open_files_okD [OF \<open>open_files_ok d\<close>]
  have d': "d' = d\<lparr>dm_os := dm_os d'\<rparr>" and names: "os_names (dm_os d') = (os_names (dm_os d))(p \<mapsto> os_next_ino (dm_os d))"
    and fds: "os_fds (dm_os d') = os_fds (dm_os d)" and nx: "os_next_ino (dm_os d') = Suc (os_next_ino (dm_os d))"
    using ok run by auto
  have ino': "fd_ino d' = fd_ino d" by (simp add: fd_ino_def fds fun_eq_iff)
  have tabs: "path2fd d' = path2fd d" "fd2path d' = fd2path d" using d' by (metis DiskManager.select_convs(2,3) DiskManager.surjective DiskManager.update_convs(1))+
  show ?thesis unfolding open_files_ok_def ino' tabs fds nx names
  proof (intro conjI allI impI)
    show "path2fd d q = Some g \<longleftrightarrow> fd2path d g = Some q" for q g by (rule D(1))
    show "(fd2path d g \<noteq> None) = (os_fds (dm_os d) g \<noteq> None)" for g using D(2) [of g] by auto
    show "0 \<le> g" if "fd2path d g = Some q" for g q by (rule D(3) [OF that])
    show "i < Suc (os_next_ino (dm_os d))" if "fd2path d g = Some q \<and> fd_ino d g = Some i" for g q i
      using D(4) [of g q i] that by (simp add: less_Suc_eq)
    show "q' = q" if "fd2path d g = Some q \<and> fd_ino d g = Some i"
      "((os_names (dm_os d))(p \<mapsto> os_next_ino (dm_os d))) q' = Some i" for g q i q'
      using that D(5) D(4) [of g q i] by (auto split: if_splits)
    show "g = g'" if "fd_ino d g = Some i \<and> fd_ino d g' = Some i" for g g' i
      using that D(6) by blast
    show "i < Suc (os_next_ino (dm_os d))" if "((os_names (dm_os d))(p \<mapsto> os_next_ino (dm_os d))) q = Some i" for q i
      using that D(7) by (auto simp: less_Suc_eq split: if_splits)
    show "q = q'" if "((os_names (dm_os d))(p \<mapsto> os_next_ino (dm_os d))) q = Some i \<and>
      ((os_names (dm_os d))(p \<mapsto> os_next_ino (dm_os d))) q' = Some i" for q q' i
      using that D(7) D(8) by (fastforce split: if_splits)
  qed
qed

section \<open>The log file\<close>

text \<open>Once the log is open, \<open>WriteLog\<close> appends and \<open>ReadLog\<close> reads what was appended.\<close>

lemma WriteLog_appends:
  assumes op: "log_fd d \<noteq> -1" and ino: "fd_ino d (log_fd d) = Some ino"
  obtains d' where "WriteLog buf n d = (Inr (), d')" and "same_tables d d'"
    and "\<And>j. os_size (dm_os d') j = (if j = ino then os_size (dm_os d) ino + n else os_size (dm_os d) j)"
    and "\<And>j i. file_byte d' j i = (if j = ino \<and> os_size (dm_os d) ino \<le> i \<and> i < os_size (dm_os d) ino + n
           then buf (i - os_size (dm_os d) ino) else file_byte d j i)"
proof -
  obtain pos where fds: "os_fds (dm_os d) (log_fd d) = Some (ino, pos)"
    using ino by (auto simp: fd_ino_Some)
  let ?d' = "d\<lparr>dm_os := snd (sys_write (log_fd d) buf n (sys_lseek_end (log_fd d) (dm_os d)))\<rparr>"
  have "fst (sys_write (log_fd d) buf n (sys_lseek_end (log_fd d) (dm_os d))) = int n"
    using fds by (simp add: sys_lseek_end_def sys_write_def)
  then have run: "WriteLog buf n d = (Inr (), ?d')"
    using op by (simp add: WriteLog_def open_log_def Let_def split_beta)
  have tab: "same_tables d ?d'"
    using fds by (auto simp: same_tables_def sys_lseek_end_def sys_write_def fd_ino_def fun_eq_iff)
  have size: "os_size (dm_os ?d') j = (if j = ino then os_size (dm_os d) ino + n else os_size (dm_os d) j)" for j
    using fds by (simp add: sys_lseek_end_def sys_write_def)
  have bytes: "file_byte ?d' j i = (if j = ino \<and> os_size (dm_os d) ino \<le> i \<and> i < os_size (dm_os d) ino + n
      then buf (i - os_size (dm_os d) ino) else file_byte d j i)" for j i
    using fds by (auto simp: file_byte_def sys_lseek_end_def sys_write_def)
  show ?thesis using that [OF run tab] size bytes by blast
qed

lemma ReadLog_reads:
  assumes op: "log_fd d \<noteq> -1" and ino: "fd_ino d (log_fd d) = Some ino"
    and name: "os_names (dm_os d) LOG_FILE_NAME = Some ino" and small: "is_i32 (int (os_size (dm_os d) ino))"
    and off: "0 \<le> off" "0 \<le> prev" "off + prev + int n \<le> int (os_size (dm_os d) ino)" "0 < n"
  obtains d' where "ReadLog buf (int n) off prev d =
      (Inr True, mcopy buf 0 (file_byte d ino) (nat (off + prev)) n, d')"
    and "same_tables d d'" and "disk_page d' = disk_page d"
proof -
  obtain pos where fds: "os_fds (dm_os d) (log_fd d) = Some (ino, pos)"
    using ino by (auto simp: fd_ino_Some)
  have o32: "to_i32 (off + prev) = off + prev"
    using small off by (intro to_i32_id) (auto simp: is_i32_def)
  have sz: "GetFileSize LOG_FILE_NAME d = int (os_size (dm_os d) ino)"
    using name small by (simp add: GetFileSize_def sys_stat_size_def)
  have mn: "min n (os_size (dm_os d) ino - nat (off + prev)) = n" "min (int n) (int (os_size (dm_os d) ino) - (off + prev)) = int n"
    using off by auto
  have "mcopy buf 0 (os_bytes (dm_os d) ino) (nat (off + prev)) n = mcopy buf 0 (file_byte d ino) (nat (off + prev)) n"
    using off by (auto simp: mcopy_def file_byte_def fun_eq_iff)
  then have "ReadLog buf (int n) off prev d =
      (Inr True, mcopy buf 0 (file_byte d ino) (nat (off + prev)) n, move_offset (log_fd d) ino (nat (off + prev) + n) d)"
    using op fds off mn o32 sz
    by (simp add: ReadLog_def open_log_def sys_lseek_def sys_read_def Let_def move_offset_def)
  then show ?thesis using that move_offset_keeps [OF ino] by blast
qed

section \<open>Histories of file operations\<close>

datatype file_call = CallCreate path | CallDestroy path | CallOpen path | CallClose int

fun file_step :: "file_call \<Rightarrow> DiskManager \<Rightarrow> DiskManager" where
  "file_step (CallCreate p) d = snd (create_file p d)"
| "file_step (CallDestroy p) d = snd (destroy_file p d)"
| "file_step (CallOpen p) d = snd (open_file p d)"
| "file_step (CallClose fd) d = close_file fd d"

lemma open_files_ok_step: "open_files_ok d \<Longrightarrow> open_files_ok (file_step c d)"
proof (cases c)
  case (CallCreate p)
  assume "open_files_ok d"
  then show ?thesis using open_files_ok_create [of d p] CallCreate by (cases "create_file p d") simp
next
  case (CallDestroy p)
  assume "open_files_ok d"
  then show ?thesis using open_files_ok_destroy [of d p] CallDestroy by (cases "destroy_file p d") simp
next
  case (CallOpen p)
  assume "open_files_ok d"
  then show ?thesis using open_files_ok_open [of d p] CallOpen by (cases "open_file p d") simp
next
  case (CallClose fd)
  assume "open_files_ok d"
  then show ?thesis using open_files_ok_close CallClose by simp
qed

lemma open_files_ok_history: "open_files_ok d \<Longrightarrow> open_files_ok (fold file_step cs d)"
  by (induction cs arbitrary: d) (simp_all add: open_files_ok_step)

definition fresh_os :: "os \<Rightarrow> bool" where
  "fresh_os s \<longleftrightarrow> os_fds s = Map.empty \<and> (\<forall>p ino. os_names s p = Some ino \<longrightarrow> ino < os_next_ino s) \<and>
     (\<forall>p q ino. os_names s p = Some ino \<and> os_names s q = Some ino \<longrightarrow> p = q)"

lemma open_files_ok_new: "fresh_os s \<Longrightarrow> open_files_ok (DiskManager_new s)"
  by (auto simp: open_files_ok_def DiskManager_new_def fresh_os_def fd_ino_def)

text \<open>A file system with one file of two pages, and a disk manager that has opened it.\<close>

definition sample_os :: os where
  "sample_os = \<lparr>os_names = [''t'' \<mapsto> 0], os_dirs = {}, os_size = (\<lambda>i. if i = 0 then 8192 else 0),
     os_bytes = (\<lambda>_ i. of_nat (i div 4096 + 1)), os_fds = Map.empty, os_next_ino = 1, os_max_fd = 3\<rparr>"

definition sample_disk :: DiskManager where
  "sample_disk = snd (open_file ''t'' (DiskManager_new sample_os))"

lemma sample_disk_ok: "open_files_ok sample_disk"
proof -
  have "open_files_ok (file_step (CallOpen ''t'') (DiskManager_new sample_os))"
    by (intro open_files_ok_step open_files_ok_new) (auto simp: fresh_os_def sample_os_def split: if_splits)
  then show ?thesis by (simp add: sample_disk_def)
qed

lemma free_fd_sample: "free_fd sample_os = Some 0"
  by (simp add: free_fd_def sample_os_def upt_rec)

lemma sample_disk_eq: "sample_disk = \<lparr>dm_os = sample_os\<lparr>os_fds := [0 \<mapsto> (0, 0)]\<rparr>, path2fd = [''t'' \<mapsto> 0],
    fd2path = [0 \<mapsto> ''t''], log_fd = -1, fd2pageno = (\<lambda>_. 0)\<rparr>"
  by (simp add: sample_disk_def open_file_def is_file_def DiskManager_new_def sys_open_def free_fd_sample)
    (simp add: sample_os_def)

lemma sample_disk_file: "fd_ino sample_disk 0 = Some 0" "on_disk sample_disk 0 0" "on_disk sample_disk 0 1"
    "disk_page sample_disk 0 1 0 = 2"
  by (simp_all add: fd_ino_def on_disk_def disk_page_def file_byte_def sample_disk_eq sample_os_def PAGE_SIZE_def)

section \<open>Properties\<close>

text \<open>
  C5. A page written with \<open>write_page\<close> is read back byte for byte by \<open>read_page\<close>, into any buffer and whatever the file
  offset was, and every other page of every open file is what it was. The page number must be one whose offset fits an
  \<open>int\<close>.
\<close>

theorem write_page_read_page:
  assumes "open_files_ok d" and "fd_ino d fd \<noteq> None" and "addressable p"
  shows "\<exists>d' d''. write_page fd p buf PAGE_SIZE d = (Inr (), d') \<and>
    read_page fd p old PAGE_SIZE d' = (Inr (), mcopy old 0 buf 0 PAGE_SIZE, d'') \<and>
    (\<forall>fd' q. 0 \<le> q \<and> (fd', q) \<noteq> (fd, p) \<longrightarrow> disk_page d'' fd' q = disk_page d fd' q)"
proof -
  obtain ino where ino: "fd_ino d fd = Some ino" using assms(2) by blast
  obtain d' where w: "write_page fd p buf PAGE_SIZE d = (Inr (), d')" and tab: "same_tables d d'"
    and dp: "disk_page d' fd p = (\<lambda>i. if i < PAGE_SIZE then buf i else 0)" and on: "on_disk d' fd p"
    and oth: "\<And>fd' q. 0 \<le> q \<Longrightarrow> (fd', q) \<noteq> (fd, p) \<Longrightarrow> disk_page d' fd' q = disk_page d fd' q"
    and "\<And>fd' q. on_disk d fd' q \<Longrightarrow> on_disk d' fd' q"
    using write_page_disk [OF assms(1) ino assms(3), of buf] by blast
  have ino': "fd_ino d' fd = Some ino" using tab ino by (simp add: same_tables_def)
  obtain d'' where r: "read_page fd p old PAGE_SIZE d' = (Inr (), mcopy old 0 (disk_page d' fd p) 0 PAGE_SIZE, d'')"
    and same: "disk_page d'' = disk_page d'"
    using read_page_disk [OF ino' assms(3) on, of old] by blast
  have "mcopy old 0 (disk_page d' fd p) 0 PAGE_SIZE = mcopy old 0 buf 0 PAGE_SIZE"
    by (simp add: dp mcopy_def fun_eq_iff)
  then have r': "read_page fd p old PAGE_SIZE d' = (Inr (), mcopy old 0 buf 0 PAGE_SIZE, d'')"
    using r by (simp only:)
  have "\<forall>fd' q. 0 \<le> q \<and> (fd', q) \<noteq> (fd, p) \<longrightarrow> disk_page d'' fd' q = disk_page d fd' q"
    unfolding same using oth by blast
  then show ?thesis using w r' by blast
qed

theorem write_page_read_page_witness:
  "\<exists>d' d''. write_page 0 1 (\<lambda>i. of_nat i) PAGE_SIZE sample_disk = (Inr (), d') \<and>
    read_page 0 1 zero_mem PAGE_SIZE d' = (Inr (), mcopy zero_mem 0 (\<lambda>i. of_nat i) 0 PAGE_SIZE, d'') \<and>
    (\<forall>fd' q. 0 \<le> q \<and> (fd', q) \<noteq> (0, 1) \<longrightarrow> disk_page d'' fd' q = disk_page sample_disk fd' q)"
  by (rule write_page_read_page) (simp_all add: sample_disk_ok sample_disk_file addressable_def)

text \<open>
  C6. After any history of \<open>create_file\<close>, \<open>destroy_file\<close>, \<open>open_file\<close> and \<open>close_file\<close> calls, failed ones
  included, on a system with no open descriptors, \<open>path2fd_\<close> and \<open>fd2path_\<close> are inverse to each other, list exactly the open
  descriptors, and no two descriptors share a file, so that distinct page ids are distinct bytes on disk.
\<close>

theorem open_files_after_history:
  assumes "fresh_os s"
  shows "open_files_ok (fold file_step cs (DiskManager_new s))"
  using open_files_ok_history [OF open_files_ok_new [OF assms]] .

theorem open_files_after_history_witness:
  "open_files_ok (fold file_step [CallOpen ''t'', CallCreate ''u'', CallDestroy ''t'', CallCreate ''t'', CallOpen ''t'', CallClose 0]
     (DiskManager_new sample_os))"
  by (rule open_files_after_history) (auto simp: fresh_os_def sample_os_def split: if_splits)

text \<open>
  C8. The offset of a page is a product of two \<open>int\<close>s, taken here to wrap around at 32 bits (in C++ the signed overflow is
  undefined), and the result of \<open>lseek\<close> is not looked at. For every page number from 524288 (at 2 GiB) on, a write to an open
  file of which less than 2 GiB was accessed last succeeds, and the bytes go below 2 GiB: to the wrapped offset when it is not negative,
  and to where the last access to the file ended otherwise. They are written there over what other pages hold, nothing else
  changes, and the bytes at the page's own place, at or above 2 GiB, stay what they were.
\<close>

theorem write_page_past_2GiB_misplaced:
  assumes p: "524288 \<le> p" "p < 2 ^ 31" and fds: "os_fds (dm_os d) fd = Some (ino, pos)" and pos: "pos + PAGE_SIZE \<le> 2 ^ 31"
  shows "\<exists>d' at. write_page fd p buf PAGE_SIZE d = (Inr (), d') \<and>
    at = (if page_offset p < 0 then pos else nat (page_offset p)) \<and>
    int (at + PAGE_SIZE) \<le> 2 ^ 31 \<and> 2 ^ 31 \<le> p * int PAGE_SIZE \<and>
    (\<forall>ino' i. file_byte d' ino' i = (if ino' = ino \<and> at \<le> i \<and> i < at + PAGE_SIZE then buf (i - at) else file_byte d ino' i)) \<and>
    disk_page d' fd p = disk_page d fd p"
proof -
  let ?at = "if page_offset p < 0 then pos else nat (page_offset p)"
  let ?d' = "d\<lparr>dm_os := snd (sys_write fd buf PAGE_SIZE (sys_lseek fd (page_offset p) (dm_os d)))\<rparr>"
  have run: "write_page fd p buf PAGE_SIZE d = (Inr (), ?d')"
    using fds by (simp add: write_page_def sys_lseek_def sys_write_def Let_def)
  have bytes: "file_byte ?d' ino' i = (if ino' = ino \<and> ?at \<le> i \<and> i < ?at + PAGE_SIZE then buf (i - ?at) else file_byte d ino' i)"
    for ino' i
    using fds by (auto simp: file_byte_def sys_lseek_def sys_write_def PAGE_SIZE_def)
  have low: "int (?at + PAGE_SIZE) \<le> 2 ^ 31"
    using page_offset_range [of p] pos by (auto simp: PAGE_SIZE_def)
  have high: "2 ^ 31 \<le> p * int PAGE_SIZE" using p by (simp add: PAGE_SIZE_def)
  have "2 ^ 31 \<le> nat p * PAGE_SIZE"
    using high p by (simp add: PAGE_SIZE_def)
  then have "file_byte ?d' ino' (nat p * PAGE_SIZE + i) = file_byte d ino' (nat p * PAGE_SIZE + i)" for ino' i
    unfolding bytes using low by (auto simp: PAGE_SIZE_def)
  moreover have "fd_ino ?d' fd = fd_ino d fd"
    using fds by (simp add: fd_ino_def sys_lseek_def sys_write_def)
  ultimately have "disk_page ?d' fd p = disk_page d fd p"
    by (auto simp: disk_page_def fun_eq_iff split: option.splits)
  then show ?thesis using run low high bytes by blast
qed

theorem write_page_past_2GiB_misplaced_witness:
  "\<exists>d' at. write_page 0 1048577 (\<lambda>_. 7) PAGE_SIZE sample_disk = (Inr (), d') \<and>
    at = (if page_offset 1048577 < 0 then 0 else nat (page_offset 1048577)) \<and>
    int (at + PAGE_SIZE) \<le> 2 ^ 31 \<and> 2 ^ 31 \<le> 1048577 * int PAGE_SIZE \<and>
    (\<forall>ino' i. file_byte d' ino' i = (if ino' = 0 \<and> at \<le> i \<and> i < at + PAGE_SIZE then 7 else file_byte sample_disk ino' i)) \<and>
    disk_page d' 0 1048577 = disk_page sample_disk 0 1048577"
  by (rule write_page_past_2GiB_misplaced) (simp_all add: sample_disk_eq PAGE_SIZE_def)

text \<open>
  C7. What \<open>WriteLog\<close> appends is what \<open>ReadLog\<close> returns at the offset where the log ended before, while
  the log is smaller than 2 GiB.
\<close>

theorem WriteLog_ReadLog:
  assumes op: "log_fd d \<noteq> -1" and ino: "fd_ino d (log_fd d) = Some ino" and name: "os_names (dm_os d) LOG_FILE_NAME = Some ino"
    and small: "int (os_size (dm_os d) ino) + int n < 2 ^ 31" and n: "0 < n"
  shows "\<exists>d' d''. WriteLog buf n d = (Inr (), d') \<and>
    ReadLog old (int n) (int (os_size (dm_os d) ino)) 0 d' = (Inr True, mcopy old 0 buf 0 n, d'')"
proof -
  let ?sz = "os_size (dm_os d) ino"
  obtain d' where w: "WriteLog buf n d = (Inr (), d')" and tab: "same_tables d d'"
    and sz: "\<And>j. os_size (dm_os d') j = (if j = ino then ?sz + n else os_size (dm_os d) j)"
    and bytes: "\<And>j i. file_byte d' j i = (if j = ino \<and> ?sz \<le> i \<and> i < ?sz + n then buf (i - ?sz) else file_byte d j i)"
    using WriteLog_appends [OF op ino, of buf n] by blast
  have T: "log_fd d' \<noteq> -1" "fd_ino d' (log_fd d') = Some ino" "os_names (dm_os d') LOG_FILE_NAME = Some ino"
    using tab op ino name by (simp_all add: same_tables_def)
  have "is_i32 (int (os_size (dm_os d') ino))" using small by (simp add: sz is_i32_def)
  then obtain d'' where r: "ReadLog old (int n) (int ?sz) 0 d' = (Inr True, mcopy old 0 (file_byte d' ino) (nat (int ?sz + 0)) n, d'')"
    using ReadLog_reads [OF T, of "int ?sz" 0 n old] n by (auto simp: sz)
  have "mcopy old 0 (file_byte d' ino) (nat (int ?sz + 0)) n = mcopy old 0 buf 0 n"
    by (auto simp: mcopy_def bytes fun_eq_iff)
  then show ?thesis using w r by auto
qed

definition sample_log_disk :: DiskManager where
  "sample_log_disk = sample_disk\<lparr>dm_os := (dm_os sample_disk)\<lparr>os_names := [LOG_FILE_NAME \<mapsto> 0]\<rparr>, log_fd := 0\<rparr>"

theorem WriteLog_ReadLog_witness:
  "\<exists>d' d''. WriteLog (\<lambda>i. of_nat i) 20 sample_log_disk = (Inr (), d') \<and>
    ReadLog zero_mem (int 20) (int (os_size (dm_os sample_log_disk) 0)) 0 d' = (Inr True, mcopy zero_mem 0 (\<lambda>i. of_nat i) 0 20, d'')"
  by (rule WriteLog_ReadLog) (simp_all add: sample_log_disk_def sample_disk_eq fd_ino_def sample_os_def)

end
