(* ===== verification/Buffer_Pool.thy ===== *)
theory Buffer_Pool
  imports Lru_Replacer Disk_Manager
begin

text \<open>
  \<open>storage/buffer_pool_manager.cpp\<close>: the frames, the page table, the free list, the replacer and the
  disk manager below them. A \<open>Page *\<close> is the number of its frame, \<open>nullptr\<close> is \<open>None\<close>. An exception of
  the disk manager ends the operation with the state as it is at that point. Each public operation
  holds the latch from its first to its last statement, so a history of the pool is a sequence of
  these operations.

  \<open>pool_ok X\<close> is the invariant; \<open>X\<close> is the set of frames that are in use by no page, are not
  free and are not known to the replacer: empty as long as no disk access fails. \<open>page_view\<close> is the
  abstract content of a page, in the pool or on disk; the lemmas show that no operation of the pool changes
  the content of a page.
\<close>

section \<open>State\<close>

record PageId =
  pid_fd :: int
  pid_no :: int

record Page =
  pg_id :: PageId
  pg_data :: mem
  pg_dirty :: bool
  pg_pin :: int

record BufferPoolManager =
  pool_size :: nat
  pages :: "frame_id \<Rightarrow> Page"
  page_table :: "PageId \<rightharpoonup> frame_id"
  free_list :: "frame_id list"
  disk_manager :: DiskManager
  replacer_of :: LRUReplacer

definition ResetMemory :: "Page \<Rightarrow> Page" where
  "ResetMemory p = p\<lparr>pg_data := zero_mem\<rparr>"

definition OFFSET_PAGE_HDR :: nat where "OFFSET_PAGE_HDR = 4"

definition GetPageLsn :: "Page \<Rightarrow> int" where
  "GetPageLsn p = get_i32 (pg_data p) 0"

definition SetPageLsn :: "int \<Rightarrow> Page \<Rightarrow> Page" where
  "SetPageLsn lsn p = p\<lparr>pg_data := put_i32 (pg_data p) 0 lsn\<rparr>"

text \<open>A new \<open>Page\<close>; \<open>id_.fd\<close> is not initialised and is a parameter.\<close>

definition Page_new :: "int \<Rightarrow> Page" where
  "Page_new fd0 = \<lparr>pg_id = \<lparr>pid_fd = fd0, pid_no = INVALID_PAGE_ID\<rparr>, pg_data = zero_mem, pg_dirty = False, pg_pin = 0\<rparr>"

definition BufferPoolManager_new :: "int \<Rightarrow> nat \<Rightarrow> DiskManager \<Rightarrow> BufferPoolManager" where
  "BufferPoolManager_new fd0 n d =
     \<lparr>pool_size = n, pages = (\<lambda>_. Page_new fd0), page_table = Map.empty, free_list = [0..<n],
      disk_manager = d, replacer_of = LRUReplacer_new n\<rparr>"

definition upd_frame :: "frame_id \<Rightarrow> (Page \<Rightarrow> Page) \<Rightarrow> BufferPoolManager \<Rightarrow> BufferPoolManager" where
  "upd_frame f g s = s\<lparr>pages := (pages s)(f := g (pages s f))\<rparr>"

text \<open>\<open>unordered_map::insert\<close> keeps an entry that is already there.\<close>

definition table_insert :: "'k \<Rightarrow> 'v \<Rightarrow> ('k \<rightharpoonup> 'v) \<Rightarrow> ('k \<rightharpoonup> 'v)" where
  "table_insert k v m = (case m k of None \<Rightarrow> m(k \<mapsto> v) | Some _ \<Rightarrow> m)"

section \<open>Operations\<close>

definition FindVictimPage :: "BufferPoolManager \<Rightarrow> frame_id option \<times> BufferPoolManager" where
  "FindVictimPage s =
     (case free_list s of
        [] \<Rightarrow>
          (case Victim (replacer_of s) of
             (Some f, r) \<Rightarrow> (Some f, s\<lparr>replacer_of := r, page_table := (page_table s)(pg_id (pages s f) := None)\<rparr>)
           | (None, r) \<Rightarrow> (None, s\<lparr>replacer_of := r\<rparr>))
      | f # fs \<Rightarrow> (Some f, s\<lparr>free_list := fs\<rparr>))"

definition disk_write :: "int \<Rightarrow> int \<Rightarrow> mem \<Rightarrow> (rb_error, BufferPoolManager, unit) op" where
  "disk_write fd no buf s =
     (let (r, d) = write_page fd no buf PAGE_SIZE (disk_manager s) in (r, s\<lparr>disk_manager := d\<rparr>))"

definition write_back :: "frame_id \<Rightarrow> (rb_error, BufferPoolManager, unit) op" where
  "write_back f s =
     disk_write (pid_fd (pg_id (pages s f))) (pid_no (pg_id (pages s f))) (pg_data (pages s f)) s"

definition UpdatePage :: "frame_id \<Rightarrow> PageId \<Rightarrow> frame_id \<Rightarrow> (rb_error, BufferPoolManager, unit) op" where
  "UpdatePage f new_id new_frame =
     andthen (\<lambda>s. if pg_dirty (pages s f) then write_back f (upd_frame f (pg_dirty_update (\<lambda>_. False)) s)
                  else ret () s)
      (\<lambda>_. modify_st (\<lambda>s.
         let pt1 = (page_table s)(pg_id (pages s f) := None);
             pt2 = (if pid_no new_id \<noteq> INVALID_PAGE_ID then table_insert new_id new_frame pt1 else pt1)
         in upd_frame f (\<lambda>p. (ResetMemory p)\<lparr>pg_id := new_id\<rparr>) (s\<lparr>page_table := pt2\<rparr>)))"

definition read_frame :: "frame_id \<Rightarrow> (rb_error, BufferPoolManager, unit) op" where
  "read_frame f s =
     (let p = pages s f;
          (r, data, d) = read_page (pid_fd (pg_id p)) (pid_no (pg_id p)) (pg_data p) PAGE_SIZE (disk_manager s)
      in (r, upd_frame f (pg_data_update (\<lambda>_. data)) (s\<lparr>disk_manager := d\<rparr>)))"

definition FetchPage :: "PageId \<Rightarrow> (rb_error, BufferPoolManager, frame_id option) op" where
  "FetchPage page_id s =
     (case page_table s page_id of
        Some f \<Rightarrow>
          (Inr (Some f), upd_frame f (pg_pin_update (\<lambda>n. n + 1)) (s\<lparr>replacer_of := Pin f (replacer_of s)\<rparr>))
      | None \<Rightarrow>
          (case FindVictimPage s of
             (None, s1) \<Rightarrow> (Inr None, s1)
           | (Some target, s1) \<Rightarrow>
               andthen (if pg_dirty (pages s1 target) then UpdatePage target page_id target
                        else modify_st (upd_frame target (pg_id_update (\<lambda>_. page_id))))
                 (\<lambda>_. andthen (read_frame target)
                   (\<lambda>_ t. (Inr (Some target),
                      upd_frame target (pg_pin_update (\<lambda>n. n + 1))
                        (t\<lparr>page_table := table_insert page_id target (page_table t),
                           replacer_of := Pin target (replacer_of t)\<rparr>)))) s1))"

definition UnpinPage :: "PageId \<Rightarrow> bool \<Rightarrow> BufferPoolManager \<Rightarrow> bool \<times> BufferPoolManager" where
  "UnpinPage page_id is_dirty s =
     (case page_table s page_id of
        None \<Rightarrow> (False, s)
      | Some f \<Rightarrow>
          if pg_pin (pages s f) > 0 then
            (let s1 = upd_frame f (pg_pin_update (\<lambda>n. n - 1)) s;
                 s2 = (if is_dirty then upd_frame f (pg_dirty_update (\<lambda>_. True)) s1 else s1);
                 s3 = (if pg_pin (pages s2 f) = 0 then s2\<lparr>replacer_of := Unpin f (replacer_of s2)\<rparr> else s2)
             in (True, s3))
          else (False, s))"

definition FlushPage :: "PageId \<Rightarrow> (rb_error, BufferPoolManager, bool) op" where
  "FlushPage page_id s =
     (case page_table s page_id of
        None \<Rightarrow> (Inr False, s)
      | Some f \<Rightarrow>
          andthen (write_back f)
            (\<lambda>_ t. (Inr True, upd_frame f (pg_dirty_update (\<lambda>_. False)) t)) s)"

text \<open>\<open>NewPage\<close> takes the file in \<open>page_id->fd\<close> and returns the frame and the page number it stored there.\<close>

definition NewPage :: "int \<Rightarrow> (rb_error, BufferPoolManager, (frame_id \<times> PageId) option) op" where
  "NewPage fd s =
     (case FindVictimPage s of
        (None, s1) \<Rightarrow> (Inr None, s1)
      | (Some f, s1) \<Rightarrow>
          (case AllocatePage fd (disk_manager s1) of
             (Inl e, d) \<Rightarrow> (Inl e, s1\<lparr>disk_manager := d\<rparr>)
           | (Inr no, d) \<Rightarrow>
               andthen (UpdatePage f \<lparr>pid_fd = fd, pid_no = no\<rparr> f)
                 (\<lambda>_ t. (Inr (Some (f, \<lparr>pid_fd = fd, pid_no = no\<rparr>)),
                    upd_frame f (pg_pin_update (\<lambda>_. 1)) (t\<lparr>replacer_of := Pin f (replacer_of t)\<rparr>)))
                 (s1\<lparr>disk_manager := d\<rparr>)))"

definition DeletePage :: "PageId \<Rightarrow> BufferPoolManager \<Rightarrow> bool \<times> BufferPoolManager" where
  "DeletePage page_id s0 =
     (let s = s0\<lparr>disk_manager := DeallocatePage (pid_no page_id) (disk_manager s0)\<rparr>
      in case page_table s page_id of
           None \<Rightarrow> (True, s)
         | Some f \<Rightarrow>
             if pg_pin (pages s f) > 0 then (False, s)
             else (True, upd_frame f ResetMemory
                     (s\<lparr>page_table := (page_table s)(page_id := None), free_list := free_list s @ [f]\<rparr>)))"

definition flush_frame :: "int \<Rightarrow> frame_id \<Rightarrow> (rb_error, BufferPoolManager, unit) op" where
  "flush_frame fd i s =
     (if pid_fd (pg_id (pages s i)) = fd \<and> pid_no (pg_id (pages s i)) \<noteq> INVALID_PAGE_ID
      then andthen (write_back i) (\<lambda>_. modify_st (upd_frame i (pg_dirty_update (\<lambda>_. False)))) s
      else (Inr (), s))"

definition FlushAllPages :: "int \<Rightarrow> (rb_error, BufferPoolManager, unit) op" where
  "FlushAllPages fd s = for_each (flush_frame fd) [0..<pool_size s] s"

section \<open>Abstract content and invariant\<close>

definition trim :: "mem \<Rightarrow> mem" where
  "trim m = (\<lambda>i. if i < PAGE_SIZE then m i else 0)"

definition page_view :: "BufferPoolManager \<Rightarrow> PageId \<Rightarrow> mem" where
  "page_view s pid = (case page_table s pid of
       Some f \<Rightarrow> trim (pg_data (pages s f))
     | None \<Rightarrow> disk_page (disk_manager s) (pid_fd pid) (pid_no pid))"

definition usable :: "BufferPoolManager \<Rightarrow> PageId \<Rightarrow> bool" where
  "usable s pid \<longleftrightarrow> addressable (pid_no pid) \<and> fd_ino (disk_manager s) (pid_fd pid) \<noteq> None"

definition stored :: "BufferPoolManager \<Rightarrow> PageId \<Rightarrow> bool" where
  "stored s pid \<longleftrightarrow> page_table s pid \<noteq> None \<or> on_disk (disk_manager s) (pid_fd pid) (pid_no pid)"

definition synced :: "BufferPoolManager \<Rightarrow> frame_id \<Rightarrow> bool" where
  "synced s f \<longleftrightarrow> (let pid = pg_id (pages s f) in on_disk (disk_manager s) (pid_fd pid) (pid_no pid) \<and>
     trim (pg_data (pages s f)) = disk_page (disk_manager s) (pid_fd pid) (pid_no pid))"

definition pool_ok :: "frame_id set \<Rightarrow> BufferPoolManager \<Rightarrow> bool" where
  "pool_ok X s \<longleftrightarrow>
     open_files_ok (disk_manager s) \<and> lru_inv (replacer_of s) \<and> distinct (free_list s) \<and>
     (\<forall>f \<in> set (free_list s). f < pool_size s \<and> f \<notin> X \<and> pg_pin (pages s f) = 0 \<and> \<not> pg_dirty (pages s f)
        \<and> pid_no (pg_id (pages s f)) = INVALID_PAGE_ID) \<and>
     (\<forall>pid f. page_table s pid = Some f \<longrightarrow>
        f < pool_size s \<and> f \<notin> X \<and> f \<notin> set (free_list s) \<and> pg_id (pages s f) = pid \<and> usable s pid) \<and>
     (\<forall>f < pool_size s. f \<in> X \<or> f \<in> set (free_list s) \<or> page_table s (pg_id (pages s f)) = Some f) \<and>
     (\<forall>f. f \<in> set (lru_frames (replacer_of s)) \<longleftrightarrow>
        f < pool_size s \<and> f \<notin> X \<and> f \<notin> set (free_list s) \<and> pg_pin (pages s f) = 0) \<and>
     (\<forall>f < pool_size s. 0 \<le> pg_pin (pages s f)) \<and>
     (\<forall>pid f. page_table s pid = Some f \<and> pg_pin (pages s f) = 0 \<and> \<not> pg_dirty (pages s f) \<longrightarrow>
        synced s f)"

abbreviation bpm_inv :: "BufferPoolManager \<Rightarrow> bool" where
  "bpm_inv \<equiv> pool_ok {}"

lemma pool_okD:
  assumes "pool_ok X s"
  shows "open_files_ok (disk_manager s)" "lru_inv (replacer_of s)" "distinct (free_list s)"
    "f \<in> set (free_list s) \<Longrightarrow> f < pool_size s \<and> f \<notin> X \<and> pg_pin (pages s f) = 0 \<and> \<not> pg_dirty (pages s f)
        \<and> pid_no (pg_id (pages s f)) = INVALID_PAGE_ID"
    "page_table s pid = Some f \<Longrightarrow>
        f < pool_size s \<and> f \<notin> X \<and> f \<notin> set (free_list s) \<and> pg_id (pages s f) = pid \<and> usable s pid"
    "f < pool_size s \<Longrightarrow> f \<in> X \<or> f \<in> set (free_list s) \<or> page_table s (pg_id (pages s f)) = Some f"
    "f \<in> set (lru_frames (replacer_of s)) \<longleftrightarrow>
        f < pool_size s \<and> f \<notin> X \<and> f \<notin> set (free_list s) \<and> pg_pin (pages s f) = 0"
    "f < pool_size s \<Longrightarrow> 0 \<le> pg_pin (pages s f)"
    "page_table s pid = Some f \<Longrightarrow> pg_pin (pages s f) = 0 \<Longrightarrow> \<not> pg_dirty (pages s f) \<Longrightarrow>
        synced s f"
  using assms unfolding pool_ok_def by blast+

lemma pool_okI:
  assumes "open_files_ok (disk_manager s)" "lru_inv (replacer_of s)" "distinct (free_list s)"
    "\<And>f. f \<in> set (free_list s) \<Longrightarrow> f < pool_size s \<and> f \<notin> X \<and> pg_pin (pages s f) = 0 \<and> \<not> pg_dirty (pages s f)
        \<and> pid_no (pg_id (pages s f)) = INVALID_PAGE_ID"
    "\<And>pid f. page_table s pid = Some f \<Longrightarrow>
        f < pool_size s \<and> f \<notin> X \<and> f \<notin> set (free_list s) \<and> pg_id (pages s f) = pid \<and> usable s pid"
    "\<And>f. f < pool_size s \<Longrightarrow> f \<in> X \<or> f \<in> set (free_list s) \<or> page_table s (pg_id (pages s f)) = Some f"
    "\<And>f. f \<in> set (lru_frames (replacer_of s)) \<longleftrightarrow>
        f < pool_size s \<and> f \<notin> X \<and> f \<notin> set (free_list s) \<and> pg_pin (pages s f) = 0"
    "\<And>f. f < pool_size s \<Longrightarrow> 0 \<le> pg_pin (pages s f)"
    "\<And>pid f. page_table s pid = Some f \<Longrightarrow> pg_pin (pages s f) = 0 \<Longrightarrow> \<not> pg_dirty (pages s f) \<Longrightarrow>
        synced s f"
  shows "pool_ok X s"
  using assms unfolding pool_ok_def by blast

lemma invalid_not_usable: "pid_no pid = INVALID_PAGE_ID \<Longrightarrow> \<not> usable s pid"
  by (simp add: usable_def addressable_def INVALID_PAGE_ID_def)

lemma trim_trim [simp]: "trim (trim m) = trim m"
  by (simp add: trim_def fun_eq_iff)

lemma trim_disk_page [simp]: "trim (disk_page d fd no) = disk_page d fd no"
  by (auto simp: trim_def disk_page_def fun_eq_iff split: option.splits)

lemma trim_mcopy [simp]: "trim (mcopy buf 0 m 0 PAGE_SIZE) = trim m"
  by (simp add: trim_def mcopy_def fun_eq_iff)

lemma bpm_inv_new:
  assumes "open_files_ok d"
  shows "bpm_inv (BufferPoolManager_new fd0 n d)"
  using assms by (intro pool_okI) (auto simp: BufferPoolManager_new_def Page_new_def)

section \<open>Taking a frame\<close>

lemma FindVictimPage_none:
  assumes ok: "pool_ok X s"
  shows "fst (FindVictimPage s) = None \<longleftrightarrow> free_list s = [] \<and> lru_frames (replacer_of s) = []"
    and "fst (FindVictimPage s) = None \<Longrightarrow> snd (FindVictimPage s) = s"
proof -
  have "(fst (FindVictimPage s) = None \<longleftrightarrow> free_list s = [] \<and> lru_frames (replacer_of s) = []) \<and>
    (fst (FindVictimPage s) = None \<longrightarrow> snd (FindVictimPage s) = s)"
  proof (cases rule: lru.victim_cases [OF pool_okD(2) [OF ok]])
    case 1
    then show ?thesis by (cases "free_list s") (simp_all add: FindVictimPage_def)
  next
    case (2 f r)
    have "lru_frames (replacer_of s) \<noteq> []" using 2(2) by (metis empty_iff list.set(1))
    then show ?thesis using 2(1) by (cases "free_list s") (simp_all add: FindVictimPage_def)
  qed
  then show "fst (FindVictimPage s) = None \<longleftrightarrow> free_list s = [] \<and> lru_frames (replacer_of s) = []"
    and "fst (FindVictimPage s) = None \<Longrightarrow> snd (FindVictimPage s) = s" by blast+
qed

lemma FindVictimPage_some:
  assumes ok: "pool_ok X s" and run: "FindVictimPage s = (Some f, s1)"
  shows "pool_ok (insert f X) s1" and "f < pool_size s" and "f \<notin> X"
    and "s1 = s\<lparr>free_list := free_list s1, replacer_of := replacer_of s1,
           page_table := (page_table s)(pg_id (pages s f) := None)\<rparr>"
    and "pg_pin (pages s f) = 0"
    and "pg_dirty (pages s f) \<Longrightarrow> page_table s (pg_id (pages s f)) = Some f"
proof -
  note D = pool_okD [OF ok]
  have "pool_ok (insert f X) s1 \<and> f < pool_size s \<and> f \<notin> X \<and>
    s1 = s\<lparr>free_list := free_list s1, replacer_of := replacer_of s1,
      page_table := (page_table s)(pg_id (pages s f) := None)\<rparr> \<and> pg_pin (pages s f) = 0 \<and>
    (pg_dirty (pages s f) \<longrightarrow> page_table s (pg_id (pages s f)) = Some f)"
  proof (cases "free_list s")
    case (Cons g fs)
    then have s1: "f = g" "s1 = s\<lparr>free_list := fs\<rparr>" using run by (simp_all add: FindVictimPage_def)
    have g: "g \<in> set (free_list s)" "g \<notin> set fs" using Cons D(3) by auto
    note G = D(4) [OF g(1)]
    have "page_table s (pg_id (pages s g)) = None"
      using D(5) [of "pg_id (pages s g)"] G invalid_not_usable by (cases "page_table s (pg_id (pages s g))") auto
    then have pt: "(page_table s)(pg_id (pages s g) := None) = page_table s" by (auto simp: fun_eq_iff)
    have us: "usable s1 = usable s" by (simp add: s1 usable_def fun_eq_iff)
    have sy: "synced s1 = synced s" by (simp add: s1 synced_def fun_eq_iff)
    have "pool_ok (insert g X) s1"
    proof (rule pool_okI)
      show "h < pool_size s1 \<and> h \<notin> insert g X \<and> pg_pin (pages s1 h) = 0 \<and> \<not> pg_dirty (pages s1 h)
          \<and> pid_no (pg_id (pages s1 h)) = INVALID_PAGE_ID" if "h \<in> set (free_list s1)" for h
        using that D(4) [of h] g Cons by (auto simp: s1)
      show "h < pool_size s1 \<and> h \<notin> insert g X \<and> h \<notin> set (free_list s1) \<and> pg_id (pages s1 h) = pid \<and> usable s1 pid"
        if "page_table s1 pid = Some h" for pid h
        using that D(5) [of pid h] g Cons us by (auto simp: s1)
      show "h \<in> insert g X \<or> h \<in> set (free_list s1) \<or> page_table s1 (pg_id (pages s1 h)) = Some h"
        if "h < pool_size s1" for h
        using that D(6) [of h] Cons by (auto simp: s1)
      show "h \<in> set (lru_frames (replacer_of s1)) \<longleftrightarrow>
        h < pool_size s1 \<and> h \<notin> insert g X \<and> h \<notin> set (free_list s1) \<and> pg_pin (pages s1 h) = 0" for h
        using D(7) [of h] Cons g by (auto simp: s1)
      show "synced s1 h" if "page_table s1 pid = Some h" "pg_pin (pages s1 h) = 0" "\<not> pg_dirty (pages s1 h)" for pid h
        unfolding sy using that D(9) [of pid h] by (auto simp: s1 split: if_splits)
    qed (use D Cons in \<open>auto simp: s1\<close>)
    then show ?thesis using s1 pt G by simp
  next
    case Nil
    show ?thesis
    proof (cases rule: lru.victim_cases [OF D(2)])
      case 1
      then show ?thesis using run Nil by (simp add: FindVictimPage_def)
    next
      case (2 g r)
      then have s1: "f = g" "s1 = s\<lparr>replacer_of := r, page_table := (page_table s)(pg_id (pages s g) := None)\<rparr>"
        using run Nil by (auto simp: FindVictimPage_def)
      have G: "g < pool_size s" "g \<notin> X" "pg_pin (pages s g) = 0" using D(7) 2(2) by auto
      have gm: "page_table s (pg_id (pages s g)) = Some g" using D(6) [OF G(1)] G Nil by simp
      have us: "usable s1 = usable s" by (simp add: s1 usable_def fun_eq_iff)
      have sy: "synced s1 = synced s" by (simp add: s1 synced_def fun_eq_iff)
      have "pool_ok (insert g X) s1"
      proof (rule pool_okI)
        show "h < pool_size s1 \<and> h \<notin> insert g X \<and> h \<notin> set (free_list s1) \<and> pg_id (pages s1 h) = pid \<and> usable s1 pid"
          if "page_table s1 pid = Some h" for pid h
          using that D(5) [of pid h] gm us by (auto simp: s1 split: if_splits)
        show "h \<in> insert g X \<or> h \<in> set (free_list s1) \<or> page_table s1 (pg_id (pages s1 h)) = Some h"
          if "h < pool_size s1" for h
        proof (cases "h = g \<or> h \<in> X")
          case False
          then have m: "page_table s (pg_id (pages s h)) = Some h"
            using that D(6) [of h] Nil by (simp add: s1)
          then have "pg_id (pages s h) \<noteq> pg_id (pages s g)" using gm False by auto
          then show ?thesis using m by (simp add: s1)
        qed auto
        show "h \<in> set (lru_frames (replacer_of s1)) \<longleftrightarrow>
          h < pool_size s1 \<and> h \<notin> insert g X \<and> h \<notin> set (free_list s1) \<and> pg_pin (pages s1 h) = 0" for h
          using D(7) [of h] 2(4) by (auto simp: s1)
        show "synced s1 h" if "page_table s1 pid = Some h" "pg_pin (pages s1 h) = 0" "\<not> pg_dirty (pages s1 h)" for pid h
          unfolding sy using that D(9) [of pid h] by (auto simp: s1 split: if_splits)
      qed (use D Nil 2 in \<open>auto simp: s1 split: if_splits\<close>)
      then show ?thesis using s1 G gm by simp
    qed
  qed
  then show "pool_ok (insert f X) s1" and "f < pool_size s" and "f \<notin> X"
    and "s1 = s\<lparr>free_list := free_list s1, replacer_of := replacer_of s1,
           page_table := (page_table s)(pg_id (pages s f) := None)\<rparr>"
    and "pg_pin (pages s f) = 0"
    and "pg_dirty (pages s f) \<Longrightarrow> page_table s (pg_id (pages s f)) = Some f" by blast+
qed

section \<open>Filling a frame\<close>

text \<open>A frame that was taken may be written to: it holds no page.\<close>

lemma detached_update:
  assumes ok: "pool_ok (insert f X) s" and pin: "0 \<le> pg_pin (g (pages s f))"
  shows "pool_ok (insert f X) (upd_frame f g s)" and "page_view (upd_frame f g s) = page_view s"
proof -
  note D = pool_okD [OF ok]
  have ne: "\<And>pid h. page_table s pid = Some h \<Longrightarrow> h \<noteq> f" using D(5) by blast
  have nf: "f \<notin> set (free_list s)" using D(4) by blast
  have pg: "\<And>h. h \<noteq> f \<Longrightarrow> pages (upd_frame f g s) h = pages s h" by (simp add: upd_frame_def)
  have rest: "page_table (upd_frame f g s) = page_table s" "free_list (upd_frame f g s) = free_list s"
    "disk_manager (upd_frame f g s) = disk_manager s" "replacer_of (upd_frame f g s) = replacer_of s"
    "pool_size (upd_frame f g s) = pool_size s"
    by (simp_all add: upd_frame_def)
  have us: "usable (upd_frame f g s) = usable s" by (simp add: usable_def fun_eq_iff rest)
  show "pool_ok (insert f X) (upd_frame f g s)"
  proof (rule pool_okI, unfold rest us)
    show "h < pool_size s \<and> h \<notin> insert f X \<and> pg_pin (pages (upd_frame f g s) h) = 0 \<and>
        \<not> pg_dirty (pages (upd_frame f g s) h) \<and> pid_no (pg_id (pages (upd_frame f g s) h)) = INVALID_PAGE_ID"
      if "h \<in> set (free_list s)" for h
      using D(4) [OF that] pg [of h] that nf by auto
    show "h < pool_size s \<and> h \<notin> insert f X \<and> h \<notin> set (free_list s) \<and>
        pg_id (pages (upd_frame f g s) h) = pid \<and> usable s pid" if "page_table s pid = Some h" for pid h
      using D(5) [OF that] pg [OF ne [OF that]] by simp
    show "h \<in> insert f X \<or> h \<in> set (free_list s) \<or> page_table s (pg_id (pages (upd_frame f g s) h)) = Some h"
      if "h < pool_size s" for h
      using D(6) [OF that] pg [of h] by (cases "h = f") simp_all
    show "h \<in> set (lru_frames (replacer_of s)) \<longleftrightarrow> h < pool_size s \<and> h \<notin> insert f X \<and>
        h \<notin> set (free_list s) \<and> pg_pin (pages (upd_frame f g s) h) = 0" for h
      using D(7) [of h] pg [of h] by (cases "h = f") simp_all
    show "0 \<le> pg_pin (pages (upd_frame f g s) h)" if "h < pool_size s" for h
      using D(8) [OF that] pin by (simp add: upd_frame_def)
    show "synced (upd_frame f g s) h"
      if "page_table s pid = Some h" "pg_pin (pages (upd_frame f g s) h) = 0" "\<not> pg_dirty (pages (upd_frame f g s) h)"
      for pid h
      using D(9) [OF that(1)] that(2,3) pg [OF ne [OF that(1)]] by (simp add: synced_def rest)
  qed (rule D)+
  show "page_view (upd_frame f g s) = page_view s"
  proof
    fix pid
    show "page_view (upd_frame f g s) pid = page_view s pid"
      using pg ne [of pid] by (cases "page_table s pid") (simp_all add: page_view_def rest)
  qed
qed

text \<open>Giving a taken frame to a page ends the operation: the frame is pinned and in the table.\<close>

definition attach :: "frame_id \<Rightarrow> PageId \<Rightarrow> int \<Rightarrow> BufferPoolManager \<Rightarrow> BufferPoolManager" where
  "attach f pid k s = upd_frame f (pg_pin_update (\<lambda>_. k))
     (s\<lparr>page_table := (page_table s)(pid \<mapsto> f), replacer_of := Pin f (replacer_of s)\<rparr>)"

lemma attach_ok:
  assumes ok: "pool_ok (insert f X) s" and f: "f < pool_size s" "f \<notin> X" and k: "0 < k"
    and id: "pg_id (pages s f) = pid" and new: "page_table s pid = None" and us: "usable s pid"
  shows "pool_ok X (attach f pid k s)"
    and "page_view (attach f pid k s) = (page_view s)(pid := trim (pg_data (pages s f)))"
proof -
  note D = pool_okD [OF ok]
  let ?s = "attach f pid k s"
  have ne: "\<And>q h. page_table s q = Some h \<Longrightarrow> h \<noteq> f" using D(5) by blast
  have nf: "f \<notin> set (free_list s)" using D(4) by blast
  have pg: "\<And>h. h \<noteq> f \<Longrightarrow> pages ?s h = pages s h" and pgf: "pages ?s f = (pages s f)\<lparr>pg_pin := k\<rparr>"
    by (simp_all add: attach_def upd_frame_def)
  have rest: "page_table ?s = (page_table s)(pid \<mapsto> f)" "free_list ?s = free_list s"
    "disk_manager ?s = disk_manager s" "replacer_of ?s = Pin f (replacer_of s)" "pool_size ?s = pool_size s"
    by (simp_all add: attach_def upd_frame_def)
  have use: "usable ?s = usable s" by (simp add: usable_def fun_eq_iff rest)
  show "pool_ok X ?s"
  proof (rule pool_okI, unfold rest use)
    show "lru_inv (Pin f (replacer_of s))" using lru.pin_frames [OF D(2)] by blast
    show "h < pool_size s \<and> h \<notin> X \<and> pg_pin (pages ?s h) = 0 \<and> \<not> pg_dirty (pages ?s h) \<and>
        pid_no (pg_id (pages ?s h)) = INVALID_PAGE_ID" if "h \<in> set (free_list s)" for h
      using D(4) [OF that] pg [of h] that nf by auto
    show "h < pool_size s \<and> h \<notin> X \<and> h \<notin> set (free_list s) \<and> pg_id (pages ?s h) = q \<and> usable s q"
      if "((page_table s)(pid \<mapsto> f)) q = Some h" for q h
    proof (cases "q = pid")
      case True
      then show ?thesis using that f nf id us pgf by auto
    next
      case False
      then have m: "page_table s q = Some h" using that by simp
      show ?thesis using D(5) [OF m] pg [OF ne [OF m]] by simp
    qed
    show "h \<in> X \<or> h \<in> set (free_list s) \<or> ((page_table s)(pid \<mapsto> f)) (pg_id (pages ?s h)) = Some h"
      if "h < pool_size s" for h
    proof (cases "h = f")
      case True
      then show ?thesis using pgf id by simp
    next
      case False
      then have "h \<in> X \<or> h \<in> set (free_list s) \<or> page_table s (pg_id (pages s h)) = Some h"
        using D(6) [OF that] by simp
      moreover have "page_table s (pg_id (pages s h)) = Some h \<Longrightarrow> pg_id (pages s h) \<noteq> pid"
        using new by auto
      ultimately show ?thesis using pg [OF False] by auto
    qed
    show "h \<in> set (lru_frames (Pin f (replacer_of s))) \<longleftrightarrow> h < pool_size s \<and> h \<notin> X \<and>
        h \<notin> set (free_list s) \<and> pg_pin (pages ?s h) = 0" for h
      using D(7) [of h] pg [of h] pgf k lru.set_frames_pin [OF D(2), of f] by (cases "h = f") simp_all
    show "0 \<le> pg_pin (pages ?s h)" if "h < pool_size s" for h
      using D(8) [OF that] k pg [of h] pgf by (cases "h = f") simp_all
    show "synced ?s h"
      if "((page_table s)(pid \<mapsto> f)) q = Some h" "pg_pin (pages ?s h) = 0" "\<not> pg_dirty (pages ?s h)" for q h
    proof (cases "q = pid")
      case True
      then show ?thesis using that pgf k by auto
    next
      case False
      then have m: "page_table s q = Some h" using that by simp
      show ?thesis using D(9) [OF m] that(2,3) pg [OF ne [OF m]] by (simp add: synced_def rest)
    qed
  qed (rule D)+
  show "page_view ?s = (page_view s)(pid := trim (pg_data (pages s f)))"
  proof
    fix q
    show "page_view ?s q = ((page_view s)(pid := trim (pg_data (pages s f)))) q"
    proof (cases "q = pid")
      case True
      then show ?thesis using pgf by (simp add: page_view_def rest)
    next
      case False
      then show ?thesis using pg ne [of q] by (cases "page_table s q") (simp_all add: page_view_def rest)
    qed
  qed
qed

section \<open>Writing to and reading from disk under the pool\<close>

lemma pool_ok_same_disk:
  assumes ok: "pool_ok X s" and tab: "same_tables (disk_manager s) d"
    and on: "\<And>q :: PageId. on_disk (disk_manager s) (pid_fd q) (pid_no q) \<Longrightarrow> on_disk d (pid_fd q) (pid_no q)"
    and pg: "\<And>pid. usable s pid \<Longrightarrow> page_table s pid \<noteq> None \<Longrightarrow>
      disk_page d (pid_fd pid) (pid_no pid) = disk_page (disk_manager s) (pid_fd pid) (pid_no pid) \<or>
      (\<exists>f. page_table s pid = Some f \<and> disk_page d (pid_fd pid) (pid_no pid) = trim (pg_data (pages s f)))"
  shows "pool_ok X (s\<lparr>disk_manager := d\<rparr>)"
proof -
  note D = pool_okD [OF ok]
  have use: "usable (s\<lparr>disk_manager := d\<rparr>) = usable s"
    using tab by (simp add: usable_def fun_eq_iff same_tables_def)
  show ?thesis
  proof (rule pool_okI, unfold use)
    show "open_files_ok (disk_manager (s\<lparr>disk_manager := d\<rparr>))"
      using D(1) open_files_ok_same_tables [OF tab] by simp
    show "synced (s\<lparr>disk_manager := d\<rparr>) h"
      if "page_table (s\<lparr>disk_manager := d\<rparr>) q = Some h" "pg_pin (pages (s\<lparr>disk_manager := d\<rparr>) h) = 0"
        "\<not> pg_dirty (pages (s\<lparr>disk_manager := d\<rparr>) h)" for q h
      using that pg [of q] on [of q] D(5) [of q h] D(9) [of q h] by (auto simp: synced_def Let_def)
  qed (use D in simp_all)
qed

lemma disk_write_ok:
  assumes ok: "pool_ok X s" and us: "usable s pid"
    and same: "\<And>f. page_table s pid = Some f \<Longrightarrow> trim (pg_data (pages s f)) = trim buf"
  obtains d where "disk_write (pid_fd pid) (pid_no pid) buf s = (Inr (), s\<lparr>disk_manager := d\<rparr>)"
    and "same_tables (disk_manager s) d" and "pool_ok X (s\<lparr>disk_manager := d\<rparr>)"
    and "disk_page d (pid_fd pid) (pid_no pid) = trim buf" and "on_disk d (pid_fd pid) (pid_no pid)"
    and "\<And>q. 0 \<le> pid_no q \<Longrightarrow> q \<noteq> pid \<Longrightarrow>
      disk_page d (pid_fd q) (pid_no q) = disk_page (disk_manager s) (pid_fd q) (pid_no q)"
    and "\<And>q. on_disk (disk_manager s) (pid_fd q) (pid_no q) \<Longrightarrow> on_disk d (pid_fd q) (pid_no q)"
proof -
  obtain ino where ino: "fd_ino (disk_manager s) (pid_fd pid) = Some ino" and p: "addressable (pid_no pid)"
    using us by (auto simp: usable_def)
  obtain d where run: "write_page (pid_fd pid) (pid_no pid) buf PAGE_SIZE (disk_manager s) = (Inr (), d)"
    and tab: "same_tables (disk_manager s) d"
    and new: "disk_page d (pid_fd pid) (pid_no pid) = (\<lambda>i. if i < PAGE_SIZE then buf i else 0)"
    and on: "on_disk d (pid_fd pid) (pid_no pid)"
    and oth: "\<And>fd' q. 0 \<le> q \<Longrightarrow> (fd', q) \<noteq> (pid_fd pid, pid_no pid) \<Longrightarrow> disk_page d fd' q = disk_page (disk_manager s) fd' q"
    and onk: "\<And>fd' q. on_disk (disk_manager s) fd' q \<Longrightarrow> on_disk d fd' q"
    using write_page_disk [OF pool_okD(1) [OF ok] ino p, of buf] by blast
  have other: "disk_page d (pid_fd q) (pid_no q) = disk_page (disk_manager s) (pid_fd q) (pid_no q)"
    if "0 \<le> pid_no q" "q \<noteq> pid" for q
    using oth [OF that(1), of "pid_fd q"] that(2) by (metis PageId.equality old.unit.exhaust prod.inject)
  have new': "disk_page d (pid_fd pid) (pid_no pid) = trim buf" using new by (simp add: trim_def)
  have "pool_ok X (s\<lparr>disk_manager := d\<rparr>)"
  proof (rule pool_ok_same_disk [OF ok tab onk], assumption)
    fix q assume q: "usable s q" "page_table s q \<noteq> None"
    show "disk_page d (pid_fd q) (pid_no q) = disk_page (disk_manager s) (pid_fd q) (pid_no q) \<or>
      (\<exists>f. page_table s q = Some f \<and> disk_page d (pid_fd q) (pid_no q) = trim (pg_data (pages s f)))"
    proof (cases "q = pid")
      case True
      then show ?thesis using q(2) same new' by auto
    next
      case False
      then show ?thesis using other q(1) by (simp add: usable_def addressable_def)
    qed
  qed
  moreover have "disk_write (pid_fd pid) (pid_no pid) buf s = (Inr (), s\<lparr>disk_manager := d\<rparr>)"
    using run by (simp add: disk_write_def)
  ultimately show ?thesis using that tab new' on other onk by blast
qed

section \<open>What an operation keeps\<close>

text \<open>
  Between two states of the pool: the same open files, every page with the content it had, no page that can be fetched
  lost.
\<close>

definition keeps :: "BufferPoolManager \<Rightarrow> BufferPoolManager \<Rightarrow> bool" where
  "keeps s t \<longleftrightarrow> pool_size t = pool_size s \<and> same_tables (disk_manager s) (disk_manager t) \<and>
     (\<forall>pid. usable s pid \<longrightarrow> page_view t pid = page_view s pid) \<and> (\<forall>pid. stored s pid \<longrightarrow> stored t pid)"

lemma keeps_refl [simp]: "keeps s s"
  by (simp add: keeps_def)

lemma usable_same_tables: "same_tables (disk_manager s) (disk_manager t) \<Longrightarrow> usable t = usable s"
  by (simp add: usable_def same_tables_def fun_eq_iff)

lemma keeps_usable: "keeps s t \<Longrightarrow> usable t = usable s"
  by (simp add: keeps_def usable_same_tables)

lemma keeps_trans: "keeps s t \<Longrightarrow> keeps t u \<Longrightarrow> keeps s u"
  using keeps_usable [of s t] same_tables_trans unfolding keeps_def by metis

lemma keepsD:
  assumes "keeps s t"
  shows "pool_size t = pool_size s" "same_tables (disk_manager s) (disk_manager t)"
    "usable s pid \<Longrightarrow> page_view t pid = page_view s pid" "stored s pid \<Longrightarrow> stored t pid"
  using assms by (simp_all add: keeps_def)

lemma detached_keeps:
  assumes "pool_ok (insert f X) s" and "0 \<le> pg_pin (g (pages s f))"
  shows "keeps s (upd_frame f g s)"
  using detached_update(2) [OF assms(1), of g] assms(2)
  by (simp add: keeps_def stored_def, simp add: upd_frame_def)

lemma attach_keeps:
  assumes "pool_ok (insert f X) s" and "f < pool_size s" "f \<notin> X" and "0 < k"
    and "pg_id (pages s f) = pid" and "page_table s pid = None" and "usable s pid"
    and "trim (pg_data (pages s f)) = page_view s pid"
  shows "keeps s (attach f pid k s)"
  using attach_ok(2) [OF assms(1-7)] assms(8)
  by (simp add: keeps_def stored_def, simp add: attach_def upd_frame_def)

text \<open>The frame that was taken, with its old page written out when it was dirty.\<close>

lemma evict:
  assumes ok: "pool_ok X s" and run: "FindVictimPage s = (Some f, s1)"
  obtains u where
    "(if pg_dirty (pages s1 f) then write_back f (upd_frame f (pg_dirty_update (\<lambda>_. False)) s1) else ret () s1) = (Inr (), u)"
    and "pool_ok (insert f X) u" and "keeps s u"
    and "page_table u = (page_table s)(pg_id (pages s f) := None)"
    and "pages u = (pages s)(f := (pages s f)\<lparr>pg_dirty := False\<rparr>)"
    and "f < pool_size s" "f \<notin> X" "pg_pin (pages s f) = 0"
proof -
  note V = FindVictimPage_some [OF ok run]
  note D = pool_okD [OF ok]
  let ?pid = "pg_id (pages s f)"
  have s1: "pages s1 = pages s" "disk_manager s1 = disk_manager s" "pool_size s1 = pool_size s"
    "page_table s1 = (page_table s)(?pid := None)"
    by (subst V(4), simp)+
  have use1: "usable s1 = usable s" by (simp add: usable_def s1 fun_eq_iff)
  show ?thesis
  proof (cases "pg_dirty (pages s f)")
    case False
    have sy: "page_table s ?pid = Some f \<Longrightarrow> synced s f" using D(9) [of ?pid f] V(5) False by blast
    have oth: "\<And>q. q \<noteq> ?pid \<Longrightarrow> page_table s1 q = page_table s q" by (simp add: s1)
    have hit: "\<And>g. page_table s ?pid = Some g \<Longrightarrow> g = f"
      using D(5) [of ?pid] D(6) [OF V(2)] V(1,3) D(4) [of f] invalid_not_usable
      by (metis option.inject)
    have "keeps s s1"
      unfolding keeps_def
    proof (intro conjI allI impI)
      fix q assume "usable s q"
      show "page_view s1 q = page_view s q"
      proof (cases "q = ?pid \<and> page_table s ?pid \<noteq> None")
        case True
        then show ?thesis using hit sy by (auto simp: page_view_def s1 synced_def Let_def)
      next
        case False
        then have "page_table s1 q = page_table s q" by (auto simp: s1)
        then show ?thesis by (cases "page_table s q") (simp_all add: page_view_def s1)
      qed
    next
      fix q assume st: "stored s q"
      show "stored s1 q"
      proof (cases "q = ?pid \<and> page_table s ?pid \<noteq> None")
        case True
        then show ?thesis using hit sy by (auto simp: stored_def s1 synced_def Let_def)
      next
        case False
        then have "page_table s1 q = page_table s q" by (auto simp: s1)
        then show ?thesis using st by (simp add: stored_def s1)
      qed
    qed (simp_all add: s1)
    moreover have "(pages s f)\<lparr>pg_dirty := False\<rparr> = pages s f" using False by (cases "pages s f") simp
    ultimately show ?thesis
      using that [of s1] V False by (simp add: s1 run_simps fun_upd_idem)
  next
    case True
    let ?s2 = "upd_frame f (pg_dirty_update (\<lambda>_. False)) s1"
    note own = V(6) [OF True]
    have us: "usable s ?pid" using D(5) [OF own] by blast
    have s2: "pool_ok (insert f X) ?s2" using detached_update(1) [OF V(1)] V(5) by (simp add: s1)
    have us2: "usable ?s2 ?pid" using us by (simp add: usable_def upd_frame_def s1)
    obtain d where w: "disk_write (pid_fd ?pid) (pid_no ?pid) (pg_data (pages s f)) ?s2 = (Inr (), ?s2\<lparr>disk_manager := d\<rparr>)"
      and tab: "same_tables (disk_manager ?s2) d" and ok3: "pool_ok (insert f X) (?s2\<lparr>disk_manager := d\<rparr>)"
      and new: "disk_page d (pid_fd ?pid) (pid_no ?pid) = trim (pg_data (pages s f))" and on: "on_disk d (pid_fd ?pid) (pid_no ?pid)"
      and oth: "\<And>q. 0 \<le> pid_no q \<Longrightarrow> q \<noteq> ?pid \<Longrightarrow>
        disk_page d (pid_fd q) (pid_no q) = disk_page (disk_manager ?s2) (pid_fd q) (pid_no q)"
      and onk: "\<And>q :: PageId. on_disk (disk_manager ?s2) (pid_fd q) (pid_no q) \<Longrightarrow> on_disk d (pid_fd q) (pid_no q)"
    proof (rule disk_write_ok [OF s2 us2, of "pg_data (pages s f)"])
      show "trim (pg_data (pages ?s2 h)) = trim (pg_data (pages s f))"
        if "page_table ?s2 ?pid = Some h" for h
        using that by (simp add: upd_frame_def s1)
    qed blast
    let ?u = "?s2\<lparr>disk_manager := d\<rparr>"
    have wb: "write_back f ?s2 = (Inr (), ?u)"
      using w by (simp add: write_back_def upd_frame_def s1)
    have pu: "pages ?u = (pages s)(f := (pages s f)\<lparr>pg_dirty := False\<rparr>)" by (simp add: upd_frame_def s1)
    have tu: "page_table ?u = (page_table s)(?pid := None)" by (simp add: upd_frame_def s1)
    have ds: "disk_manager ?s2 = disk_manager s" "pool_size ?u = pool_size s" by (simp_all add: upd_frame_def s1)
    have "keeps s ?u"
      unfolding keeps_def
    proof (intro conjI allI impI)
      fix q assume q: "usable s q"
      show "page_view ?u q = page_view s q"
      proof (cases "q = ?pid")
        case True
        then show ?thesis using own new by (simp add: page_view_def tu)
      next
        case ne: False
        have "h \<noteq> f" if "page_table s q = Some h" for h using that ne D(5) [OF that] by auto
        then show ?thesis using ne q oth [of q] pu
          by (cases "page_table s q") (auto simp: page_view_def tu ds usable_def addressable_def)
      qed
    next
      fix q assume st: "stored s q"
      then show "stored ?u q"
      proof (cases "q = ?pid")
        case True
        then show ?thesis using on by (simp add: stored_def)
      next
        case False
        then show ?thesis using st onk [of q] by (auto simp: stored_def tu ds)
      qed
    qed (use tab in \<open>simp_all add: ds\<close>)
    then show ?thesis
      using that [of ?u] wb ok3 pu tu V True by (simp add: s1)
  qed
qed

section \<open>Changing a frame that holds a page\<close>

lemma mapped_update:
  assumes ok: "pool_ok X s" and own: "page_table s pid = Some f"
    and id: "pg_id p = pid" and pin: "0 \<le> pg_pin p" and inv: "lru_inv r"
    and fr: "set (lru_frames r) = (if pg_pin p = 0 then insert f (set (lru_frames (replacer_of s)))
               else set (lru_frames (replacer_of s)) - {f})"
    and sync: "pg_pin p = 0 \<Longrightarrow> \<not> pg_dirty p \<Longrightarrow> on_disk (disk_manager s) (pid_fd pid) (pid_no pid) \<and>
               trim (pg_data p) = disk_page (disk_manager s) (pid_fd pid) (pid_no pid)"
  shows "pool_ok X (upd_frame f (\<lambda>_. p) (s\<lparr>replacer_of := r\<rparr>))"
    and "page_view (upd_frame f (\<lambda>_. p) (s\<lparr>replacer_of := r\<rparr>)) = (page_view s)(pid := trim (pg_data p))"
proof -
  note D = pool_okD [OF ok] and F = pool_okD(5) [OF ok own]
  let ?t = "upd_frame f (\<lambda>_. p) (s\<lparr>replacer_of := r\<rparr>)"
  have pg: "\<And>h. h \<noteq> f \<Longrightarrow> pages ?t h = pages s h" and pgf: "pages ?t f = p" by (simp_all add: upd_frame_def)
  have rest: "page_table ?t = page_table s" "free_list ?t = free_list s" "disk_manager ?t = disk_manager s"
    "replacer_of ?t = r" "pool_size ?t = pool_size s"
    by (simp_all add: upd_frame_def)
  have use: "usable ?t = usable s" by (simp add: usable_def fun_eq_iff rest)
  have ids: "pg_id (pages ?t h) = pg_id (pages s h)" for h
    using F id pg [of h] pgf by (cases "h = f") simp_all
  show "pool_ok X ?t"
  proof (rule pool_okI, unfold rest use ids)
    show "h < pool_size s \<and> h \<notin> X \<and> pg_pin (pages ?t h) = 0 \<and> \<not> pg_dirty (pages ?t h) \<and>
        pid_no (pg_id (pages s h)) = INVALID_PAGE_ID" if "h \<in> set (free_list s)" for h
      using D(4) [OF that] F that pg [of h] by (cases "h = f") simp_all
    show "h \<in> set (lru_frames r) \<longleftrightarrow> h < pool_size s \<and> h \<notin> X \<and> h \<notin> set (free_list s) \<and> pg_pin (pages ?t h) = 0" for h
      using D(7) [of h] F fr pg [of h] pgf by (cases "h = f") simp_all
    show "0 \<le> pg_pin (pages ?t h)" if "h < pool_size s" for h
      using D(8) [OF that] pin pg [of h] pgf by (cases "h = f") simp_all
    show "synced ?t h" if "page_table s q = Some h" "pg_pin (pages ?t h) = 0" "\<not> pg_dirty (pages ?t h)" for q h
    proof (cases "h = f")
      case True
      then show ?thesis using that(2,3) pgf sync id by (simp add: synced_def rest Let_def)
    next
      case False
      then show ?thesis using D(9) [OF that(1)] that(2,3) pg by (simp add: synced_def rest)
    qed
  qed (use inv D in auto)
  show "page_view ?t = (page_view s)(pid := trim (pg_data p))"
  proof
    fix q
    show "page_view ?t q = ((page_view s)(pid := trim (pg_data p))) q"
    proof (cases "q = pid")
      case True
      then show ?thesis using own pgf by (simp add: page_view_def rest)
    next
      case False
      have "h \<noteq> f" if "page_table s q = Some h" for h using D(5) [OF that] F False by auto
      then show ?thesis using False pg by (cases "page_table s q") (simp_all add: page_view_def rest)
    qed
  qed
qed

lemma mapped_keeps:
  assumes "page_view (upd_frame f g (s\<lparr>replacer_of := r\<rparr>)) = page_view s"
  shows "keeps s (upd_frame f g (s\<lparr>replacer_of := r\<rparr>))"
  using assms by (simp add: keeps_def stored_def, simp add: upd_frame_def)

lemma page_view_own: "page_table s pid = Some f \<Longrightarrow> (page_view s)(pid := trim (pg_data (pages s f))) = page_view s"
  by (simp add: page_view_def fun_eq_iff)

section \<open>FetchPage\<close>

lemma FetchPage_hit:
  assumes ok: "pool_ok X s" and own: "page_table s pid = Some f"
  obtains t where "FetchPage pid s = (Inr (Some f), t)" and "pool_ok X t" and "keeps s t"
    and "page_table t = page_table s" and "pages t = (pages s)(f := pg_pin_update (\<lambda>n. n + 1) (pages s f))"
proof -
  note D = pool_okD [OF ok] and F = pool_okD(5) [OF ok own]
  let ?p = "pg_pin_update (\<lambda>n. n + 1) (pages s f)" and ?r = "Pin f (replacer_of s)"
  let ?t = "upd_frame f (\<lambda>_. ?p) (s\<lparr>replacer_of := ?r\<rparr>)"
  have p: "0 < pg_pin ?p" using D(8) [of f] F by simp
  have M: "pool_ok X ?t" "page_view ?t = (page_view s)(pid := trim (pg_data ?p))"
    using mapped_update [OF ok own, of ?p ?r] F p lru.pin_frames [OF D(2), of f] by simp_all
  then have "page_view ?t = page_view s" using page_view_own [OF own] by simp
  note K = mapped_keeps [OF this]
  have "FetchPage pid s = (Inr (Some f), ?t)"
    using own by (simp add: FetchPage_def upd_frame_def)
  then show ?thesis using that M(1) K by (simp add: upd_frame_def)
qed

lemma read_frame_cases:
  assumes us: "usable u (pg_id (pages u f))"
  obtains (ok) d where "on_disk (disk_manager u) (pid_fd (pg_id (pages u f))) (pid_no (pg_id (pages u f)))"
      "read_frame f u = (Inr (), upd_frame f (pg_data_update (\<lambda>_. mcopy (pg_data (pages u f)) 0
         (disk_page (disk_manager u) (pid_fd (pg_id (pages u f))) (pid_no (pg_id (pages u f)))) 0 PAGE_SIZE))
         (u\<lparr>disk_manager := d\<rparr>))"
      "same_tables (disk_manager u) d" "disk_page d = disk_page (disk_manager u)" "on_disk d = on_disk (disk_manager u)"
  | (short) b d where "\<not> on_disk (disk_manager u) (pid_fd (pg_id (pages u f))) (pid_no (pg_id (pages u f)))"
      "read_frame f u = (Inl UnixError, upd_frame f (pg_data_update (\<lambda>_. b)) (u\<lparr>disk_manager := d\<rparr>))"
      "same_tables (disk_manager u) d" "disk_page d = disk_page (disk_manager u)" "on_disk d = on_disk (disk_manager u)"
      "pg_data (pages u f) = zero_mem \<Longrightarrow> b = disk_page (disk_manager u) (pid_fd (pg_id (pages u f))) (pid_no (pg_id (pages u f)))"
proof -
  let ?fd = "pid_fd (pg_id (pages u f))" and ?no = "pid_no (pg_id (pages u f))"
  let ?b = "pg_data (pages u f)"
  obtain ino where ino: "fd_ino (disk_manager u) ?fd = Some ino" and p: "addressable ?no"
    using us by (auto simp: usable_def)
  show ?thesis
  proof (cases "on_disk (disk_manager u) ?fd ?no")
    case True
    obtain d where r: "read_page ?fd ?no ?b PAGE_SIZE (disk_manager u) =
        (Inr (), mcopy ?b 0 (disk_page (disk_manager u) ?fd ?no) 0 PAGE_SIZE, d)"
      and rest: "same_tables (disk_manager u) d" "disk_page d = disk_page (disk_manager u)"
        "on_disk d = on_disk (disk_manager u)"
      using read_page_disk [OF ino p True, of ?b] by blast
    show ?thesis using ok [OF True _ rest] r by (simp add: read_frame_def Let_def)
  next
    case False
    obtain b d where r: "read_page ?fd ?no ?b PAGE_SIZE (disk_manager u) = (Inl UnixError, b, d)"
      and rest: "same_tables (disk_manager u) d" "disk_page d = disk_page (disk_manager u)"
        "on_disk d = on_disk (disk_manager u)" "?b = zero_mem \<Longrightarrow> b = disk_page (disk_manager u) ?fd ?no"
      using read_page_short [OF p False, of ?b] by metis
    show ?thesis using short [OF False _ rest] r by (simp add: read_frame_def)
  qed
qed

definition retag :: "bool \<Rightarrow> PageId \<Rightarrow> Page \<Rightarrow> Page" where
  "retag reset pid p = (if reset then ResetMemory p else p)\<lparr>pg_id := pid\<rparr>"

lemma retag_simps [simp]: "pg_id (retag b pid p) = pid" "pg_pin (retag b pid p) = pg_pin p"
    "pg_dirty (retag b pid p) = pg_dirty p"
  by (simp_all add: retag_def ResetMemory_def)

lemma UpdatePage_evicted:
  assumes run: "(if pg_dirty (pages s f) then write_back f (upd_frame f (pg_dirty_update (\<lambda>_. False)) s) else ret () s) = (Inr (), u)"
    and gone: "page_table u (pg_id (pages u f)) = None" and new: "page_table u pid = None"
    and no: "pid_no pid \<noteq> INVALID_PAGE_ID"
  shows "UpdatePage f pid f s = (Inr (), upd_frame f (retag True pid) (u\<lparr>page_table := (page_table u)(pid \<mapsto> f)\<rparr>))"
proof -
  have "(page_table u)(pg_id (pages u f) := None) = page_table u" using gone by (auto simp: fun_eq_iff)
  then have "table_insert pid f ((page_table u)(pg_id (pages u f) := None)) = (page_table u)(pid \<mapsto> f)"
    using new by (simp add: table_insert_def)
  then show ?thesis
    unfolding UpdatePage_def using no
    by (simp add: andthen_def run modify_st_def Let_def retag_def [abs_def])
qed

lemma read_frame_table:
  "read_frame f (s\<lparr>page_table := m\<rparr>) = (fst (read_frame f s), (snd (read_frame f s))\<lparr>page_table := m\<rparr>)"
  by (simp add: read_frame_def Let_def split_beta upd_frame_def)

lemma upd_frame_table: "upd_frame f g (s\<lparr>page_table := m\<rparr>) = (upd_frame f g s)\<lparr>page_table := m\<rparr>"
  by (simp add: upd_frame_def)

lemma page_table_read_frame [simp]: "page_table (snd (read_frame f s)) = page_table s"
    and pg_pin_read_frame [simp]: "pg_pin (pages (snd (read_frame f s)) f) = pg_pin (pages s f)"
  by (simp_all add: read_frame_def Let_def split_beta upd_frame_def)

lemma FetchPage_miss_run:
  assumes miss: "page_table s pid = None" and vic: "FindVictimPage s = (Some f, s1)"
    and out: "(if pg_dirty (pages s1 f) then write_back f (upd_frame f (pg_dirty_update (\<lambda>_. False)) s1) else ret () s1) = (Inr (), u)"
    and tu: "page_table u = (page_table s)(pg_id (pages s f) := None)" and pu: "pg_id (pages u f) = pg_id (pages s f)"
    and no: "pid_no pid \<noteq> INVALID_PAGE_ID" and pin: "pg_pin (pages u f) = 0"
  shows "FetchPage pid s =
    (case read_frame f (upd_frame f (retag (pg_dirty (pages s1 f)) pid) u) of
       (Inr _, t) \<Rightarrow> (Inr (Some f), attach f pid 1 t)
     | (Inl e, t) \<Rightarrow> (Inl e, if pg_dirty (pages s1 f) then t\<lparr>page_table := (page_table t)(pid \<mapsto> f)\<rparr> else t))"
proof -
  let ?w = "upd_frame f (retag (pg_dirty (pages s1 f)) pid) u"
  have new: "page_table u pid = None" using miss tu by simp
  have pinw: "pg_pin (pages (snd (read_frame f ?w)) f) = 0" using pin by (simp add: upd_frame_def)
  have tw: "page_table (snd (read_frame f ?w)) = page_table u" by (simp add: upd_frame_def)
  have fin: "upd_frame f (pg_pin_update (\<lambda>n. n + 1)) (t\<lparr>page_table := m, replacer_of := r\<rparr>)
      = upd_frame f (pg_pin_update (\<lambda>_. 1)) (t\<lparr>page_table := m, replacer_of := r\<rparr>)"
    if "pg_pin (pages t f) = 0" for t m r
    using that by (cases "pages t f") (simp add: upd_frame_def)
  show ?thesis
  proof (cases "pg_dirty (pages s1 f)")
    case False
    then have u: "u = s1" using out by (simp add: run_simps)
    have r: "upd_frame f (pg_id_update (\<lambda>_. pid)) s1 = ?w" using False u by (simp add: upd_frame_def retag_def)
    show ?thesis
      using miss vic False new pinw tw fin [of "snd (read_frame f ?w)"]
      unfolding FetchPage_def
      by (cases "read_frame f ?w"; cases "fst (read_frame f ?w)")
        (simp_all add: andthen_def modify_st_def r table_insert_def attach_def)
  next
    case True
    note up = UpdatePage_evicted [OF out _ new no]
    have up': "UpdatePage f pid f s1 = (Inr (), ?w\<lparr>page_table := (page_table u)(pid \<mapsto> f)\<rparr>)"
      using up tu pu True by (simp add: upd_frame_table)
    show ?thesis
      using miss vic True new pinw tw fin [of "snd (read_frame f ?w)"]
      unfolding FetchPage_def
      by (cases "read_frame f ?w"; cases "fst (read_frame f ?w)")
        (simp_all add: andthen_def up' [simplified True] read_frame_table table_insert_def attach_def)
  qed
qed

definition no_frame :: "BufferPoolManager \<Rightarrow> bool" where
  "no_frame s \<longleftrightarrow> free_list s = [] \<and> lru_frames (replacer_of s) = []"

lemma FetchPage_none:
  assumes "pool_ok X s" and "page_table s pid = None" and "no_frame s"
  shows "FetchPage pid s = (Inr None, s)"
proof -
  have "FindVictimPage s = (None, s)"
    using FindVictimPage_none [OF assms(1)] assms(3) by (cases "FindVictimPage s") (simp add: no_frame_def)
  then show ?thesis using assms(2) by (simp add: FetchPage_def)
qed

lemma take_frame:
  assumes ok: "pool_ok X s" and free: "\<not> no_frame s"
  obtains f s1 where "FindVictimPage s = (Some f, s1)"
  using FindVictimPage_none(1) [OF ok] free by (cases "FindVictimPage s"; cases "fst (FindVictimPage s)") (auto simp: no_frame_def)

lemma pool_ok_disk_read:
  assumes ok: "pool_ok X u" and tab: "same_tables (disk_manager u) d"
    and dp: "disk_page d = disk_page (disk_manager u)" and on: "on_disk d = on_disk (disk_manager u)"
  shows "pool_ok X (u\<lparr>disk_manager := d\<rparr>)" and "keeps u (u\<lparr>disk_manager := d\<rparr>)"
proof -
  show "pool_ok X (u\<lparr>disk_manager := d\<rparr>)"
    by (rule pool_ok_same_disk [OF ok tab]) (simp_all add: dp on)
  show "keeps u (u\<lparr>disk_manager := d\<rparr>)"
    using tab dp on by (simp add: keeps_def stored_def page_view_def split: option.splits)
qed

lemma FetchPage_miss:
  assumes inv: "pool_ok X s" and miss: "page_table s pid = None" and free: "\<not> no_frame s" and us: "usable s pid"
  obtains (ok) f t where "FetchPage pid s = (Inr (Some f), t)" "pool_ok X t" "keeps s t"
      "page_table t pid = Some f" "pg_pin (pages t f) = 1" "\<not> pg_dirty (pages t f)"
      "\<forall>q. q \<noteq> pid \<longrightarrow> page_table s q = None \<longrightarrow> page_table t q = None" "synced t f"
  | (short) t where "FetchPage pid s = (Inl UnixError, t)" "\<not> stored s pid"
proof -
  obtain f s1 where vic: "FindVictimPage s = (Some f, s1)" by (rule take_frame [OF inv free])
  obtain u where out: "(if pg_dirty (pages s1 f) then write_back f (upd_frame f (pg_dirty_update (\<lambda>_. False)) s1) else ret () s1) = (Inr (), u)"
    and U: "pool_ok (insert f X) u" "keeps s u" "page_table u = (page_table s)(pg_id (pages s f) := None)"
      "pages u = (pages s)(f := (pages s f)\<lparr>pg_dirty := False\<rparr>)" "f < pool_size s" "f \<notin> X" "pg_pin (pages s f) = 0"
    by (rule evict [OF inv vic])
  have no: "pid_no pid \<noteq> INVALID_PAGE_ID" using us invalid_not_usable by blast
  let ?w = "upd_frame f (retag (pg_dirty (pages s1 f)) pid) u"
  have run: "FetchPage pid s = (case read_frame f ?w of
       (Inr _, t) \<Rightarrow> (Inr (Some f), attach f pid 1 t)
     | (Inl e, t) \<Rightarrow> (Inl e, if pg_dirty (pages s1 f) then t\<lparr>page_table := (page_table t)(pid \<mapsto> f)\<rparr> else t))"
    by (rule FetchPage_miss_run [OF miss vic out U(3) _ no]) (simp_all add: U)
  have w: "pool_ok (insert f X) ?w" "keeps u ?w"
    using detached_update(1) [OF U(1)] detached_keeps [OF U(1)] by (simp_all add: U(4,7))
  have pw: "pages ?w f = retag (pg_dirty (pages s1 f)) pid (pages u f)" by (simp add: upd_frame_def)
  have kw: "keeps s ?w" by (rule keeps_trans [OF U(2) w(2)])
  have usw: "usable ?w pid" using us keeps_usable [OF kw] by simp
  have usw': "usable ?w (pg_id (pages ?w f))" using usw pw by simp
  have tw: "page_table ?w pid = None" using miss by (simp add: upd_frame_def U(3))
  show ?thesis
  proof (cases rule: read_frame_cases [OF usw'])
    case (1 d)
    let ?v = "?w\<lparr>disk_manager := d\<rparr>"
    let ?t = "upd_frame f (pg_data_update (\<lambda>_. mcopy (pg_data (pages ?w f)) 0 (disk_page (disk_manager ?w) (pid_fd pid) (pid_no pid)) 0 PAGE_SIZE)) ?v"
    have v: "pool_ok (insert f X) ?v" "keeps ?w ?v" by (rule pool_ok_disk_read [OF w(1) 1(3-5)])+
    have t: "pool_ok (insert f X) ?t" "keeps ?v ?t"
      using detached_update(1) [OF v(1)] detached_keeps [OF v(1)] pw by (simp_all add: U(4,7))
    have kt: "keeps s ?t" using keeps_trans [OF keeps_trans [OF kw v(2)] t(2)] .
    have pt: "pages ?t f = (pages ?w f)\<lparr>pg_data := mcopy (pg_data (pages ?w f)) 0 (disk_page (disk_manager ?w) (pid_fd pid) (pid_no pid)) 0 PAGE_SIZE\<rparr>"
      and tt: "page_table ?t pid = None"
      using tw by (simp_all add: upd_frame_def)
    have view: "trim (pg_data (pages ?t f)) = page_view ?t pid"
      using tt 1(4) by (simp add: pt page_view_def, simp add: upd_frame_def)
    have A: "pool_ok X (attach f pid 1 ?t)" "keeps ?t (attach f pid 1 ?t)"
      using attach_ok(1) [OF t(1), of 1 pid] attach_keeps [OF t(1), of 1 pid] U(5,6) keepsD(1) [OF kt] pt pw tt view
        us keeps_usable [OF kt] by simp_all
    have "FetchPage pid s = (Inr (Some f), attach f pid 1 ?t)"
      using run 1(2) pw by simp
    moreover have "\<not> pg_dirty (pages (attach f pid 1 ?t) f)"
      by (simp add: attach_def upd_frame_def U(4))
    moreover have "\<forall>q. q \<noteq> pid \<longrightarrow> page_table s q = None \<longrightarrow> page_table (attach f pid 1 ?t) q = None"
      by (simp add: attach_def upd_frame_def U(3))
    moreover have "synced (attach f pid 1 ?t) f"
      using 1(1,4,5) pw by (simp add: synced_def Let_def attach_def upd_frame_def)
    ultimately show ?thesis
      using ok [OF _ A(1) keeps_trans [OF kt A(2)]] by (simp add: attach_def upd_frame_def)
  next
    case (2 b d)
    have "\<not> stored ?w pid" using 2(1) tw pw by (simp add: stored_def)
    then have "\<not> stored s pid" using keepsD(4) [OF kw] by blast
    then show ?thesis using short run 2(2) by simp
  qed
qed

lemma FetchPage_short_run:
  assumes inv: "pool_ok X s" and miss: "page_table s pid = None" and us: "usable s pid"
    and vic: "FindVictimPage s = (Some f, s1)" and fail: "FetchPage pid s = (Inl e, t)"
  obtains v where "t = (if pg_dirty (pages s f) then v\<lparr>page_table := (page_table v)(pid \<mapsto> f)\<rparr> else v)"
    and "pool_ok (insert f X) v" "keeps s v" "page_table v pid = None" "pg_id (pages v f) = pid" "pg_pin (pages v f) = 0"
      "pg_dirty (pages s f) \<Longrightarrow> pg_data (pages v f) = disk_page (disk_manager s) (pid_fd pid) (pid_no pid)"
proof -
  obtain u where out: "(if pg_dirty (pages s1 f) then write_back f (upd_frame f (pg_dirty_update (\<lambda>_. False)) s1) else ret () s1) = (Inr (), u)"
    and U: "pool_ok (insert f X) u" "keeps s u" "page_table u = (page_table s)(pg_id (pages s f) := None)"
      "pages u = (pages s)(f := (pages s f)\<lparr>pg_dirty := False\<rparr>)" "f < pool_size s" "f \<notin> X" "pg_pin (pages s f) = 0"
    by (rule evict [OF inv vic])
  have no: "pid_no pid \<noteq> INVALID_PAGE_ID" using us invalid_not_usable by blast
  have d1: "pg_dirty (pages s1 f) = pg_dirty (pages s f)" by (subst FindVictimPage_some(4) [OF inv vic]) simp
  let ?w = "upd_frame f (retag (pg_dirty (pages s f)) pid) u"
  have run: "FetchPage pid s = (case read_frame f ?w of
       (Inr _, t) \<Rightarrow> (Inr (Some f), attach f pid 1 t)
     | (Inl e, t) \<Rightarrow> (Inl e, if pg_dirty (pages s f) then t\<lparr>page_table := (page_table t)(pid \<mapsto> f)\<rparr> else t))"
    unfolding d1 [symmetric] by (rule FetchPage_miss_run [OF miss vic out U(3) _ no]) (simp_all add: U)
  have w: "pool_ok (insert f X) ?w" "keeps u ?w"
    using detached_update(1) [OF U(1)] detached_keeps [OF U(1)] by (simp_all add: U(4,7))
  have pw: "pages ?w f = retag (pg_dirty (pages s f)) pid (pages u f)" by (simp add: upd_frame_def)
  have kw: "keeps s ?w" by (rule keeps_trans [OF U(2) w(2)])
  have usw: "usable ?w (pg_id (pages ?w f))" using us keeps_usable [OF kw] pw by simp
  have tw: "page_table ?w pid = None" using miss by (simp add: upd_frame_def U(3))
  have dw: "disk_page (disk_manager ?w) (pid_fd pid) (pid_no pid) = disk_page (disk_manager s) (pid_fd pid) (pid_no pid)"
    using keepsD(3) [OF kw us] miss tw by (simp add: page_view_def)
  show ?thesis
  proof (cases rule: read_frame_cases [OF usw])
    case (1 d)
    then show ?thesis using run fail by simp
  next
    case (2 b d)
    let ?v = "upd_frame f (pg_data_update (\<lambda>_. b)) (?w\<lparr>disk_manager := d\<rparr>)"
    have x: "pool_ok (insert f X) (?w\<lparr>disk_manager := d\<rparr>)" "keeps ?w (?w\<lparr>disk_manager := d\<rparr>)"
      by (rule pool_ok_disk_read [OF w(1) 2(3-5)])+
    have v: "pool_ok (insert f X) ?v" "keeps (?w\<lparr>disk_manager := d\<rparr>) ?v"
      using detached_update(1) [OF x(1)] detached_keeps [OF x(1)] pw by (simp_all add: U(4,7))
    have "t = (if pg_dirty (pages s f) then ?v\<lparr>page_table := (page_table ?v)(pid \<mapsto> f)\<rparr> else ?v)"
      using run fail 2(2) by simp
    moreover have "keeps s ?v" by (rule keeps_trans [OF keeps_trans [OF kw x(2)] v(2)])
    moreover have "pg_data (pages ?v f) = disk_page (disk_manager s) (pid_fd pid) (pid_no pid)" if "pg_dirty (pages s f)"
      using that 2(6) dw by (simp add: upd_frame_def retag_def ResetMemory_def)
    moreover have "page_table ?v pid = None" "pg_id (pages ?v f) = pid" "pg_pin (pages ?v f) = 0"
      using tw by (simp_all add: upd_frame_def U(4,7))
    ultimately show ?thesis using that v(1) by blast
  qed
qed

lemma FetchPage_ok:
  assumes ok: "pool_ok X s" and us: "usable s pid" and st: "stored s pid"
  obtains (none) "FetchPage pid s = (Inr None, s)" "page_table s pid = None" "no_frame s"
  | (some) f t where "FetchPage pid s = (Inr (Some f), t)" "pool_ok X t" "keeps s t" "page_table t pid = Some f"
      "0 < pg_pin (pages t f)" "trim (pg_data (pages t f)) = page_view s pid"
      "\<forall>q. q \<noteq> pid \<longrightarrow> page_table s q = None \<longrightarrow> page_table t q = None"
proof (cases "page_table s pid")
  case (Some f)
  obtain t where t: "FetchPage pid s = (Inr (Some f), t)" "pool_ok X t" "keeps s t" "page_table t = page_table s"
    "pages t = (pages s)(f := pg_pin_update (\<lambda>n. n + 1) (pages s f))"
    by (rule FetchPage_hit [OF ok Some])
  have "0 \<le> pg_pin (pages s f)" using pool_okD(5,8) [OF ok] Some by blast
  then show ?thesis using some [OF t(1-3)] t(4,5) Some by (simp add: page_view_def)
next
  case None
  show ?thesis
  proof (cases "no_frame s")
    case True
    then show ?thesis using none FetchPage_none [OF ok None] None by blast
  next
    case False
    show ?thesis
    proof (cases rule: FetchPage_miss [OF ok None False us])
      case (1 f t)
      have "page_view t pid = page_view s pid" using keepsD(3) [OF 1(3) us] .
      then show ?thesis using some [OF 1(1-4)] 1(4,5,7) by (simp add: page_view_def)
    next
      case (2 t)
      then show ?thesis using st by blast
    qed
  qed
qed

text \<open>A page that was not pinned before can be released without the dirty flag.\<close>

lemma FetchPage_synced:
  assumes ok: "pool_ok X s" and us: "usable s pid" and run: "FetchPage pid s = (Inr (Some f), t)"
    and one: "pg_pin (pages t f) = 1" and clean: "\<not> pg_dirty (pages t f)"
  shows "synced t f"
proof (cases "page_table s pid")
  case (Some k)
  then have t: "t = upd_frame f (pg_pin_update (\<lambda>n. n + 1)) (s\<lparr>replacer_of := Pin f (replacer_of s)\<rparr>)" and k: "k = f"
    using run by (auto simp: FetchPage_def)
  have "pg_pin (pages s f) = 0" "\<not> pg_dirty (pages s f)" using one clean by (simp_all add: t upd_frame_def)
  then have "synced s f" using pool_okD(9) [OF ok] Some k by blast
  then show ?thesis by (simp add: t synced_def upd_frame_def Let_def)
next
  case None
  then have free: "\<not> no_frame s" using run FetchPage_none [OF ok None] by auto
  show ?thesis using FetchPage_miss [OF ok None free us] run by fastforce
qed

section \<open>UnpinPage, FlushPage and writes through a page pointer\<close>

lemma UnpinPage_false:
  assumes "page_table s pid = None \<or> (\<exists>f. page_table s pid = Some f \<and> pg_pin (pages s f) \<le> 0)"
  shows "UnpinPage pid dirty s = (False, s)"
  using assms by (auto simp: UnpinPage_def)

lemma unpinned_page:
  "p\<lparr>pg_pin := pg_pin p - 1, pg_dirty := d \<or> pg_dirty p\<rparr> =
    (if d then pg_dirty_update (\<lambda>_. True) (pg_pin_update (\<lambda>n. n - 1) p) else pg_pin_update (\<lambda>n. n - 1) p)"
  by (cases p) simp

lemma UnpinPage_ok:
  assumes ok: "pool_ok X s" and own: "page_table s pid = Some f" and pin: "0 < pg_pin (pages s f)"
    and sync: "pg_pin (pages s f) = 1 \<Longrightarrow> \<not> dirty \<Longrightarrow> \<not> pg_dirty (pages s f) \<Longrightarrow> synced s f"
  obtains t where "UnpinPage pid dirty s = (True, t)" and "pool_ok X t" and "keeps s t"
    and "page_table t = page_table s" and "disk_manager t = disk_manager s"
    and "pages t = (pages s)(f := (pages s f)\<lparr>pg_pin := pg_pin (pages s f) - 1, pg_dirty := dirty \<or> pg_dirty (pages s f)\<rparr>)"
proof -
  note D = pool_okD [OF ok] and F = pool_okD(5) [OF ok own]
  let ?p = "(pages s f)\<lparr>pg_pin := pg_pin (pages s f) - 1, pg_dirty := dirty \<or> pg_dirty (pages s f)\<rparr>"
  let ?r = "if pg_pin (pages s f) = 1 then Unpin f (replacer_of s) else replacer_of s"
  let ?t = "upd_frame f (\<lambda>_. ?p) (s\<lparr>replacer_of := ?r\<rparr>)"
  have nf: "f \<notin> set (lru_frames (replacer_of s))" using D(7) [of f] pin by simp
  have inv: "lru_inv ?r" using D(2) lru.unpin_frames [OF D(2), of f] by simp
  have fr: "set (lru_frames ?r) = (if pg_pin ?p = 0 then insert f (set (lru_frames (replacer_of s)))
      else set (lru_frames (replacer_of s)) - {f})"
    using nf lru.set_frames_unpin [OF D(2), of f] by simp
  have sy: "on_disk (disk_manager s) (pid_fd pid) (pid_no pid) \<and>
      trim (pg_data ?p) = disk_page (disk_manager s) (pid_fd pid) (pid_no pid)"
    if "pg_pin ?p = 0" "\<not> pg_dirty ?p"
  proof -
    have "synced s f" using sync that by simp
    then show ?thesis using F by (simp add: synced_def Let_def)
  qed
  have id: "pg_id ?p = pid" "0 \<le> pg_pin ?p" using F pin by simp_all
  note M = mapped_update [OF ok own id inv fr sy]
  then have "page_view ?t = page_view s" using page_view_own [OF own] by simp
  note K = mapped_keeps [OF this]
  have "UnpinPage pid dirty s = (True, ?t)"
    unfolding unpinned_page using own pin
    by (cases dirty) (simp_all add: UnpinPage_def upd_frame_def Let_def)
  then show ?thesis using that M(1) K by (simp add: upd_frame_def)
qed

text \<open>What a holder of a pinned page stores through the pointer.\<close>

definition store_page :: "frame_id \<Rightarrow> mem \<Rightarrow> BufferPoolManager \<Rightarrow> BufferPoolManager" where
  "store_page f m s = upd_frame f (pg_data_update (\<lambda>_. m)) s"

lemma store_page_ok:
  assumes ok: "pool_ok X s" and own: "page_table s pid = Some f" and pin: "0 < pg_pin (pages s f)"
  shows "pool_ok X (store_page f m s)" and "page_view (store_page f m s) = (page_view s)(pid := trim m)"
    and "stored (store_page f m s) = stored s" and "usable (store_page f m s) = usable s"
proof -
  note D = pool_okD [OF ok] and F = pool_okD(5) [OF ok own]
  have e: "store_page f m s = upd_frame f (\<lambda>_. (pages s f)\<lparr>pg_data := m\<rparr>) (s\<lparr>replacer_of := replacer_of s\<rparr>)"
    by (simp add: store_page_def upd_frame_def)
  have nf: "f \<notin> set (lru_frames (replacer_of s))" using D(7) [of f] pin by simp
  show "pool_ok X (store_page f m s)" and "page_view (store_page f m s) = (page_view s)(pid := trim m)"
    unfolding e using mapped_update [OF ok own, of "(pages s f)\<lparr>pg_data := m\<rparr>" "replacer_of s"] F pin nf D(2)
    by simp_all
  show "stored (store_page f m s) = stored s" and "usable (store_page f m s) = usable s"
    by (simp_all add: stored_def usable_def store_page_def upd_frame_def fun_eq_iff)
qed

lemma clean_mapped:
  assumes ok: "pool_ok X s" and own: "page_table s pid = Some f" and sync: "synced s f"
  shows "pool_ok X (upd_frame f (pg_dirty_update (\<lambda>_. False)) s)"
    and "keeps s (upd_frame f (pg_dirty_update (\<lambda>_. False)) s)"
proof -
  note D = pool_okD [OF ok] and F = pool_okD(5) [OF ok own]
  let ?p = "(pages s f)\<lparr>pg_dirty := False\<rparr>"
  have e: "upd_frame f (pg_dirty_update (\<lambda>_. False)) s = upd_frame f (\<lambda>_. ?p) (s\<lparr>replacer_of := replacer_of s\<rparr>)"
    by (simp add: upd_frame_def)
  have fr: "set (lru_frames (replacer_of s)) = (if pg_pin ?p = 0 then insert f (set (lru_frames (replacer_of s)))
      else set (lru_frames (replacer_of s)) - {f})"
    using D(7) [of f] F by auto
  have M: "pool_ok X (upd_frame f (\<lambda>_. ?p) (s\<lparr>replacer_of := replacer_of s\<rparr>))"
    "page_view (upd_frame f (\<lambda>_. ?p) (s\<lparr>replacer_of := replacer_of s\<rparr>)) = (page_view s)(pid := trim (pg_data ?p))"
    using mapped_update [OF ok own _ _ D(2) fr] F D(8) [of f] sync by (simp_all add: synced_def Let_def)
  show "pool_ok X (upd_frame f (pg_dirty_update (\<lambda>_. False)) s)" unfolding e by (rule M)
  show "keeps s (upd_frame f (pg_dirty_update (\<lambda>_. False)) s)"
    unfolding e using M(2) page_view_own [OF own] by (intro mapped_keeps) simp
qed

lemma write_back_mapped:
  assumes ok: "pool_ok X s" and own: "page_table s pid = Some f"
  obtains d where "write_back f s = (Inr (), s\<lparr>disk_manager := d\<rparr>)" and "pool_ok X (s\<lparr>disk_manager := d\<rparr>)"
    and "keeps s (s\<lparr>disk_manager := d\<rparr>)" and "synced (s\<lparr>disk_manager := d\<rparr>) f"
    and "\<And>h. page_table s (pg_id (pages s h)) = Some h \<Longrightarrow> synced s h \<Longrightarrow> synced (s\<lparr>disk_manager := d\<rparr>) h"
proof -
  note F = pool_okD(5) [OF ok own]
  obtain d where w: "disk_write (pid_fd pid) (pid_no pid) (pg_data (pages s f)) s = (Inr (), s\<lparr>disk_manager := d\<rparr>)"
    and tab: "same_tables (disk_manager s) d" and ok': "pool_ok X (s\<lparr>disk_manager := d\<rparr>)"
    and new: "disk_page d (pid_fd pid) (pid_no pid) = trim (pg_data (pages s f))" and on: "on_disk d (pid_fd pid) (pid_no pid)"
    and oth: "\<And>q. 0 \<le> pid_no q \<Longrightarrow> q \<noteq> pid \<Longrightarrow>
      disk_page d (pid_fd q) (pid_no q) = disk_page (disk_manager s) (pid_fd q) (pid_no q)"
    and onk: "\<And>q :: PageId. on_disk (disk_manager s) (pid_fd q) (pid_no q) \<Longrightarrow> on_disk d (pid_fd q) (pid_no q)"
  proof (rule disk_write_ok [OF ok, of pid "pg_data (pages s f)"])
    show "usable s pid" using F by blast
    show "trim (pg_data (pages s h)) = trim (pg_data (pages s f))" if "page_table s pid = Some h" for h
      using that own by simp
  qed blast
  have "keeps s (s\<lparr>disk_manager := d\<rparr>)"
    unfolding keeps_def
  proof (intro conjI allI impI)
    show "page_view (s\<lparr>disk_manager := d\<rparr>) q = page_view s q" if "usable s q" for q
      using own new oth [of q] that
      by (cases "q = pid"; cases "page_table s q") (auto simp: page_view_def usable_def addressable_def)
    show "stored (s\<lparr>disk_manager := d\<rparr>) q" if "stored s q" for q
      using that onk [of q] by (auto simp: stored_def)
  qed (use tab in simp_all)
  moreover have "synced (s\<lparr>disk_manager := d\<rparr>) f" using F on new by (simp add: synced_def Let_def)
  moreover have "write_back f s = (Inr (), s\<lparr>disk_manager := d\<rparr>)" using w F by (simp add: write_back_def)
  moreover have "synced (s\<lparr>disk_manager := d\<rparr>) h" if "page_table s (pg_id (pages s h)) = Some h" "synced s h" for h
  proof (cases "pg_id (pages s h) = pid")
    case True
    then show ?thesis using on new that own by (simp add: synced_def Let_def)
  next
    case False
    moreover have "0 \<le> pid_no (pg_id (pages s h))"
      using pool_okD(5) [OF ok that(1)] by (simp add: usable_def addressable_def)
    ultimately show ?thesis using oth [of "pg_id (pages s h)"] onk [of "pg_id (pages s h)"] that(2)
      by (simp add: synced_def Let_def)
  qed
  ultimately show ?thesis using that ok' by blast
qed

lemma flush_mapped:
  assumes ok: "pool_ok X s" and own: "page_table s pid = Some f"
  obtains t where "andthen (write_back f) (\<lambda>_ t. (Inr x, upd_frame f (pg_dirty_update (\<lambda>_. False)) t)) s = (Inr x, t)"
    and "pool_ok X t" and "keeps s t" and "synced t f" and "pages t = (pages s)(f := (pages s f)\<lparr>pg_dirty := False\<rparr>)"
    and "page_table t = page_table s" and "disk_page (disk_manager t) (pid_fd pid) (pid_no pid) = page_view s pid"
    and "\<And>h. page_table s (pg_id (pages s h)) = Some h \<Longrightarrow> synced s h \<Longrightarrow> synced t h"
proof -
  note F = pool_okD(5) [OF ok own]
  obtain d where w: "write_back f s = (Inr (), s\<lparr>disk_manager := d\<rparr>)" and ok': "pool_ok X (s\<lparr>disk_manager := d\<rparr>)"
    and k: "keeps s (s\<lparr>disk_manager := d\<rparr>)" and sy: "synced (s\<lparr>disk_manager := d\<rparr>) f"
    and oth: "\<And>h. page_table s (pg_id (pages s h)) = Some h \<Longrightarrow> synced s h \<Longrightarrow> synced (s\<lparr>disk_manager := d\<rparr>) h"
    using write_back_mapped [OF ok own] by blast
  let ?s = "s\<lparr>disk_manager := d\<rparr>" and ?t = "upd_frame f (pg_dirty_update (\<lambda>_. False)) (s\<lparr>disk_manager := d\<rparr>)"
  have own': "page_table ?s pid = Some f" using own by simp
  note C = clean_mapped [OF ok' own' sy]
  have "synced ?t f" and dp: "disk_page (disk_manager ?t) (pid_fd pid) (pid_no pid) = page_view s pid"
    using sy F own by (simp_all add: synced_def Let_def upd_frame_def page_view_def)
  moreover have "andthen (write_back f) (\<lambda>_ t. (Inr x, upd_frame f (pg_dirty_update (\<lambda>_. False)) t)) s = (Inr x, ?t)"
    using w by (simp add: andthen_def)
  moreover have "synced ?t h" if "page_table s (pg_id (pages s h)) = Some h" "synced s h" for h
    using oth [OF that] by (cases "h = f") (simp_all add: synced_def Let_def upd_frame_def)
  moreover have "pages ?t = (pages s)(f := (pages s f)\<lparr>pg_dirty := False\<rparr>)" "page_table ?t = page_table s"
    by (simp_all add: upd_frame_def)
  ultimately show ?thesis using that [of ?t] C(1) keeps_trans [OF k C(2)] by blast
qed

lemma FlushPage_ok:
  assumes ok: "pool_ok X s" and own: "page_table s pid = Some f"
  obtains t where "FlushPage pid s = (Inr True, t)" and "pool_ok X t" and "keeps s t" and "page_table t = page_table s"
    and "pages t = (pages s)(f := (pages s f)\<lparr>pg_dirty := False\<rparr>)"
    and "disk_page (disk_manager t) (pid_fd pid) (pid_no pid) = page_view s pid"
proof (rule flush_mapped [OF ok own, of True])
  fix t assume "andthen (write_back f) (\<lambda>_ t. (Inr True, upd_frame f (pg_dirty_update (\<lambda>_. False)) t)) s = (Inr True, t)"
    and t: "pool_ok X t" "keeps s t" "pages t = (pages s)(f := (pages s f)\<lparr>pg_dirty := False\<rparr>)"
      "page_table t = page_table s" "disk_page (disk_manager t) (pid_fd pid) (pid_no pid) = page_view s pid"
  then have "FlushPage pid s = (Inr True, t)" using own by (simp add: FlushPage_def)
  then show ?thesis using that t by blast
qed

section \<open>FlushAllPages\<close>

lemma flush_frame_ok:
  assumes ok: "bpm_inv s" and i: "i < pool_size s"
  obtains t where "flush_frame fd i s = (Inr (), t)" and "bpm_inv t" and "keeps s t" and "page_table t = page_table s"
    and "\<And>h. pg_id (pages t h) = pg_id (pages s h)"
    and "\<And>h. page_table s (pg_id (pages s h)) = Some h \<Longrightarrow> synced s h \<Longrightarrow> synced t h"
    and "page_table s (pg_id (pages s i)) = Some i \<Longrightarrow> pid_fd (pg_id (pages s i)) = fd \<Longrightarrow> synced t i"
proof (cases "pid_fd (pg_id (pages s i)) = fd \<and> pid_no (pg_id (pages s i)) \<noteq> INVALID_PAGE_ID")
  case True
  then have own: "page_table s (pg_id (pages s i)) = Some i"
    using pool_okD(4,6) [OF ok] i by blast
  show ?thesis
  proof (rule flush_mapped [OF ok own, of "()"])
    fix t assume r: "andthen (write_back i) (\<lambda>_ t. (Inr (), upd_frame i (pg_dirty_update (\<lambda>_. False)) t)) s = (Inr (), t)"
      and t: "bpm_inv t" "keeps s t" "synced t i" "pages t = (pages s)(i := (pages s i)\<lparr>pg_dirty := False\<rparr>)"
        "page_table t = page_table s"
        "\<And>h. page_table s (pg_id (pages s h)) = Some h \<Longrightarrow> synced s h \<Longrightarrow> synced t h"
    have "flush_frame fd i s = (Inr (), t)"
      using r True by (simp add: flush_frame_def modify_st_def [abs_def])
    moreover have "\<And>h. pg_id (pages t h) = pg_id (pages s h)" using t(4) by simp
    ultimately show ?thesis using that [of t] t by blast
  qed
next
  case False
  have "flush_frame fd i s = (Inr (), s)" unfolding flush_frame_def by (simp only: False if_False)
  moreover have "page_table s (pg_id (pages s i)) = Some i \<Longrightarrow> pid_fd (pg_id (pages s i)) \<noteq> fd"
    using pool_okD(5) [OF ok, of "pg_id (pages s i)" i] invalid_not_usable False by blast
  ultimately show ?thesis using that [of s] ok by auto
qed

lemma flush_frames_ok:
  assumes "bpm_inv s" and "\<And>i. i \<in> set is \<Longrightarrow> i < pool_size s"
  obtains t where "for_each (flush_frame fd) is s = (Inr (), t)" and "bpm_inv t" and "keeps s t"
    and "page_table t = page_table s" and "\<And>h. pg_id (pages t h) = pg_id (pages s h)"
    and "\<And>h. page_table s (pg_id (pages s h)) = Some h \<Longrightarrow>
      synced s h \<or> h \<in> set is \<and> pid_fd (pg_id (pages s h)) = fd \<Longrightarrow> synced t h"
  using assms
proof (induction "is" arbitrary: s thesis)
  case Nil
  show ?case by (rule Nil.prems(1) [of s]) (use Nil.prems in auto)
next
  case (Cons i "is")
  have i: "i < pool_size s" using Cons.prems(3) by simp
  obtain u where u: "flush_frame fd i s = (Inr (), u)" "bpm_inv u" "keeps s u" "page_table u = page_table s"
      "\<And>h. pg_id (pages u h) = pg_id (pages s h)"
      "\<And>h. page_table s (pg_id (pages s h)) = Some h \<Longrightarrow> synced s h \<Longrightarrow> synced u h"
      "page_table s (pg_id (pages s i)) = Some i \<Longrightarrow> pid_fd (pg_id (pages s i)) = fd \<Longrightarrow> synced u i"
    using flush_frame_ok [OF Cons.prems(2) i, of fd] by blast
  have bd: "\<And>j. j \<in> set is \<Longrightarrow> j < pool_size u" using Cons.prems(3) keepsD(1) [OF u(3)] by simp
  obtain t where t: "for_each (flush_frame fd) is u = (Inr (), t)" "bpm_inv t" "keeps u t"
      "page_table t = page_table u" "\<And>h. pg_id (pages t h) = pg_id (pages u h)"
      "\<And>h. page_table u (pg_id (pages u h)) = Some h \<Longrightarrow>
        synced u h \<or> h \<in> set is \<and> pid_fd (pg_id (pages u h)) = fd \<Longrightarrow> synced t h"
    using Cons.IH [OF _ u(2) bd] by blast
  show ?case
  proof (rule Cons.prems(1) [of t])
    show "for_each (flush_frame fd) (i # is) s = (Inr (), t)" using u(1) t(1) by simp
    show "keeps s t" by (rule keeps_trans [OF u(3) t(3)])
    show "synced t h" if h: "page_table s (pg_id (pages s h)) = Some h"
      "synced s h \<or> h \<in> set (i # is) \<and> pid_fd (pg_id (pages s h)) = fd" for h
    proof -
      have "synced u h \<or> h \<in> set is \<and> pid_fd (pg_id (pages u h)) = fd"
        using u(6) [OF h(1)] u(7) u(5) [of h] h by auto
      then show ?thesis using t(6) [of h] h(1) u(4) u(5) [of h] by simp
    qed
  qed (use t u in simp_all)
qed

lemma FlushAllPages_ok:
  assumes ok: "bpm_inv s"
  obtains t where "FlushAllPages fd s = (Inr (), t)" and "bpm_inv t" and "keeps s t" and "page_table t = page_table s"
    and "\<And>pid. usable s pid \<Longrightarrow> pid_fd pid = fd \<Longrightarrow>
      disk_page (disk_manager t) (pid_fd pid) (pid_no pid) = page_view s pid"
proof -
  obtain t where t: "for_each (flush_frame fd) [0..<pool_size s] s = (Inr (), t)" "bpm_inv t" "keeps s t"
      "page_table t = page_table s" "\<And>h. pg_id (pages t h) = pg_id (pages s h)"
      "\<And>h. page_table s (pg_id (pages s h)) = Some h \<Longrightarrow>
        synced s h \<or> h \<in> set [0..<pool_size s] \<and> pid_fd (pg_id (pages s h)) = fd \<Longrightarrow> synced t h"
    using flush_frames_ok [OF ok, of "[0..<pool_size s]" fd] by (metis atLeastLessThan_iff set_upt)
  have "disk_page (disk_manager t) (pid_fd pid) (pid_no pid) = page_view s pid"
    if us: "usable s pid" and fd: "pid_fd pid = fd" for pid
  proof -
    have v: "page_view t pid = page_view s pid" using keepsD(3) [OF t(3) us] .
    show ?thesis
    proof (cases "page_table s pid")
      case None
      then show ?thesis using v t(4) by (simp add: page_view_def)
    next
      case (Some f)
      note F = pool_okD(5) [OF ok Some]
      have "synced t f" using t(6) [of f] F Some fd by simp
      then show ?thesis using v Some t(4) t(5) [of f] F by (simp add: page_view_def synced_def Let_def)
    qed
  qed
  then show ?thesis using that t by (simp add: FlushAllPages_def)
qed

section \<open>NewPage\<close>

lemma FindVictimPage_disk:
  "FindVictimPage (s\<lparr>disk_manager := d\<rparr>) = (fst (FindVictimPage s), (snd (FindVictimPage s))\<lparr>disk_manager := d\<rparr>)"
  by (simp add: FindVictimPage_def split: list.splits option.splits prod.splits)

lemma fd2pageno_keeps:
  "fd_ino (d\<lparr>fd2pageno := m\<rparr>) = fd_ino d" "disk_page (d\<lparr>fd2pageno := m\<rparr>) = disk_page d"
  "on_disk (d\<lparr>fd2pageno := m\<rparr>) = on_disk d" "open_files_ok (d\<lparr>fd2pageno := m\<rparr>) = open_files_ok d"
proof -
  show f: "fd_ino (d\<lparr>fd2pageno := m\<rparr>) = fd_ino d" by (simp add: fd_ino_def fun_eq_iff)
  show "disk_page (d\<lparr>fd2pageno := m\<rparr>) = disk_page d"
    by (intro ext) (simp add: disk_page_def f file_byte_def split: option.splits)
  show "on_disk (d\<lparr>fd2pageno := m\<rparr>) = on_disk d"
    by (intro ext) (simp add: on_disk_def f split: option.splits)
  show "open_files_ok (d\<lparr>fd2pageno := m\<rparr>) = open_files_ok d"
    by (simp add: open_files_ok_def f)
qed

lemma pool_ok_fd2pageno:
  assumes ok: "pool_ok X s"
  shows "pool_ok X (s\<lparr>disk_manager := (disk_manager s)\<lparr>fd2pageno := m\<rparr>\<rparr>)"
    and "page_view (s\<lparr>disk_manager := (disk_manager s)\<lparr>fd2pageno := m\<rparr>\<rparr>) = page_view s"
    and "usable (s\<lparr>disk_manager := (disk_manager s)\<lparr>fd2pageno := m\<rparr>\<rparr>) = usable s"
    and "stored (s\<lparr>disk_manager := (disk_manager s)\<lparr>fd2pageno := m\<rparr>\<rparr>) = stored s"
proof -
  let ?t = "s\<lparr>disk_manager := (disk_manager s)\<lparr>fd2pageno := m\<rparr>\<rparr>"
  have us: "usable ?t = usable s" by (simp add: usable_def fun_eq_iff fd2pageno_keeps)
  have sy: "synced ?t = synced s" by (simp add: synced_def fun_eq_iff fd2pageno_keeps)
  show "pool_ok X ?t"
    using ok unfolding pool_ok_def us sy by (simp add: fd2pageno_keeps) blast
  show "usable ?t = usable s" by (rule us)
  show "page_view ?t = page_view s"
    by (intro ext) (simp add: page_view_def fd2pageno_keeps split: option.splits)
  show "stored ?t = stored s" by (simp add: stored_def fun_eq_iff fd2pageno_keeps)
qed

definition next_page :: "BufferPoolManager \<Rightarrow> int \<Rightarrow> PageId" where
  "next_page s fd = \<lparr>pid_fd = fd, pid_no = fd2pageno (disk_manager s) fd\<rparr>"

lemma NewPage_none:
  assumes "pool_ok X s" and "no_frame s"
  shows "NewPage fd s = (Inr None, s)"
proof -
  have "FindVictimPage s = (None, s)"
    using FindVictimPage_none [OF assms(1)] assms(2) by (cases "FindVictimPage s") (simp add: no_frame_def)
  then show ?thesis by (simp add: NewPage_def)
qed

lemma NewPage_some:
  assumes ok: "pool_ok X s" and free: "\<not> no_frame s" and fd: "0 \<le> fd" "fd < MAX_FD"
    and us: "usable s (next_page s fd)" and new: "page_table s (next_page s fd) = None"
  obtains f t where "NewPage fd s = (Inr (Some (f, next_page s fd)), t)" and "pool_ok X t"
    and "page_table t (next_page s fd) = Some f" and "pg_pin (pages t f) = 1" and "pg_data (pages t f) = zero_mem"
    and "usable t = usable s" and "\<And>pid. stored s pid \<Longrightarrow> stored t pid"
    and "\<And>pid. usable s pid \<Longrightarrow> page_view t pid = ((page_view s)(next_page s fd := zero_mem)) pid"
    and "fd2pageno (disk_manager t) fd = to_i32 (fd2pageno (disk_manager s) fd + 1)"
    and "\<And>q. q \<noteq> next_page s fd \<Longrightarrow> page_table s q = None \<Longrightarrow> page_table t q = None"
proof -
  let ?pid = "next_page s fd"
  let ?d = "(disk_manager s)\<lparr>fd2pageno := (fd2pageno (disk_manager s))(fd := to_i32 (fd2pageno (disk_manager s) fd + 1))\<rparr>"
  let ?s = "s\<lparr>disk_manager := ?d\<rparr>"
  note A = pool_ok_fd2pageno [OF ok, of "(fd2pageno (disk_manager s))(fd := to_i32 (fd2pageno (disk_manager s) fd + 1))"]
  obtain f s1 where vic: "FindVictimPage s = (Some f, s1)" by (rule take_frame [OF ok free])
  have d1: "disk_manager s1 = disk_manager s"
    by (subst FindVictimPage_some(4) [OF ok vic]) simp
  have vic': "FindVictimPage ?s = (Some f, s1\<lparr>disk_manager := ?d\<rparr>)" using vic by (simp add: FindVictimPage_disk)
  let ?s1 = "s1\<lparr>disk_manager := ?d\<rparr>"
  obtain u where out: "(if pg_dirty (pages ?s1 f) then write_back f (upd_frame f (pg_dirty_update (\<lambda>_. False)) ?s1) else ret () ?s1) = (Inr (), u)"
    and U: "pool_ok (insert f X) u" "keeps ?s u" "page_table u = (page_table ?s)(pg_id (pages ?s f) := None)"
      "pages u = (pages ?s)(f := (pages ?s f)\<lparr>pg_dirty := False\<rparr>)" "f < pool_size ?s" "f \<notin> X" "pg_pin (pages ?s f) = 0"
    by (rule evict [OF A(1) vic'])
  have no: "pid_no ?pid \<noteq> INVALID_PAGE_ID" using us invalid_not_usable by blast
  have newu: "page_table u ?pid = None" using new U(3) by simp
  have up: "UpdatePage f ?pid f ?s1 = (Inr (), upd_frame f (retag True ?pid) (u\<lparr>page_table := (page_table u)(?pid \<mapsto> f)\<rparr>))"
    by (rule UpdatePage_evicted [OF out _ newu no]) (simp add: U)
  let ?w = "upd_frame f (retag True ?pid) u"
  let ?t = "attach f ?pid 1 ?w"
  have w: "pool_ok (insert f X) ?w" "keeps u ?w"
    using detached_update(1) [OF U(1)] detached_keeps [OF U(1)] U(4,7) by simp_all
  have kw: "keeps ?s ?w" by (rule keeps_trans [OF U(2) w(2)])
  have pw: "pg_id (pages ?w f) = ?pid" "pg_data (pages ?w f) = zero_mem" "page_table ?w ?pid = None"
    using newu by (simp_all add: upd_frame_def retag_def ResetMemory_def)
  have usw: "usable ?w = usable s" using keeps_usable [OF kw] A(3) by simp
  have fw: "f < pool_size ?w" using keepsD(1) [OF kw] U(5) by simp
  have T: "pool_ok X ?t" "page_view ?t = (page_view ?w)(?pid := trim (pg_data (pages ?w f)))"
    by (rule attach_ok [OF w(1) fw U(6) _ pw(1,3)]; use us usw in simp)+
  have tz: "trim zero_mem = zero_mem" by (simp add: trim_def)
  have n1: "next_page s1 fd = ?pid" by (simp add: next_page_def d1)
  have run: "NewPage fd s = (Inr (Some (f, ?pid)), ?t)"
    using vic fd up d1 n1 unfolding NewPage_def AllocatePage_def
    by (simp add: andthen_def next_page_def [symmetric] attach_def upd_frame_def)
  have dt: "disk_manager ?t = disk_manager ?w" by (simp add: attach_def upd_frame_def)
  have ust: "usable ?t = usable s" using usw by (simp add: usable_def dt fun_eq_iff)
  have st: "stored ?t pid" if "stored s pid" for pid
    using keepsD(4) [OF kw, of pid] that A(4) by (auto simp: stored_def attach_def upd_frame_def)
  have vw: "page_view ?t pid = ((page_view s)(?pid := zero_mem)) pid" if "usable s pid" for pid
    using T(2) pw(2) tz keepsD(3) [OF kw, of pid] A(2,3) that by simp
  have fdt: "fd2pageno (disk_manager ?t) fd = to_i32 (fd2pageno (disk_manager s) fd + 1)"
    using keepsD(2) [OF kw] by (simp add: dt same_tables_def)
  have dom: "page_table ?t q = None" if "q \<noteq> ?pid" "page_table s q = None" for q
    using that by (simp add: attach_def upd_frame_def U(3))
  show ?thesis
    by (rule that [OF run T(1) _ _ _ ust st vw fdt dom]) (simp_all add: attach_def upd_frame_def retag_def ResetMemory_def)
qed

section \<open>Runs of the pool\<close>

text \<open>
  The calls of a client that follows the protocol of the pool: it fetches pages that exist, stores only through pages it has pinned,
  and releases a page it changed with \<open>is_dirty\<close>. A step is labelled with the content it gives to a page, if any.
\<close>

definition clean_release :: "BufferPoolManager \<Rightarrow> PageId \<Rightarrow> bool \<Rightarrow> bool" where
  "clean_release s pid dirty \<longleftrightarrow> (case page_table s pid of None \<Rightarrow> True
     | Some f \<Rightarrow> dirty \<or> pg_dirty (pages s f) \<or> pg_pin (pages s f) \<noteq> 1 \<or> synced s f)"

inductive pool_step :: "BufferPoolManager \<Rightarrow> (PageId \<times> mem) option \<Rightarrow> BufferPoolManager \<Rightarrow> bool" where
  fetch: "usable s pid \<Longrightarrow> stored s pid \<Longrightarrow> FetchPage pid s = (r, t) \<Longrightarrow> pool_step s None t"
| unpin: "clean_release s pid dirty \<Longrightarrow> UnpinPage pid dirty s = (b, t) \<Longrightarrow> pool_step s None t"
| flush: "FlushPage pid s = (r, t) \<Longrightarrow> pool_step s None t"
| flush_all: "FlushAllPages fd s = (r, t) \<Longrightarrow> pool_step s None t"
| full: "no_frame s \<Longrightarrow> NewPage fd s = (r, t) \<Longrightarrow> pool_step s None t"
| new: "\<not> no_frame s \<Longrightarrow> 0 \<le> fd \<Longrightarrow> fd < MAX_FD \<Longrightarrow> usable s (next_page s fd) \<Longrightarrow> page_table s (next_page s fd) = None \<Longrightarrow>
    NewPage fd s = (r, t) \<Longrightarrow> pool_step s (Some (next_page s fd, zero_mem)) t"
| store: "page_table s pid = Some f \<Longrightarrow> 0 < pg_pin (pages s f) \<Longrightarrow>
    pool_step s (Some (pid, trim m)) (store_page f m s)"

lemma keeps_step:
  assumes "bpm_inv t" and "keeps s t"
  shows "bpm_inv t \<and> usable t = usable s \<and> (\<forall>pid. stored s pid \<longrightarrow> stored t pid) \<and>
    (\<forall>pid. usable s pid \<longrightarrow> page_view t pid = put_label None (page_view s) pid)"
  using assms keeps_usable [OF assms(2)] keepsD(3,4) [OF assms(2)] by simp

lemma pool_step_ok:
  assumes step: "pool_step s l t" and ok: "bpm_inv s"
  shows "bpm_inv t \<and> usable t = usable s \<and> (\<forall>pid. stored s pid \<longrightarrow> stored t pid) \<and>
    (\<forall>pid. usable s pid \<longrightarrow> page_view t pid = put_label l (page_view s) pid)"
  using step
proof cases
  case (fetch pid r)
  from FetchPage_ok [OF ok fetch(2,3)] have "bpm_inv t \<and> keeps s t"
    using fetch(4) ok by cases auto
  then show ?thesis using keeps_step fetch(1) by blast
next
  case (unpin pid dirty b)
  have "bpm_inv t \<and> keeps s t"
  proof (cases "\<exists>f. page_table s pid = Some f \<and> 0 < pg_pin (pages s f)")
    case True
    then obtain f where f: "page_table s pid = Some f" "0 < pg_pin (pages s f)" by blast
    have "pg_pin (pages s f) = 1 \<Longrightarrow> \<not> dirty \<Longrightarrow> \<not> pg_dirty (pages s f) \<Longrightarrow> synced s f"
      using unpin(2) f by (auto simp: clean_release_def)
    then obtain u where "UnpinPage pid dirty s = (True, u)" "bpm_inv u" "keeps s u"
      using UnpinPage_ok [OF ok f] by blast
    then show ?thesis using unpin(3) by simp
  next
    case False
    then have "UnpinPage pid dirty s = (False, s)"
      by (intro UnpinPage_false) (cases "page_table s pid", auto)
    then show ?thesis using unpin(3) ok by simp
  qed
  then show ?thesis using keeps_step unpin(1) by blast
next
  case (flush pid r)
  have "bpm_inv t \<and> keeps s t"
  proof (cases "page_table s pid")
    case None
    then show ?thesis using flush(2) ok by (simp add: FlushPage_def)
  next
    case (Some f)
    from FlushPage_ok [OF ok Some] show ?thesis using flush(2) by (metis prod.inject)
  qed
  then show ?thesis using keeps_step flush(1) by blast
next
  case (flush_all fd r)
  from FlushAllPages_ok [OF ok, of fd] have "bpm_inv t \<and> keeps s t" using flush_all(2) by (metis prod.inject)
  then show ?thesis using keeps_step flush_all(1) by blast
next
  case (full fd r)
  then have "t = s" using NewPage_none [OF ok, of fd] by simp
  then show ?thesis using ok full(1) by simp
next
  case (new fd r)
  from NewPage_some [OF ok new(2-6)] obtain u where u: "t = u" "bpm_inv u" "usable u = usable s"
    "\<And>pid. stored s pid \<Longrightarrow> stored u pid"
    "\<And>pid. usable s pid \<Longrightarrow> page_view u pid = ((page_view s)(next_page s fd := zero_mem)) pid"
    using new(7) by (metis prod.inject)
  then show ?thesis using new(1) by simp
next
  case (store pid f m)
  then show ?thesis using store_page_ok [OF ok store(3,4), of m] by simp
qed

interpretation pool: content_store bpm_inv usable page_view pool_step
proof unfold_locales
  fix s t :: BufferPoolManager and l pid
  assume a: "bpm_inv s" "pool_step s l t"
  note P = pool_step_ok [OF a(2,1)]
  show "bpm_inv t" and "usable t = usable s" using P by simp_all
  show "page_view t pid = put_label l (page_view s) pid" if "usable s pid" using P that by simp
qed

lemma no_frame_iff:
  assumes ok: "bpm_inv s"
  shows "no_frame s \<longleftrightarrow> (\<forall>f < pool_size s. 0 < pg_pin (pages s f))"
proof
  note D = pool_okD [OF ok]
  show "\<forall>f < pool_size s. 0 < pg_pin (pages s f)" if n: "no_frame s"
  proof (intro allI impI)
    fix f assume f: "f < pool_size s"
    then have "pg_pin (pages s f) \<noteq> 0" using D(7) [of f] n by (auto simp: no_frame_def)
    then show "0 < pg_pin (pages s f)" using D(8) [OF f] by simp
  qed
  show "no_frame s" if a: "\<forall>f < pool_size s. 0 < pg_pin (pages s f)"
  proof -
    have "f \<notin> set (free_list s)" and "f \<notin> set (lru_frames (replacer_of s))" for f
      using D(4) [of f] D(7) [of f] a by auto
    then show ?thesis unfolding no_frame_def by (metis last_in_set)
  qed
qed

section \<open>Properties\<close>

definition sample_pool :: BufferPoolManager where
  "sample_pool = BufferPoolManager_new 0 2 sample_disk"

definition sample_pid :: "int \<Rightarrow> PageId" where
  "sample_pid no = \<lparr>pid_fd = 0, pid_no = no\<rparr>"

lemma sample_pool_simps:
  "bpm_inv sample_pool" "disk_manager sample_pool = sample_disk" "pool_size sample_pool = 2"
  "page_table sample_pool = Map.empty" "free_list sample_pool = [0, 1]" "lru_frames (replacer_of sample_pool) = []"
  using bpm_inv_new [OF sample_disk_ok]
  by (simp_all add: sample_pool_def, simp_all add: BufferPoolManager_new_def upt_rec)

lemma sample_usable: "no = 0 \<or> no = 1 \<Longrightarrow> usable sample_pool (sample_pid no) \<and> stored sample_pool (sample_pid no)"
  by (auto simp: usable_def stored_def sample_pool_simps sample_pid_def addressable_def sample_disk_file)

text \<open>
  C2. In a pool that satisfies its invariant, \<open>FetchPage\<close> of a page that exists always returns without an error; it returns
  \<open>nullptr\<close> exactly when the page is not in the pool and every frame is pinned, and then changes nothing; otherwise the frame it returns
  is pinned, is the page's entry in the page table and holds the page's current content, whether the page was
  in the pool or on disk, and no page of any file has changed its content.
\<close>

theorem FetchPage_returns_content:
  assumes "bpm_inv s" and "usable s pid" and "stored s pid"
  shows "\<exists>r t. FetchPage pid s = (Inr r, t) \<and> bpm_inv t \<and> keeps s t \<and>
    (r = None \<longleftrightarrow> page_table s pid = None \<and> (\<forall>f < pool_size s. 0 < pg_pin (pages s f))) \<and>
    (r = None \<longrightarrow> t = s) \<and>
    (\<forall>f. r = Some f \<longrightarrow> page_table t pid = Some f \<and> 0 < pg_pin (pages t f) \<and>
       trim (pg_data (pages t f)) = page_view s pid)"
proof (cases rule: FetchPage_ok [OF assms])
  case 1
  then show ?thesis using assms(1) no_frame_iff [OF assms(1)] by simp
next
  case (2 f t)
  have "\<not> (page_table s pid = None \<and> no_frame s)" using 2(1) FetchPage_none [OF assms(1)] by auto
  then show ?thesis using 2 no_frame_iff [OF assms(1)] by simp
qed

theorem FetchPage_returns_content_witness:
  "\<exists>r t. FetchPage (sample_pid 1) sample_pool = (Inr r, t) \<and> bpm_inv t \<and> keeps sample_pool t \<and>
    (r = None \<longleftrightarrow> page_table sample_pool (sample_pid 1) = None \<and> (\<forall>f < pool_size sample_pool. 0 < pg_pin (pages sample_pool f))) \<and>
    (r = None \<longrightarrow> t = sample_pool) \<and>
    (\<forall>f. r = Some f \<longrightarrow> page_table t (sample_pid 1) = Some f \<and> 0 < pg_pin (pages t f) \<and>
       trim (pg_data (pages t f)) = page_view sample_pool (sample_pid 1))"
  by (rule FetchPage_returns_content) (use sample_usable [of 1] in \<open>simp_all add: sample_pool_simps\<close>)

text \<open>
  C1. Refinement: in a run of protocol-following calls of the pool (fetch, unpin, flush, flush-all, new page, stores through pinned pages) from
  a state that satisfies the invariant, the invariant holds at the end and the content of every page of an open file is what the abstract store
  gives, a map from page ids to contents to which the stores and the page allocations of the run are applied
  in order. Eviction, write-back and re-reading are not visible.
\<close>

theorem pool_run_refines_store:
  assumes "steps pool_step s ls t" and "bpm_inv s"
  shows "bpm_inv t \<and> (\<forall>pid. usable s pid \<longrightarrow> page_view t pid = fold put_label ls (page_view s) pid)"
  using pool.steps_invar [OF assms] pool.steps_view [OF assms] by blast

theorem pool_run_refines_store_witness:
  "\<exists>t. steps pool_step sample_pool [None] t \<and> bpm_inv t \<and>
    (\<forall>pid. usable sample_pool pid \<longrightarrow> page_view t pid = fold put_label [None] (page_view sample_pool) pid)"
proof -
  obtain r t where "FetchPage (sample_pid 0) sample_pool = (r, t)" by fastforce
  then have "steps pool_step sample_pool [None] t"
    using sample_usable [of 0] by (auto intro: pool_step.fetch)
  with pool_run_refines_store [OF this] show ?thesis by (auto simp: sample_pool_simps)
qed

text \<open>
  C3. \<open>FlushAllPages(fd)\<close> makes a file durable: it always completes, changes no page's content, and afterwards the bytes on
  disk of every page of the file are the page's content, resident or not.
\<close>

theorem FlushAllPages_durable:
  assumes "bpm_inv s"
  shows "\<exists>t. FlushAllPages fd s = (Inr (), t) \<and> bpm_inv t \<and> keeps s t \<and>
    (\<forall>pid. usable s pid \<and> pid_fd pid = fd \<longrightarrow>
       disk_page (disk_manager t) (pid_fd pid) (pid_no pid) = page_view s pid)"
  using FlushAllPages_ok [OF assms, of fd] by metis

theorem FlushAllPages_durable_witness:
  "\<exists>t. FlushAllPages 0 sample_pool = (Inr (), t) \<and> bpm_inv t \<and> keeps sample_pool t \<and>
    (\<forall>pid. usable sample_pool pid \<and> pid_fd pid = 0 \<longrightarrow>
       disk_page (disk_manager t) (pid_fd pid) (pid_no pid) = page_view sample_pool pid)"
  by (rule FlushAllPages_durable) (rule sample_pool_simps)

text \<open>
  C15. What a \<open>FetchPage\<close> leaves behind whose page is not (or not wholly) in the file. It fails with \<open>UnixError\<close>, no other page
  changes its content, and the frame taken for the page is neither in the free list nor with the replacer any more. If
  the frame held a clean page, no entry of the page table leads to it, so that it is lost to the pool. If it
  held a dirty page, \<open>UpdatePage\<close> has entered the missing page in the table before the read, so that the next
  \<open>FetchPage\<close> of the page reports success, in this frame, which holds the bytes the file has of the page and zeros behind them.
\<close>

theorem FetchPage_after_failed_read:
  assumes ok: "bpm_inv s" and miss: "page_table s pid = None" and us: "usable s pid"
    and vic: "FindVictimPage s = (Some f, s1)" and fail: "FetchPage pid s = (Inl e, t)"
  shows "e = UnixError \<and> \<not> on_disk (disk_manager s) (pid_fd pid) (pid_no pid) \<and>
    (\<forall>q. usable s q \<and> q \<noteq> pid \<longrightarrow> page_view t q = page_view s q) \<and>
    f \<notin> set (free_list t) \<and> f \<notin> set (lru_frames (replacer_of t)) \<and>
    (if pg_dirty (pages s f)
     then \<exists>t'. FetchPage pid t = (Inr (Some f), t') \<and> pg_id (pages t' f) = pid \<and> pg_pin (pages t' f) = 1 \<and>
        pg_data (pages t' f) = disk_page (disk_manager s) (pid_fd pid) (pid_no pid)
     else f \<notin> ran (page_table t))"
proof -
  have free: "\<not> no_frame s" using FindVictimPage_none(1) [OF ok] vic by (simp add: no_frame_def)
  have miss_e: "e = UnixError \<and> \<not> stored s pid"
    by (cases rule: FetchPage_miss [OF ok miss free us]) (use fail in auto)
  obtain v where t: "t = (if pg_dirty (pages s f) then v\<lparr>page_table := (page_table v)(pid \<mapsto> f)\<rparr> else v)"
    and v: "pool_ok {f} v" "keeps s v" "page_table v pid = None" "pg_id (pages v f) = pid" "pg_pin (pages v f) = 0"
      "pg_dirty (pages s f) \<Longrightarrow> pg_data (pages v f) = disk_page (disk_manager s) (pid_fd pid) (pid_no pid)"
    using FetchPage_short_run [OF ok miss us vic fail] by metis
  have view: "page_view t q = page_view s q" if "usable s q" "q \<noteq> pid" for q
    using that keepsD(3) [OF v(2) that(1)] by (auto simp: t page_view_def split: option.splits)
  have out: "f \<notin> set (free_list v)" "f \<notin> set (lru_frames (replacer_of v))" "f \<notin> ran (page_table v)"
    using pool_okD(4,5,7) [OF v(1)] by (auto simp: ran_def)
  have "\<exists>t'. FetchPage pid t = (Inr (Some f), t') \<and> pg_id (pages t' f) = pid \<and> pg_pin (pages t' f) = 1 \<and>
        pg_data (pages t' f) = disk_page (disk_manager s) (pid_fd pid) (pid_no pid)" if "pg_dirty (pages s f)"
    using that v by (simp add: t FetchPage_def upd_frame_def)
  then show ?thesis using miss_e view out miss by (simp add: t stored_def)
qed

definition dirty_pool :: BufferPoolManager where
  "dirty_pool = \<lparr>pool_size = 1, pages = (\<lambda>_. \<lparr>pg_id = sample_pid 0, pg_data = zero_mem, pg_dirty = True, pg_pin = 0\<rparr>),
     page_table = [sample_pid 0 \<mapsto> 0], free_list = [], disk_manager = sample_disk,
     replacer_of = \<lparr>LRUlist = [(0, 0)], LRUhash = [0 \<mapsto> 0], LRUalloc = 1, LRUmax_size = 1\<rparr>\<rparr>"

lemma dirty_pool_ok: "bpm_inv dirty_pool"
  by (rule pool_okI)
    (auto simp: dirty_pool_def sample_disk_ok lru_inv_def lru_frames_def usable_def sample_pid_def addressable_def
      sample_disk_file split: if_splits)

theorem FetchPage_after_failed_read_witness:
  "\<exists>t. FetchPage (sample_pid 9) dirty_pool = (Inl UnixError, t) \<and>
    \<not> on_disk (disk_manager dirty_pool) (pid_fd (sample_pid 9)) (pid_no (sample_pid 9)) \<and>
    (\<forall>q. usable dirty_pool q \<and> q \<noteq> sample_pid 9 \<longrightarrow> page_view t q = page_view dirty_pool q) \<and>
    0 \<notin> set (free_list t) \<and> 0 \<notin> set (lru_frames (replacer_of t)) \<and>
    (\<exists>t'. FetchPage (sample_pid 9) t = (Inr (Some 0), t') \<and> pg_id (pages t' 0) = sample_pid 9 \<and> pg_pin (pages t' 0) = 1 \<and>
       pg_data (pages t' 0) = disk_page (disk_manager dirty_pool) (pid_fd (sample_pid 9)) (pid_no (sample_pid 9)))"
proof -
  obtain s1 where vic: "FindVictimPage dirty_pool = (Some 0, s1)"
    by (simp add: FindVictimPage_def dirty_pool_def Victim_def)
  have miss: "page_table dirty_pool (sample_pid 9) = None" by (simp add: dirty_pool_def sample_pid_def)
  have us: "usable dirty_pool (sample_pid 9)"
    by (simp add: usable_def dirty_pool_def sample_pid_def addressable_def sample_disk_file)
  have free: "\<not> no_frame dirty_pool" by (simp add: no_frame_def dirty_pool_def lru_frames_def)
  have "\<exists>t. FetchPage (sample_pid 9) dirty_pool = (Inl UnixError, t)"
  proof (cases rule: FetchPage_miss [OF dirty_pool_ok miss free us])
    case (1 f t)
    have "FetchPage (sample_pid 9) dirty_pool \<noteq> (Inr (Some f), t)"
      by (simp add: FetchPage_def dirty_pool_def FindVictimPage_def Victim_def UpdatePage_def andthen_def
        write_back_def upd_frame_def disk_write_def write_page_def read_frame_def read_page_def sys_lseek_def sys_write_def
        sys_read_def sample_pid_def sample_disk_eq sample_os_def Let_def PAGE_SIZE_def modify_st_def table_insert_def
        INVALID_PAGE_ID_def page_offset_def is_i32_def ResetMemory_def)
    then show ?thesis using 1(1) by blast
  qed blast
  then obtain t where t: "FetchPage (sample_pid 9) dirty_pool = (Inl UnixError, t)" by blast
  have "pg_dirty (pages dirty_pool 0)" by (simp add: dirty_pool_def)
  with FetchPage_after_failed_read [OF dirty_pool_ok miss us vic t] t show ?thesis by simp
qed

text \<open>
  C14. \<open>DeletePage\<close> refuses a pinned page and changes nothing then; otherwise it returns true, the page is no longer in the page
  table, the frame of a resident page is zeroed and put at the end of the free list, and no other page changes its content.
\<close>

theorem DeletePage_effect:
  assumes ok: "bpm_inv s"
  shows "(case page_table s pid of
      None \<Rightarrow> DeletePage pid s = (True, s)
    | Some f \<Rightarrow>
        (0 < pg_pin (pages s f) \<longrightarrow> DeletePage pid s = (False, s)) \<and>
        (pg_pin (pages s f) = 0 \<longrightarrow> (\<exists>t. DeletePage pid s = (True, t) \<and> page_table t = (page_table s)(pid := None) \<and>
           free_list t = free_list s @ [f] \<and> pg_data (pages t f) = zero_mem \<and>
           (\<forall>q. q \<noteq> pid \<longrightarrow> page_view t q = page_view s q))))"
proof (cases "page_table s pid")
  case None
  then show ?thesis by (simp add: DeletePage_def DeallocatePage_def)
next
  case (Some f)
  note F = pool_okD(5) [OF ok Some]
  show ?thesis
  proof (cases "0 < pg_pin (pages s f)")
    case True
    then show ?thesis using Some by (simp add: DeletePage_def DeallocatePage_def)
  next
    case False
    let ?t = "upd_frame f ResetMemory (s\<lparr>page_table := (page_table s)(pid := None), free_list := free_list s @ [f]\<rparr>)"
    have run: "DeletePage pid s = (True, ?t)" using Some False by (simp add: DeletePage_def DeallocatePage_def)
    have "page_view ?t q = page_view s q" if q: "q \<noteq> pid" for q
    proof (cases "page_table s q")
      case None
      then show ?thesis using q by (simp add: page_view_def upd_frame_def)
    next
      case (Some h)
      have "h \<noteq> f" using pool_okD(5) [OF ok Some] F q by auto
      then show ?thesis using q Some by (simp add: page_view_def upd_frame_def)
    qed
    then show ?thesis using Some False run by (simp add: upd_frame_def ResetMemory_def)
  qed
qed

theorem DeletePage_effect_witness:
  "(case page_table dirty_pool (sample_pid 0) of
      None \<Rightarrow> DeletePage (sample_pid 0) dirty_pool = (True, dirty_pool)
    | Some f \<Rightarrow>
        (0 < pg_pin (pages dirty_pool f) \<longrightarrow> DeletePage (sample_pid 0) dirty_pool = (False, dirty_pool)) \<and>
        (pg_pin (pages dirty_pool f) = 0 \<longrightarrow> (\<exists>t. DeletePage (sample_pid 0) dirty_pool = (True, t) \<and>
           page_table t = (page_table dirty_pool)((sample_pid 0) := None) \<and>
           free_list t = free_list dirty_pool @ [f] \<and> pg_data (pages t f) = zero_mem \<and>
           (\<forall>q. q \<noteq> sample_pid 0 \<longrightarrow> page_view t q = page_view dirty_pool q))))"
  by (rule DeletePage_effect [OF dirty_pool_ok])

text \<open>A pool of two frames with a dirty, unpinned page.\<close>

definition two_frame_pool :: BufferPoolManager where
  "two_frame_pool = \<lparr>pool_size = 2, pages = (\<lambda>f. if f = 0 then \<lparr>pg_id = sample_pid 0, pg_data = zero_mem, pg_dirty = True, pg_pin = 0\<rparr>
       else Page_new 0),
     page_table = [sample_pid 0 \<mapsto> 0], free_list = [1], disk_manager = sample_disk\<lparr>fd2pageno := (\<lambda>_. 2)\<rparr>,
     replacer_of = \<lparr>LRUlist = [(0, 0)], LRUhash = [0 \<mapsto> 0], LRUalloc = 1, LRUmax_size = 2\<rparr>\<rparr>"

lemma two_frame_pool_ok: "bpm_inv two_frame_pool"
proof (rule pool_okI)
  show "open_files_ok (disk_manager two_frame_pool)"
    by (simp add: two_frame_pool_def fd2pageno_keeps sample_disk_ok)
qed (auto simp: two_frame_pool_def lru_inv_def lru_frames_def usable_def sample_pid_def addressable_def
      sample_disk_file fd2pageno_keeps Page_new_def split: if_splits)

text \<open>
  \<open>DeletePage\<close> leaves the deleted page's id in the frame it frees. In a pool of two frames: page 0 is deleted and fetched again,
  into the other frame, and is pinned there; the \<open>NewPage\<close> that takes the freed frame then erases the table entry of the id it finds in
  the frame, so that the pinned page 0 is no longer in the page table and \<open>UnpinPage\<close> reports that it is not pinned.
\<close>

lemma DeletePage_loses_pinned_page:
  "let s1 = snd (DeletePage (sample_pid 0) two_frame_pool);
       s2 = snd (FetchPage (sample_pid 0) s1);
       s3 = snd (NewPage 0 s2)
   in bpm_inv two_frame_pool \<and> fst (FetchPage (sample_pid 0) s1) = Inr (Some 1) \<and>
      fst (NewPage 0 s2) = Inr (Some (0, sample_pid 2)) \<and>
      pg_id (pages s3 1) = sample_pid 0 \<and> pg_pin (pages s3 1) = 1 \<and>
      page_table s3 (sample_pid 0) = None \<and> fst (UnpinPage (sample_pid 0) True s3) = False"
proof -
  note ev = FetchPage_def NewPage_def DeletePage_def DeallocatePage_def UnpinPage_def AllocatePage_def MAX_FD_def two_frame_pool_def
    FindVictimPage_def Victim_def UpdatePage_def andthen_def Page_new_def
    write_back_def upd_frame_def disk_write_def write_page_def read_frame_def read_page_def sys_lseek_def sys_write_def
    sys_read_def sample_pid_def sample_disk_eq sample_os_def Let_def PAGE_SIZE_def modify_st_def table_insert_def
    INVALID_PAGE_ID_def page_offset_def is_i32_def ResetMemory_def Pin_def list_erase_def run_simps
  show ?thesis unfolding Let_def by (simp add: two_frame_pool_ok, simp add: ev)
qed

end
