(* ===== verification/Bitmap.thy ===== *)
theory Bitmap
  imports Rb_Defs
begin

text \<open>
  \<open>record/bitmap.h\<close>: a bitmap in the bytes of a page, from the byte \<open>bm\<close> on, the highest bit of a byte first.
  The lemmas give the bitmap the laws of a set of positions; \<open>next_bit\<close> is characterised as the first position in its range
  with the wanted bit.
\<close>

unbundle bit_operations_syntax

section \<open>Operations\<close>

definition BITMAP_WIDTH :: nat where "BITMAP_WIDTH = 8"
definition BITMAP_HIGHEST_BIT :: byte where "BITMAP_HIGHEST_BIT = 0x80"

definition get_bucket :: "nat \<Rightarrow> nat" where
  "get_bucket pos = pos div BITMAP_WIDTH"

definition get_bit :: "nat \<Rightarrow> byte" where
  "get_bit pos = drop_bit (pos mod BITMAP_WIDTH) BITMAP_HIGHEST_BIT"

definition bitmap_init :: "mem \<Rightarrow> nat \<Rightarrow> nat \<Rightarrow> mem" where
  "bitmap_init m bm n = mcopy m bm zero_mem 0 n"

definition bitmap_set :: "mem \<Rightarrow> nat \<Rightarrow> nat \<Rightarrow> mem" where
  "bitmap_set m bm pos = m(bm + get_bucket pos := m (bm + get_bucket pos) OR get_bit pos)"

definition bitmap_reset :: "mem \<Rightarrow> nat \<Rightarrow> nat \<Rightarrow> mem" where
  "bitmap_reset m bm pos = m(bm + get_bucket pos := m (bm + get_bucket pos) AND NOT (get_bit pos))"

definition is_set :: "mem \<Rightarrow> nat \<Rightarrow> nat \<Rightarrow> bool" where
  "is_set m bm pos \<longleftrightarrow> m (bm + get_bucket pos) AND get_bit pos \<noteq> 0"

definition next_bit :: "bool \<Rightarrow> mem \<Rightarrow> nat \<Rightarrow> int \<Rightarrow> int \<Rightarrow> int" where
  "next_bit b m bm max_n cur =
     (case find (\<lambda>i. is_set m bm (nat i) = b) [cur + 1..max_n - 1] of Some i \<Rightarrow> i | None \<Rightarrow> max_n)"

definition first_bit :: "bool \<Rightarrow> mem \<Rightarrow> nat \<Rightarrow> int \<Rightarrow> int" where
  "first_bit b m bm max_n = next_bit b m bm max_n (-1)"

section \<open>The bits of a byte\<close>

lemma bit_highest: "bit BITMAP_HIGHEST_BIT n \<longleftrightarrow> n = 7"
proof -
  have "BITMAP_HIGHEST_BIT = (mask 1 :: byte) * 2 ^ 7" by (simp add: BITMAP_HIGHEST_BIT_def)
  then have e: "BITMAP_HIGHEST_BIT = push_bit 7 (1 :: byte)" by (simp add: push_bit_eq_mult)
  show ?thesis unfolding e bit_push_bit_iff bit_1_iff by auto
qed

lemma bit_get_bit: "bit (get_bit pos) n \<longleftrightarrow> n = 7 - pos mod 8"
proof -
  have "pos mod 8 < 8" by simp
  then show ?thesis
    by (auto simp: get_bit_def BITMAP_WIDTH_def bit_drop_bit_eq bit_highest)
qed

lemma and_get_bit: "(w :: byte) AND get_bit pos \<noteq> 0 \<longleftrightarrow> bit w (7 - pos mod 8)"
proof
  assume "w AND get_bit pos \<noteq> 0"
  moreover have "(\<And>n. \<not> bit (w AND get_bit pos) n) \<Longrightarrow> w AND get_bit pos = 0" by (rule bit_eqI) simp
  ultimately obtain n where "bit (w AND get_bit pos) n" by blast
  then show "bit w (7 - pos mod 8)" by (auto simp: bit_and_iff bit_get_bit)
next
  assume "bit w (7 - pos mod 8)"
  then have "bit (w AND get_bit pos) (7 - pos mod 8)" by (simp add: bit_and_iff bit_get_bit)
  then show "w AND get_bit pos \<noteq> 0" by auto
qed

lemma is_set_bit: "is_set m bm pos \<longleftrightarrow> bit (m (bm + pos div 8)) (7 - pos mod 8)"
  by (simp add: is_set_def and_get_bit get_bucket_def BITMAP_WIDTH_def)

lemma same_place: "pos div 8 = p div 8 \<Longrightarrow> 7 - pos mod 8 = 7 - p mod 8 \<longleftrightarrow> pos = (p :: nat)"
proof
  assume d: "pos div 8 = p div 8" and e: "7 - pos mod 8 = 7 - p mod 8"
  have "pos mod 8 < 8" "p mod 8 < 8" by simp_all
  then have "pos mod 8 = p mod 8" using e by linarith
  then show "pos = p" using d by (metis div_mult_mod_eq)
qed simp

lemma is_set_bitmap_set [mem_simps]: "is_set (bitmap_set m bm pos) bm p \<longleftrightarrow> p = pos \<or> is_set m bm p"
proof -
  have "7 - p mod 8 < 8" by simp
  then show ?thesis
    by (auto simp: is_set_bit bitmap_set_def get_bucket_def BITMAP_WIDTH_def bit_or_iff bit_get_bit dest: same_place)
qed

lemma is_set_bitmap_reset [mem_simps]: "is_set (bitmap_reset m bm pos) bm p \<longleftrightarrow> p \<noteq> pos \<and> is_set m bm p"
proof -
  have "7 - p mod 8 < 8" by simp
  then show ?thesis
    by (auto simp: is_set_bit bitmap_reset_def get_bucket_def BITMAP_WIDTH_def bit_and_iff bit_not_iff bit_get_bit dest: same_place)
qed

lemma is_set_cong:
  "(\<And>i. bm \<le> i \<Longrightarrow> i \<le> bm + pos div 8 \<Longrightarrow> m i = m' i) \<Longrightarrow> is_set m bm pos = is_set m' bm pos"
  by (simp add: is_set_bit)

lemma is_set_zero [simp]: "\<not> is_set zero_mem bm pos"
  by (simp add: is_set_bit)

lemma bitmap_set_out [mem_simps]: "i < bm \<or> bm + pos div 8 < i \<Longrightarrow> bitmap_set m bm pos i = m i"
  by (auto simp: bitmap_set_def get_bucket_def BITMAP_WIDTH_def)

lemma bitmap_reset_out [mem_simps]: "i < bm \<or> bm + pos div 8 < i \<Longrightarrow> bitmap_reset m bm pos i = m i"
  by (auto simp: bitmap_reset_def get_bucket_def BITMAP_WIDTH_def)

section \<open>Searching\<close>

lemma find_upto_Some:
  assumes "find P [a..b] = Some i"
  shows "a \<le> i" "i \<le> b" "P i" "a \<le> j \<Longrightarrow> j < i \<Longrightarrow> \<not> P j"
proof -
  obtain n where n: "n < length [a..b]" "[a..b] ! n = i" "P i" and before: "\<And>m. m < n \<Longrightarrow> \<not> P ([a..b] ! m)"
    using assms by (auto simp: find_Some_iff)
  then have ab: "a + int n \<le> b" and i: "i = a + int n" by (auto simp: nth_upto)
  show "a \<le> i" "i \<le> b" "P i" using ab i n by simp_all
  show "\<not> P j" if "a \<le> j" "j < i"
    using before [of "nat (j - a)"] that ab i by (simp add: nth_upto)
qed

lemma find_upto_None: "find P [a..b] = None \<Longrightarrow> a \<le> j \<Longrightarrow> j \<le> b \<Longrightarrow> \<not> P j"
  by (auto simp: find_None_iff)

lemma next_bit_cases:
  assumes "cur < max_n"
  obtains (found) i where "next_bit b m bm max_n cur = i" "cur < i" "i < max_n" "is_set m bm (nat i) = b"
      "\<And>j. cur < j \<Longrightarrow> j < i \<Longrightarrow> is_set m bm (nat j) \<noteq> b"
  | (none) "next_bit b m bm max_n cur = max_n" "\<And>j. cur < j \<Longrightarrow> j < max_n \<Longrightarrow> is_set m bm (nat j) \<noteq> b"
proof (cases "find (\<lambda>i. is_set m bm (nat i) = b) [cur + 1..max_n - 1]")
  case None
  then show ?thesis using none find_upto_None [OF None] by (simp add: next_bit_def)
next
  case (Some i)
  then show ?thesis using found [of i] find_upto_Some [OF Some] by (simp add: next_bit_def)
qed

lemma next_bit_found:
  assumes "cur < i" and "i < max_n" and "is_set m bm (nat i) = b"
    and "\<And>j. cur < j \<Longrightarrow> j < i \<Longrightarrow> is_set m bm (nat j) \<noteq> b"
  shows "next_bit b m bm max_n cur = i"
proof -
  have "cur < max_n" using assms by simp
  then show ?thesis
  proof (cases rule: next_bit_cases [of cur max_n b m bm])
    case (found k)
    then show ?thesis using assms by (metis linorder_neqE)
  next
    case none
    then show ?thesis using assms by blast
  qed
qed

lemma next_bit_none:
  assumes "\<And>j. cur < j \<Longrightarrow> j < max_n \<Longrightarrow> is_set m bm (nat j) \<noteq> b"
  shows "next_bit b m bm max_n cur = max_n"
proof -
  have "find (\<lambda>i. is_set m bm (nat i) = b) [cur + 1..max_n - 1] = None"
    using assms by (auto simp: find_None_iff)
  then show ?thesis by (simp add: next_bit_def)
qed

lemma next_bit_cong:
  assumes "\<And>j. cur < j \<Longrightarrow> j < max_n \<Longrightarrow> is_set m bm (nat j) = is_set m' bm' (nat j)"
  shows "next_bit b m bm max_n cur = next_bit b m' bm' max_n cur"
proof -
  have "find (\<lambda>i. is_set m bm (nat i) = b) [cur + 1..max_n - 1] = find (\<lambda>i. is_set m' bm' (nat i) = b) [cur + 1..max_n - 1]"
    using assms by (intro find_cong) auto
  then show ?thesis by (simp add: next_bit_def)
qed

end
