(* ===== verification/Record_File.thy ===== *)
theory Record_File
  imports Buffer_Pool Bitmap
begin

text \<open>
  \<open>record/\<close>: the record files over the buffer pool (\<open>rm_defs.h\<close>, \<open>rm_file_handle.h\<close>, \<open>rm_file_handle.cpp\<close>,
  \<open>rm_scan.cpp\<close>, \<open>rm_manager.h\<close>). An operation of \<open>RmFileHandle\<close> runs on the pool and the handle's copy of the file
  header. A page handle is the frame of its page; the page header, the bitmap and the slots are places in the frame's bytes.
  A \<open>char *\<close> to a record buffer is a memory that starts at the pointer.
\<close>

section \<open>State\<close>

definition RM_NO_PAGE :: int where "RM_NO_PAGE = -1"
definition RM_FILE_HDR_PAGE :: int where "RM_FILE_HDR_PAGE = 0"
definition RM_MAX_RECORD_SIZE :: int where "RM_MAX_RECORD_SIZE = 512"

record RmFileHdr =
  record_size :: int
  num_pages :: int
  num_records_per_page :: int
  first_free_page_no :: int
  bitmap_size :: int

definition sizeof_RmFileHdr :: nat where "sizeof_RmFileHdr = 20"
definition sizeof_RmPageHdr :: nat where "sizeof_RmPageHdr = 8"

text \<open>A record in memory: \<open>size\<close> is the length of the list.\<close>

type_synonym RmRecord = "byte list"

record RmFileHandle =
  rm_bpm :: BufferPoolManager
  rm_fd :: int
  rm_hdr :: RmFileHdr

definition RmRecord_of :: "int \<Rightarrow> mem \<Rightarrow> nat \<Rightarrow> RmRecord" where
  "RmRecord_of sz data off = mread data off (nat sz)"

definition RmRecord_SetData :: "RmRecord \<Rightarrow> mem \<Rightarrow> RmRecord" where
  "RmRecord_SetData r data = mread data 0 (length r)"

definition RmRecord_Deserialize :: "mem \<Rightarrow> RmRecord" where
  "RmRecord_Deserialize data = mread data 4 (nat (get_i32 data 0))"

text \<open>The file header in the bytes of page 0, and read back from there.\<close>

definition file_hdr_bytes :: "RmFileHdr \<Rightarrow> byte list" where
  "file_hdr_bytes h = i32_bytes (record_size h) @ i32_bytes (num_pages h) @ i32_bytes (num_records_per_page h)
     @ i32_bytes (first_free_page_no h) @ i32_bytes (bitmap_size h)"

definition file_hdr_of_mem :: "mem \<Rightarrow> RmFileHdr" where
  "file_hdr_of_mem m = \<lparr>record_size = get_i32 m 0, num_pages = get_i32 m 4, num_records_per_page = get_i32 m 8,
     first_free_page_no = get_i32 m 12, bitmap_size = get_i32 m 16\<rparr>"

section \<open>Page handles\<close>

definition rm_bitmap :: nat where
  "rm_bitmap = sizeof_RmPageHdr + OFFSET_PAGE_HDR"

definition get_next_free :: "mem \<Rightarrow> int" where
  "get_next_free m = get_i32 m OFFSET_PAGE_HDR"

definition set_next_free :: "int \<Rightarrow> mem \<Rightarrow> mem" where
  "set_next_free v m = put_i32 m OFFSET_PAGE_HDR v"

definition get_num_records :: "mem \<Rightarrow> int" where
  "get_num_records m = get_i32 m (OFFSET_PAGE_HDR + 4)"

definition set_num_records :: "int \<Rightarrow> mem \<Rightarrow> mem" where
  "set_num_records v m = put_i32 m (OFFSET_PAGE_HDR + 4) v"

definition get_slot :: "RmFileHdr \<Rightarrow> int \<Rightarrow> nat" where
  "get_slot h slot_no = nat (int rm_bitmap + bitmap_size h + slot_no * record_size h)"

definition page_data :: "frame_id \<Rightarrow> RmFileHandle \<Rightarrow> mem" where
  "page_data f s = pg_data (pages (rm_bpm s) f)"

definition write_frame :: "frame_id \<Rightarrow> (mem \<Rightarrow> mem) \<Rightarrow> (rb_error, RmFileHandle, unit) op" where
  "write_frame f g = modify_st (\<lambda>s. s\<lparr>rm_bpm := store_page f (g (page_data f s)) (rm_bpm s)\<rparr>)"

definition set_hdr :: "(RmFileHdr \<Rightarrow> RmFileHdr) \<Rightarrow> (rb_error, RmFileHandle, unit) op" where
  "set_hdr g = modify_st (\<lambda>s. s\<lparr>rm_hdr := g (rm_hdr s)\<rparr>)"

definition rm_pid :: "RmFileHandle \<Rightarrow> int \<Rightarrow> PageId" where
  "rm_pid s page_no = \<lparr>pid_fd = rm_fd s, pid_no = page_no\<rparr>"

definition on_pool :: "(rb_error, BufferPoolManager, 'a) op \<Rightarrow> (rb_error, RmFileHandle, 'a) op" where
  "on_pool m s = (let (r, b) = m (rm_bpm s) in (r, s\<lparr>rm_bpm := b\<rparr>))"

definition fetch_page_handle :: "int \<Rightarrow> (rb_error, RmFileHandle, frame_id) op" where
  "fetch_page_handle page_no s =
     andthen (on_pool (FetchPage (rm_pid s page_no)))
       (\<lambda>p. case p of None \<Rightarrow> throw (PageNotExistError ''page_no Invalid'' page_no) | Some f \<Rightarrow> ret f) s"

text \<open>The header is counted up before the null page of a full pool is used.\<close>

definition create_new_page_handle :: "(rb_error, RmFileHandle, frame_id) op" where
  "create_new_page_handle s =
     andthen (on_pool (NewPage (rm_fd s)))
       (\<lambda>p. andthen (set_hdr (num_pages_update (\<lambda>n. to_i32 (n + 1))))
         (\<lambda>_. case p of None \<Rightarrow> throw NullDereference | Some (f, _) \<Rightarrow> ret f)) s"

definition create_page_handle :: "(rb_error, RmFileHandle, frame_id) op" where
  "create_page_handle s =
     (if first_free_page_no (rm_hdr s) < 0 then create_new_page_handle s
      else fetch_page_handle (first_free_page_no (rm_hdr s)) s)"

definition release_page_handle :: "frame_id \<Rightarrow> (rb_error, RmFileHandle, unit) op" where
  "release_page_handle f s =
     andthen (write_frame f (set_next_free (first_free_page_no (rm_hdr s))))
       (\<lambda>_ t. set_hdr (first_free_page_no_update (\<lambda>_. pid_no (pg_id (pages (rm_bpm t) f)))) t) s"

section \<open>Record operations\<close>

definition is_record :: "Rid \<Rightarrow> (rb_error, RmFileHandle, bool) op" where
  "is_record rid =
     andthen (fetch_page_handle (rid_page rid))
       (\<lambda>f. read_st (\<lambda>s. is_set (page_data f s) rm_bitmap (nat (rid_slot rid))))"

definition get_record :: "Rid \<Rightarrow> (rb_error, RmFileHandle, RmRecord) op" where
  "get_record rid =
     andthen (fetch_page_handle (rid_page rid))
       (\<lambda>f. read_st (\<lambda>s. RmRecord_of (record_size (rm_hdr s)) (page_data f s) (get_slot (rm_hdr s) (rid_slot rid))))"

definition insert_slot :: "frame_id \<Rightarrow> mem \<Rightarrow> (rb_error, RmFileHandle, Rid) op" where
  "insert_slot f buf =
     andthen (read_st (\<lambda>s. first_bit False (page_data f s) rm_bitmap (num_records_per_page (rm_hdr s)))) (\<lambda>i.
     andthen (\<lambda>s. write_frame f (\<lambda>m. mcopy m (get_slot (rm_hdr s) i) buf 0 (nat (record_size (rm_hdr s)))) s) (\<lambda>_.
     andthen (write_frame f (\<lambda>m. bitmap_set m rm_bitmap (nat i))) (\<lambda>_.
     andthen (write_frame f (\<lambda>m. set_num_records (to_i32 (get_num_records m + 1)) m)) (\<lambda>_.
     andthen (\<lambda>s. if get_num_records (page_data f s) \<ge> num_records_per_page (rm_hdr s)
                  then set_hdr (first_free_page_no_update (\<lambda>_. get_next_free (page_data f s))) s
                  else ret () s) (\<lambda>_.
     read_st (\<lambda>s. \<lparr>rid_page = pid_no (pg_id (pages (rm_bpm s) f)), rid_slot = i\<rparr>))))))"

definition insert_record :: "mem \<Rightarrow> (rb_error, RmFileHandle, Rid) op" where
  "insert_record buf = andthen create_page_handle (\<lambda>f. insert_slot f buf)"

definition delete_record :: "Rid \<Rightarrow> (rb_error, RmFileHandle, unit) op" where
  "delete_record rid =
     andthen (fetch_page_handle (rid_page rid)) (\<lambda>f.
     andthen (write_frame f (\<lambda>m. bitmap_reset m rm_bitmap (nat (rid_slot rid)))) (\<lambda>_.
     andthen (write_frame f (\<lambda>m. set_num_records (to_i32 (get_num_records m - 1)) m)) (\<lambda>_ s.
     if get_num_records (page_data f s) = 0 then release_page_handle f s else ret () s)))"

definition update_record :: "Rid \<Rightarrow> mem \<Rightarrow> (rb_error, RmFileHandle, unit) op" where
  "update_record rid buf =
     andthen (fetch_page_handle (rid_page rid)) (\<lambda>f s.
     if is_set (page_data f s) rm_bitmap (nat (rid_slot rid))
     then write_frame f (\<lambda>m. mcopy m (get_slot (rm_hdr s) (rid_slot rid)) buf 0 (nat (record_size (rm_hdr s)))) s
     else ret () s)"

text \<open>The second \<open>insert_record\<close>, at a given position.\<close>

definition insert_record_at :: "Rid \<Rightarrow> mem \<Rightarrow> (rb_error, RmFileHandle, unit) op" where
  "insert_record_at rid buf =
     andthen (\<lambda>s. if rid_page rid < num_pages (rm_hdr s)
                  then andthen create_new_page_handle (\<lambda>_. ret ()) s else ret () s) (\<lambda>_.
     andthen (fetch_page_handle (rid_page rid)) (\<lambda>f.
     andthen (write_frame f (\<lambda>m. bitmap_set m rm_bitmap (nat (rid_slot rid)))) (\<lambda>_.
     andthen (write_frame f (\<lambda>m. set_num_records (to_i32 (get_num_records m + 1)) m)) (\<lambda>_.
     andthen (\<lambda>s. if get_num_records (page_data f s) = num_records_per_page (rm_hdr s)
                  then set_hdr (first_free_page_no_update (\<lambda>_. get_next_free (page_data f s))) s
                  else ret () s) (\<lambda>_.
     andthen (\<lambda>s. write_frame f (\<lambda>m. mcopy m (get_slot (rm_hdr s) (rid_slot rid)) buf 0 (nat (record_size (rm_hdr s)))) s) (\<lambda>_.
     on_pool (\<lambda>b. let (_, b') = UnpinPage (pg_id (pages b f)) True b in (Inr (), b'))))))))"

section \<open>RmScan\<close>

text \<open>The state of a scan is its \<open>rid_\<close>; the constructor leaves it as it is (\<open>rid0\<close>) when there is no record.\<close>

definition isStored :: "mem \<Rightarrow> nat \<Rightarrow> nat \<Rightarrow> bool" where
  "isStored m byteN bitN \<longleftrightarrow> bit (m (rm_bitmap + byteN)) (7 - bitN)"

definition slotGet :: "nat \<Rightarrow> nat \<Rightarrow> int" where
  "slotGet byteN bitN = int byteN * 8 + int bitN"

fun scan_pages :: "int list \<Rightarrow> (rb_error, RmFileHandle, Rid option) op" where
  "scan_pages [] s = (Inr None, s)"
| "scan_pages (pageNo # ps) s =
     andthen (fetch_page_handle pageNo) (\<lambda>f t.
       case find (\<lambda>(byteN, bitN). isStored (page_data f t) byteN bitN)
              (List.product [0..<nat (bitmap_size (rm_hdr t))] [0..<8]) of
         Some (byteN, bitN) \<Rightarrow> (Inr (Some \<lparr>rid_page = pageNo, rid_slot = slotGet byteN bitN\<rparr>), t)
       | None \<Rightarrow> scan_pages ps t) s"

definition RmScan_new :: "Rid \<Rightarrow> (rb_error, RmFileHandle, Rid) op" where
  "RmScan_new rid0 s =
     andthen (scan_pages [1..num_pages (rm_hdr s) - 1]) (\<lambda>r. ret (case r of None \<Rightarrow> rid0 | Some rid \<Rightarrow> rid)) s"

fun next_pages :: "int list \<Rightarrow> int \<Rightarrow> (rb_error, RmFileHandle, Rid) op" where
  "next_pages [] slotno s = (Inr \<lparr>rid_page = -1, rid_slot = -1\<rparr>, s)"
| "next_pages (pageno # ps) slotno s =
     andthen (fetch_page_handle pageno) (\<lambda>f t.
       let i = next_bit True (page_data f t) rm_bitmap (num_records_per_page (rm_hdr t)) slotno
       in if i = num_records_per_page (rm_hdr t) then next_pages ps (-1) t
          else (Inr \<lparr>rid_page = pageno, rid_slot = i\<rparr>, t)) s"

definition RmScan_next :: "Rid \<Rightarrow> (rb_error, RmFileHandle, Rid) op" where
  "RmScan_next rid s = next_pages [rid_page rid..num_pages (rm_hdr s) - 1] (rid_slot rid) s"

definition RmScan_is_end :: "Rid \<Rightarrow> bool" where
  "RmScan_is_end rid \<longleftrightarrow> rid_page rid = RM_NO_PAGE"

section \<open>RmManager\<close>

definition on_disk_manager :: "(rb_error, DiskManager, 'a) op \<Rightarrow> (rb_error, BufferPoolManager, 'a) op" where
  "on_disk_manager m b = (let (r, d) = m (disk_manager b) in (r, b\<lparr>disk_manager := d\<rparr>))"

definition new_file_hdr :: "int \<Rightarrow> RmFileHdr" where
  "new_file_hdr rsize =
     (let n = (int BITMAP_WIDTH * (int PAGE_SIZE - 1 - int sizeof_RmFileHdr) + 1) div (1 + rsize * int BITMAP_WIDTH)
      in \<lparr>record_size = rsize, num_pages = 1, num_records_per_page = n, first_free_page_no = RM_NO_PAGE,
          bitmap_size = (n + int BITMAP_WIDTH - 1) div int BITMAP_WIDTH\<rparr>)"

definition write_file_hdr :: "int \<Rightarrow> RmFileHdr \<Rightarrow> (rb_error, DiskManager, unit) op" where
  "write_file_hdr fd h = write_page fd RM_FILE_HDR_PAGE (mwrite zero_mem 0 (file_hdr_bytes h)) sizeof_RmFileHdr"

definition RmManager_create_file :: "path \<Rightarrow> int \<Rightarrow> (rb_error, BufferPoolManager, unit) op" where
  "RmManager_create_file filename rsize =
     (if rsize < 1 \<or> rsize > RM_MAX_RECORD_SIZE then throw (InvalidRecordSizeError rsize)
      else andthen (on_disk_manager (create_file filename)) (\<lambda>_.
           andthen (on_disk_manager (open_file filename)) (\<lambda>fd.
           andthen (on_disk_manager (write_file_hdr fd (new_file_hdr rsize))) (\<lambda>_.
           modify_st (\<lambda>b. b\<lparr>disk_manager := close_file fd (disk_manager b)\<rparr>)))))"

definition RmManager_destroy_file :: "path \<Rightarrow> (rb_error, BufferPoolManager, unit) op" where
  "RmManager_destroy_file filename = on_disk_manager (destroy_file filename)"

definition RmFileHandle_new :: "int \<Rightarrow> BufferPoolManager \<Rightarrow> (rb_error + RmFileHandle) \<times> BufferPoolManager" where
  "RmFileHandle_new fd b =
     (let (r, m, d) = read_page fd RM_FILE_HDR_PAGE zero_mem sizeof_RmFileHdr (disk_manager b)
      in case r of
           Inl e \<Rightarrow> (Inl e, b\<lparr>disk_manager := d\<rparr>)
         | Inr _ \<Rightarrow>
             (case set_fd2pageno fd (num_pages (file_hdr_of_mem m)) d of
                (Inl e, d2) \<Rightarrow> (Inl e, b\<lparr>disk_manager := d2\<rparr>)
              | (Inr _, d2) \<Rightarrow>
                  let b2 = b\<lparr>disk_manager := d2\<rparr> in (Inr \<lparr>rm_bpm = b2, rm_fd = fd, rm_hdr = file_hdr_of_mem m\<rparr>, b2)))"

definition RmManager_open_file :: "path \<Rightarrow> BufferPoolManager \<Rightarrow> (rb_error + RmFileHandle) \<times> BufferPoolManager" where
  "RmManager_open_file filename b =
     (case on_disk_manager (open_file filename) b of
        (Inl e, b1) \<Rightarrow> (Inl e, b1)
      | (Inr fd, b1) \<Rightarrow> RmFileHandle_new fd b1)"

definition RmManager_close_file :: "RmFileHandle \<Rightarrow> (rb_error, BufferPoolManager, unit) op" where
  "RmManager_close_file s =
     andthen (on_disk_manager (write_file_hdr (rm_fd s) (rm_hdr s))) (\<lambda>_.
     andthen (FlushAllPages (rm_fd s)) (\<lambda>_.
     modify_st (\<lambda>b. b\<lparr>disk_manager := close_file (rm_fd s) (disk_manager b)\<rparr>)))"

section \<open>The layout of a page\<close>

definition hdr_ok :: "RmFileHdr \<Rightarrow> bool" where
  "hdr_ok h \<longleftrightarrow> 0 < record_size h \<and> 0 < num_records_per_page h \<and> num_records_per_page h \<le> 8 * bitmap_size h \<and>
     int rm_bitmap + bitmap_size h + num_records_per_page h * record_size h \<le> int PAGE_SIZE"

definition slot_used :: "mem \<Rightarrow> nat \<Rightarrow> bool" where
  "slot_used m i = is_set m rm_bitmap i"

definition slot_val :: "RmFileHdr \<Rightarrow> mem \<Rightarrow> nat \<Rightarrow> byte list" where
  "slot_val h m i = mread m (get_slot h (int i)) (nat (record_size h))"

lemma rm_bitmap_eq [simp]: "rm_bitmap = 12"
  by (simp add: rm_bitmap_def sizeof_RmPageHdr_def OFFSET_PAGE_HDR_def)

lemma new_file_hdr_ok:
  assumes "1 \<le> r" and "r \<le> RM_MAX_RECORD_SIZE"
  shows "hdr_ok (new_file_hdr r)" "7 \<le> num_records_per_page (new_file_hdr r)"
proof -
  define d where "d = 1 + r * 8"
  define n where "n = 32601 div d"
  have d: "9 \<le> d" "d \<le> 4097" using assms by (auto simp: d_def RM_MAX_RECORD_SIZE_def)
  have h: "new_file_hdr r = \<lparr>record_size = r, num_pages = 1, num_records_per_page = n, first_free_page_no = RM_NO_PAGE,
      bitmap_size = (7 + n) div 8\<rparr>"
    by (simp add: new_file_hdr_def BITMAP_WIDTH_def PAGE_SIZE_def sizeof_RmFileHdr_def n_def d_def Let_def)
  have "32601 mod d + n * d = 32601" unfolding n_def by (rule mod_div_mult_eq)
  moreover have "0 \<le> 32601 mod d" using d by simp
  ultimately have nd: "n * d \<le> 32601" by linarith
  have n7: "7 \<le> n" using zdiv_mono2 [of 32601 d 4097] d by (simp add: n_def)
  then show "7 \<le> num_records_per_page (new_file_hdr r)" by (simp add: h)
  have bm: "8 * ((7 + n) div 8) \<le> n + 7" "n \<le> 8 * ((7 + n) div 8)" by presburger+
  have "n * d = n + 8 * (n * r)" by (simp add: d_def algebra_simps)
  then show "hdr_ok (new_file_hdr r)"
    using n7 nd bm assms by (simp add: hdr_ok_def h PAGE_SIZE_def)
qed

lemma int_get_slot:
  "hdr_ok h \<Longrightarrow> int (get_slot h (int i)) = 12 + bitmap_size h + int i * record_size h"
  by (simp add: get_slot_def hdr_ok_def)

lemma slot_order:
  assumes "hdr_ok h" and "i < j"
  shows "int i * record_size h + record_size h \<le> int j * record_size h"
proof -
  have "(int i + 1) * record_size h \<le> int j * record_size h"
    using assms by (intro mult_right_mono) (simp_all add: hdr_ok_def)
  then show ?thesis by (simp add: algebra_simps)
qed

lemma get_slot_bounds:
  assumes ok: "hdr_ok h" and i: "i < nat (num_records_per_page h)"
  shows "12 + nat (bitmap_size h) \<le> get_slot h (int i)" "get_slot h (int i) + nat (record_size h) \<le> PAGE_SIZE"
    "i div 8 < nat (bitmap_size h)" "0 \<le> bitmap_size h"
proof -
  have b: "0 \<le> bitmap_size h" and r: "0 < record_size h" using ok by (auto simp: hdr_ok_def)
  have "0 \<le> int i * record_size h" using r by simp
  then have "int (12 + nat (bitmap_size h)) \<le> int (get_slot h (int i))" using int_get_slot [OF ok, of i] b by simp
  then show "12 + nat (bitmap_size h) \<le> get_slot h (int i)" by linarith
  have "int i * record_size h + record_size h \<le> num_records_per_page h * record_size h"
    using slot_order [OF ok i] i by (simp split: if_splits)
  then have "int (get_slot h (int i) + nat (record_size h)) \<le> int PAGE_SIZE"
    using int_get_slot [OF ok, of i] r ok by (simp add: hdr_ok_def)
  then show "get_slot h (int i) + nat (record_size h) \<le> PAGE_SIZE" by linarith
  show "0 \<le> bitmap_size h" by (rule b)
  have "int i < 8 * bitmap_size h" using i ok by (auto simp: hdr_ok_def)
  then show "i div 8 < nat (bitmap_size h)" by linarith
qed

lemma get_slot_disjoint:
  assumes ok: "hdr_ok h" and "i \<noteq> j"
  shows "get_slot h (int i) + nat (record_size h) \<le> get_slot h (int j) \<or> get_slot h (int j) + nat (record_size h) \<le> get_slot h (int i)"
proof -
  have r: "0 < record_size h" using ok by (auto simp: hdr_ok_def)
  have step: "get_slot h (int k) + nat (record_size h) \<le> get_slot h (int l)" if "k < l" for k l
  proof -
    have "int (get_slot h (int k) + nat (record_size h)) \<le> int (get_slot h (int l))"
      using slot_order [OF ok that] int_get_slot [OF ok, of k] int_get_slot [OF ok, of l] r by simp
    then show ?thesis by linarith
  qed
  show ?thesis using step [of i j] step [of j i] assms(2) by (cases "i < j") auto
qed

definition put_slot :: "RmFileHdr \<Rightarrow> nat \<Rightarrow> mem \<Rightarrow> mem \<Rightarrow> mem" where
  "put_slot h i buf m = bitmap_set (mcopy m (get_slot h (int i)) buf 0 (nat (record_size h))) rm_bitmap i"

text \<open>
  The interface of a slotted page: a bit and a value for each slot, and the effect of filling, clearing and rewriting a slot and of writes
  to the page header.
\<close>

locale slotted_page =
  fixes valid :: "'h \<Rightarrow> bool"
    and slots :: "'h \<Rightarrow> nat"
    and used :: "'p \<Rightarrow> nat \<Rightarrow> bool"
    and val :: "'h \<Rightarrow> 'p \<Rightarrow> nat \<Rightarrow> 'v"
    and fill :: "'h \<Rightarrow> nat \<Rightarrow> 'b \<Rightarrow> 'p \<Rightarrow> 'p"
    and rewrite :: "'h \<Rightarrow> nat \<Rightarrow> 'b \<Rightarrow> 'p \<Rightarrow> 'p"
    and clear :: "nat \<Rightarrow> 'p \<Rightarrow> 'p"
    and touch :: "int \<Rightarrow> 'p \<Rightarrow> 'p"
    and content :: "'h \<Rightarrow> 'b \<Rightarrow> 'v"
  assumes used_fill: "valid h \<Longrightarrow> i < slots h \<Longrightarrow> j < slots h \<Longrightarrow> used (fill h i b p) j \<longleftrightarrow> j = i \<or> used p j"
    and val_fill: "valid h \<Longrightarrow> i < slots h \<Longrightarrow> j < slots h \<Longrightarrow> val h (fill h i b p) j = (if j = i then content h b else val h p j)"
    and used_rewrite: "valid h \<Longrightarrow> i < slots h \<Longrightarrow> j < slots h \<Longrightarrow> used (rewrite h i b p) j \<longleftrightarrow> used p j"
    and val_rewrite: "valid h \<Longrightarrow> i < slots h \<Longrightarrow> j < slots h \<Longrightarrow> val h (rewrite h i b p) j = (if j = i then content h b else val h p j)"
    and used_clear: "used (clear i p) j \<longleftrightarrow> j \<noteq> i \<and> used p j"
    and val_clear: "valid h \<Longrightarrow> i < slots h \<Longrightarrow> j < slots h \<Longrightarrow> val h (clear i p) j = val h p j"
    and used_touch: "used (touch v p) j \<longleftrightarrow> used p j"
    and val_touch: "valid h \<Longrightarrow> j < slots h \<Longrightarrow> val h (touch v p) j = val h p j"
begin

definition entry :: "'h \<Rightarrow> 'p \<Rightarrow> nat \<Rightarrow> 'v option" where
  "entry h p i = (if i < slots h \<and> used p i then Some (val h p i) else None)"

lemma entry_fill: "valid h \<Longrightarrow> i < slots h \<Longrightarrow> entry h (fill h i b p) = (entry h p)(i \<mapsto> content h b)"
  by (rule ext) (auto simp: entry_def used_fill val_fill)

lemma entry_rewrite:
  "valid h \<Longrightarrow> i < slots h \<Longrightarrow> used p i \<Longrightarrow> entry h (rewrite h i b p) = (entry h p)(i \<mapsto> content h b)"
  by (rule ext) (auto simp: entry_def used_rewrite val_rewrite)

lemma entry_clear: "valid h \<Longrightarrow> i < slots h \<Longrightarrow> entry h (clear i p) = (entry h p)(i := None)"
  by (rule ext) (auto simp: entry_def used_clear val_clear)

lemma entry_touch: "valid h \<Longrightarrow> entry h (touch v p) = entry h p"
  by (rule ext) (auto simp: entry_def used_touch val_touch)

end

lemma slot_used_mcopy:
  assumes "hdr_ok h" and "i < nat (num_records_per_page h)" and "j < nat (num_records_per_page h)"
  shows "slot_used (mcopy m (get_slot h (int i)) buf 0 k) j = slot_used m j"
  unfolding slot_used_def
proof (rule is_set_cong)
  fix a assume "rm_bitmap \<le> a" and "a \<le> rm_bitmap + j div 8"
  then have "a < get_slot h (int i)" using get_slot_bounds [OF assms(1,2)] get_slot_bounds(3) [OF assms(1,3)] by simp
  then show "mcopy m (get_slot h (int i)) buf 0 k a = m a" by (simp add: mem_simps)
qed

lemma slot_val_low:
  assumes "hdr_ok h" and "j < nat (num_records_per_page h)" and "\<And>a. 12 + nat (bitmap_size h) \<le> a \<Longrightarrow> m' a = m a"
  shows "slot_val h m' j = slot_val h m j"
  unfolding slot_val_def
  by (rule mread_cong) (use get_slot_bounds(1) [OF assms(1,2)] assms(3) in simp)

lemma slot_val_mcopy:
  assumes "hdr_ok h" and "i < nat (num_records_per_page h)" and "j < nat (num_records_per_page h)"
  shows "slot_val h (mcopy m (get_slot h (int i)) buf 0 (nat (record_size h))) j
    = (if j = i then mread buf 0 (nat (record_size h)) else slot_val h m j)"
  using get_slot_disjoint [OF assms(1), of i j] by (auto simp: slot_val_def mem_simps)

interpretation page: slotted_page hdr_ok "\<lambda>h. nat (num_records_per_page h)" slot_used slot_val put_slot
  "\<lambda>h i buf m. mcopy m (get_slot h (int i)) buf 0 (nat (record_size h))" "\<lambda>i m. bitmap_reset m rm_bitmap i" set_num_records
  "\<lambda>h buf. mread buf 0 (nat (record_size h))"
proof unfold_locales
  fix h :: RmFileHdr and i j buf m
  assume v: "hdr_ok h" and i: "i < nat (num_records_per_page h)" and j: "j < nat (num_records_per_page h)"
  let ?m = "mcopy m (get_slot h (int i)) buf 0 (nat (record_size h))"
  have low: "\<And>a. 12 + nat (bitmap_size h) \<le> a \<Longrightarrow> bitmap_set ?m rm_bitmap i a = ?m a"
    "\<And>a. 12 + nat (bitmap_size h) \<le> a \<Longrightarrow> bitmap_reset m rm_bitmap i a = m a"
    using get_slot_bounds(3) [OF v i] by (simp_all add: mem_simps)
  show "slot_used (put_slot h i buf m) j \<longleftrightarrow> j = i \<or> slot_used m j"
    using slot_used_mcopy [OF v i j, of m buf "nat (record_size h)"]
    by (simp add: put_slot_def slot_used_def mem_simps)
  show "slot_val h (put_slot h i buf m) j = (if j = i then mread buf 0 (nat (record_size h)) else slot_val h m j)"
    unfolding put_slot_def using slot_val_low [OF v j low(1)] slot_val_mcopy [OF v i j] by simp
  show "slot_used ?m j = slot_used m j" by (rule slot_used_mcopy [OF v i j])
  show "slot_val h ?m j = (if j = i then mread buf 0 (nat (record_size h)) else slot_val h m j)"
    by (rule slot_val_mcopy [OF v i j])
  show "slot_val h (bitmap_reset m rm_bitmap i) j = slot_val h m j" by (rule slot_val_low [OF v j low(2)])
next
  fix i j m
  show "slot_used (bitmap_reset m rm_bitmap i) j \<longleftrightarrow> j \<noteq> i \<and> slot_used m j" by (simp add: slot_used_def mem_simps)
next
  fix v m j
  show "slot_used (set_num_records v m) j = slot_used m j"
    unfolding slot_used_def by (rule is_set_cong) (simp add: set_num_records_def OFFSET_PAGE_HDR_def mem_simps)
next
  fix h :: RmFileHdr and v m j
  assume "hdr_ok h" and "j < nat (num_records_per_page h)"
  then show "slot_val h (set_num_records v m) j = slot_val h m j"
    by (rule slot_val_low) (simp add: set_num_records_def OFFSET_PAGE_HDR_def mem_simps)
qed

section \<open>The records of a file\<close>

definition rm_page :: "RmFileHandle \<Rightarrow> int \<Rightarrow> mem" where
  "rm_page s no = page_view (rm_bpm s) (rm_pid s no)"

definition data_page :: "RmFileHandle \<Rightarrow> int \<Rightarrow> bool" where
  "data_page s no \<longleftrightarrow> 1 \<le> no \<and> no < num_pages (rm_hdr s)"

definition rm_table :: "RmFileHandle \<Rightarrow> Rid \<Rightarrow> byte list option" where
  "rm_table s rid = (if data_page s (rid_page rid) \<and> 0 \<le> rid_slot rid
     then page.entry (rm_hdr s) (rm_page s (rid_page rid)) (nat (rid_slot rid)) else None)"

definition rm_inv :: "RmFileHandle \<Rightarrow> bool" where
  "rm_inv s \<longleftrightarrow> bpm_inv (rm_bpm s) \<and> hdr_ok (rm_hdr s) \<and> 0 \<le> rm_fd s \<and> rm_fd s < MAX_FD \<and>
     fd_ino (disk_manager (rm_bpm s)) (rm_fd s) \<noteq> None \<and>
     1 \<le> num_pages (rm_hdr s) \<and> num_pages (rm_hdr s) \<le> 524288 \<and>
     fd2pageno (disk_manager (rm_bpm s)) (rm_fd s) = num_pages (rm_hdr s) \<and>
     (\<forall>no. data_page s no \<longrightarrow> stored (rm_bpm s) (rm_pid s no)) \<and>
     (\<forall>no \<ge> num_pages (rm_hdr s). page_table (rm_bpm s) (rm_pid s no) = None)"

text \<open>A frame is at hand for the page.\<close>

definition can_fetch :: "RmFileHandle \<Rightarrow> int \<Rightarrow> bool" where
  "can_fetch s no \<longleftrightarrow> page_table (rm_bpm s) (rm_pid s no) \<noteq> None \<or> \<not> no_frame (rm_bpm s)"

definition holds_page :: "RmFileHandle \<Rightarrow> int \<Rightarrow> frame_id \<Rightarrow> bool" where
  "holds_page s no f \<longleftrightarrow> page_table (rm_bpm s) (rm_pid s no) = Some f \<and> 0 < pg_pin (pages (rm_bpm s) f)"

lemma rm_invD:
  assumes "rm_inv s"
  shows "bpm_inv (rm_bpm s)" "hdr_ok (rm_hdr s)" "0 \<le> rm_fd s" "rm_fd s < MAX_FD"
    "fd_ino (disk_manager (rm_bpm s)) (rm_fd s) \<noteq> None" "1 \<le> num_pages (rm_hdr s)" "num_pages (rm_hdr s) \<le> 524288"
    "fd2pageno (disk_manager (rm_bpm s)) (rm_fd s) = num_pages (rm_hdr s)"
    "data_page s no \<Longrightarrow> stored (rm_bpm s) (rm_pid s no)"
    "num_pages (rm_hdr s) \<le> no \<Longrightarrow> page_table (rm_bpm s) (rm_pid s no) = None"
  using assms unfolding rm_inv_def by blast+

lemma rm_usable: "rm_inv s \<Longrightarrow> 0 \<le> no \<Longrightarrow> no < 524288 \<Longrightarrow> usable (rm_bpm s) (rm_pid s no)"
  using rm_invD(5) [of s] by (simp add: usable_def rm_pid_def addressable_def)

lemma rm_usable_data: "rm_inv s \<Longrightarrow> data_page s no \<Longrightarrow> usable (rm_bpm s) (rm_pid s no)"
  using rm_usable [of s no] rm_invD(7) [of s] by (simp add: data_page_def)

text \<open>Reading a record only needs the bytes inside the page.\<close>

lemma entry_trim:
  assumes ok: "hdr_ok h"
  shows "page.entry h (trim m) = page.entry h m"
proof
  fix i
  show "page.entry h (trim m) i = page.entry h m i"
  proof (cases "i < nat (num_records_per_page h)")
    case True
    note B = get_slot_bounds [OF ok True]
    have "slot_used (trim m) i = slot_used m i"
      unfolding slot_used_def by (rule is_set_cong) (use B in \<open>simp add: trim_def\<close>)
    moreover have "slot_val h (trim m) i = slot_val h m i"
      unfolding slot_val_def by (rule mread_cong) (use B in \<open>simp add: trim_def\<close>)
    ultimately show ?thesis by (simp add: page.entry_def)
  qed (simp add: page.entry_def)
qed

lemma fetch_page_handle_ok:
  assumes inv: "rm_inv s" and no: "data_page s no" and can: "can_fetch s no"
  obtains f t where "fetch_page_handle no s = (Inr f, t)" and "rm_inv t" and "t = s\<lparr>rm_bpm := rm_bpm t\<rparr>"
    and "holds_page t no f" and "trim (page_data f t) = rm_page s no"
    and "\<And>q. data_page s q \<Longrightarrow> rm_page t q = rm_page s q" and "pg_id (pages (rm_bpm t) f) = rm_pid s no"
proof -
  note I = rm_invD [OF inv]
  note us = rm_usable_data [OF inv no]
  show ?thesis
  proof (cases rule: FetchPage_ok [OF I(1) us I(9) [OF no]])
    case 1
    then show ?thesis using can by (simp add: can_fetch_def)
  next
    case (2 f b)
    let ?t = "s\<lparr>rm_bpm := b\<rparr>"
    note tab = keepsD(2) [OF 2(3)]
    have run: "fetch_page_handle no s = (Inr f, ?t)"
      using 2(1) by (simp add: fetch_page_handle_def on_pool_def andthen_def run_simps)
    have pid: "rm_pid ?t = rm_pid s" by (simp add: rm_pid_def fun_eq_iff)
    have new: "page_table b (rm_pid s q) = None" if "num_pages (rm_hdr s) \<le> q" for q
      using 2(7) I(10) [OF that] that no by (simp add: rm_pid_def data_page_def)
    have inv': "rm_inv ?t"
      unfolding rm_inv_def
      using I 2(2) tab keepsD(4) [OF 2(3)] new
      by (simp add: same_tables_def data_page_def pid)
    have pg: "rm_page ?t q = rm_page s q" if "data_page s q" for q
      using keepsD(3) [OF 2(3) rm_usable_data [OF inv that]] by (simp add: rm_page_def pid)
    show ?thesis
      using that [OF run inv'] 2(4-6) pg pool_okD(5) [OF 2(2,4)]
      by (simp add: holds_page_def page_data_def rm_page_def pid)
  qed
qed

lemma write_frame_ok:
  assumes inv: "rm_inv s" and own: "holds_page s no f" and no: "data_page s no"
  obtains t where "write_frame f g s = (Inr (), t)" and "rm_inv t" and "t = s\<lparr>rm_bpm := rm_bpm t\<rparr>"
    and "holds_page t no f" and "page_data f t = g (page_data f s)"
    and "\<And>q. rm_page t q = (if q = no then trim (g (page_data f s)) else rm_page s q)"
    and "pg_id (pages (rm_bpm t) f) = pg_id (pages (rm_bpm s) f)"
proof -
  note I = rm_invD [OF inv]
  let ?m = "g (page_data f s)"
  let ?b = "store_page f ?m (rm_bpm s)"
  let ?t = "s\<lparr>rm_bpm := ?b\<rparr>"
  have own': "page_table (rm_bpm s) (rm_pid s no) = Some f" "0 < pg_pin (pages (rm_bpm s) f)"
    using own by (simp_all add: holds_page_def)
  note S = store_page_ok [OF I(1) own', of ?m]
  have run: "write_frame f g s = (Inr (), ?t)" by (simp add: write_frame_def run_simps)
  have rest: "page_table ?b = page_table (rm_bpm s)" "disk_manager ?b = disk_manager (rm_bpm s)"
    by (simp_all add: store_page_def upd_frame_def)
  have pid: "rm_pid ?t = rm_pid s" by (simp add: rm_pid_def fun_eq_iff)
  have inv': "rm_inv ?t" unfolding rm_inv_def using I S(1,3) by (simp add: rest data_page_def pid)
  have pg: "rm_page ?t q = (if q = no then trim ?m else rm_page s q)" for q
  proof -
    have "rm_pid s q = rm_pid s no \<longleftrightarrow> q = no" by (simp add: rm_pid_def)
    then show ?thesis by (simp add: rm_page_def pid S(2))
  qed
  have hold: "holds_page ?t no f" using own' by (simp add: holds_page_def pid rest) (simp add: store_page_def upd_frame_def)
  show ?thesis
    by (rule that [OF run inv' _ hold _ pg]) (simp_all add: page_data_def store_page_def upd_frame_def)
qed

lemma first_free_inv: "rm_inv (s\<lparr>rm_hdr := first_free_page_no_update g (rm_hdr s)\<rparr>) = rm_inv s"
  by (simp add: rm_inv_def data_page_def rm_pid_def hdr_ok_def)

lemma first_free_table: "rm_table (s\<lparr>rm_hdr := first_free_page_no_update g (rm_hdr s)\<rparr>) = rm_table s"
proof -
  have "page.entry (first_free_page_no_update g h) m i = page.entry h m i" for h m i
    by (simp add: page.entry_def slot_val_def get_slot_def)
  then show ?thesis by (simp add: rm_table_def data_page_def rm_page_def rm_pid_def fun_eq_iff)
qed

text \<open>Replacing the bytes of one page changes the records of that page only.\<close>

lemma rm_table_page:
  assumes hdr: "rm_hdr t = rm_hdr s" and dp: "data_page s no" and slot: "0 \<le> slot"
    and ent: "page.entry (rm_hdr s) (rm_page t no) = (page.entry (rm_hdr s) (rm_page s no))(nat slot := v)"
    and oth: "\<And>q. data_page s q \<Longrightarrow> q \<noteq> no \<Longrightarrow> rm_page t q = rm_page s q"
  shows "rm_table t = (rm_table s)(\<lparr>rid_page = no, rid_slot = slot\<rparr> := v)"
proof
  fix rid :: Rid
  obtain p k where rid: "rid = \<lparr>rid_page = p, rid_slot = k\<rparr>" by (cases rid)
  have d: "data_page t p = data_page s p" by (simp add: data_page_def hdr)
  show "rm_table t rid = ((rm_table s)(\<lparr>rid_page = no, rid_slot = slot\<rparr> := v)) rid"
  proof (cases "p = no")
    case True
    have "k = slot \<longleftrightarrow> nat k = nat slot" if "0 \<le> k" using that slot by auto
    then show ?thesis using True ent dp slot d by (auto simp: rm_table_def rid hdr)
  next
    case False
    then show ?thesis using oth [of p] d by (simp add: rm_table_def rid hdr)
  qed
qed

lemma rm_table_same:
  assumes "rm_hdr t = rm_hdr s" and "\<And>q. data_page s q \<Longrightarrow> rm_page t q = rm_page s q"
  shows "rm_table t = rm_table s"
  by (rule ext) (simp add: rm_table_def assms data_page_def)

lemma create_new_page_handle_ok:
  assumes inv: "rm_inv s" and free: "\<not> no_frame (rm_bpm s)" and small: "num_pages (rm_hdr s) < 524288"
  obtains f t where "create_new_page_handle s = (Inr f, t)" and "rm_inv t"
    and "t = s\<lparr>rm_bpm := rm_bpm t, rm_hdr := (rm_hdr s)\<lparr>num_pages := num_pages (rm_hdr s) + 1\<rparr>\<rparr>"
    and "holds_page t (num_pages (rm_hdr s)) f" and "page_data f t = zero_mem" and "rm_page t (num_pages (rm_hdr s)) = zero_mem"
    and "\<And>q. data_page s q \<Longrightarrow> rm_page t q = rm_page s q"
    and "pg_id (pages (rm_bpm t) f) = rm_pid s (num_pages (rm_hdr s))"
proof -
  note I = rm_invD [OF inv]
  let ?n = "num_pages (rm_hdr s)"
  have np: "next_page (rm_bpm s) (rm_fd s) = rm_pid s ?n" by (simp add: next_page_def rm_pid_def I(8))
  have us: "usable (rm_bpm s) (rm_pid s ?n)" using rm_usable [OF inv] I(6) small by simp
  have i32: "to_i32 (?n + 1) = ?n + 1" using I(6) small by (intro to_i32_id) (simp add: is_i32_def)
  have tb: "page_table (rm_bpm s) (rm_pid s ?n) = None" using I(10) [of ?n] by simp
  obtain f b where run: "NewPage (rm_fd s) (rm_bpm s) = (Inr (Some (f, rm_pid s ?n)), b)" and ok: "bpm_inv b"
    and tab: "page_table b (rm_pid s ?n) = Some f" and pin: "pg_pin (pages b f) = 1" and z: "pg_data (pages b f) = zero_mem"
    and usb: "usable b = usable (rm_bpm s)" and st: "\<And>pid. stored (rm_bpm s) pid \<Longrightarrow> stored b pid"
    and vw: "\<And>pid. usable (rm_bpm s) pid \<Longrightarrow> page_view b pid = ((page_view (rm_bpm s))(rm_pid s ?n := zero_mem)) pid"
    and cnt: "fd2pageno (disk_manager b) (rm_fd s) = to_i32 (fd2pageno (disk_manager (rm_bpm s)) (rm_fd s) + 1)"
    and dom: "\<And>q. q \<noteq> rm_pid s ?n \<Longrightarrow> page_table (rm_bpm s) q = None \<Longrightarrow> page_table b q = None"
    using NewPage_some [OF I(1) free I(3,4), unfolded np, OF us tb] by blast
  let ?t = "s\<lparr>rm_bpm := b, rm_hdr := (rm_hdr s)\<lparr>num_pages := ?n + 1\<rparr>\<rparr>"
  have pid: "rm_pid ?t = rm_pid s" by (simp add: rm_pid_def fun_eq_iff)
  have "create_new_page_handle s = (Inr f, s\<lparr>rm_bpm := b, rm_hdr := num_pages_update (\<lambda>n. to_i32 (n + 1)) (rm_hdr s)\<rparr>)"
    using run by (simp add: create_new_page_handle_def on_pool_def andthen_def set_hdr_def run_simps)
  moreover have "num_pages_update (\<lambda>n. to_i32 (n + 1)) (rm_hdr s) = (rm_hdr s)\<lparr>num_pages := ?n + 1\<rparr>"
    using i32 by (cases "rm_hdr s") simp
  ultimately have run': "create_new_page_handle s = (Inr f, ?t)" by simp
  have ino: "fd_ino (disk_manager b) (rm_fd s) \<noteq> None"
    using usb us by (simp add: usable_def rm_pid_def fun_eq_iff) (metis PageId.select_convs(1) PageId.select_convs(2))
  have stn: "stored b (rm_pid s ?n)" using tab by (simp add: stored_def)
  have std: "stored b (rm_pid s q)" if "1 \<le> q" "q < ?n + 1" for q
    using stn st [OF I(9), of q] that by (cases "q = ?n") (auto simp: data_page_def)
  have none: "page_table b (rm_pid s q) = None" if "?n + 1 \<le> q" for q
    using dom [of "rm_pid s q"] I(10) [of q] that by (simp add: rm_pid_def)
  have inv': "rm_inv ?t"
    unfolding rm_inv_def
    using I(2-7) ok ino cnt i32 small std none by (simp add: pid data_page_def hdr_ok_def I(8))
  have pg: "rm_page ?t q = rm_page s q" if "data_page s q" for q
    using vw [OF rm_usable_data [OF inv that]] that by (simp add: rm_page_def pid) (simp add: rm_pid_def data_page_def)
  show ?thesis
    by (rule that [OF run' inv'])
      (use tab pin z vw [OF us] pg pool_okD(5) [OF ok tab] in \<open>simp_all add: holds_page_def page_data_def rm_page_def pid\<close>)
qed

section \<open>The effect of the record operations\<close>

lemma page_data_store [simp]: "page_data f (s\<lparr>rm_bpm := store_page f m b\<rparr>) = m"
    "page_data f (s\<lparr>rm_bpm := store_page f m b, rm_hdr := h\<rparr>) = m"
  by (simp_all add: page_data_def store_page_def upd_frame_def)

lemma store_page_store [simp]: "store_page f m (store_page f m' b) = store_page f m b"
  by (simp add: store_page_def upd_frame_def)

lemma pg_id_store [simp]: "pg_id (pages (store_page f m b) g) = pg_id (pages b g)"
  by (simp add: store_page_def upd_frame_def)

lemmas rm_run = andthen_def run_simps write_frame_def set_hdr_def

lemma insert_slot_run:
  fixes s buf f
  defines "i \<equiv> first_bit False (page_data f s) rm_bitmap (num_records_per_page (rm_hdr s))"
  defines "m \<equiv> put_slot (rm_hdr s) (nat i) buf (page_data f s)"
  defines "m' \<equiv> set_num_records (to_i32 (get_num_records m + 1)) m"
  assumes "0 \<le> i"
  shows "insert_slot f buf s = (Inr \<lparr>rid_page = pid_no (pg_id (pages (rm_bpm s) f)), rid_slot = i\<rparr>,
     if get_num_records m' \<ge> num_records_per_page (rm_hdr s)
     then s\<lparr>rm_bpm := store_page f m' (rm_bpm s), rm_hdr := first_free_page_no_update (\<lambda>_. get_next_free m') (rm_hdr s)\<rparr>
     else s\<lparr>rm_bpm := store_page f m' (rm_bpm s)\<rparr>)"
proof -
  have "mcopy (page_data f s) (get_slot (rm_hdr s) i) buf 0 (nat (record_size (rm_hdr s)))
      = mcopy (page_data f s) (get_slot (rm_hdr s) (int (nat i))) buf 0 (nat (record_size (rm_hdr s)))"
    using assms(4) by simp
  then have e: "bitmap_set (mcopy (page_data f s) (get_slot (rm_hdr s) i) buf 0 (nat (record_size (rm_hdr s)))) rm_bitmap (nat i) = m"
    unfolding m_def put_slot_def by simp
  show ?thesis
    unfolding insert_slot_def m'_def e [symmetric] i_def by (simp add: rm_run)
qed

lemma holds_view:
  "holds_page s no f \<Longrightarrow> rm_page s no = trim (page_data f s)"
  by (simp add: holds_page_def rm_page_def page_view_def page_data_def)

lemma insert_slot_ok:
  assumes inv: "rm_inv s" and own: "holds_page s no f" and no: "data_page s no"
    and room: "j < nat (num_records_per_page (rm_hdr s))" "\<not> slot_used (page_data f s) j"
  obtains slot t where "insert_slot f buf s = (Inr \<lparr>rid_page = no, rid_slot = slot\<rparr>, t)" and "rm_inv t"
    and "rm_table s \<lparr>rid_page = no, rid_slot = slot\<rparr> = None"
    and "rm_table t = (rm_table s)(\<lparr>rid_page = no, rid_slot = slot\<rparr> \<mapsto> mread buf 0 (nat (record_size (rm_hdr s))))"
    and "num_pages (rm_hdr t) = num_pages (rm_hdr s)"
proof -
  note I = rm_invD [OF inv]
  let ?h = "rm_hdr s" and ?d = "page_data f s"
  define i where "i = first_bit False ?d rm_bitmap (num_records_per_page ?h)"
  define m where "m = put_slot ?h (nat i) buf ?d"
  define m' where "m' = set_num_records (to_i32 (get_num_records m + 1)) m"
  define t0 where "t0 = s\<lparr>rm_bpm := store_page f m' (rm_bpm s)\<rparr>"
  have n: "-1 < num_records_per_page ?h" using room by simp
  have i: "0 \<le> i" "i < num_records_per_page ?h" "\<not> slot_used ?d (nat i)"
  proof -
    have "0 \<le> i \<and> i < num_records_per_page ?h \<and> \<not> is_set ?d rm_bitmap (nat i)"
    proof (cases rule: next_bit_cases [OF n, of False ?d rm_bitmap])
      case (1 k)
      then show ?thesis by (simp add: i_def first_bit_def)
    next
      case 2
      then show ?thesis using 2(2) [of "int j"] room by (simp add: slot_used_def)
    qed
    then show "0 \<le> i" "i < num_records_per_page ?h" "\<not> slot_used ?d (nat i)" by (simp_all add: slot_used_def)
  qed
  have ni: "nat i < nat (num_records_per_page ?h)" using i by simp
  have pid: "pid_no (pg_id (pages (rm_bpm s) f)) = no"
    using pool_okD(5) [OF I(1), of "rm_pid s no" f] own by (simp add: holds_page_def rm_pid_def)
  obtain t where w: "write_frame f (\<lambda>_. m') s = (Inr (), t)" and it: "rm_inv t" and ht: "t = s\<lparr>rm_bpm := rm_bpm t\<rparr>"
    and pg: "\<And>q. rm_page t q = (if q = no then trim m' else rm_page s q)"
    using write_frame_ok [OF inv own no, of "\<lambda>_. m'"] by metis
  have t: "t = t0" using w by (simp add: write_frame_def run_simps t0_def)
  have hdr: "rm_hdr t0 = ?h" by (simp add: t0_def)
  have ent: "page.entry ?h (rm_page t0 no) = (page.entry ?h (rm_page s no))(nat i \<mapsto> mread buf 0 (nat (record_size ?h)))"
    using pg [of no] by (simp add: t entry_trim [OF I(2)] holds_view [OF own] m'_def m_def page.entry_touch [OF I(2)]
      page.entry_fill [OF I(2) ni])
  have tab: "rm_table t0 = (rm_table s)(\<lparr>rid_page = no, rid_slot = i\<rparr> \<mapsto> mread buf 0 (nat (record_size ?h)))"
    by (rule rm_table_page [OF hdr no i(1) ent]) (use pg t in simp)
  have none: "rm_table s \<lparr>rid_page = no, rid_slot = i\<rparr> = None"
    using i(3) no holds_view [OF own] entry_trim [OF I(2), of ?d] by (simp add: rm_table_def page.entry_def)
  have run: "insert_slot f buf s = (Inr \<lparr>rid_page = no, rid_slot = i\<rparr>,
     if get_num_records m' \<ge> num_records_per_page ?h
     then t0\<lparr>rm_hdr := first_free_page_no_update (\<lambda>_. get_next_free m') (rm_hdr t0)\<rparr> else t0)"
    using insert_slot_run [of f s buf] i(1) unfolding i_def [symmetric] m_def [symmetric] m'_def [symmetric]
    by (simp add: t0_def pid)
  show ?thesis
    by (rule that [OF run _ none]) (use it t tab in \<open>simp_all add: first_free_inv [where s = t0, unfolded hdr] first_free_table [where s = t0, unfolded hdr] hdr\<close>)
qed

lemma first_free_num_pages: "rm_hdr t = first_free_page_no_update g (rm_hdr s) \<Longrightarrow> data_page t = data_page s"
  by (simp add: data_page_def fun_eq_iff)

lemma get_record_ok:
  assumes inv: "rm_inv s" and rec: "rm_table s rid = Some v" and can: "can_fetch s (rid_page rid)"
  obtains t where "get_record rid s = (Inr v, t)" and "rm_inv t" and "rm_table t = rm_table s" and "rm_hdr t = rm_hdr s"
proof -
  note I = rm_invD [OF inv]
  have no: "data_page s (rid_page rid)" and sl: "0 \<le> rid_slot rid"
    and ent: "page.entry (rm_hdr s) (rm_page s (rid_page rid)) (nat (rid_slot rid)) = Some v"
    using rec by (simp_all add: rm_table_def split: if_splits)
  obtain f t where F: "fetch_page_handle (rid_page rid) s = (Inr f, t)" "rm_inv t" "t = s\<lparr>rm_bpm := rm_bpm t\<rparr>"
      "holds_page t (rid_page rid) f" "trim (page_data f t) = rm_page s (rid_page rid)"
      "\<And>q. data_page s q \<Longrightarrow> rm_page t q = rm_page s q"
    using fetch_page_handle_ok [OF inv no can] by metis
  have hdr: "rm_hdr t = rm_hdr s" by (subst F(3)) simp
  have "page.entry (rm_hdr s) (page_data f t) (nat (rid_slot rid)) = Some v"
    using ent F(5) entry_trim [OF I(2), of "page_data f t"] by simp
  then have "slot_val (rm_hdr s) (page_data f t) (nat (rid_slot rid)) = v"
    by (simp add: page.entry_def split: if_splits)
  then have "get_record rid s = (Inr v, t)"
    using F(1) sl by (simp add: get_record_def andthen_def run_simps RmRecord_of_def slot_val_def hdr)
  moreover have "rm_table t = rm_table s" using rm_table_same [OF hdr] F(6) by blast
  ultimately show ?thesis using that F(2) hdr by blast
qed

lemma delete_record_run:
  assumes "fetch_page_handle (rid_page rid) s = (Inr f, u)"
  defines "m \<equiv> bitmap_reset (page_data f u) rm_bitmap (nat (rid_slot rid))"
  defines "m1 \<equiv> set_num_records (to_i32 (get_num_records m - 1)) m"
  shows "delete_record rid s = (Inr (),
     if get_num_records m1 = 0
     then u\<lparr>rm_bpm := store_page f (set_next_free (first_free_page_no (rm_hdr u)) m1) (rm_bpm u),
            rm_hdr := first_free_page_no_update (\<lambda>_. pid_no (pg_id (pages (rm_bpm u) f))) (rm_hdr u)\<rparr>
     else u\<lparr>rm_bpm := store_page f m1 (rm_bpm u)\<rparr>)"
  unfolding delete_record_def m1_def m_def
  by (simp add: rm_run assms(1) release_page_handle_def)

lemma entry_next_free:
  assumes "hdr_ok h"
  shows "page.entry h (set_next_free v m) = page.entry h m"
proof
  fix i
  have "slot_used (set_next_free v m) i = slot_used m i"
    unfolding slot_used_def by (rule is_set_cong) (simp add: set_next_free_def OFFSET_PAGE_HDR_def mem_simps)
  moreover have "i < nat (num_records_per_page h) \<Longrightarrow> slot_val h (set_next_free v m) i = slot_val h m i"
    by (rule slot_val_low [OF assms]) (simp_all add: set_next_free_def OFFSET_PAGE_HDR_def mem_simps)
  ultimately show "page.entry h (set_next_free v m) i = page.entry h m i" by (simp add: page.entry_def)
qed

lemma store_frame_table:
  assumes inv: "rm_inv s" and own: "holds_page s no f" and no: "data_page s no" and sl: "0 \<le> slot"
    and ent: "page.entry (rm_hdr s) m = (page.entry (rm_hdr s) (page_data f s))(nat slot := v)"
  shows "rm_inv (s\<lparr>rm_bpm := store_page f m (rm_bpm s)\<rparr>)"
    and "rm_table (s\<lparr>rm_bpm := store_page f m (rm_bpm s)\<rparr>) = (rm_table s)(\<lparr>rid_page = no, rid_slot = slot\<rparr> := v)"
proof -
  note I = rm_invD [OF inv]
  obtain t where w: "write_frame f (\<lambda>_. m) s = (Inr (), t)" and it: "rm_inv t"
    and pg: "\<And>q. rm_page t q = (if q = no then trim m else rm_page s q)"
    using write_frame_ok [OF inv own no, of "\<lambda>_. m"] by metis
  have t: "t = s\<lparr>rm_bpm := store_page f m (rm_bpm s)\<rparr>" using w by (simp add: write_frame_def run_simps)
  show "rm_inv (s\<lparr>rm_bpm := store_page f m (rm_bpm s)\<rparr>)" using it t by simp
  have hdr: "rm_hdr t = rm_hdr s" by (simp add: t)
  have "rm_table t = (rm_table s)(\<lparr>rid_page = no, rid_slot = slot\<rparr> := v)"
    by (rule rm_table_page [OF hdr no sl])
      (use ent pg holds_view [OF own] entry_trim [OF I(2)] in \<open>simp_all\<close>)
  then show "rm_table (s\<lparr>rm_bpm := store_page f m (rm_bpm s)\<rparr>) = (rm_table s)(\<lparr>rid_page = no, rid_slot = slot\<rparr> := v)"
    using t by simp
qed

lemma delete_record_ok:
  assumes inv: "rm_inv s" and rec: "rm_table s rid = Some v" and can: "can_fetch s (rid_page rid)"
  obtains t where "delete_record rid s = (Inr (), t)" and "rm_inv t" and "rm_table t = (rm_table s)(rid := None)"
proof -
  note I = rm_invD [OF inv]
  have no: "data_page s (rid_page rid)" and sl: "0 \<le> rid_slot rid" and lt: "nat (rid_slot rid) < nat (num_records_per_page (rm_hdr s))"
    using rec by (simp_all add: rm_table_def page.entry_def split: if_splits)
  obtain f u where F: "fetch_page_handle (rid_page rid) s = (Inr f, u)" "rm_inv u" "u = s\<lparr>rm_bpm := rm_bpm u\<rparr>"
      "holds_page u (rid_page rid) f" "\<And>q. data_page s q \<Longrightarrow> rm_page u q = rm_page s q"
    using fetch_page_handle_ok [OF inv no can] by metis
  have hdr: "rm_hdr u = rm_hdr s" by (subst F(3)) simp
  have dp: "data_page u = data_page s" by (simp add: data_page_def hdr fun_eq_iff)
  have tab: "rm_table u = rm_table s" using rm_table_same [OF hdr] F(5) by blast
  define m where "m = bitmap_reset (page_data f u) rm_bitmap (nat (rid_slot rid))"
  define m1 where "m1 = set_num_records (to_i32 (get_num_records m - 1)) m"
  define m2 where "m2 = set_next_free (first_free_page_no (rm_hdr u)) m1"
  have e1: "page.entry (rm_hdr u) m1 = (page.entry (rm_hdr u) (page_data f u))(nat (rid_slot rid) := None)"
    unfolding m1_def m_def hdr using page.entry_touch [OF I(2)] page.entry_clear [OF I(2) lt] by simp
  then have e2: "page.entry (rm_hdr u) m2 = (page.entry (rm_hdr u) (page_data f u))(nat (rid_slot rid) := None)"
    unfolding m2_def using entry_next_free [OF I(2)] hdr by simp
  have rid: "\<lparr>rid_page = rid_page rid, rid_slot = rid_slot rid\<rparr> = rid" by simp
  note no' = no [folded dp]
  note T1 = store_frame_table [OF F(2,4) no' sl e1, unfolded rid tab]
    and T2 = store_frame_table [OF F(2,4) no' sl e2, unfolded rid tab]
  note run = delete_record_run [OF F(1), folded m_def, folded m1_def, folded m2_def]
  show ?thesis
  proof (cases "get_num_records m1 = 0")
    case True
    let ?t = "u\<lparr>rm_bpm := store_page f m2 (rm_bpm u)\<rparr>"
    note L = first_free_inv [where s = ?t] first_free_table [where s = ?t]
    show ?thesis
      by (rule that [OF run]) (use True L T2 in simp_all)
  next
    case False
    show ?thesis by (rule that [OF run]) (use False T1 in simp_all)
  qed
qed

lemma update_record_ok:
  assumes inv: "rm_inv s" and rec: "rm_table s rid = Some v" and can: "can_fetch s (rid_page rid)"
  obtains t where "update_record rid buf s = (Inr (), t)" and "rm_inv t"
    and "rm_table t = (rm_table s)(rid \<mapsto> mread buf 0 (nat (record_size (rm_hdr s))))"
proof -
  note I = rm_invD [OF inv]
  have no: "data_page s (rid_page rid)" and sl: "0 \<le> rid_slot rid" and lt: "nat (rid_slot rid) < nat (num_records_per_page (rm_hdr s))"
    and ent: "page.entry (rm_hdr s) (rm_page s (rid_page rid)) (nat (rid_slot rid)) = Some v"
    using rec by (simp_all add: rm_table_def page.entry_def split: if_splits)
  obtain f u where F: "fetch_page_handle (rid_page rid) s = (Inr f, u)" "rm_inv u" "u = s\<lparr>rm_bpm := rm_bpm u\<rparr>"
      "holds_page u (rid_page rid) f" "trim (page_data f u) = rm_page s (rid_page rid)"
      "\<And>q. data_page s q \<Longrightarrow> rm_page u q = rm_page s q"
    using fetch_page_handle_ok [OF inv no can] by metis
  have hdr: "rm_hdr u = rm_hdr s" by (subst F(3)) simp
  have dp: "data_page u = data_page s" by (simp add: data_page_def hdr fun_eq_iff)
  have tab: "rm_table u = rm_table s" using rm_table_same [OF hdr] F(6) by blast
  have "page.entry (rm_hdr s) (page_data f u) (nat (rid_slot rid)) = Some v"
    using ent F(5) entry_trim [OF I(2), of "page_data f u"] by simp
  then have used: "slot_used (page_data f u) (nat (rid_slot rid))"
    by (simp add: page.entry_def split: if_splits)
  let ?m = "mcopy (page_data f u) (get_slot (rm_hdr u) (int (nat (rid_slot rid)))) buf 0 (nat (record_size (rm_hdr u)))"
  have e: "page.entry (rm_hdr u) ?m = (page.entry (rm_hdr u) (page_data f u))(nat (rid_slot rid) \<mapsto> mread buf 0 (nat (record_size (rm_hdr u))))"
    unfolding hdr by (rule page.entry_rewrite [OF I(2) lt used])
  have rid: "\<lparr>rid_page = rid_page rid, rid_slot = rid_slot rid\<rparr> = rid" by simp
  have "update_record rid buf s = (Inr (), u\<lparr>rm_bpm := store_page f ?m (rm_bpm u)\<rparr>)"
    using F(1) used sl by (simp add: update_record_def rm_run slot_used_def)
  then show ?thesis
    using that store_frame_table [OF F(2,4) no [folded dp] sl e, unfolded rid tab] hdr by simp
qed

lemma insert_record_ok:
  assumes inv: "rm_inv s"
    and fresh: "first_free_page_no (rm_hdr s) < 0 \<Longrightarrow> \<not> no_frame (rm_bpm s) \<and> num_pages (rm_hdr s) < 524288"
    and reuse: "0 \<le> first_free_page_no (rm_hdr s) \<Longrightarrow> data_page s (first_free_page_no (rm_hdr s)) \<and>
      can_fetch s (first_free_page_no (rm_hdr s)) \<and>
      (\<exists>j < nat (num_records_per_page (rm_hdr s)). \<not> slot_used (rm_page s (first_free_page_no (rm_hdr s))) j)"
  obtains rid t where "insert_record buf s = (Inr rid, t)" and "rm_inv t" and "rm_table s rid = None"
    and "rm_table t = (rm_table s)(rid \<mapsto> mread buf 0 (nat (record_size (rm_hdr s))))"
    and "num_pages (rm_hdr t) = (if first_free_page_no (rm_hdr s) < 0 then num_pages (rm_hdr s) + 1 else num_pages (rm_hdr s))"
proof (cases "first_free_page_no (rm_hdr s) < 0")
  case True
  let ?no = "num_pages (rm_hdr s)"
  obtain f u where C: "create_new_page_handle s = (Inr f, u)" "rm_inv u"
      "u = s\<lparr>rm_bpm := rm_bpm u, rm_hdr := (rm_hdr s)\<lparr>num_pages := ?no + 1\<rparr>\<rparr>" "holds_page u ?no f" "page_data f u = zero_mem"
      "rm_page u ?no = zero_mem" "\<And>q. data_page s q \<Longrightarrow> rm_page u q = rm_page s q"
    using create_new_page_handle_ok [OF inv] fresh True by metis
  have hu: "rm_hdr u = (rm_hdr s)\<lparr>num_pages := ?no + 1\<rparr>" by (subst C(3)) simp
  have ent: "page.entry (rm_hdr u) = page.entry (rm_hdr s)"
    by (intro ext) (simp add: page.entry_def slot_val_def get_slot_def hu)
  have tab: "rm_table u = rm_table s"
  proof
    fix rid :: Rid
    have "data_page u (rid_page rid) \<longleftrightarrow> data_page s (rid_page rid) \<or> rid_page rid = ?no"
      using rm_invD(6) [OF inv] by (auto simp: data_page_def hu)
    moreover have "page.entry (rm_hdr s) zero_mem i = None" for i by (simp add: page.entry_def slot_used_def)
    ultimately show "rm_table u rid = rm_table s rid"
      using C(6,7) ent by (cases "rid_page rid = ?no") (auto simp: rm_table_def data_page_def)
  qed
  have no: "data_page u ?no" using rm_invD(6) [OF inv] by (simp add: data_page_def hu)
  have z: "0 < nat (num_records_per_page (rm_hdr u))" "\<not> slot_used (page_data f u) 0"
    using rm_invD(2) [OF inv] C(5) by (simp_all add: hu hdr_ok_def slot_used_def)
  obtain slot t where S: "insert_slot f buf u = (Inr \<lparr>rid_page = ?no, rid_slot = slot\<rparr>, t)" "rm_inv t"
      "rm_table u \<lparr>rid_page = ?no, rid_slot = slot\<rparr> = None"
      "rm_table t = (rm_table u)(\<lparr>rid_page = ?no, rid_slot = slot\<rparr> \<mapsto> mread buf 0 (nat (record_size (rm_hdr u))))"
      "num_pages (rm_hdr t) = num_pages (rm_hdr u)"
    by (rule insert_slot_ok [OF C(2,4) no z])
  have "insert_record buf s = (Inr \<lparr>rid_page = ?no, rid_slot = slot\<rparr>, t)"
    using True C(1) S(1) by (simp add: insert_record_def andthen_def create_page_handle_def)
  then show ?thesis using that S(2-5) tab hu True by simp
next
  case False
  let ?no = "first_free_page_no (rm_hdr s)"
  obtain j where R: "data_page s ?no" "can_fetch s ?no" "j < nat (num_records_per_page (rm_hdr s))" "\<not> slot_used (rm_page s ?no) j"
    using reuse False by auto
  obtain f u where F: "fetch_page_handle ?no s = (Inr f, u)" "rm_inv u" "u = s\<lparr>rm_bpm := rm_bpm u\<rparr>"
      "holds_page u ?no f" "trim (page_data f u) = rm_page s ?no"
      "\<And>q. data_page s q \<Longrightarrow> rm_page u q = rm_page s q"
    using fetch_page_handle_ok [OF inv R(1,2)] by metis
  have hdr: "rm_hdr u = rm_hdr s" by (subst F(3)) simp
  have tab: "rm_table u = rm_table s" using rm_table_same [OF hdr] F(6) by blast
  have no: "data_page u ?no" using R(1) by (simp add: data_page_def hdr)
  have "page.entry (rm_hdr s) (page_data f u) j = page.entry (rm_hdr s) (rm_page s ?no) j"
    using entry_trim [OF rm_invD(2) [OF inv], of "page_data f u"] F(5) by simp
  then have "\<not> slot_used (page_data f u) j" using R(3,4) by (simp add: page.entry_def split: if_splits)
  with R(3) have z: "j < nat (num_records_per_page (rm_hdr u))" "\<not> slot_used (page_data f u) j" by (simp_all add: hdr)
  obtain slot t where S: "insert_slot f buf u = (Inr \<lparr>rid_page = ?no, rid_slot = slot\<rparr>, t)" "rm_inv t"
      "rm_table u \<lparr>rid_page = ?no, rid_slot = slot\<rparr> = None"
      "rm_table t = (rm_table u)(\<lparr>rid_page = ?no, rid_slot = slot\<rparr> \<mapsto> mread buf 0 (nat (record_size (rm_hdr u))))"
      "num_pages (rm_hdr t) = num_pages (rm_hdr u)"
    by (rule insert_slot_ok [OF F(2,4) no z])
  have "insert_record buf s = (Inr \<lparr>rid_page = ?no, rid_slot = slot\<rparr>, t)"
    using False F(1) S(1) by (simp add: insert_record_def andthen_def create_page_handle_def)
  then show ?thesis using that S(2-5) tab hdr False by simp
qed

end
