(* ===== verification/Record_Scan.thy ===== *)
theory Record_Scan
  imports Record_File
begin

text \<open>
  \<open>record/rm_scan.cpp\<close>: the constructor finds the least record of the file, \<open>next\<close> the least one after the current
  record, in the order of pages and then slots; so a scan visits every record once. The pages are assumed to be in the pool, which is
  so after inserts, as the record operations never unpin a page.
\<close>

section \<open>Order of records\<close>

definition rid_less :: "Rid \<Rightarrow> Rid \<Rightarrow> bool" where
  "rid_less a b \<longleftrightarrow> rid_page a < rid_page b \<or> rid_page a = rid_page b \<and> rid_slot a < rid_slot b"

lemma rid_less_trans: "rid_less a b \<Longrightarrow> rid_less b c \<Longrightarrow> rid_less a c"
  by (auto simp: rid_less_def)

lemma rid_less_irrefl [simp]: "\<not> rid_less a a"
  by (simp add: rid_less_def)

definition least_after :: "RmFileHandle \<Rightarrow> Rid \<Rightarrow> Rid \<Rightarrow> bool" where
  "least_after s lo rid \<longleftrightarrow> rid \<in> dom (rm_table s) \<and> rid_less lo rid \<and>
     (\<forall>r \<in> dom (rm_table s). rid_less lo r \<longrightarrow> r = rid \<or> rid_less rid r)"

definition resident :: "RmFileHandle \<Rightarrow> bool" where
  "resident s \<longleftrightarrow> (\<forall>no. data_page s no \<longrightarrow> page_table (rm_bpm s) (rm_pid s no) \<noteq> None)"

lemma rm_table_dom:
  "\<lparr>rid_page = p, rid_slot = k\<rparr> \<in> dom (rm_table s) \<longleftrightarrow>
     data_page s p \<and> 0 \<le> k \<and> k < num_records_per_page (rm_hdr s) \<and> slot_used (rm_page s p) (nat k)"
  by (auto simp: rm_table_def page.entry_def dom_def split: if_splits)

lemma rm_table_domD:
  assumes "r \<in> dom (rm_table s)"
  shows "data_page s (rid_page r)" "0 \<le> rid_slot r" "rid_slot r < num_records_per_page (rm_hdr s)"
    "slot_used (rm_page s (rid_page r)) (nat (rid_slot r))"
  using assms by (cases r, simp add: rm_table_dom)+

lemma finite_rm_table: "finite (dom (rm_table s))"
proof (rule finite_subset)
  let ?P = "{1..num_pages (rm_hdr s)} \<times> {0..num_records_per_page (rm_hdr s)}"
  show "dom (rm_table s) \<subseteq> (\<lambda>(p, k). \<lparr>rid_page = p, rid_slot = k\<rparr>) ` ?P"
  proof
    fix r assume "r \<in> dom (rm_table s)"
    note D = rm_table_domD [OF this]
    have "r = (\<lambda>(p, k). \<lparr>rid_page = p, rid_slot = k\<rparr>) (rid_page r, rid_slot r)" by simp
    moreover have "(rid_page r, rid_slot r) \<in> ?P" using D by (auto simp: data_page_def)
    ultimately show "r \<in> (\<lambda>(p, k). \<lparr>rid_page = p, rid_slot = k\<rparr>) ` ?P" by (rule image_eqI)
  qed
qed simp

section \<open>Fetching a resident page\<close>

lemma fetch_resident:
  assumes inv: "rm_inv s" and res: "resident s" and no: "data_page s no"
  obtains f t where "fetch_page_handle no s = (Inr f, t)" and "rm_inv t" and "resident t" and "rm_hdr t = rm_hdr s"
    and "rm_table t = rm_table s" and "trim (page_data f t) = rm_page s no"
    and "\<And>q. data_page s q \<Longrightarrow> rm_page t q = rm_page s q"
proof -
  have "can_fetch s no" using res no by (auto simp: resident_def can_fetch_def)
  then obtain f t where F: "fetch_page_handle no s = (Inr f, t)" "rm_inv t" "t = s\<lparr>rm_bpm := rm_bpm t\<rparr>"
      "trim (page_data f t) = rm_page s no" "\<And>q. data_page s q \<Longrightarrow> rm_page t q = rm_page s q"
    using fetch_page_handle_ok [OF inv no] by metis
  have hdr: "rm_hdr t = rm_hdr s" and fd: "rm_fd t = rm_fd s" by (subst F(3), simp)+
  obtain g where g: "page_table (rm_bpm s) (rm_pid s no) = Some g" using res no by (auto simp: resident_def)
  have "page_table (rm_bpm t) = page_table (rm_bpm s)"
    using F(1) g by (auto simp: fetch_page_handle_def on_pool_def andthen_def run_simps FetchPage_def upd_frame_def)
  then have "resident t" using res by (simp add: resident_def data_page_def hdr rm_pid_def fd)
  moreover have "rm_table t = rm_table s" using rm_table_same [OF hdr] F(5) by blast
  ultimately show ?thesis using that F hdr by blast
qed

lemma slot_used_trim:
  assumes "hdr_ok h" and "i < 8 * nat (bitmap_size h)"
  shows "slot_used (trim m) i = slot_used m i"
  unfolding slot_used_def
proof (rule is_set_cong)
  fix a assume "rm_bitmap \<le> a" and "a \<le> rm_bitmap + i div 8"
  moreover have "i div 8 < nat (bitmap_size h)" using assms(2) by linarith
  moreover have "12 + bitmap_size h \<le> int PAGE_SIZE"
  proof -
    have "0 \<le> num_records_per_page h * record_size h" using assms(1) by (simp add: hdr_ok_def)
    then show ?thesis using assms(1) unfolding hdr_ok_def rm_bitmap_eq by linarith
  qed
  ultimately have "a < PAGE_SIZE" by simp
  then show "trim m a = m a" by (simp add: trim_def)
qed

section \<open>next\<close>

lemma next_pages_ok:
  assumes "rm_inv s" and "resident s" and "1 \<le> p" and "-1 \<le> slot" and "slot < num_records_per_page (rm_hdr s)"
  shows "\<exists>rid t. next_pages [p..num_pages (rm_hdr s) - 1] slot s = (Inr rid, t) \<and> rm_inv t \<and> resident t \<and>
    rm_hdr t = rm_hdr s \<and> rm_table t = rm_table s \<and>
    (least_after s \<lparr>rid_page = p, rid_slot = slot\<rparr> rid \<or>
     rid = \<lparr>rid_page = -1, rid_slot = -1\<rparr> \<and> \<not> (\<exists>r \<in> dom (rm_table s). rid_less \<lparr>rid_page = p, rid_slot = slot\<rparr> r))"
  using assms
proof (induction "nat (num_pages (rm_hdr s) - p)" arbitrary: p slot s)
  case 0
  then have "num_pages (rm_hdr s) \<le> p" by simp
  then have "\<not> (\<exists>r \<in> dom (rm_table s). rid_less \<lparr>rid_page = p, rid_slot = slot\<rparr> r)"
    using rm_table_domD(1) by (fastforce simp: rid_less_def data_page_def)
  then show ?case using 0 by simp
next
  case (Suc k)
  let ?n = "num_records_per_page (rm_hdr s)"
  have p: "p < num_pages (rm_hdr s)" using Suc.hyps(2) by simp
  then have list: "[p..num_pages (rm_hdr s) - 1] = p # [p + 1..num_pages (rm_hdr s) - 1]" by (simp add: upto_rec1)
  have dp: "data_page s p" using p Suc.prems(3) by (simp add: data_page_def)
  obtain f t where F: "fetch_page_handle p s = (Inr f, t)" "rm_inv t" "resident t" "rm_hdr t = rm_hdr s"
      "rm_table t = rm_table s" "trim (page_data f t) = rm_page s p"
    using fetch_resident [OF Suc.prems(1,2) dp] by metis
  have ok: "hdr_ok (rm_hdr s)" by (rule rm_invD(2) [OF Suc.prems(1)])
  have bit: "is_set (page_data f t) rm_bitmap (nat j) = slot_used (rm_page s p) (nat j)" if "slot < j" "j < ?n" for j
  proof -
    have "nat j < 8 * nat (bitmap_size (rm_hdr s))" using that Suc.prems(4) ok by (auto simp: hdr_ok_def)
    from slot_used_trim [OF ok this, of "page_data f t"] show ?thesis by (simp add: F(6) slot_used_def)
  qed
  let ?i = "next_bit True (page_data f t) rm_bitmap ?n slot"
  have lo: "r \<in> dom (rm_table s) \<Longrightarrow> rid_less \<lparr>rid_page = p, rid_slot = slot\<rparr> r \<Longrightarrow>
      rid_page r = p \<and> slot < rid_slot r \<or> rid_less \<lparr>rid_page = p + 1, rid_slot = -1\<rparr> r" for r
    using rm_table_domD(2) [of r s] by (auto simp: rid_less_def)
  show ?case
  proof (cases rule: next_bit_cases [OF Suc.prems(5), of True "page_data f t" rm_bitmap])
    case (1 i)
    let ?r = "\<lparr>rid_page = p, rid_slot = i\<rparr>"
    have "?r \<in> dom (rm_table s)" using 1 bit [of i] dp Suc.prems(4) by (simp add: rm_table_dom)
    moreover have "r = ?r \<or> rid_less ?r r" if r: "r \<in> dom (rm_table s)" "rid_less \<lparr>rid_page = p, rid_slot = slot\<rparr> r" for r
    proof (cases "rid_page r = p \<and> slot < rid_slot r")
      case True
      note D = rm_table_domD [OF r(1)]
      have "\<not> rid_slot r < i" using 1(5) [of "rid_slot r"] bit [of "rid_slot r"] D True by auto
      then show ?thesis using True by (cases r) (auto simp: rid_less_def)
    next
      case False
      then show ?thesis using lo [OF r] by (auto simp: rid_less_def)
    qed
    ultimately have "least_after s \<lparr>rid_page = p, rid_slot = slot\<rparr> ?r"
      using 1(2) by (auto simp: least_after_def rid_less_def)
    then show ?thesis using F 1 list by (simp add: andthen_def Let_def)
  next
    case 2
    have k: "k = nat (num_pages (rm_hdr t) - (p + 1))" using Suc.hyps(2) F(4) by simp
    have n: "-1 < num_records_per_page (rm_hdr t)" using F(4) ok by (simp add: hdr_ok_def)
    have none: "\<not> (rid_page r = p \<and> slot < rid_slot r)" if "r \<in> dom (rm_table s)" for r
      using rm_table_domD [OF that] 2(2) [of "rid_slot r"] bit [of "rid_slot r"] by auto
    have same: "rid_less \<lparr>rid_page = p, rid_slot = slot\<rparr> r \<longleftrightarrow> rid_less \<lparr>rid_page = p + 1, rid_slot = -1\<rparr> r"
      if "r \<in> dom (rm_table s)" for r
      using lo [OF that] none [OF that] by (auto simp: rid_less_def)
    have "p + 1 \<ge> 1" using Suc.prems(3) by simp
    from Suc.hyps(1) [OF k F(2,3) this order_refl n] obtain rid u where
      R: "next_pages [p + 1..num_pages (rm_hdr t) - 1] (-1) t = (Inr rid, u)" "rm_inv u" "resident u"
        "rm_hdr u = rm_hdr t" "rm_table u = rm_table t"
      and alt: "least_after t \<lparr>rid_page = p + 1, rid_slot = -1\<rparr> rid \<or>
        rid = \<lparr>rid_page = -1, rid_slot = -1\<rparr> \<and> \<not> (\<exists>r \<in> dom (rm_table t). rid_less \<lparr>rid_page = p + 1, rid_slot = -1\<rparr> r)"
      by blast
    have "least_after s \<lparr>rid_page = p, rid_slot = slot\<rparr> rid \<or>
        rid = \<lparr>rid_page = -1, rid_slot = -1\<rparr> \<and> \<not> (\<exists>r \<in> dom (rm_table s). rid_less \<lparr>rid_page = p, rid_slot = slot\<rparr> r)"
      using alt same by (auto simp: least_after_def F(5))
    moreover have "next_pages [p..num_pages (rm_hdr s) - 1] slot s = (Inr rid, u)"
      using F(1,4) 2(1) R(1) list by (simp add: andthen_def Let_def)
    ultimately show ?thesis using R F by auto
  qed
qed

section \<open>The constructor\<close>

definition tail_clear :: "RmFileHandle \<Rightarrow> bool" where
  "tail_clear s \<longleftrightarrow> (\<forall>no i. data_page s no \<and> nat (num_records_per_page (rm_hdr s)) \<le> i \<and> i < 8 * nat (bitmap_size (rm_hdr s)) \<longrightarrow>
     \<not> slot_used (rm_page s no) i)"

lemma isStored_used: "b < 8 \<Longrightarrow> isStored m a b = slot_used m (8 * a + b)"
  by (simp add: isStored_def slot_used_def is_set_bit)

lemma find_map: "find P (map g xs) = map_option g (find (\<lambda>x. P (g x)) xs)"
  by (induction xs) auto

lemma bytes_bits: "List.product [0..<n] [0..<8] = map (\<lambda>i. (i div 8, i mod 8)) [0..<8 * n]"
proof (rule nth_equalityI)
  fix i assume "i < length (List.product [0..<n] [0..<8])"
  then have "i < n * 8" by (simp add: length_product)
  then show "List.product [0..<n] [0..<8] ! i = map (\<lambda>i. (i div 8, i mod 8)) [0..<8 * n] ! i"
    by (subst product_nth) (auto simp: less_mult_imp_div_less)
qed (simp add: length_product)

lemma find_stored:
  "find (\<lambda>(a, b). isStored m a b) (List.product [0..<n] [0..<8]) =
     map_option (\<lambda>i. (i div 8, i mod 8)) (find (slot_used m) [0..<8 * n])"
proof -
  have "(\<lambda>i. isStored m (i div 8) (i mod 8)) = slot_used m" by (rule ext) (simp add: isStored_used)
  then show ?thesis unfolding bytes_bits find_map by simp
qed

lemma find_upt_Some: "find P [0..<n] = Some i \<Longrightarrow> i < n \<and> P i \<and> (\<forall>j < i. \<not> P j)"
  unfolding find_Some_iff by fastforce

lemma find_upt_None: "find P [0..<n] = None \<Longrightarrow> i < n \<Longrightarrow> \<not> P i"
  by (simp add: find_None_iff)

lemma scan_pages_ok:
  assumes "rm_inv s" and "resident s" and "tail_clear s" and "1 \<le> p"
  shows "\<exists>r t. scan_pages [p..num_pages (rm_hdr s) - 1] s = (Inr r, t) \<and> rm_inv t \<and> resident t \<and>
    rm_hdr t = rm_hdr s \<and> rm_table t = rm_table s \<and>
    (case r of Some rid \<Rightarrow> least_after s \<lparr>rid_page = p, rid_slot = -1\<rparr> rid
     | None \<Rightarrow> \<not> (\<exists>r \<in> dom (rm_table s). rid_less \<lparr>rid_page = p, rid_slot = -1\<rparr> r))"
  using assms
proof (induction "nat (num_pages (rm_hdr s) - p)" arbitrary: p s)
  case 0
  then have "num_pages (rm_hdr s) \<le> p" by simp
  then have "\<not> (\<exists>r \<in> dom (rm_table s). rid_less \<lparr>rid_page = p, rid_slot = -1\<rparr> r)"
    using rm_table_domD(1) by (fastforce simp: rid_less_def data_page_def)
  then show ?case using 0 by simp
next
  case (Suc k)
  let ?n = "num_records_per_page (rm_hdr s)" and ?bs = "nat (bitmap_size (rm_hdr s))"
  have p: "p < num_pages (rm_hdr s)" using Suc.hyps(2) by simp
  then have list: "[p..num_pages (rm_hdr s) - 1] = p # [p + 1..num_pages (rm_hdr s) - 1]" by (simp add: upto_rec1)
  have dp: "data_page s p" using p Suc.prems(4) by (simp add: data_page_def)
  obtain f t where F: "fetch_page_handle p s = (Inr f, t)" "rm_inv t" "resident t" "rm_hdr t = rm_hdr s"
      "rm_table t = rm_table s" "trim (page_data f t) = rm_page s p" "\<And>q. data_page s q \<Longrightarrow> rm_page t q = rm_page s q"
    using fetch_resident [OF Suc.prems(1,2) dp] by metis
  have ok: "hdr_ok (rm_hdr s)" by (rule rm_invD(2) [OF Suc.prems(1)])
  have bs: "nat ?n \<le> 8 * ?bs" using ok by (auto simp: hdr_ok_def)
  have bit: "slot_used (page_data f t) i = slot_used (rm_page s p) i" if "i < 8 * ?bs" for i
    using slot_used_trim [OF ok that, of "page_data f t"] by (simp add: F(6))
  have tc: "tail_clear t" using Suc.prems(3) F(4,7) by (simp add: tail_clear_def data_page_def)
  have run: "scan_pages [p..num_pages (rm_hdr s) - 1] s = (case find (slot_used (page_data f t)) [0..<8 * ?bs] of
      Some i \<Rightarrow> (Inr (Some \<lparr>rid_page = p, rid_slot = int i\<rparr>), t) | None \<Rightarrow> scan_pages [p + 1..num_pages (rm_hdr t) - 1] t)"
    using F(1,4) by (simp add: list andthen_def find_stored slotGet_def split: option.splits) presburger
  have lo: "r \<in> dom (rm_table s) \<Longrightarrow> rid_less \<lparr>rid_page = p, rid_slot = -1\<rparr> r \<longleftrightarrow>
      rid_page r = p \<or> rid_less \<lparr>rid_page = p + 1, rid_slot = -1\<rparr> r" for r
    using rm_table_domD(2) [of r s] by (auto simp: rid_less_def)
  show ?case
  proof (cases "find (slot_used (page_data f t)) [0..<8 * ?bs]")
    case (Some i)
    note i = find_upt_Some [OF Some]
    let ?r = "\<lparr>rid_page = p, rid_slot = int i\<rparr>"
    have "i < nat ?n" using Suc.prems(3) dp i bit [of i] unfolding tail_clear_def by (meson not_le)
    then have "?r \<in> dom (rm_table s)" using i bit [of i] dp by (simp add: rm_table_dom)
    moreover have "r = ?r \<or> rid_less ?r r" if r: "r \<in> dom (rm_table s)" "rid_less \<lparr>rid_page = p, rid_slot = -1\<rparr> r" for r
    proof (cases "rid_page r = p")
      case True
      note D = rm_table_domD [OF r(1)]
      have "\<not> nat (rid_slot r) < i" using i bit [of "nat (rid_slot r)"] D True by auto
      then show ?thesis using True D by (cases r) (auto simp: rid_less_def)
    next
      case False
      then show ?thesis using lo [OF r(1)] r(2) by (auto simp: rid_less_def)
    qed
    ultimately have "least_after s \<lparr>rid_page = p, rid_slot = -1\<rparr> ?r" by (auto simp: least_after_def rid_less_def)
    then show ?thesis using F run Some by simp
  next
    case None
    have none: "rid_page r \<noteq> p" if "r \<in> dom (rm_table s)" for r
    proof
      assume "rid_page r = p"
      moreover have "nat (rid_slot r) < 8 * ?bs" using rm_table_domD [OF that] bs by linarith
      ultimately show False
        using rm_table_domD [OF that] find_upt_None [OF None, of "nat (rid_slot r)"] bit [of "nat (rid_slot r)"] by simp
    qed
    have k: "k = nat (num_pages (rm_hdr t) - (p + 1))" using Suc.hyps(2) F(4) by simp
    have "1 \<le> p + 1" using Suc.prems(4) by simp
    from Suc.hyps(1) [OF k F(2,3) tc this] obtain r u where
      R: "scan_pages [p + 1..num_pages (rm_hdr t) - 1] t = (Inr r, u)" "rm_inv u" "resident u"
        "rm_hdr u = rm_hdr t" "rm_table u = rm_table t"
      and alt: "case r of Some rid \<Rightarrow> least_after t \<lparr>rid_page = p + 1, rid_slot = -1\<rparr> rid
        | None \<Rightarrow> \<not> (\<exists>r \<in> dom (rm_table t). rid_less \<lparr>rid_page = p + 1, rid_slot = -1\<rparr> r)"
      by blast
    have "case r of Some rid \<Rightarrow> least_after s \<lparr>rid_page = p, rid_slot = -1\<rparr> rid
        | None \<Rightarrow> \<not> (\<exists>r \<in> dom (rm_table s). rid_less \<lparr>rid_page = p, rid_slot = -1\<rparr> r)"
      using alt lo none by (auto simp: least_after_def F(5) split: option.splits)
    then show ?thesis using R F run None by simp
  qed
qed

section \<open>A whole scan\<close>

text \<open>What \<open>for (RmScan scan(fh); !scan.is_end(); scan.next())\<close> visits, in at most \<open>k\<close> rounds.\<close>

fun scan_list :: "nat \<Rightarrow> Rid \<Rightarrow> (rb_error, RmFileHandle, Rid list) op" where
  "scan_list 0 rid s = (Inr [], s)"
| "scan_list (Suc k) rid s =
     (if RmScan_is_end rid then (Inr [], s)
      else andthen (RmScan_next rid) (\<lambda>r. andthen (scan_list k r) (\<lambda>rs. ret (rid # rs))) s)"

lemma least_after_dom: "least_after s lo r \<Longrightarrow> r \<in> dom (rm_table s)"
  by (simp add: least_after_def)

lemma least_after_rest:
  assumes "least_after s lo r"
  shows "{x \<in> dom (rm_table s). rid_less lo x} = insert r {x \<in> dom (rm_table s). rid_less r x}"
  using assms by (auto simp: least_after_def dest: rid_less_trans)

lemma scan_list_ok:
  assumes "rm_inv s" and "resident s" and "rid \<in> dom (rm_table s)"
    and "card {x \<in> dom (rm_table s). rid_less rid x} < k"
  shows "\<exists>rs t. scan_list k rid s = (Inr (rid # rs), t) \<and> rm_table t = rm_table s \<and>
    set rs = {x \<in> dom (rm_table s). rid_less rid x} \<and> sorted_wrt rid_less (rid # rs)"
  using assms
proof (induction k arbitrary: rid s)
  case (Suc k)
  note D = rm_table_domD [OF Suc.prems(3)]
  let ?R = "{x \<in> dom (rm_table s). rid_less rid x}"
  have notend: "\<not> RmScan_is_end rid" using D(1) by (simp add: RmScan_is_end_def RM_NO_PAGE_def data_page_def)
  have "1 \<le> rid_page rid" "-1 \<le> rid_slot rid" "rid_slot rid < num_records_per_page (rm_hdr s)"
    using D by (simp_all add: data_page_def)
  moreover have surj: "\<lparr>rid_page = rid_page rid, rid_slot = rid_slot rid\<rparr> = rid" by simp
  ultimately obtain r t where
    N: "RmScan_next rid s = (Inr r, t)" "rm_inv t" "resident t" "rm_table t = rm_table s"
    and alt: "least_after s rid r \<or> r = \<lparr>rid_page = -1, rid_slot = -1\<rparr> \<and> \<not> (\<exists>x \<in> dom (rm_table s). rid_less rid x)"
    using next_pages_ok [OF Suc.prems(1,2), of "rid_page rid" "rid_slot rid", unfolded surj]
    unfolding RmScan_next_def by blast
  show ?case
  proof (cases "least_after s rid r")
    case True
    have eq: "?R = insert r {x \<in> dom (rm_table s). rid_less r x}" by (rule least_after_rest [OF True])
    have "card ?R = Suc (card {x \<in> dom (rm_table s). rid_less r x})"
      unfolding eq using finite_rm_table [of s] by (subst card_insert_disjoint) auto
    then have "card {x \<in> dom (rm_table t). rid_less r x} < k" using Suc.prems(4) N(4) by simp
    moreover have "r \<in> dom (rm_table t)" using least_after_dom [OF True] N(4) by simp
    ultimately obtain rs u where R: "scan_list k r t = (Inr (r # rs), u)" "rm_table u = rm_table t"
        "set rs = {x \<in> dom (rm_table t). rid_less r x}" "sorted_wrt rid_less (r # rs)"
      using Suc.IH [OF N(2,3)] by blast
    have "scan_list (Suc k) rid s = (Inr (rid # r # rs), u)"
      using notend N(1) R(1) by (simp add: andthen_def run_simps)
    moreover have "set (r # rs) = ?R" using eq R(3) N(4) by simp
    moreover have "sorted_wrt rid_less (rid # r # rs)" using R(4) calculation(2) by auto
    ultimately show ?thesis using R(2) N(4) by (intro exI [of _ "r # rs"] exI [of _ u]) simp
  next
    case False
    then have e: "r = \<lparr>rid_page = -1, rid_slot = -1\<rparr>" and none: "?R = {}" using alt by auto
    have "scan_list k r t = (Inr [], t)"
      by (cases k) (simp_all add: e RmScan_is_end_def RM_NO_PAGE_def)
    then have "scan_list (Suc k) rid s = (Inr [rid], t)"
      using notend N(1) by (simp add: andthen_def run_simps)
    then show ?thesis using none N(4) by simp
  qed
qed simp

lemma whole_scan_ok:
  assumes inv: "rm_inv s" and res: "resident s" and tc: "tail_clear s" and ne: "dom (rm_table s) \<noteq> {}"
    and k: "card (dom (rm_table s)) \<le> k"
  shows "\<exists>rs t. andthen (RmScan_new rid0) (scan_list k) s = (Inr rs, t) \<and> set rs = dom (rm_table s) \<and>
    sorted_wrt rid_less rs \<and> rm_table t = rm_table s"
proof -
  let ?lo = "\<lparr>rid_page = 1, rid_slot = -1\<rparr>"
  have lo: "rid_less ?lo r" if "r \<in> dom (rm_table s)" for r
    using rm_table_domD(1,2) [OF that] by (auto simp: rid_less_def data_page_def)
  then have all: "{x \<in> dom (rm_table s). rid_less ?lo x} = dom (rm_table s)" by blast
  from scan_pages_ok [OF inv res tc order_refl] obtain r t where
    S: "scan_pages [1..num_pages (rm_hdr s) - 1] s = (Inr r, t)" "rm_inv t" "resident t" "rm_table t = rm_table s"
    and alt: "case r of Some rid \<Rightarrow> least_after s ?lo rid | None \<Rightarrow> \<not> (\<exists>x \<in> dom (rm_table s). rid_less ?lo x)"
    by blast
  obtain rid where r: "r = Some rid" and la: "least_after s ?lo rid"
    using alt ne lo by (cases r) auto
  have eq: "dom (rm_table s) = insert rid {x \<in> dom (rm_table s). rid_less rid x}"
    using least_after_rest [OF la] all by simp
  have "card (dom (rm_table s)) = Suc (card {x \<in> dom (rm_table s). rid_less rid x})"
    by (subst eq, subst card_insert_disjoint) (use finite_rm_table [of s] in auto)
  then have "card {x \<in> dom (rm_table t). rid_less rid x} < k" using k S(4) by simp
  moreover have "rid \<in> dom (rm_table t)" using least_after_dom [OF la] S(4) by simp
  ultimately obtain rs u where R: "scan_list k rid t = (Inr (rid # rs), u)" "rm_table u = rm_table t"
      "set rs = {x \<in> dom (rm_table t). rid_less rid x}" "sorted_wrt rid_less (rid # rs)"
    using scan_list_ok [OF S(2,3)] by blast
  have "andthen (RmScan_new rid0) (scan_list k) s = (Inr (rid # rs), u)"
    using S(1) R(1) r by (simp add: RmScan_new_def andthen_def run_simps)
  moreover have "set (rid # rs) = dom (rm_table s)" using R(3) S(4) eq by auto
  ultimately show ?thesis using R(2,4) S(4) by (intro exI [of _ "rid # rs"] exI [of _ u]) simp
qed

section \<open>Sample files\<close>

text \<open>A file with no records, and one whose page 1 has a record in slot 6 (its bytes are those of \<open>sample_os\<close>).\<close>

definition sample_rm :: "int \<Rightarrow> RmFileHandle" where
  "sample_rm n = \<lparr>rm_bpm = sample_pool\<lparr>disk_manager := sample_disk\<lparr>fd2pageno := (\<lambda>_. n)\<rparr>\<rparr>, rm_fd = 0,
     rm_hdr = (new_file_hdr 100)\<lparr>num_pages := n\<rparr>\<rparr>"

lemma new_file_hdr_100: "new_file_hdr 100 = \<lparr>record_size = 100, num_pages = 1, num_records_per_page = 40,
    first_free_page_no = -1, bitmap_size = 5\<rparr>"
  by (simp add: new_file_hdr_def BITMAP_WIDTH_def PAGE_SIZE_def sizeof_RmFileHdr_def RM_NO_PAGE_def Let_def)

lemma sample_rm_inv: "n = 1 \<or> n = 2 \<Longrightarrow> rm_inv (sample_rm n)"
proof -
  assume n: "n = 1 \<or> n = 2"
  have on: "on_disk sample_disk 0 no" if "1 \<le> no" "no < 2" for no
  proof -
    have "no = 1" using that by linarith
    then show ?thesis using sample_disk_file by simp
  qed
  show ?thesis using n pool_ok_fd2pageno(1) [OF sample_pool_simps(1), of "\<lambda>_. n"]
    by (auto simp: on rm_inv_def sample_rm_def sample_pool_simps fd2pageno_keeps sample_disk_file new_file_hdr_100 hdr_ok_def
      PAGE_SIZE_def MAX_FD_def data_page_def stored_def rm_pid_def)
qed

lemma sample_rm_frames: "\<not> no_frame (rm_bpm (sample_rm n))" "can_fetch (sample_rm n) no"
  by (simp_all add: can_fetch_def no_frame_def sample_rm_def sample_pool_simps)

lemma sample_rm_page: "i < 4096 \<Longrightarrow> rm_page (sample_rm n) 1 i = 2"
  by (simp add: rm_page_def page_view_def sample_rm_def sample_pool_simps fd2pageno_keeps rm_pid_def)
    (simp add: disk_page_def file_byte_def sample_disk_eq fd_ino_def sample_os_def PAGE_SIZE_def div_add1_eq)

lemma sample_rm_record: "\<exists>v. rm_table (sample_rm 2) \<lparr>rid_page = 1, rid_slot = 6\<rparr> = Some v"
  by (simp add: rm_table_def data_page_def page.entry_def slot_used_def is_set_bit sample_rm_page)
    (simp add: sample_rm_def new_file_hdr_100 bit_word_iff_drop_bit_and [symmetric] bit_iff_odd)

section \<open>Properties\<close>

text \<open>
  C12. Layout: for every record size that \<open>RmManager::create_file\<close> accepts, a page has room for at least seven records, the bitmap
  has a bit for each of them, the slots lie behind the bitmap, one after the other without overlap, and the last one ends inside the
  page.
\<close>

theorem record_slots_fit_page:
  assumes "1 \<le> r" and "r \<le> RM_MAX_RECORD_SIZE" and "h = new_file_hdr r"
    and "i < nat (num_records_per_page h)" and "j < nat (num_records_per_page h)" and "i \<noteq> j"
  shows "7 \<le> num_records_per_page h \<and> i div 8 < nat (bitmap_size h) \<and>
    rm_bitmap + nat (bitmap_size h) \<le> get_slot h (int i) \<and> get_slot h (int i) + nat r \<le> PAGE_SIZE \<and>
    (get_slot h (int i) + nat r \<le> get_slot h (int j) \<or> get_slot h (int j) + nat r \<le> get_slot h (int i))"
proof -
  have ok: "hdr_ok h" and "7 \<le> num_records_per_page h" using new_file_hdr_ok [OF assms(1,2)] assms(3) by simp_all
  moreover have "record_size h = r" by (simp add: assms(3) new_file_hdr_def Let_def)
  ultimately show ?thesis using get_slot_bounds [OF ok assms(4)] get_slot_disjoint [OF ok assms(6)] by simp
qed

theorem record_slots_fit_page_witness:
  "7 \<le> num_records_per_page (new_file_hdr 100) \<and> 3 div 8 < nat (bitmap_size (new_file_hdr 100)) \<and>
    rm_bitmap + nat (bitmap_size (new_file_hdr 100)) \<le> get_slot (new_file_hdr 100) (int 3) \<and>
    get_slot (new_file_hdr 100) (int 3) + nat 100 \<le> PAGE_SIZE \<and>
    (get_slot (new_file_hdr 100) (int 3) + nat 100 \<le> get_slot (new_file_hdr 100) (int 4) \<or>
     get_slot (new_file_hdr 100) (int 4) + nat 100 \<le> get_slot (new_file_hdr 100) (int 3))"
  by (rule record_slots_fit_page) (simp_all add: RM_MAX_RECORD_SIZE_def new_file_hdr_100)

text \<open>
  C10. \<open>insert_record\<close> stores the record at a position that held none, and no other record of the file appears, vanishes or
  changes; it needs a free frame when the file has no free page, and otherwise that the first free page has a free slot.
\<close>

theorem insert_record_adds_record:
  assumes "rm_inv s"
    and "first_free_page_no (rm_hdr s) < 0 \<longrightarrow> \<not> no_frame (rm_bpm s) \<and> num_pages (rm_hdr s) < 524288"
    and "0 \<le> first_free_page_no (rm_hdr s) \<longrightarrow> data_page s (first_free_page_no (rm_hdr s)) \<and>
      can_fetch s (first_free_page_no (rm_hdr s)) \<and>
      (\<exists>j < nat (num_records_per_page (rm_hdr s)). \<not> slot_used (rm_page s (first_free_page_no (rm_hdr s))) j)"
  shows "\<exists>rid t. insert_record buf s = (Inr rid, t) \<and> rm_inv t \<and> rm_table s rid = None \<and>
    rm_table t = (rm_table s)(rid \<mapsto> mread buf 0 (nat (record_size (rm_hdr s))))"
  using insert_record_ok [OF assms(1), of buf] assms(2,3) by metis

theorem insert_record_adds_record_witness:
  "\<exists>rid t. insert_record (\<lambda>_. 7) (sample_rm 1) = (Inr rid, t) \<and> rm_inv t \<and> rm_table (sample_rm 1) rid = None \<and>
    rm_table t = (rm_table (sample_rm 1))(rid \<mapsto> mread (\<lambda>_. 7) 0 (nat (record_size (rm_hdr (sample_rm 1)))))"
  by (rule insert_record_adds_record)
    (simp_all add: sample_rm_inv sample_rm_frames, simp_all add: sample_rm_def new_file_hdr_100)

text \<open>
  C9. On a record that exists, \<open>get_record\<close> returns its bytes and changes no record, \<open>update_record\<close> replaces exactly this record,
  and \<open>delete_record\<close> removes exactly this record.
\<close>

theorem record_operations_refine_map:
  assumes "rm_inv s" and "rm_table s rid = Some v" and "can_fetch s (rid_page rid)"
  shows "(\<exists>t. get_record rid s = (Inr v, t) \<and> rm_inv t \<and> rm_table t = rm_table s) \<and>
    (\<exists>t. update_record rid buf s = (Inr (), t) \<and> rm_inv t \<and>
       rm_table t = (rm_table s)(rid \<mapsto> mread buf 0 (nat (record_size (rm_hdr s))))) \<and>
    (\<exists>t. delete_record rid s = (Inr (), t) \<and> rm_inv t \<and> rm_table t = (rm_table s)(rid := None))"
  using get_record_ok [OF assms] update_record_ok [OF assms, of buf] delete_record_ok [OF assms] by metis

theorem record_operations_refine_map_witness:
  "\<exists>v. (\<exists>t. get_record \<lparr>rid_page = 1, rid_slot = 6\<rparr> (sample_rm 2) = (Inr v, t) \<and> rm_inv t \<and> rm_table t = rm_table (sample_rm 2)) \<and>
    (\<exists>t. update_record \<lparr>rid_page = 1, rid_slot = 6\<rparr> (\<lambda>_. 7) (sample_rm 2) = (Inr (), t) \<and> rm_inv t \<and>
       rm_table t = (rm_table (sample_rm 2))(\<lparr>rid_page = 1, rid_slot = 6\<rparr> \<mapsto> mread (\<lambda>_. 7) 0 (nat (record_size (rm_hdr (sample_rm 2)))))) \<and>
    (\<exists>t. delete_record \<lparr>rid_page = 1, rid_slot = 6\<rparr> (sample_rm 2) = (Inr (), t) \<and> rm_inv t \<and>
       rm_table t = (rm_table (sample_rm 2))(\<lparr>rid_page = 1, rid_slot = 6\<rparr> := None))"
proof -
  obtain v where v: "rm_table (sample_rm 2) \<lparr>rid_page = 1, rid_slot = 6\<rparr> = Some v" using sample_rm_record by blast
  have i: "rm_inv (sample_rm 2)" by (rule sample_rm_inv) simp
  have c: "can_fetch (sample_rm 2) (rid_page (\<lparr>rid_page = 1, rid_slot = 6\<rparr> :: Rid))" by (rule sample_rm_frames)
  show ?thesis by (rule exI [of _ v]) (rule record_operations_refine_map [OF i v c])
qed

text \<open>
  C11. A scan (constructor, then \<open>next\<close> until \<open>is_end\<close>) of a file that has a record, whose pages are all in the pool and whose bitmaps
  have no bit set behind the last slot, terminates and visits every record of the file exactly once, in the order of pages and slots.
\<close>

theorem scan_visits_every_record:
  assumes "rm_inv s" and "resident s" and "tail_clear s" and "dom (rm_table s) \<noteq> {}"
    and "card (dom (rm_table s)) \<le> k"
  shows "\<exists>rs t. andthen (RmScan_new rid0) (scan_list k) s = (Inr rs, t) \<and> set rs = dom (rm_table s) \<and>
    sorted_wrt rid_less rs \<and> rm_table t = rm_table s"
  by (rule whole_scan_ok [OF assms])

theorem scan_visits_every_record_witness:
  "\<exists>s rs t. dom (rm_table s) \<noteq> {} \<and> andthen (RmScan_new \<lparr>rid_page = 0, rid_slot = 0\<rparr>) (scan_list (card (dom (rm_table s)))) s = (Inr rs, t) \<and>
    set rs = dom (rm_table s) \<and> sorted_wrt rid_less rs \<and> rm_table t = rm_table s"
proof -
  have i: "rm_inv (sample_rm 2)" by (rule sample_rm_inv) simp
  have dp: "data_page (sample_rm 2) no \<longleftrightarrow> no = 1" for no by (auto simp: data_page_def sample_rm_def)
  obtain f s where s: "rm_inv s" "s = (sample_rm 2)\<lparr>rm_bpm := rm_bpm s\<rparr>" "holds_page s 1 f"
      "\<And>q. data_page (sample_rm 2) q \<Longrightarrow> rm_page s q = rm_page (sample_rm 2) q"
    using fetch_page_handle_ok [OF i _ sample_rm_frames(2), of 1] dp by metis
  have hdr: "rm_hdr s = rm_hdr (sample_rm 2)" by (subst s(2)) simp
  have dps: "data_page s no \<longleftrightarrow> no = 1" for no using dp [of no] by (simp add: data_page_def hdr)
  have "resident s" using s(3) by (simp add: resident_def dps holds_page_def)
  moreover have "tail_clear s" by (auto simp: tail_clear_def hdr sample_rm_def new_file_hdr_100)
  moreover have "rm_table s = rm_table (sample_rm 2)" by (rule rm_table_same [OF hdr]) (rule s(4))
  then have ne: "dom (rm_table s) \<noteq> {}" using sample_rm_record by auto
  ultimately show ?thesis using scan_visits_every_record [OF s(1) _ _ ne order_refl] ne by blast
qed

section \<open>The free list\<close>

lemma page_hdr_trim:
  "get_num_records (trim m) = get_num_records m" "get_next_free (trim m) = get_next_free m"
proof -
  have "mread (trim m) k 4 = mread m k 4" if "k \<le> 8" for k
    by (rule mread_cong) (use that in \<open>simp add: trim_def PAGE_SIZE_def\<close>)
  then show "get_num_records (trim m) = get_num_records m" "get_next_free (trim m) = get_next_free m"
    by (simp_all add: get_num_records_def get_next_free_def get_i32_def OFFSET_PAGE_HDR_def)
qed

lemma get_num_records_frame:
  "get_num_records (bitmap_reset m 12 i) = get_num_records m"
  "get_num_records (set_num_records v m) = to_i32 v"
  "get_next_free (set_num_records v m) = get_next_free m"
  "get_next_free (set_next_free v m) = to_i32 v"
proof -
  have "mread (bitmap_reset m 12 i) 8 4 = mread m 8 4" by (rule mread_cong) (simp add: mem_simps)
  then show "get_num_records (bitmap_reset m 12 i) = get_num_records m"
    by (simp add: get_num_records_def get_i32_def OFFSET_PAGE_HDR_def)
qed (simp_all add: get_num_records_def set_num_records_def get_next_free_def set_next_free_def OFFSET_PAGE_HDR_def mem_simps)

lemma get_num_records_put_slot:
  assumes "hdr_ok h"
  shows "get_num_records (put_slot h i buf m) = get_num_records m"
proof -
  have "0 \<le> int i * record_size h" and "0 \<le> bitmap_size h" using assms by (auto simp: hdr_ok_def)
  then have "12 \<le> get_slot h (int i)" using int_get_slot [OF assms, of i] by linarith
  then have "mread (put_slot h i buf m) 8 4 = mread m 8 4"
    by (intro mread_cong) (simp add: put_slot_def mem_simps)
  then show ?thesis by (simp add: get_num_records_def get_i32_def OFFSET_PAGE_HDR_def)
qed

text \<open>
  C17. When the page at the head of the free list holds one record and that record is deleted, \<open>release_page_handle\<close> puts the page
  in front of itself: its \<open>next_free_page_no\<close> and the file's \<open>first_free_page_no\<close> are both this page. Once the page fills
  up, it stays the first free page.
\<close>

theorem delete_record_links_page_to_itself:
  assumes inv: "rm_inv s" and no: "data_page s (rid_page rid)" and can: "can_fetch s (rid_page rid)"
    and head: "first_free_page_no (rm_hdr s) = rid_page rid" and one: "get_num_records (rm_page s (rid_page rid)) = 1"
  shows "\<exists>t. delete_record rid s = (Inr (), t) \<and> first_free_page_no (rm_hdr t) = rid_page rid \<and>
    get_next_free (rm_page t (rid_page rid)) = rid_page rid"
proof -
  note I = rm_invD [OF inv]
  obtain f u where F: "fetch_page_handle (rid_page rid) s = (Inr f, u)" "rm_inv u" "u = s\<lparr>rm_bpm := rm_bpm u\<rparr>"
      "holds_page u (rid_page rid) f" "trim (page_data f u) = rm_page s (rid_page rid)"
      "pg_id (pages (rm_bpm u) f) = rm_pid s (rid_page rid)"
    using fetch_page_handle_ok [OF inv no can] by metis
  have hdr: "rm_hdr u = rm_hdr s" by (subst F(3)) simp
  have n1: "get_num_records (page_data f u) = 1" using one page_hdr_trim(1) [of "page_data f u"] F(5) by simp
  define m where "m = bitmap_reset (page_data f u) rm_bitmap (nat (rid_slot rid))"
  define m1 where "m1 = set_num_records (to_i32 (get_num_records m - 1)) m"
  define m2 where "m2 = set_next_free (first_free_page_no (rm_hdr u)) m1"
  have z: "get_num_records m1 = 0" by (simp add: m1_def m_def get_num_records_frame n1 is_i32_def)
  let ?v = "u\<lparr>rm_bpm := store_page f m2 (rm_bpm u)\<rparr>"
  let ?t = "?v\<lparr>rm_hdr := first_free_page_no_update (\<lambda>_. rid_page rid) (rm_hdr u)\<rparr>"
  have run: "delete_record rid s = (Inr (), ?t)"
    using delete_record_run [OF F(1), folded m_def, folded m1_def, folded m2_def] z F(6) by (simp add: rm_pid_def)
  have dp: "data_page u (rid_page rid)" using no by (simp add: data_page_def hdr)
  obtain w where "write_frame f (\<lambda>_. m2) u = (Inr (), w)" and pg: "rm_page w (rid_page rid) = trim m2"
    using write_frame_ok [OF F(2,4) dp, of "\<lambda>_. m2"] by metis
  then have "rm_page ?v (rid_page rid) = trim m2" by (simp add: write_frame_def run_simps)
  then have "rm_page ?t (rid_page rid) = trim m2" by (simp add: rm_page_def rm_pid_def)
  moreover have "to_i32 (rid_page rid) = rid_page rid"
    using no I(7) by (intro to_i32_id) (simp add: is_i32_def data_page_def)
  ultimately have "get_next_free (rm_page ?t (rid_page rid)) = rid_page rid"
    by (simp add: page_hdr_trim m2_def get_num_records_frame hdr head)
  then show ?thesis using run by simp
qed




text \<open>For records of 512 bytes the place behind the last slot crosses the end of the page.\<close>

lemma slot_behind_last_crosses_page:
  "get_slot (new_file_hdr 512) (num_records_per_page (new_file_hdr 512)) + 512 > PAGE_SIZE"
  by (simp add: new_file_hdr_def get_slot_def Let_def BITMAP_WIDTH_def PAGE_SIZE_def sizeof_RmFileHdr_def)

text \<open>The sample file with page 1 at the head of the free list: it holds one record, or is full.\<close>

definition sample_full :: RmFileHandle where
  "sample_full = (sample_rm 2)\<lparr>rm_hdr := \<lparr>record_size = 100, num_pages = 2, num_records_per_page = 1, first_free_page_no = 1, bitmap_size = 1\<rparr>,
     rm_bpm := (rm_bpm (sample_rm 2))\<lparr>disk_manager := (disk_manager (rm_bpm (sample_rm 2)))\<lparr>dm_os := (dm_os sample_disk)\<lparr>os_bytes := (\<lambda>_ i.
        if i = 4096 + 8 then 1 else if i = 4096 + 12 then 128 else 0)\<rparr>\<rparr>\<rparr>\<rparr>"

lemma sample_full_disk: "sample_disk\<lparr>fd2pageno := m, dm_os := (dm_os sample_disk)\<lparr>os_bytes := b\<rparr>\<rparr>
    = \<lparr>dm_os = (sample_os\<lparr>os_bytes := b, os_fds := [0 \<mapsto> (0, 0)]\<rparr>), path2fd = [''t'' \<mapsto> 0], fd2path = [0 \<mapsto> ''t''], log_fd = -1, fd2pageno = m\<rparr>"
  by (simp add: sample_disk_eq)

lemma sample_full_inv: "rm_inv sample_full"
proof -
  let ?d = "disk_manager (rm_bpm sample_full)"
  have same: "fd_ino ?d = fd_ino sample_disk" "on_disk ?d = on_disk sample_disk"
    by (simp_all add: sample_full_def sample_rm_def sample_full_disk fd_ino_def on_disk_def fun_eq_iff sample_disk_eq sample_os_def)
  have ok: "open_files_ok ?d"
    using sample_disk_ok unfolding open_files_ok_def same
    by (simp add: sample_full_def sample_rm_def)
  have "rm_bpm sample_full = BufferPoolManager_new 0 2 ?d"
    by (simp add: sample_full_def sample_rm_def sample_pool_def BufferPoolManager_new_def)
  then have "bpm_inv (rm_bpm sample_full)" using bpm_inv_new [OF ok] by metis
  moreover have "on_disk sample_disk 0 no" if "1 \<le> no" "no < 2" for no
  proof -
    have "no = 1" using that by linarith
    then show ?thesis using sample_disk_file by simp
  qed
  ultimately show ?thesis
    unfolding rm_inv_def stored_def same
    by (simp add: sample_full_def sample_rm_def sample_pool_simps hdr_ok_def PAGE_SIZE_def MAX_FD_def data_page_def rm_pid_def sample_disk_file)
qed

lemma sample_full_page:
  "i < 4096 \<Longrightarrow> rm_page sample_full 1 i = (if i = 8 then 1 else if i = 12 then 128 else 0)"
  by (simp add: rm_page_def page_view_def sample_full_def sample_rm_def sample_pool_simps rm_pid_def sample_full_disk
      disk_page_def file_byte_def fd_ino_def sample_os_def PAGE_SIZE_def)

lemma sample_full_facts:
  "rm_hdr sample_full = \<lparr>record_size = 100, num_pages = 2, num_records_per_page = 1, first_free_page_no = 1, bitmap_size = 1\<rparr>"
  "data_page sample_full 1" "can_fetch sample_full 1" "get_num_records (rm_page sample_full 1) = 1" "slot_used (rm_page sample_full 1) 0"
proof -
  show h: "rm_hdr sample_full = \<lparr>record_size = 100, num_pages = 2, num_records_per_page = 1, first_free_page_no = 1, bitmap_size = 1\<rparr>"
    by (simp add: sample_full_def)
  show "data_page sample_full 1" by (simp add: data_page_def h)
  show "can_fetch sample_full 1" by (simp add: can_fetch_def no_frame_def sample_full_def sample_rm_def sample_pool_simps)
  show "get_num_records (rm_page sample_full 1) = 1"
    by (simp add: get_num_records_def get_i32_def bytes_i32_def sample_full_page OFFSET_PAGE_HDR_def is_i32_def)
  show "slot_used (rm_page sample_full 1) 0"
    by (simp add: slot_used_def is_set_bit sample_full_page bit_iff_odd)
qed

theorem delete_record_links_page_to_itself_witness:
  "\<exists>t. delete_record \<lparr>rid_page = 1, rid_slot = 0\<rparr> sample_full = (Inr (), t) \<and> first_free_page_no (rm_hdr t) = 1 \<and>
    get_next_free (rm_page t 1) = 1"
  using delete_record_links_page_to_itself [OF sample_full_inv, of "\<lparr>rid_page = 1, rid_slot = 0\<rparr>"]
  by (simp add: sample_full_facts)


end
