(* ===== verification/Record_Manager.thy ===== *)
theory Record_Manager
  imports Record_Scan
begin

text \<open>
  \<open>record/rm_manager.h\<close>: creating, opening and closing record files. The header written by \<open>create_file\<close> is the header a
  later \<open>open_file\<close> finds; closing a file leaves its pages in the page table of the pool.
\<close>

section \<open>The file header in bytes\<close>

definition hdr_i32 :: "RmFileHdr \<Rightarrow> bool" where
  "hdr_i32 h \<longleftrightarrow> is_i32 (record_size h) \<and> is_i32 (num_pages h) \<and> is_i32 (num_records_per_page h) \<and>
     is_i32 (first_free_page_no h) \<and> is_i32 (bitmap_size h)"

lemma length_file_hdr_bytes [simp]: "length (file_hdr_bytes h) = 20"
  by (simp add: file_hdr_bytes_def)

lemma file_hdr_roundtrip:
  assumes h: "hdr_i32 h" and m: "mread m 0 20 = file_hdr_bytes h"
  shows "file_hdr_of_mem m = h"
proof -
  have part: "mread m k 4 = take 4 (drop k (mread m 0 20))" if "k + 4 \<le> 20" for k
    by (rule nth_equalityI) (use that in \<open>simp_all\<close>)
  have "get_i32 m 0 = to_i32 (record_size h)" "get_i32 m 4 = to_i32 (num_pages h)" "get_i32 m 8 = to_i32 (num_records_per_page h)"
    "get_i32 m 12 = to_i32 (first_free_page_no h)" "get_i32 m 16 = to_i32 (bitmap_size h)"
    by (simp_all add: get_i32_def part m file_hdr_bytes_def)
  then show ?thesis using h by (simp add: file_hdr_of_mem_def hdr_i32_def)
qed

lemma new_file_hdr_i32:
  assumes "1 \<le> r" and "r \<le> RM_MAX_RECORD_SIZE"
  shows "hdr_i32 (new_file_hdr r)"
proof -
  let ?h = "new_file_hdr r"
  note ok = new_file_hdr_ok [OF assms]
  have r: "record_size ?h = r" "num_pages ?h = 1" "first_free_page_no ?h = -1"
    by (simp_all add: new_file_hdr_def Let_def RM_NO_PAGE_def)
  have "num_records_per_page ?h * 1 \<le> num_records_per_page ?h * r" using assms ok(2) by (intro mult_left_mono) simp_all
  moreover have "0 \<le> bitmap_size ?h" "12 + bitmap_size ?h + num_records_per_page ?h * r \<le> 4096"
    using ok r by (auto simp: hdr_ok_def PAGE_SIZE_def)
  ultimately have "num_records_per_page ?h \<le> 4096" "bitmap_size ?h \<le> 4096" using ok(2) assms by linarith+
  then show ?thesis
    using ok(2) \<open>0 \<le> bitmap_size ?h\<close> assms r by (simp add: hdr_i32_def is_i32_def RM_MAX_RECORD_SIZE_def)
qed

section \<open>Writing and reading the header page\<close>

text \<open>Every file but one keeps its bytes.\<close>

definition other_files :: "nat \<Rightarrow> DiskManager \<Rightarrow> DiskManager \<Rightarrow> bool" where
  "other_files ino d d' \<longleftrightarrow> (\<forall>j. j \<noteq> ino \<longrightarrow> os_size (dm_os d') j = os_size (dm_os d) j \<and> file_byte d' j = file_byte d j)"

lemma other_files_trans: "other_files ino d d' \<Longrightarrow> other_files ino d' d'' \<Longrightarrow> other_files ino d d''"
  by (simp add: other_files_def)

lemma write_file_hdr_ok:
  assumes ino: "fd_ino d fd = Some ino"
  obtains d' where "write_file_hdr fd h d = (Inr (), d')" and "same_tables d d'" and "other_files ino d d'"
    and "mread (file_byte d' ino) 0 20 = file_hdr_bytes h" and "20 \<le> os_size (dm_os d') ino"
proof -
  have "addressable RM_FILE_HDR_PAGE" by (simp add: RM_FILE_HDR_PAGE_def addressable_def)
  from write_page_run [OF ino this, of "mwrite zero_mem 0 (file_hdr_bytes h)" 20]
  obtain d' where run: "write_page fd RM_FILE_HDR_PAGE (mwrite zero_mem 0 (file_hdr_bytes h)) 20 d = (Inr (), d')"
    and tab: "same_tables d d'"
    and by': "\<And>j i. file_byte d' j i = (if j = ino \<and> nat RM_FILE_HDR_PAGE * 4096 \<le> i \<and> i < nat RM_FILE_HDR_PAGE * 4096 + 20
             then mwrite zero_mem 0 (file_hdr_bytes h) (i - nat RM_FILE_HDR_PAGE * 4096) else file_byte d j i)"
    and sz: "\<And>j. os_size (dm_os d') j = (if j = ino \<and> (20 :: nat) \<noteq> 0 then max (os_size (dm_os d) ino) (nat RM_FILE_HDR_PAGE * 4096 + 20)
             else os_size (dm_os d) j)"
    by blast
  have "mread (file_byte d' ino) 0 20 = mread (mwrite zero_mem 0 (file_hdr_bytes h)) 0 20"
    by (rule mread_cong) (simp add: by' RM_FILE_HDR_PAGE_def)
  then have "mread (file_byte d' ino) 0 20 = file_hdr_bytes h" by (simp add: mem_simps)
  moreover have "other_files ino d d'" by (simp add: other_files_def by' sz fun_eq_iff)
  ultimately show ?thesis using that run tab sz by (simp add: write_file_hdr_def sizeof_RmFileHdr_def RM_FILE_HDR_PAGE_def)
qed

lemma RmFileHandle_new_ok:
  assumes ino: "fd_ino (disk_manager b) fd = Some ino" and sz: "20 \<le> os_size (dm_os (disk_manager b)) ino"
    and fd: "0 \<le> fd" "fd < MAX_FD" and h: "hdr_i32 h" and by': "mread (file_byte (disk_manager b) ino) 0 20 = file_hdr_bytes h"
  obtains b' where "RmFileHandle_new fd b = (Inr \<lparr>rm_bpm = b', rm_fd = fd, rm_hdr = h\<rparr>, b')"
    and "fd2pageno (disk_manager b') fd = num_pages h"
proof -
  let ?d = "disk_manager b"
  obtain pos where fds: "os_fds (dm_os ?d) fd = Some (ino, pos)" using ino by (auto simp: fd_ino_Some)
  let ?m = "mcopy zero_mem 0 (os_bytes (dm_os ?d) ino) 0 20"
  have "mread ?m 0 20 = mread (file_byte ?d ino) 0 20"
    by (rule nth_equalityI) (use sz in \<open>simp_all add: file_byte_def mcopy_def\<close>)
  then have hdr: "file_hdr_of_mem ?m = h" using file_hdr_roundtrip [OF h] by' by simp
  have "min 20 (os_size (dm_os ?d) ino) = 20" using sz by simp
  then have "read_page fd RM_FILE_HDR_PAGE zero_mem sizeof_RmFileHdr ?d = (Inr (), ?m, move_offset fd ino 20 ?d)"
    using fds by (simp add: read_page_def RM_FILE_HDR_PAGE_def sys_lseek_def sys_read_def Let_def move_offset_def sizeof_RmFileHdr_def
        page_offset_def is_i32_def)
  then show ?thesis
    using that fd hdr by (simp add: RmFileHandle_new_def set_fd2pageno_def Let_def)
qed

section \<open>Creating and opening\<close>

lemma open_file_run:
  assumes "os_names (dm_os d) p = Some ino" and "path2fd d p = None" and "free_fd (dm_os d) = Some fd"
  shows "open_file p d = (Inr fd, d\<lparr>dm_os := (dm_os d)\<lparr>os_fds := (os_fds (dm_os d))(fd \<mapsto> (ino, 0))\<rparr>,
     path2fd := (path2fd d)(p \<mapsto> fd), fd2path := (fd2path d)(fd \<mapsto> p)\<rparr>)"
  using assms free_fd_Some [OF assms(3)] by (simp add: open_file_def is_file_def sys_open_def)

lemma create_file_run:
  assumes "os_names (dm_os d) p = None" and "p \<notin> os_dirs (dm_os d)" and "free_fd (dm_os d) = Some fd"
  shows "\<exists>d'. create_file p d = (Inr (), d') \<and> os_names (dm_os d') p = Some (os_next_ino (dm_os d)) \<and>
    path2fd d' = path2fd d \<and> fd2path d' = fd2path d \<and> os_fds (dm_os d') = os_fds (dm_os d) \<and> os_max_fd (dm_os d') = os_max_fd (dm_os d) \<and>
    other_files (os_next_ino (dm_os d)) d d'"
proof -
  have new: "os_fds (dm_os d) fd = None" "0 \<le> fd" using free_fd_Some [OF assms(3)] by auto
  then have "(os_fds (dm_os d))(fd := None) = os_fds (dm_os d)" by (auto simp: fun_eq_iff)
  moreover have "free_fd ((dm_os d)\<lparr>os_names := x, os_size := y, os_bytes := z, os_next_ino := w\<rparr>) = Some fd" for x y z w
    using assms(3) by (simp add: free_fd_def)
  ultimately show ?thesis using assms new
    by (simp add: create_file_def is_file_def sys_creat_def sys_open_def sys_close_def other_files_def file_byte_def fun_eq_iff)
qed

lemma file_byte_cong: "os_size (dm_os d') = os_size (dm_os d) \<Longrightarrow> os_bytes (dm_os d') = os_bytes (dm_os d) \<Longrightarrow> file_byte d' = file_byte d"
  by (intro ext) (simp add: file_byte_def)

lemma file_byte_tables: "file_byte (v\<lparr>dm_os := (dm_os v)\<lparr>os_fds := x\<rparr>, path2fd := y, fd2path := z\<rparr>) = file_byte v"
  by (rule file_byte_cong) simp_all

lemma free_fd_cong: "os_fds s = os_fds s' \<Longrightarrow> os_max_fd s = os_max_fd s' \<Longrightarrow> free_fd s = free_fd s'"
  by (simp add: free_fd_def)

text \<open>
  The pattern of the managers: create a file, open it, write to it, close it. What the body writes is still in the file when the next \<open>open_file\<close> of the
  path gets the same descriptor.
\<close>

definition same_files :: "DiskManager \<Rightarrow> DiskManager \<Rightarrow> bool" where
  "same_files d d' \<longleftrightarrow> path2fd d' = path2fd d \<and> fd2path d' = fd2path d \<and> fd_ino d' = fd_ino d \<and> os_names (dm_os d') = os_names (dm_os d) \<and>
     os_next_ino (dm_os d') = os_next_ino (dm_os d) \<and> os_max_fd (dm_os d') = os_max_fd (dm_os d)"

lemma same_tables_files: "same_tables d d' \<Longrightarrow> same_files d d'"
  by (simp add: same_tables_def same_files_def)

lemma file_session:
  fixes body :: "int \<Rightarrow> (rb_error, DiskManager, unit) op"
  assumes new: "os_names (dm_os d) p = None" "p \<notin> os_dirs (dm_os d)" "path2fd d p = None" "free_fd (dm_os d) = Some fd"
    and body: "\<And>u ino. fd_ino u fd = Some ino \<Longrightarrow> \<exists>v. body fd u = (Inr (), v) \<and> same_files u v \<and> other_files ino u v \<and> Q ino v"
    and stable: "\<And>ino v x y z. Q ino v \<Longrightarrow> Q ino (v\<lparr>dm_os := (dm_os v)\<lparr>os_fds := x\<rparr>, path2fd := y, fd2path := z\<rparr>)"
  shows "\<exists>d1 d2 d3 ino. create_file p d = (Inr (), d1) \<and> open_file p d1 = (Inr fd, d2) \<and> body fd d2 = (Inr (), d3) \<and> same_files d2 d3 \<and>
    os_names (dm_os (close_file fd d3)) p = Some ino \<and> path2fd (close_file fd d3) p = None \<and>
    free_fd (dm_os (close_file fd d3)) = Some fd \<and> Q ino (close_file fd d3) \<and> ino = os_next_ino (dm_os d) \<and>
    other_files ino d (close_file fd d3) \<and> fd_ino (close_file fd d3) = fd_ino d"
proof -
  let ?ino = "os_next_ino (dm_os d)"
  obtain d1 where c: "create_file p d = (Inr (), d1)" "os_names (dm_os d1) p = Some ?ino" "path2fd d1 = path2fd d"
      "fd2path d1 = fd2path d" "os_fds (dm_os d1) = os_fds (dm_os d)" "os_max_fd (dm_os d1) = os_max_fd (dm_os d)"
      "other_files ?ino d d1"
    using create_file_run [OF new(1,2,4)] by blast
  have free1: "free_fd (dm_os d1) = Some fd" using free_fd_cong [OF c(5,6)] new(4) by simp
  note fd = free_fd_Some [OF free1]
  define d2 where "d2 = d1\<lparr>dm_os := (dm_os d1)\<lparr>os_fds := (os_fds (dm_os d1))(fd \<mapsto> (?ino, 0))\<rparr>,
     path2fd := (path2fd d1)(p \<mapsto> fd), fd2path := (fd2path d1)(fd \<mapsto> p)\<rparr>"
  have o: "open_file p d1 = (Inr fd, d2)"
    unfolding d2_def by (rule open_file_run [OF c(2) _ free1]) (simp add: c(3) new(3))
  have ino: "fd_ino d2 fd = Some ?ino" by (simp add: d2_def fd_ino_def)
  obtain d3 where w: "body fd d2 = (Inr (), d3)" and tab: "same_files d2 d3" and oth: "other_files ?ino d2 d3" and q: "Q ?ino d3"
    using body [OF ino] by blast
  let ?d4 = "close_file fd d3"
  have f3: "fd2path d3 fd = Some p" using tab by (simp add: same_files_def d2_def)
  have d4: "?d4 = d3\<lparr>dm_os := (dm_os d3)\<lparr>os_fds := (os_fds (dm_os d3))(fd := None)\<rparr>, path2fd := (path2fd d3)(p := None),
      fd2path := (fd2path d3)(fd := None)\<rparr>"
    using f3 fd by (simp add: close_file_def sys_close_def)
  have fds: "os_fds (dm_os ?d4) x = None \<longleftrightarrow> os_fds (dm_os d1) x = None" for x
  proof -
    have "fd_ino d3 x = fd_ino d2 x" using tab by (simp add: same_files_def)
    then have "os_fds (dm_os d3) x = None \<longleftrightarrow> os_fds (dm_os d2) x = None" using fd_ino_None [of d3 x] fd_ino_None [of d2 x] by simp
    then show ?thesis using fd by (auto simp: d4 d2_def)
  qed
  have "os_max_fd (dm_os ?d4) = os_max_fd (dm_os d1)" using tab by (simp add: d4 same_files_def d2_def)
  then have "free_fd (dm_os ?d4) = Some fd" using free1 fds by (simp add: free_fd_def)
  moreover have "os_names (dm_os ?d4) p = Some ?ino" "path2fd ?d4 p = None" using tab c(2) by (simp_all add: d4 same_files_def d2_def)
  moreover have "Q ?ino ?d4" unfolding d4 by (rule stable [OF q])
  moreover have "other_files ?ino d ?d4"
    using c(7) oth unfolding other_files_def d4 file_byte_tables by (simp add: d2_def file_byte_tables)
  moreover have "fd_ino ?d4 = fd_ino d"
  proof
    fix x
    have "fd_ino d3 x = fd_ino d2 x" using tab by (simp add: same_files_def)
    then show "fd_ino ?d4 x = fd_ino d x" using fd c(5) by (simp add: d4 d2_def fd_ino_def)
  qed
  ultimately show ?thesis using c(1) o w tab by blast
qed

lemma RmManager_create_file_ok:
  assumes r: "1 \<le> r" "r \<le> RM_MAX_RECORD_SIZE"
    and new: "os_names (dm_os (disk_manager b)) p = None" "p \<notin> os_dirs (dm_os (disk_manager b))"
      "path2fd (disk_manager b) p = None" "free_fd (dm_os (disk_manager b)) = Some fd"
  obtains d ino where "RmManager_create_file p r b = (Inr (), b\<lparr>disk_manager := d\<rparr>)"
    and "os_names (dm_os d) p = Some ino" and "path2fd d p = None" and "free_fd (dm_os d) = Some fd"
    and "mread (file_byte d ino) 0 20 = file_hdr_bytes (new_file_hdr r)" and "20 \<le> os_size (dm_os d) ino"
proof -
  let ?Q = "\<lambda>ino d. mread (file_byte d ino) 0 20 = file_hdr_bytes (new_file_hdr r) \<and> 20 \<le> os_size (dm_os d) ino"
  have "\<exists>d1 d2 d3 ino. create_file p (disk_manager b) = (Inr (), d1) \<and> open_file p d1 = (Inr fd, d2) \<and>
    write_file_hdr fd (new_file_hdr r) d2 = (Inr (), d3) \<and> same_files d2 d3 \<and> os_names (dm_os (close_file fd d3)) p = Some ino \<and>
    path2fd (close_file fd d3) p = None \<and> free_fd (dm_os (close_file fd d3)) = Some fd \<and> ?Q ino (close_file fd d3) \<and>
    ino = os_next_ino (dm_os (disk_manager b)) \<and> other_files ino (disk_manager b) (close_file fd d3) \<and>
    fd_ino (close_file fd d3) = fd_ino (disk_manager b)"
  proof (rule file_session [OF new, where body = "\<lambda>fd. write_file_hdr fd (new_file_hdr r)" and Q = ?Q])
    show "\<exists>v. write_file_hdr fd (new_file_hdr r) u = (Inr (), v) \<and> same_files u v \<and> other_files ino u v \<and> ?Q ino v" if "fd_ino u fd = Some ino" for u ino
      using write_file_hdr_ok [OF that, of "new_file_hdr r"] same_tables_files by metis
  qed (simp add: file_byte_tables)
  then obtain d1 d2 d3 ino where S: "create_file p (disk_manager b) = (Inr (), d1)" "open_file p d1 = (Inr fd, d2)"
    "write_file_hdr fd (new_file_hdr r) d2 = (Inr (), d3)" "os_names (dm_os (close_file fd d3)) p = Some ino"
    "path2fd (close_file fd d3) p = None" "free_fd (dm_os (close_file fd d3)) = Some fd" "?Q ino (close_file fd d3)" by blast
  have "RmManager_create_file p r b = (Inr (), b\<lparr>disk_manager := close_file fd d3\<rparr>)"
    using r S(1-3) by (simp add: RmManager_create_file_def andthen_def on_disk_manager_def run_simps)
  then show ?thesis using that S(4-7) by blast
qed

lemma flush_frame_frames:
  assumes "flush_frame fd i s = (r, t)"
  shows "page_table t = page_table s \<and> (\<forall>f. pg_data (pages t f) = pg_data (pages s f))"
  using assms
  by (auto simp: flush_frame_def andthen_def write_back_def disk_write_def modify_st_def upd_frame_def split: prod.splits sum.splits if_splits)

lemma FlushAllPages_frames:
  assumes "FlushAllPages fd s = (r, t)"
  shows "page_table t = page_table s" and "pg_data (pages t f) = pg_data (pages s f)"
proof -
  let ?I = "\<lambda>u. page_table u = page_table s \<and> (\<forall>f. pg_data (pages u f) = pg_data (pages s f))"
  have "?I t"
  proof (rule for_each_invariant [where I = ?I and f = "flush_frame fd"])
    show "for_each (flush_frame fd) [0..<pool_size s] s = (r, t)" using assms by (simp add: FlushAllPages_def)
    show "?I s" by simp
    fix i u q u' assume "?I u" and "flush_frame fd i u = (q, u')"
    then show "?I u'" using flush_frame_frames by metis
  qed
  then show "page_table t = page_table s" and "pg_data (pages t f) = pg_data (pages s f)" by blast+
qed

lemma RmManager_create_open:
  assumes "1 \<le> r" and "r \<le> RM_MAX_RECORD_SIZE"
    and "os_names (dm_os (disk_manager b)) p = None" and "p \<notin> os_dirs (dm_os (disk_manager b))"
    and "path2fd (disk_manager b) p = None" and "free_fd (dm_os (disk_manager b)) = Some fd" and "fd < MAX_FD"
  shows "\<exists>b1 b2. RmManager_create_file p r b = (Inr (), b1) \<and>
    RmManager_open_file p b1 = (Inr \<lparr>rm_bpm = b2, rm_fd = fd, rm_hdr = new_file_hdr r\<rparr>, b2) \<and>
    fd2pageno (disk_manager b2) fd = 1"
proof -
  obtain d ino where C: "RmManager_create_file p r b = (Inr (), b\<lparr>disk_manager := d\<rparr>)"
    "os_names (dm_os d) p = Some ino" "path2fd d p = None" "free_fd (dm_os d) = Some fd"
    "mread (file_byte d ino) 0 20 = file_hdr_bytes (new_file_hdr r)" "20 \<le> os_size (dm_os d) ino"
    by (rule RmManager_create_file_ok [OF assms(1-6)])
  note o = open_file_run [OF C(2-4)]
  let ?d = "d\<lparr>dm_os := (dm_os d)\<lparr>os_fds := (os_fds (dm_os d))(fd \<mapsto> (ino, 0))\<rparr>, path2fd := (path2fd d)(p \<mapsto> fd), fd2path := (fd2path d)(fd \<mapsto> p)\<rparr>"
  let ?b = "b\<lparr>disk_manager := ?d\<rparr>"
  have A: "fd_ino (disk_manager ?b) fd = Some ino" "20 \<le> os_size (dm_os (disk_manager ?b)) ino" "0 \<le> fd"
    "mread (file_byte (disk_manager ?b) ino) 0 20 = file_hdr_bytes (new_file_hdr r)"
    using C(5,6) free_fd_Some [OF C(4)] file_byte_cong [of ?d d] by (simp_all add: fd_ino_def)
  obtain b' where N: "RmFileHandle_new fd ?b = (Inr \<lparr>rm_bpm = b', rm_fd = fd, rm_hdr = new_file_hdr r\<rparr>, b')"
    "fd2pageno (disk_manager b') fd = num_pages (new_file_hdr r)"
    by (rule RmFileHandle_new_ok [OF A(1,2,3) assms(7) new_file_hdr_i32 [OF assms(1,2)] A(4)])
  have "num_pages (new_file_hdr r) = 1" by (simp add: new_file_hdr_def Let_def)
  then show ?thesis using C(1) o N by (simp add: RmManager_open_file_def on_disk_manager_def)
qed

section \<open>Properties\<close>

text \<open>
  C13. A record file that \<open>RmManager::create_file\<close> has created is opened by \<open>RmManager::open_file\<close> with the header computed
  at creation (record size, slots per page, bitmap size, one page, no free page), and page numbers are handed out from 1 on.
\<close>

theorem create_file_open_file:
  assumes "1 \<le> r" and "r \<le> RM_MAX_RECORD_SIZE"
    and "os_names (dm_os (disk_manager b)) p = None" and "p \<notin> os_dirs (dm_os (disk_manager b))"
    and "path2fd (disk_manager b) p = None" and "free_fd (dm_os (disk_manager b)) = Some fd" and "fd < MAX_FD"
  shows "\<exists>b1 b2. RmManager_create_file p r b = (Inr (), b1) \<and>
    RmManager_open_file p b1 = (Inr \<lparr>rm_bpm = b2, rm_fd = fd, rm_hdr = new_file_hdr r\<rparr>, b2) \<and>
    fd2pageno (disk_manager b2) fd = 1"
  by (rule RmManager_create_open [OF assms])

theorem create_file_open_file_witness:
  "\<exists>b1 b2. RmManager_create_file ''u'' 100 sample_pool = (Inr (), b1) \<and>
    RmManager_open_file ''u'' b1 = (Inr \<lparr>rm_bpm = b2, rm_fd = 1, rm_hdr = new_file_hdr 100\<rparr>, b2) \<and>
    fd2pageno (disk_manager b2) 1 = 1"
  by (rule create_file_open_file)
    (simp_all add: RM_MAX_RECORD_SIZE_def sample_pool_simps sample_disk_eq sample_os_def MAX_FD_def free_fd_def upt_rec)

text \<open>
  C16. Closing a file does not remove its pages from the pool. When the next file that is opened gets the same descriptor, a
  \<open>FetchPage\<close> of a page of the new file returns the frame, and the bytes, of the page of the file that was closed.
\<close>

theorem closed_file_pages_served_to_next_file:
  assumes own: "page_table b pid = Some f" and fd: "pid_fd pid = rm_fd h"
    and cl: "RmManager_close_file h b = (Inr (), b1)" and op: "open_file q (disk_manager b1) = (Inr (rm_fd h), d)"
  shows "\<exists>t. FetchPage pid (b1\<lparr>disk_manager := d\<rparr>) = (Inr (Some f), t) \<and> pg_data (pages t f) = pg_data (pages b f)"
proof -
  obtain v b2 where fl: "FlushAllPages (rm_fd h) v = (Inr (), b2)" and b1: "b1 = b2\<lparr>disk_manager := close_file (rm_fd h) (disk_manager b2)\<rparr>"
    and v: "page_table v = page_table b" "pages v = pages b"
    using cl by (auto simp: RmManager_close_file_def andthen_def on_disk_manager_def modify_st_def split: prod.splits sum.splits)
  note K = FlushAllPages_frames [OF fl]
  have "page_table (b1\<lparr>disk_manager := d\<rparr>) pid = Some f" using b1 K(1) v(1) own by simp
  then have "FetchPage pid (b1\<lparr>disk_manager := d\<rparr>) = (Inr (Some f), upd_frame f (pg_pin_update (\<lambda>n. n + 1))
      (b1\<lparr>disk_manager := d, replacer_of := Pin f (replacer_of b1)\<rparr>))"
    by (simp add: FetchPage_def)
  moreover have "pg_data (pages b1 f) = pg_data (pages b f)" using b1 K(2) v(2) by simp
  ultimately show ?thesis by (simp add: upd_frame_def)
qed

text \<open>Two files; page 0 of the first is in the pool.\<close>

definition two_file_pool :: BufferPoolManager where
  "two_file_pool = dirty_pool\<lparr>disk_manager := sample_disk\<lparr>dm_os := (dm_os sample_disk)\<lparr>os_names := [''t'' \<mapsto> 0, ''u'' \<mapsto> 1], os_next_ino := 2\<rparr>\<rparr>\<rparr>"

theorem closed_file_pages_served_to_next_file_witness:
  "\<exists>b1 d t. RmManager_close_file (sample_rm 2) two_file_pool = (Inr (), b1) \<and> open_file ''u'' (disk_manager b1) = (Inr 0, d) \<and>
    FetchPage (sample_pid 0) (b1\<lparr>disk_manager := d\<rparr>) = (Inr (Some 0), t) \<and> pg_data (pages t 0) = pg_data (pages two_file_pool 0)"
proof -
  have own: "page_table two_file_pool (sample_pid 0) = Some 0" by (simp add: two_file_pool_def dirty_pool_def)
  have fd: "pid_fd (sample_pid 0) = rm_fd (sample_rm 2)" by (simp add: sample_pid_def sample_rm_def)
  obtain b1 where cl: "RmManager_close_file (sample_rm 2) two_file_pool = (Inr (), b1)"
    and op: "\<exists>d. open_file ''u'' (disk_manager b1) = (Inr (rm_fd (sample_rm 2)), d)"
    by (simp add: RmManager_close_file_def andthen_def on_disk_manager_def write_file_hdr_def write_page_def sys_lseek_def sys_write_def
        sample_rm_def two_file_pool_def dirty_pool_def sample_disk_eq sample_os_def sample_pid_def Let_def FlushAllPages_def flush_frame_def
        write_back_def disk_write_def modify_st_def upd_frame_def close_file_def sys_close_def open_file_def is_file_def sys_open_def
        free_fd_def upt_rec page_offset_def RM_FILE_HDR_PAGE_def sizeof_RmFileHdr_def INVALID_PAGE_ID_def is_i32_def)
  then show ?thesis using closed_file_pages_served_to_next_file [OF own fd cl] by (auto simp: sample_rm_def)
qed

end
