(* ===== verification/Ix_Node.thy ===== *)
theory Ix_Node
  imports Buffer_Pool
begin

text \<open>
  \<open>index/ix_defs.h\<close>, \<open>index/ix_node_handle.h\<close> and \<open>index/ix_node_handle.cpp\<close>: a node of the B+ tree in the bytes of its page.
  The header takes 24 bytes, then come the keys, \<open>col_len\<close> bytes each, and after \<open>keys_size\<close> bytes the record ids,
  8 bytes each. A \<open>const char *\<close> to a key is the list of its \<open>col_len\<close> bytes.

  Keys are compared by \<open>ix_compare\<close>; the locale \<open>key_order\<close> states the laws of a comparison and the correctness of the
  binary searches under them, and is interpreted on the comparison of integers and on \<open>memcmp\<close>.
\<close>

section \<open>Data\<close>

record IxFileHdr =
  ix_first_free :: int
  ix_num_pages :: int
  root_page :: int
  col_type :: ColType
  col_len :: nat
  btree_order :: nat
  keys_size :: nat
  first_leaf :: int
  last_leaf :: int

record Iid =
  iid_page :: int
  iid_slot :: int

definition IX_NO_PAGE :: int where "IX_NO_PAGE = -1"
definition IX_FILE_HDR_PAGE :: int where "IX_FILE_HDR_PAGE = 0"
definition IX_LEAF_HEADER_PAGE :: int where "IX_LEAF_HEADER_PAGE = 1"
definition IX_INIT_ROOT_PAGE :: int where "IX_INIT_ROOT_PAGE = 2"
definition IX_INIT_NUM_PAGES :: int where "IX_INIT_NUM_PAGES = 3"
definition IX_MAX_COL_LEN :: nat where "IX_MAX_COL_LEN = 512"

definition sizeof_IxPageHdr :: nat where "sizeof_IxPageHdr = 24"
definition sizeof_Rid :: nat where "sizeof_Rid = 8"

section \<open>Comparing keys\<close>

text \<open>
  The order of IEEE single precision numbers on their bits: sign and magnitude, with both zeros equal; every comparison with
  a NaN is false.
\<close>

definition f32_bits :: "byte list \<Rightarrow> int" where
  "f32_bits bs = uint (bs ! 0) + uint (bs ! 1) * 2 ^ 8 + uint (bs ! 2) * 2 ^ 16 + uint (bs ! 3) * 2 ^ 24"

definition f32_nan :: "byte list \<Rightarrow> bool" where
  "f32_nan bs \<longleftrightarrow> f32_bits bs mod 2 ^ 31 > 0x7F800000"

definition f32_ord :: "byte list \<Rightarrow> int" where
  "f32_ord bs = (if f32_bits bs < 2 ^ 31 then f32_bits bs else - (f32_bits bs mod 2 ^ 31))"

definition f32_less :: "byte list \<Rightarrow> byte list \<Rightarrow> bool" where
  "f32_less a b \<longleftrightarrow> \<not> f32_nan a \<and> \<not> f32_nan b \<and> f32_ord a < f32_ord b"

fun memcmp :: "byte list \<Rightarrow> byte list \<Rightarrow> int" where
  "memcmp (a # as) (b # bs) = (if a < b then -1 else if b < a then 1 else memcmp as bs)"
| "memcmp _ _ = 0"

definition ix_compare :: "ColType \<Rightarrow> nat \<Rightarrow> byte list \<Rightarrow> byte list \<Rightarrow> int" where
  "ix_compare t n a b = (case t of
       TYPE_INT \<Rightarrow> (if bytes_i32 a < bytes_i32 b then -1 else if bytes_i32 a > bytes_i32 b then 1 else 0)
     | TYPE_FLOAT \<Rightarrow> (if f32_less a b then -1 else if f32_less b a then 1 else 0)
     | TYPE_STRING \<Rightarrow> memcmp (take n a) (take n b))"

section \<open>The fields of a node\<close>

definition GetSize :: "mem \<Rightarrow> int" where "GetSize m = get_i32 m 8"
definition SetSize :: "int \<Rightarrow> mem \<Rightarrow> mem" where "SetSize n m = put_i32 m 8 n"
definition GetParentPageNo :: "mem \<Rightarrow> int" where "GetParentPageNo m = get_i32 m 4"
definition SetParentPageNo :: "int \<Rightarrow> mem \<Rightarrow> mem" where "SetParentPageNo p m = put_i32 m 4 p"
definition IsLeafPage :: "mem \<Rightarrow> bool" where "IsLeafPage m \<longleftrightarrow> m 12 \<noteq> 0"
definition set_leaf :: "bool \<Rightarrow> mem \<Rightarrow> mem" where "set_leaf b m = m(12 := if b then 1 else 0)"
definition GetPrevLeaf :: "mem \<Rightarrow> int" where "GetPrevLeaf m = get_i32 m 16"
definition SetPrevLeaf :: "int \<Rightarrow> mem \<Rightarrow> mem" where "SetPrevLeaf p m = put_i32 m 16 p"
definition GetNextLeaf :: "mem \<Rightarrow> int" where "GetNextLeaf m = get_i32 m 20"
definition SetNextLeaf :: "int \<Rightarrow> mem \<Rightarrow> mem" where "SetNextLeaf p m = put_i32 m 20 p"
definition IsRootPage :: "mem \<Rightarrow> bool" where "IsRootPage m \<longleftrightarrow> GetParentPageNo m = INVALID_PAGE_ID"

definition GetMaxSize :: "IxFileHdr \<Rightarrow> int" where "GetMaxSize h = int (btree_order h) + 1"
definition GetMinSize :: "IxFileHdr \<Rightarrow> int" where "GetMinSize h = GetMaxSize h div 2"
definition is_full :: "IxFileHdr \<Rightarrow> mem \<Rightarrow> bool" where "is_full h m \<longleftrightarrow> GetSize m = GetMaxSize h"

definition key_off :: "IxFileHdr \<Rightarrow> nat \<Rightarrow> nat" where
  "key_off h i = sizeof_IxPageHdr + i * col_len h"

definition rid_off :: "IxFileHdr \<Rightarrow> nat \<Rightarrow> nat" where
  "rid_off h i = sizeof_IxPageHdr + keys_size h + i * sizeof_Rid"

definition get_key :: "IxFileHdr \<Rightarrow> mem \<Rightarrow> nat \<Rightarrow> byte list" where
  "get_key h m i = mread m (key_off h i) (col_len h)"

definition set_key :: "IxFileHdr \<Rightarrow> nat \<Rightarrow> byte list \<Rightarrow> mem \<Rightarrow> mem" where
  "set_key h i k m = mwrite m (key_off h i) (take (col_len h) k)"

definition get_rid :: "IxFileHdr \<Rightarrow> mem \<Rightarrow> nat \<Rightarrow> Rid" where
  "get_rid h m i = \<lparr>rid_page = get_i32 m (rid_off h i), rid_slot = get_i32 m (rid_off h i + 4)\<rparr>"

definition rid_bytes :: "Rid \<Rightarrow> byte list" where
  "rid_bytes r = i32_bytes (rid_page r) @ i32_bytes (rid_slot r)"

definition set_rid :: "IxFileHdr \<Rightarrow> nat \<Rightarrow> Rid \<Rightarrow> mem \<Rightarrow> mem" where
  "set_rid h i r m = mwrite m (rid_off h i) (rid_bytes r)"

definition ValueAt :: "IxFileHdr \<Rightarrow> mem \<Rightarrow> nat \<Rightarrow> int" where
  "ValueAt h m i = rid_page (get_rid h m i)"

definition KeyAt :: "IxFileHdr \<Rightarrow> mem \<Rightarrow> nat \<Rightarrow> int" where
  "KeyAt h m i = bytes_i32 (get_key h m i)"

section \<open>Searching in a node\<close>

text \<open>The loop of both searches; \<open>op\<close> is the flag that tells them apart.\<close>

function bound_loop :: "bool \<Rightarrow> (nat \<Rightarrow> int) \<Rightarrow> nat \<Rightarrow> nat \<Rightarrow> nat" where
  "bound_loop op cmp left right =
     (if left < right then
        (let mid = (left + right) div 2
         in if cmp mid \<ge> 0 then
              (if op \<and> cmp mid = 0 then bound_loop op cmp left mid else bound_loop op cmp (mid + 1) right)
            else bound_loop op cmp left mid)
      else left)"
  by auto
termination
  by (relation "measure (\<lambda>(op, cmp, left, right). right - left)") auto

declare bound_loop.simps [simp del]

definition lower_bound :: "IxFileHdr \<Rightarrow> mem \<Rightarrow> byte list \<Rightarrow> nat" where
  "lower_bound h m target =
     bound_loop True (\<lambda>mid. ix_compare (col_type h) (col_len h) target (get_key h m mid)) 0 (nat (GetSize m))"

definition upper_bound :: "IxFileHdr \<Rightarrow> mem \<Rightarrow> byte list \<Rightarrow> nat" where
  "upper_bound h m target =
     bound_loop False (\<lambda>mid. ix_compare (col_type h) (col_len h) target (get_key h m mid)) 0 (nat (GetSize m))"

definition locateKeyIndex :: "IxFileHdr \<Rightarrow> mem \<Rightarrow> byte list \<Rightarrow> nat option" where
  "locateKeyIndex h m key =
     (let index = lower_bound h m key
      in if int index \<noteq> GetSize m \<and> ix_compare (col_type h) (col_len h) key (get_key h m index) = 0
         then Some index else None)"

definition LeafLookup :: "IxFileHdr \<Rightarrow> mem \<Rightarrow> byte list \<Rightarrow> Rid option" where
  "LeafLookup h m key = map_option (get_rid h m) (locateKeyIndex h m key)"

definition InternalLookup :: "IxFileHdr \<Rightarrow> mem \<Rightarrow> byte list \<Rightarrow> int" where
  "InternalLookup h m key =
     (let index = upper_bound h m key in ValueAt h m (if index \<noteq> 0 then index - 1 else index))"

section \<open>Changing a node\<close>

definition insert_pairs :: "IxFileHdr \<Rightarrow> nat \<Rightarrow> byte list list \<Rightarrow> Rid list \<Rightarrow> mem \<Rightarrow> mem" where
  "insert_pairs h pos ks rs m =
     (let n = length ks; resSize = GetSize m - int pos
      in if resSize \<ge> 0 then
           (let m1 = mcopy m (key_off h (pos + n)) m (key_off h pos) (nat resSize * col_len h);
                m2 = mcopy m1 (rid_off h (pos + n)) m1 (rid_off h pos) (nat resSize * sizeof_Rid);
                m3 = mwrite m2 (key_off h pos) (concat (map (take (col_len h)) ks));
                m4 = mwrite m3 (rid_off h pos) (concat (map rid_bytes rs))
            in SetSize (to_i32 (GetSize m4 + int n)) m4)
         else m)"

definition insert_pair :: "IxFileHdr \<Rightarrow> nat \<Rightarrow> byte list \<Rightarrow> Rid \<Rightarrow> mem \<Rightarrow> mem" where
  "insert_pair h pos k r m = insert_pairs h pos [k] [r] m"

definition Insert :: "IxFileHdr \<Rightarrow> byte list \<Rightarrow> Rid \<Rightarrow> mem \<Rightarrow> int \<times> mem" where
  "Insert h key value m =
     (let index = lower_bound h m key
      in if ix_compare (col_type h) (col_len h) key (get_key h m index) = 0 then (GetSize m, m)
         else (let m' = insert_pair h index key value m in (GetSize m', m')))"

fun erase_loop :: "IxFileHdr \<Rightarrow> nat list \<Rightarrow> mem \<Rightarrow> mem" where
  "erase_loop h [] m = m"
| "erase_loop h (i # is) m =
     (let m1 = set_key h i (get_key h m (i + 1)) m; m2 = set_rid h i (get_rid h m1 (i + 1)) m1
      in erase_loop h is m2)"

definition erase_pair :: "IxFileHdr \<Rightarrow> nat \<Rightarrow> mem \<Rightarrow> mem" where
  "erase_pair h pos m =
     (let m1 = erase_loop h [pos..<nat (GetSize m)] m in SetSize (to_i32 (GetSize m1 - 1)) m1)"

definition Remove :: "IxFileHdr \<Rightarrow> byte list \<Rightarrow> mem \<Rightarrow> int \<times> mem" where
  "Remove h key m =
     (let remove_pos = lower_bound h m key;
          m' = (if ix_compare (col_type h) (col_len h) key (get_key h m remove_pos) = 0 then erase_pair h remove_pos m else m)
      in (GetSize m', m'))"

text \<open>\<open>find_child\<close> asserts that the child is there.\<close>

definition find_child :: "IxFileHdr \<Rightarrow> mem \<Rightarrow> int \<Rightarrow> rb_error + nat" where
  "find_child h m child_no =
     (case find (\<lambda>i. rid_page (get_rid h m i) = child_no) [0..<nat (GetSize m)] of
        Some i \<Rightarrow> Inr i | None \<Rightarrow> Inl AssertionFailure)"

definition RemoveAndReturnOnlyChild :: "IxFileHdr \<Rightarrow> mem \<Rightarrow> (rb_error + int) \<times> mem" where
  "RemoveAndReturnOnlyChild h m =
     (if GetSize m \<noteq> 1 then (Inl AssertionFailure, m)
      else (let c = ValueAt h m 0; m' = erase_pair h 0 m
            in if GetSize m' \<noteq> 0 then (Inl AssertionFailure, m') else (Inr c, m')))"

section \<open>Arrays of cells\<close>

text \<open>The keys and the record ids of a node are arrays of cells of equal size.\<close>

definition cell :: "nat \<Rightarrow> nat \<Rightarrow> mem \<Rightarrow> nat \<Rightarrow> byte list" where
  "cell base L m i = mread m (base + i * L) L"

definition cells :: "nat \<Rightarrow> nat \<Rightarrow> mem \<Rightarrow> nat \<Rightarrow> byte list list" where
  "cells base L m n = map (cell base L m) [0..<n]"

lemma length_cells [simp]: "length (cells base L m n) = n"
  by (simp add: cells_def)

lemma nth_cells [simp]: "i < n \<Longrightarrow> cells base L m n ! i = cell base L m i"
  by (simp add: cells_def)

lemma cell_before: "i < j \<Longrightarrow> i * L + L \<le> j * (L :: nat)"
proof -
  assume "i < j"
  then have "Suc i * L \<le> j * L" by (intro mult_le_mono1) simp
  then show ?thesis by simp
qed

lemma cells_cong:
  assumes "\<And>i. base \<le> i \<Longrightarrow> i < base + n * L \<Longrightarrow> m i = m' i"
  shows "cells base L m n = cells base L m' n"
proof (rule nth_equalityI)
  fix i assume "i < length (cells base L m n)"
  then have "i * L + L \<le> n * L" using cell_before by simp
  then show "cells base L m n ! i = cells base L m' n ! i"
    using \<open>i < length _\<close> by (auto simp: cell_def intro!: mread_cong assms)
qed simp

lemma length_concat_cells: "\<forall>c \<in> set cs. length c = L \<Longrightarrow> length (concat cs) = length cs * L"
  by (induction cs) auto

lemma take_drop_concat:
  "\<forall>c \<in> set cs. length c = L \<Longrightarrow> i < length cs \<Longrightarrow> take L (drop (i * L) (concat cs)) = cs ! i"
proof (induction cs arbitrary: i)
  case (Cons c cs)
  then show ?case by (cases i) auto
qed simp

lemma mread_mwrite_in:
  assumes "base \<le> off" and "off + n \<le> base + length bs"
  shows "mread (mwrite m base bs) off n = take n (drop (off - base) bs)"
  using assms by (intro nth_equalityI) (auto simp: mwrite_def)

lemma cells_insert:
  fixes m :: mem and base :: nat
  assumes "p \<le> sz" and cs: "\<forall>c \<in> set cs. length c = L"
  defines "m1 \<equiv> mcopy m (base + (p + length cs) * L) m (base + p * L) ((sz - p) * L)"
  shows "cells base L (mwrite m1 (base + p * L) (concat cs)) (sz + length cs) =
    take p (cells base L m sz) @ cs @ drop p (cells base L m sz)"
proof (rule nth_equalityI)
  fix i assume i: "i < length (cells base L (mwrite m1 (base + p * L) (concat cs)) (sz + length cs))"
  have len: "length (concat cs) = length cs * L" using cs by (rule length_concat_cells)
  consider "i < p" | "p \<le> i" "i < p + length cs" | "p + length cs \<le> i" by linarith
  then show "cells base L (mwrite m1 (base + p * L) (concat cs)) (sz + length cs) ! i =
    (take p (cells base L m sz) @ cs @ drop p (cells base L m sz)) ! i"
  proof cases
    case 1
    then have "i * L + L \<le> p * L" by (rule cell_before)
    then show ?thesis using 1 i assms(1)
      by (simp add: nth_append cell_def m1_def mread_mwrite_out mread_mcopy_out add_mult_distrib)
  next
    case 2
    then have "(i - p) * L + L \<le> length cs * L" by (intro cell_before) simp
    moreover have "p * L \<le> i * L" using 2 by simp
    moreover have "(i - p) * L = i * L - p * L" by (rule diff_mult_distrib)
    ultimately have "mread (mwrite m1 (base + p * L) (concat cs)) (base + i * L) L = take L (drop ((i - p) * L) (concat cs))"
      by (subst mread_mwrite_in) (simp_all only: len, simp_all)
    also have "\<dots> = cs ! (i - p)" using 2 cs by (intro take_drop_concat) auto
    finally show ?thesis using 2 i assms(1) less_diff_conv2 [of p i "length cs"] by (simp add: nth_append cell_def add.commute)
  next
    case 3
    define j where "j = i - (p + length cs)"
    have ij: "i = p + length cs + j" using 3 by (simp add: j_def)
    have "j * L + L \<le> (sz - p) * L" using i assms(1) by (intro cell_before) (simp add: ij)
    then show ?thesis using i assms(1)
      by (simp add: nth_append cell_def m1_def mread_mwrite_out mread_mcopy_in len ij add_mult_distrib add.assoc)
  qed
qed (use assms(1) in simp)

section \<open>The content of a node\<close>

definition hdr_fits :: "IxFileHdr \<Rightarrow> bool" where
  "hdr_fits h \<longleftrightarrow> 0 < col_len h \<and> keys_size h = (btree_order h + 1) * col_len h \<and>
     sizeof_IxPageHdr + keys_size h + (btree_order h + 1) * sizeof_Rid \<le> PAGE_SIZE"

definition node_size_ok :: "IxFileHdr \<Rightarrow> mem \<Rightarrow> bool" where
  "node_size_ok h m \<longleftrightarrow> 0 \<le> GetSize m \<and> GetSize m \<le> GetMaxSize h"

definition rid_of :: "byte list \<Rightarrow> Rid" where
  "rid_of bs = \<lparr>rid_page = bytes_i32 (take 4 bs), rid_slot = bytes_i32 (drop 4 bs)\<rparr>"

definition rid_i32 :: "Rid \<Rightarrow> bool" where
  "rid_i32 r \<longleftrightarrow> is_i32 (rid_page r) \<and> is_i32 (rid_slot r)"

definition node_keys :: "IxFileHdr \<Rightarrow> mem \<Rightarrow> byte list list" where
  "node_keys h m = map (get_key h m) [0..<nat (GetSize m)]"

definition node_rids :: "IxFileHdr \<Rightarrow> mem \<Rightarrow> Rid list" where
  "node_rids h m = map (get_rid h m) [0..<nat (GetSize m)]"

definition node_links :: "mem \<Rightarrow> int \<times> bool \<times> int \<times> int" where
  "node_links m = (GetParentPageNo m, IsLeafPage m, GetPrevLeaf m, GetNextLeaf m)"

lemma rid_of_bytes [simp]: "rid_i32 r \<Longrightarrow> rid_of (rid_bytes r) = (r :: Rid)"
  by (simp add: rid_of_def rid_bytes_def rid_i32_def)

lemma length_rid_bytes [simp]: "length (rid_bytes r) = 8"
  by (simp add: rid_bytes_def)

lemma take_mread: "k \<le> n \<Longrightarrow> take k (mread m off n) = mread m off k"
  and drop_mread: "k \<le> n \<Longrightarrow> drop k (mread m off n) = mread m (off + k) (n - k)"
  by (rule nth_equalityI; simp add: add.assoc)+

lemma get_rid_cell: "get_rid h m i = rid_of (cell (sizeof_IxPageHdr + keys_size h) sizeof_Rid m i)"
  unfolding get_rid_def rid_of_def cell_def rid_off_def sizeof_Rid_def get_i32_def by (simp add: take_mread drop_mread)

lemma node_keys_cells: "node_keys h m = cells sizeof_IxPageHdr (col_len h) m (nat (GetSize m))"
  by (simp add: node_keys_def cells_def get_key_def cell_def key_off_def [abs_def])

lemma node_rids_cells: "node_rids h m = map rid_of (cells (sizeof_IxPageHdr + keys_size h) sizeof_Rid m (nat (GetSize m)))"
  by (simp add: node_rids_def cells_def get_rid_cell)

lemma length_node_keys [simp]: "length (node_keys h m) = nat (GetSize m)"
  and length_node_rids [simp]: "length (node_rids h m) = nat (GetSize m)"
  by (simp_all add: node_keys_def node_rids_def)

lemma rid_i32_get [simp]: "rid_i32 (get_rid h m i)"
  by (simp add: rid_i32_def get_rid_def)

lemma get_i32_cong: "(\<And>i. off \<le> i \<Longrightarrow> i < off + 4 \<Longrightarrow> m i = m' i) \<Longrightarrow> get_i32 m off = get_i32 m' off"
  unfolding get_i32_def by (rule arg_cong [where f = bytes_i32]) (rule mread_cong)

lemma node_header_cong:
  assumes "\<And>i. i < sizeof_IxPageHdr \<Longrightarrow> m i = m' i"
  shows "GetSize m = GetSize m'" and "node_links m = node_links m'"
  using assms unfolding GetSize_def node_links_def GetParentPageNo_def IsLeafPage_def GetPrevLeaf_def GetNextLeaf_def
  by (auto simp: sizeof_IxPageHdr_def intro!: get_i32_cong)

lemma SetSize_effect:
  shows "GetSize (SetSize n m) = to_i32 n" and "node_links (SetSize n m) = node_links m"
    and "sizeof_IxPageHdr \<le> i \<Longrightarrow> SetSize n m i = m i"
  by (simp_all add: SetSize_def GetSize_def node_links_def GetParentPageNo_def IsLeafPage_def GetPrevLeaf_def GetNextLeaf_def
    sizeof_IxPageHdr_def mem_simps)

lemma insert_pairs_effect:
  fixes m :: mem
  assumes h: "hdr_fits h" and sz: "node_size_ok h m" and p: "int p \<le> GetSize m"
    and n: "GetSize m + int (length ks) \<le> GetMaxSize h" and lr: "length rs = length ks"
    and lk: "\<forall>k \<in> set ks. length k = col_len h" and ri: "\<forall>r \<in> set rs. rid_i32 r"
  defines "m' \<equiv> insert_pairs h p ks rs m"
  shows "GetSize m' = GetSize m + int (length ks)"
    and "node_keys h m' = take p (node_keys h m) @ ks @ drop p (node_keys h m)"
    and "node_rids h m' = take p (node_rids h m) @ rs @ drop p (node_rids h m)"
    and "node_links m' = node_links m" and "node_size_ok h m'"
proof -
  let ?n = "length ks" let ?L = "col_len h" let ?kb = "sizeof_IxPageHdr" let ?rb = "sizeof_IxPageHdr + keys_size h"
  define s where "s = nat (GetSize m)"
  have s: "p \<le> s" "s + ?n \<le> btree_order h + 1" "GetSize m = int s" "p + ?n + (s - p) = s + ?n"
    using p n sz by (auto simp: s_def GetMaxSize_def node_size_ok_def)
  have kL: "(s + ?n) * ?L \<le> keys_size h" using h mult_le_mono1 [OF s(2)] by (simp add: hdr_fits_def)
  have krL: "p * ?L + ?n * ?L + (s - p) * ?L = (s + ?n) * ?L"
    using s(1) by (simp flip: add_mult_distrib)
  have small: "s + ?n < 2 ^ 31" using h s(2) by (simp add: hdr_fits_def PAGE_SIZE_def sizeof_Rid_def)
  define a where "a = mcopy m (key_off h (p + ?n)) m (key_off h p) ((s - p) * ?L)"
  define b where "b = mcopy a (rid_off h (p + ?n)) a (rid_off h p) ((s - p) * sizeof_Rid)"
  define c where "c = mwrite b (key_off h p) (concat ks)"
  define d where "d = mwrite c (rid_off h p) (concat (map rid_bytes rs))"
  have tk: "map (take ?L) ks = ks" using lk by (intro map_idI) simp
  have lc: "length (concat ks) = ?n * ?L" using lk by (rule length_concat_cells)
  have lr8: "length (concat (map rid_bytes rs)) = ?n * 8" using lr length_concat_cells [of "map rid_bytes rs" 8] by simp
  note offs = key_off_def rid_off_def sizeof_Rid_def add_mult_distrib
  have low: "d i = m i" if "i < ?kb" for i
    using that unfolding d_def c_def b_def a_def mwrite_def mcopy_def offs by simp
  have hdr: "GetSize d = int s" "node_links d = node_links m"
    using node_header_cong [of d m] low s(3) by auto
  have m': "m' = SetSize (int (s + ?n)) d"
    using s small nat_diff_distrib' [of "int s" "int p"] unfolding m'_def insert_pairs_def Let_def
    by (simp add: tk hdr is_i32_def flip: a_def b_def c_def d_def)
  have sz': "GetSize m' = int (s + ?n)" using small by (simp add: m' SetSize_effect is_i32_def)
  then show "GetSize m' = GetSize m + int ?n" by (simp add: s(3))
  show "node_links m' = node_links m" by (simp add: m' SetSize_effect hdr)
  show "node_size_ok h m'" using n sz' by (simp add: node_size_ok_def s(3))
  have "cells ?kb ?L m' (s + ?n) = cells ?kb ?L (mwrite a (?kb + p * ?L) (concat ks)) (s + ?n)"
    using kL krL lc
    by (intro cells_cong) (auto simp: m' SetSize_effect d_def c_def b_def offs lr8 mwrite_def mcopy_def)
  then show "node_keys h m' = take p (node_keys h m) @ ks @ drop p (node_keys h m)"
    using cells_insert [OF s(1) lk, of ?kb m] s(3) unfolding node_keys_cells sz' a_def key_off_def
    by (simp only: nat_int)
  have "cells ?rb 8 m' (s + ?n) = cells ?rb 8 (mwrite (mcopy m (?rb + (p + ?n) * 8) m (?rb + p * 8) ((s - p) * 8))
      (?rb + p * 8) (concat (map rid_bytes rs))) (s + ?n)"
    using kL krL lc s
    by (intro cells_cong) (auto simp: m' SetSize_effect d_def c_def b_def a_def offs lr8 mwrite_def mcopy_def)
  then show "node_rids h m' = take p (node_rids h m) @ rs @ drop p (node_rids h m)"
    using cells_insert [OF s(1), of "map rid_bytes rs" 8 ?rb m] s(3) ri lr
    by (simp add: node_rids_cells sz' sizeof_Rid_def take_map drop_map map_idI nat_int_add)
qed

lemma insert_pair_effect:
  assumes "hdr_fits h" and "node_size_ok h m" and "int p \<le> GetSize m" and "GetSize m < GetMaxSize h"
    and "length k = col_len h" and "rid_i32 r"
  shows "GetSize (insert_pair h p k r m) = GetSize m + 1"
    and "node_keys h (insert_pair h p k r m) = take p (node_keys h m) @ k # drop p (node_keys h m)"
    and "node_rids h (insert_pair h p k r m) = take p (node_rids h m) @ r # drop p (node_rids h m)"
    and "node_links (insert_pair h p k r m) = node_links m" and "node_size_ok h (insert_pair h p k r m)"
  using insert_pairs_effect [of h m p "[k]" "[r]"] assms unfolding insert_pair_def by auto

text \<open>One round of the loop of \<open>erase_pair\<close>.\<close>

definition shift_cell :: "IxFileHdr \<Rightarrow> nat \<Rightarrow> mem \<Rightarrow> mem" where
  "shift_cell h i m = (let m1 = set_key h i (get_key h m (i + 1)) m in set_rid h i (get_rid h m1 (i + 1)) m1)"

lemma erase_loop_fold: "erase_loop h is m = fold (shift_cell h) is m"
  by (induction h "is" m rule: erase_loop.induct) (simp_all add: shift_cell_def Let_def)

lemma key_rid_before:
  assumes "hdr_fits h" and "i \<le> btree_order h"
  shows "key_off h i + col_len h \<le> rid_off h j"
  using assms cell_before [of i "btree_order h + 1" "col_len h"]
  by (simp add: hdr_fits_def key_off_def rid_off_def trans_le_add1)

lemma get_key_mwrite_rid:
  "hdr_fits h \<Longrightarrow> j \<le> btree_order h \<Longrightarrow> get_key h (set_rid h i r m) j = get_key h m j"
  using key_rid_before [of h j i] by (simp add: get_key_def set_rid_def mread_mwrite_out)

lemma get_key_set_key:
  assumes "length k = col_len h"
  shows "get_key h (set_key h i k m) j = (if j = i then k else get_key h m j)"
proof (cases j i rule: linorder_cases)
  case less
  then show ?thesis using assms cell_before [of j i "col_len h"]
    by (simp add: get_key_def set_key_def key_off_def mread_mwrite_out)
next
  case greater
  then show ?thesis using assms cell_before [of i j "col_len h"]
    by (simp add: get_key_def set_key_def key_off_def mread_mwrite_out)
qed (use assms in \<open>simp add: get_key_def set_key_def mread_mwrite_same\<close>)

lemma get_rid_set_key:
  assumes "hdr_fits h" and "i \<le> btree_order h" and "length k = col_len h"
  shows "get_rid h (set_key h i k m) j = get_rid h m j"
  using assms key_rid_before [of h i j]
  by (simp add: get_rid_def set_key_def get_i32_mwrite_out)

lemma get_rid_set_rid:
  assumes "rid_i32 r"
  shows "get_rid h (set_rid h i r m) j = (if j = i then r else get_rid h m j)"
proof (cases "j = i")
  case False
  then have "i * 8 + 8 \<le> j * 8 \<or> j * 8 + 8 \<le> (i :: nat) * 8" by linarith
  then show ?thesis using False
    by (auto simp: get_rid_def set_rid_def rid_off_def sizeof_Rid_def get_i32_mwrite_out)
qed (use assms in \<open>simp add: get_rid_cell set_rid_def cell_def rid_off_def sizeof_Rid_def mread_mwrite_same\<close>)

lemma length_get_key [simp]: "length (get_key h m i) = col_len h"
  by (simp add: get_key_def)

lemma shift_cell_effect:
  assumes h: "hdr_fits h" and i: "i \<le> btree_order h"
  shows "j \<le> btree_order h \<Longrightarrow> get_key h (shift_cell h i m) j = get_key h m (if j = i then i + 1 else j)"
    and "get_rid h (shift_cell h i m) j = get_rid h m (if j = i then i + 1 else j)"
    and "k < sizeof_IxPageHdr \<Longrightarrow> shift_cell h i m k = m k"
  using assms
  by (simp_all add: shift_cell_def Let_def get_key_mwrite_rid get_key_set_key get_rid_set_rid get_rid_set_key,
      simp add: set_rid_def set_key_def mwrite_def rid_off_def key_off_def)

lemma erase_loop_effect:
  assumes h: "hdr_fits h" and s: "s \<le> btree_order h + 1"
  shows "j \<le> btree_order h \<Longrightarrow> j \<noteq> btree_order h \<or> s \<le> j \<Longrightarrow>
      get_key h (erase_loop h [p..<s] m) j = get_key h m (if p \<le> j \<and> j < s then j + 1 else j)"
    and "get_rid h (erase_loop h [p..<s] m) j = get_rid h m (if p \<le> j \<and> j < s then j + 1 else j)"
    and "k < sizeof_IxPageHdr \<Longrightarrow> erase_loop h [p..<s] m k = m k"
  using s
proof (induction s arbitrary: j)
  case (Suc s)
  note step = shift_cell_effect [OF h, of s]
  { case 1 show ?case using 1 Suc.IH(1) [of j] Suc.IH(1) [of "s + 1"] step(1) [of j "erase_loop h [p..<s] m"]
      by (auto simp: erase_loop_fold) }
  { case 2 show ?case using 2 Suc.IH(2) [of j] Suc.IH(2) [of "s + 1"] step(2) [of "erase_loop h [p..<s] m" j]
      by (auto simp: erase_loop_fold) }
  { case 3 show ?case using 3 Suc.IH(3) step(3) [of k "erase_loop h [p..<s] m"]
      by (auto simp: erase_loop_fold) }
qed (simp_all add: erase_loop_fold)

lemma map_upt_shift:
  assumes "p < n" and "\<And>i. i < n - 1 \<Longrightarrow> g i = f (if p \<le> i then i + 1 else i)"
  shows "map g [0..<n - 1] = take p (map f [0..<n]) @ drop (p + 1) (map f [0..<n])"
  using assms by (intro nth_equalityI) (auto simp: nth_append)

lemma erase_pair_effect:
  fixes m :: mem
  assumes h: "hdr_fits h" and sz: "node_size_ok h m" and p: "int p < GetSize m"
  defines "m' \<equiv> erase_pair h p m"
  shows "GetSize m' = GetSize m - 1"
    and "node_keys h m' = take p (node_keys h m) @ drop (p + 1) (node_keys h m)"
    and "node_rids h m' = take p (node_rids h m) @ drop (p + 1) (node_rids h m)"
    and "node_links m' = node_links m" and "node_size_ok h m'"
proof -
  define s where "s = nat (GetSize m)"
  define d where "d = erase_loop h [p..<s] m"
  have s: "p < s" "s \<le> btree_order h + 1" "GetSize m = int s"
    using p sz by (auto simp: s_def node_size_ok_def GetMaxSize_def)
  have small: "s < 2 ^ 31" using h s(2) by (simp add: hdr_fits_def PAGE_SIZE_def sizeof_Rid_def)
  note eff = erase_loop_effect [OF h s(2), where p = p and m = m, folded d_def]
  have hdr: "GetSize d = int s" "node_links d = node_links m"
    using node_header_cong [of d m] eff(3) s(3) by auto
  have m': "m' = SetSize (int s - 1) d"
    using s small unfolding m'_def erase_pair_def Let_def by (simp add: hdr is_i32_def flip: d_def)
  have sz': "GetSize m' = int (s - 1)" using small s(1) by (simp add: m' SetSize_effect is_i32_def)
  show "GetSize m' = GetSize m - 1" using sz' s by simp
  show "node_links m' = node_links m" by (simp add: m' SetSize_effect hdr)
  show "node_size_ok h m'" using sz sz' s by (simp add: node_size_ok_def)
  have above: "m' i = d i" if "sizeof_IxPageHdr \<le> i" for i using that by (simp add: m' SetSize_effect)
  have key: "get_key h m' i = get_key h d i" and rid: "get_rid h m' i = get_rid h d i" for i
    using above by (auto simp: get_key_def get_rid_def key_off_def rid_off_def intro!: mread_cong get_i32_cong)
  have shift: "get_key h m' i = get_key h m (if p \<le> i then i + 1 else i)" if "i < s - 1" for i
  proof -
    have "i \<le> btree_order h" "i \<noteq> btree_order h" "i < s" using that s by linarith+
    then show ?thesis by (simp add: key eff(1))
  qed
  show "node_keys h m' = take p (node_keys h m) @ drop (p + 1) (node_keys h m)"
    unfolding node_keys_def sz' s(3) nat_int using s(1) shift by (intro map_upt_shift) auto
  show "node_rids h m' = take p (node_rids h m) @ drop (p + 1) (node_rids h m)"
    unfolding node_rids_def sz' s(3) nat_int using s by (intro map_upt_shift) (auto simp: rid eff(2))
qed

section \<open>Binary search\<close>

lemma bound_loop_spec:
  assumes R: "\<And>i. R i \<longleftrightarrow> 0 < cmp i \<or> (cmp i = 0 \<and> \<not> op)"
    and mono: "\<And>i j. i \<le> j \<Longrightarrow> j < n \<Longrightarrow> R j \<Longrightarrow> R i"
    and "l \<le> r" and "r \<le> n" and "\<forall>i < l. R i" and "\<forall>i. r \<le> i \<and> i < n \<longrightarrow> \<not> R i"
  shows "bound_loop op cmp l r \<le> n \<and> (\<forall>i < n. i < bound_loop op cmp l r \<longleftrightarrow> R i)"
  using assms(3-)
proof (induction "r - l" arbitrary: l r rule: less_induct)
  case less
  show ?case
  proof (cases "l < r")
    case False
    then show ?thesis using less.prems by (subst (1 2) bound_loop.simps) (auto simp: not_less)
  next
    case True
    define mid where "mid = (l + r) div 2"
    have mid: "l \<le> mid" "mid < r" using True by (auto simp: mid_def)
    have "bound_loop op cmp l r = (if R mid then bound_loop op cmp (mid + 1) r else bound_loop op cmp l mid)"
      using True unfolding R by (subst bound_loop.simps) (auto simp: Let_def mid_def)
    moreover have "\<forall>i < mid + 1. R i" if "R mid"
      using that mono [of _ mid] mid less.prems by auto
    moreover have "\<forall>i. mid \<le> i \<and> i < n \<longrightarrow> \<not> R i" if "\<not> R mid"
      using that mono [of mid] by blast
    ultimately show ?thesis
      using less.hyps [of r "mid + 1"] less.hyps [of mid l] mid less.prems by (cases "R mid") auto
  qed
qed

text \<open>What a comparison of keys promises, and what the searches then find in a strictly increasing list of keys.\<close>

locale key_order =
  fixes cmp :: "'k \<Rightarrow> 'k \<Rightarrow> int" and valid :: "'k \<Rightarrow> bool"
  assumes cmp_self: "valid a \<Longrightarrow> cmp a a = 0"
    and cmp_swap: "valid a \<Longrightarrow> valid b \<Longrightarrow> 0 < cmp a b \<longleftrightarrow> cmp b a < 0"
    and cmp_trans: "valid a \<Longrightarrow> valid b \<Longrightarrow> valid c \<Longrightarrow> cmp a b \<le> 0 \<Longrightarrow> cmp b c \<le> 0 \<Longrightarrow> cmp a c \<le> 0"
begin

definition increasing :: "'k list \<Rightarrow> bool" where
  "increasing ks \<longleftrightarrow> (\<forall>k \<in> set ks. valid k) \<and> sorted_wrt (\<lambda>a b. cmp a b < 0) ks"

lemma cmp_eq_swap: "valid a \<Longrightarrow> valid b \<Longrightarrow> cmp a b = 0 \<longleftrightarrow> cmp b a = 0"
  using cmp_swap [of a b] cmp_swap [of b a] by linarith

lemma cmp_eq_trans:
  assumes "valid a" "valid b" "valid c" and "cmp a b = 0" and "cmp b c = 0"
  shows "cmp a c = 0"
proof -
  have "cmp a c \<le> 0" using cmp_trans [of a b c] assms by simp
  moreover have "cmp c a \<le> 0" using cmp_trans [of c b a] assms cmp_eq_swap [of a b] cmp_eq_swap [of b c] by simp
  ultimately show ?thesis using cmp_swap [of c a] assms by linarith
qed

lemma cmp_less_trans:
  assumes "valid a" "valid b" "valid c" and "cmp a b \<le> 0" and "cmp b c < 0"
  shows "cmp a c < 0"
proof (rule ccontr)
  assume "\<not> cmp a c < 0"
  then have "cmp c a \<le> 0" using cmp_swap [of c a] assms by linarith
  then have "cmp c b \<le> 0" using cmp_trans [of c a b] assms by blast
  then show False using cmp_swap [of c b] assms by linarith
qed

text \<open>The position \<open>lower_bound\<close> computes is the number of keys below the target, the one of \<open>upper_bound\<close> the number of keys not above it.\<close>

lemma search_spec:
  assumes inc: "increasing ks" and x: "valid x"
  defines "b \<equiv> \<lambda>op. bound_loop op (\<lambda>i. cmp x (ks ! i)) 0 (length ks)"
  shows "b op \<le> length ks" and "i < length ks \<Longrightarrow> i < b True \<longleftrightarrow> cmp (ks ! i) x < 0"
    and "i < length ks \<Longrightarrow> i < b False \<longleftrightarrow> cmp (ks ! i) x \<le> 0"
proof -
  have v: "valid (ks ! i)" if "i < length ks" for i using inc that by (simp add: increasing_def)
  have less: "cmp (ks ! i) (ks ! j) < 0" if "i < j" "j < length ks" for i j
    using inc that by (auto simp: increasing_def sorted_wrt_iff_nth_less)
  have sw: "(0 < cmp x (ks ! i)) = (cmp (ks ! i) x < 0)" "(0 \<le> cmp x (ks ! i)) = (cmp (ks ! i) x \<le> 0)" if "i < length ks" for i
    using cmp_swap [OF x v [OF that]] cmp_swap [OF v [OF that] x] by linarith+
  define R where "R op i \<longleftrightarrow> 0 < cmp x (ks ! i) \<or> (cmp x (ks ! i) = 0 \<and> \<not> op)" for op i
  have Rs: "R True i \<longleftrightarrow> cmp (ks ! i) x < 0" "R False i \<longleftrightarrow> cmp (ks ! i) x \<le> 0" if "i < length ks" for i
    using sw [OF that] by (auto simp: R_def)
  have le: "cmp (ks ! i) (ks ! j) \<le> 0" if "i \<le> j" "j < length ks" for i j
    using less [of i j] cmp_self [OF v, of i] that by (cases "i = j") force+
  have mono: "R op i" if "i \<le> j" "j < length ks" "R op j" for op i j
    using that Rs [of i] Rs [of j] le [OF that(1,2)] cmp_less_trans [OF v v x, of i j] cmp_trans [OF v v x, of i j]
    by (cases op) auto
  have "b op \<le> length ks \<and> (\<forall>i < length ks. i < b op \<longleftrightarrow> R op i)" for op
    unfolding b_def
  proof (rule bound_loop_spec [where R = "R op"])
    show "R op i" if "i \<le> j" "j < length ks" "R op j" for i j using that by (rule mono)
  qed (auto simp: R_def)
  then show "b op \<le> length ks" and "i < length ks \<Longrightarrow> i < b True \<longleftrightarrow> cmp (ks ! i) x < 0"
    and "i < length ks \<Longrightarrow> i < b False \<longleftrightarrow> cmp (ks ! i) x \<le> 0"
    using Rs by auto
qed

lemma search_exact:
  assumes "increasing ks" and "valid x" and "i < length ks"
  defines "b \<equiv> bound_loop True (\<lambda>i. cmp x (ks ! i)) 0 (length ks)"
  shows "cmp x (ks ! i) = 0 \<longleftrightarrow> i = b \<and> cmp x (ks ! b) = 0"
proof
  assume eq: "cmp x (ks ! i) = 0"
  have v: "valid (ks ! i)" using assms by (simp add: increasing_def)
  have "\<not> i < b" using search_spec(2) [OF assms(1,2,3)] cmp_eq_swap [OF assms(2) v] eq by (simp add: b_def)
  moreover have "\<not> b < i"
  proof
    assume "b < i"
    then have "cmp (ks ! b) (ks ! i) < 0" "valid (ks ! b)" "b < length ks"
      using assms by (auto simp: increasing_def sorted_wrt_iff_nth_less)
    moreover from this have "\<not> cmp (ks ! b) x < 0" using search_spec(2) [OF assms(1,2), of b] by (simp add: b_def)
    moreover have "cmp (ks ! i) x \<le> 0" using eq cmp_eq_swap [OF assms(2) v] by simp
    ultimately have "cmp (ks ! b) x \<le> 0" "cmp x (ks ! b) \<le> 0"
      using cmp_trans [of "ks ! b" "ks ! i" x] cmp_swap [of x "ks ! b"] v assms(2) by force+
    then have "cmp x (ks ! i) < 0"
      using cmp_less_trans [of x "ks ! b" "ks ! i"] v assms(2) \<open>valid (ks ! b)\<close> \<open>cmp (ks ! b) (ks ! i) < 0\<close> by blast
    then show False using eq by simp
  qed
  ultimately show "i = b \<and> cmp x (ks ! b) = 0" using eq by (metis linorder_neqE_nat)
qed simp

lemma increasing_insert:
  assumes "increasing ks" and "valid x" and "\<forall>k \<in> set ks. cmp x k \<noteq> 0"
  defines "b \<equiv> bound_loop True (\<lambda>i. cmp x (ks ! i)) 0 (length ks)"
  shows "increasing (take b ks @ x # drop b ks)"
proof -
  have srt: "sorted_wrt (\<lambda>a b. cmp a b < 0) (take b ks @ drop b ks)" and v: "\<forall>k \<in> set ks. valid k"
    using assms(1) by (simp_all add: increasing_def)
  have bound: "b \<le> length ks" unfolding b_def by (rule search_spec(1) [OF assms(1,2)])
  have "cmp k x < 0" if "k \<in> set (take b ks)" for k
  proof -
    from that obtain i where "i < b" "i < length ks" "k = ks ! i" by (auto simp: in_set_conv_nth)
    then show ?thesis using search_spec(2) [OF assms(1,2), of i] by (simp add: b_def)
  qed
  moreover have "cmp x k < 0" if "k \<in> set (drop b ks)" for k
  proof -
    from that bound obtain i where "b \<le> i" "i < length ks" "k = ks ! i"
      by (auto simp: in_set_conv_nth) (metis add.commute le_add1 less_diff_conv)
    then have "\<not> cmp k x < 0" "valid k" "cmp x k \<noteq> 0"
      using search_spec(2) [OF assms(1,2), of i] v assms(3) by (simp_all add: b_def)
    then show ?thesis using cmp_swap [OF assms(2) \<open>valid k\<close>] by linarith
  qed
  ultimately show ?thesis
    using srt [unfolded sorted_wrt_append] v assms(2) set_take_subset [of b ks] set_drop_subset [of b ks]
    by (auto simp: increasing_def sorted_wrt_append)
qed

lemma increasing_erase:
  assumes "increasing ks"
  shows "increasing (take p ks @ drop (p + 1) ks)"
proof (cases "p < length ks")
  case True
  from id_take_nth_drop [OF this] assms have "increasing (take p ks @ ks ! p # drop (Suc p) ks)" by simp
  then show ?thesis by (auto simp: increasing_def sorted_wrt_append)
qed (use assms in simp)

end

section \<open>The comparison is an order\<close>

definition valid_key :: "ColType \<Rightarrow> nat \<Rightarrow> byte list \<Rightarrow> bool" where
  "valid_key t n k \<longleftrightarrow> length k = n \<and> (t = TYPE_FLOAT \<longrightarrow> \<not> f32_nan k)"

lemma memcmp_self [simp]: "memcmp a a = 0"
  by (induction a) auto

lemma memcmp_swap: "0 < memcmp a b \<longleftrightarrow> memcmp b a < 0"
  by (induction a b rule: memcmp.induct) auto

lemma memcmp_trans:
  assumes "length a = length b" and "length b = length c" and "memcmp a b \<le> 0" and "memcmp b c \<le> 0"
  shows "memcmp a c \<le> 0"
  using assms by (induction a b c rule: list_induct3) (auto split: if_splits)

lemma memcmp_eq: "length a = length b \<Longrightarrow> memcmp a b = 0 \<longleftrightarrow> a = b"
  by (induction a b rule: list_induct2) auto

interpretation ixk: key_order "ix_compare t n" "valid_key t n" for t n
proof
  fix a b c assume v: "valid_key t n a"
  show "ix_compare t n a a = 0" by (cases t) (simp_all add: ix_compare_def f32_less_def)
  assume w: "valid_key t n b"
  show "0 < ix_compare t n a b \<longleftrightarrow> ix_compare t n b a < 0"
    using v w memcmp_swap [of a b] by (cases t) (auto simp: ix_compare_def f32_less_def valid_key_def)
  assume "valid_key t n c" and "ix_compare t n a b \<le> 0" and "ix_compare t n b c \<le> 0"
  then show "ix_compare t n a c \<le> 0"
    using v w memcmp_trans [of a b c]
    by (cases t) (auto simp: ix_compare_def f32_less_def valid_key_def split: if_splits)
qed

section \<open>Operations of a node\<close>

abbreviation hdr_cmp :: "IxFileHdr \<Rightarrow> byte list \<Rightarrow> byte list \<Rightarrow> int" where
  "hdr_cmp h \<equiv> ix_compare (col_type h) (col_len h)"

abbreviation hdr_key :: "IxFileHdr \<Rightarrow> byte list \<Rightarrow> bool" where
  "hdr_key h \<equiv> valid_key (col_type h) (col_len h)"

abbreviation keys_ok :: "IxFileHdr \<Rightarrow> byte list list \<Rightarrow> bool" where
  "keys_ok h \<equiv> ixk.increasing (col_type h) (col_len h)"

definition node_ok :: "IxFileHdr \<Rightarrow> mem \<Rightarrow> bool" where
  "node_ok h m \<longleftrightarrow> node_size_ok h m \<and> keys_ok h (node_keys h m)"

lemma nth_node_keys [simp]: "i < nat (GetSize m) \<Longrightarrow> node_keys h m ! i = get_key h m i"
  and nth_node_rids [simp]: "i < nat (GetSize m) \<Longrightarrow> node_rids h m ! i = get_rid h m i"
  by (simp_all add: node_keys_def node_rids_def)

lemma bound_loop_cong:
  "(\<And>i. i < n \<Longrightarrow> f i = g i) \<Longrightarrow> r \<le> n \<Longrightarrow> bound_loop op f l r = bound_loop op g l r"
proof (induction op f l r rule: bound_loop.induct)
  case (1 op f l r)
  show ?case
  proof (cases "l < r")
    case True
    then have "f ((l + r) div 2) = g ((l + r) div 2)" using 1(4,5) by (intro 1(4)) linarith
    then show ?thesis using 1 True by (subst (1 2) bound_loop.simps) (auto simp: Let_def)
  qed (subst (1 2) bound_loop.simps, simp)
qed

lemma lower_bound_keys:
  "lower_bound h m x = bound_loop True (\<lambda>i. hdr_cmp h x (node_keys h m ! i)) 0 (length (node_keys h m))"
  and upper_bound_keys:
  "upper_bound h m x = bound_loop False (\<lambda>i. hdr_cmp h x (node_keys h m ! i)) 0 (length (node_keys h m))"
  unfolding lower_bound_def upper_bound_def length_node_keys
  by (rule bound_loop_cong [where n = "nat (GetSize m)"]; simp)+

lemma bounds_spec:
  assumes "node_ok h m" and "hdr_key h x"
  shows "lower_bound h m x \<le> nat (GetSize m)" and "upper_bound h m x \<le> nat (GetSize m)"
    and "i < nat (GetSize m) \<Longrightarrow> i < lower_bound h m x \<longleftrightarrow> hdr_cmp h (get_key h m i) x < 0"
    and "i < nat (GetSize m) \<Longrightarrow> i < upper_bound h m x \<longleftrightarrow> hdr_cmp h (get_key h m i) x \<le> 0"
  using ixk.search_spec [of "col_type h" "col_len h" "node_keys h m" x] assms
  unfolding lower_bound_keys upper_bound_keys node_ok_def by auto

lemma lower_bound_exact:
  assumes "node_ok h m" and "hdr_key h x" and "i < nat (GetSize m)"
  shows "hdr_cmp h x (get_key h m i) = 0 \<longleftrightarrow> i = lower_bound h m x \<and> hdr_cmp h x (get_key h m (lower_bound h m x)) = 0"
  using ixk.search_exact [of "col_type h" "col_len h" "node_keys h m" x i] assms
    bounds_spec(1) [OF assms(1,2)]
  unfolding lower_bound_keys node_ok_def by (cases "i = lower_bound h m x") (auto simp flip: lower_bound_keys)

text \<open>The position of a key in a node.\<close>

definition key_at :: "IxFileHdr \<Rightarrow> mem \<Rightarrow> byte list \<Rightarrow> nat \<Rightarrow> bool" where
  "key_at h m x i \<longleftrightarrow> i < nat (GetSize m) \<and> hdr_cmp h x (get_key h m i) = 0"

lemma key_at_unique:
  assumes "node_ok h m" and "hdr_key h x" and "key_at h m x i" and "key_at h m x j"
  shows "i = j"
  using assms lower_bound_exact [OF assms(1,2)] unfolding key_at_def by blast

lemma locateKeyIndex_spec:
  assumes ok: "node_ok h m" and x: "hdr_key h x"
  shows "locateKeyIndex h m x = Some i \<longleftrightarrow> key_at h m x i"
  using bounds_spec(1) [OF assms] lower_bound_exact [OF assms, of i] ok
  by (auto simp: locateKeyIndex_def key_at_def Let_def node_ok_def node_size_ok_def)

lemma LeafLookup_spec:
  assumes "node_ok h m" and "hdr_key h x"
  shows "LeafLookup h m x = Some r \<longleftrightarrow> (\<exists>i. key_at h m x i \<and> r = get_rid h m i)"
  using locateKeyIndex_spec [OF assms] by (auto simp: LeafLookup_def)

text \<open>The entry behind the last one is read by \<open>Insert\<close> and \<open>Remove\<close> when the key is above all others.\<close>

definition stale_match :: "IxFileHdr \<Rightarrow> mem \<Rightarrow> byte list \<Rightarrow> bool" where
  "stale_match h m x \<longleftrightarrow> hdr_cmp h x (get_key h m (nat (GetSize m))) = 0 \<and>
     (\<forall>i < nat (GetSize m). hdr_cmp h (get_key h m i) x < 0)"

lemma lower_bound_match:
  assumes ok: "node_ok h m" and x: "hdr_key h x"
  shows "hdr_cmp h x (get_key h m (lower_bound h m x)) = 0 \<longleftrightarrow>
    key_at h m x (lower_bound h m x) \<or> (lower_bound h m x = nat (GetSize m) \<and> stale_match h m x)"
  using bounds_spec(1,3) [OF assms] by (auto simp: key_at_def stale_match_def)

lemma stale_match_end:
  assumes ok: "node_ok h m" and x: "hdr_key h x" and st: "stale_match h m x"
  shows "lower_bound h m x = nat (GetSize m)" and "\<not> key_at h m x i"
proof -
  show "lower_bound h m x = nat (GetSize m)"
    using st bounds_spec(1) [OF ok x] bounds_spec(3) [OF ok x, of "lower_bound h m x"] unfolding stale_match_def by (cases "lower_bound h m x < nat (GetSize m)") auto
  then show "\<not> key_at h m x i" using lower_bound_exact [OF ok x, of i] unfolding key_at_def by linarith
qed

lemma Insert_present: "node_ok h m \<Longrightarrow> hdr_key h x \<Longrightarrow> key_at h m x i \<Longrightarrow> Insert h x r m = (GetSize m, m)"
  using lower_bound_exact [of h m x i] by (auto simp: Insert_def key_at_def Let_def)

lemma Insert_stale: "node_ok h m \<Longrightarrow> hdr_key h x \<Longrightarrow> stale_match h m x \<Longrightarrow> Insert h x r m = (GetSize m, m)"
  using lower_bound_match [of h m x] stale_match_end(1) [of h m x] by (simp add: Insert_def Let_def)

lemma Insert_absent:
  assumes h: "hdr_fits h" and ok: "node_ok h m" and x: "hdr_key h x" and r: "rid_i32 r" and room: "GetSize m < GetMaxSize h"
    and new: "\<And>i. \<not> key_at h m x i" and st: "\<not> stale_match h m x"
  defines "b \<equiv> lower_bound h m x"
  obtains m' where "Insert h x r m = (GetSize m + 1, m')" and "node_ok h m'" and "node_links m' = node_links m"
    and "node_keys h m' = take b (node_keys h m) @ x # drop b (node_keys h m)"
    and "node_rids h m' = take b (node_rids h m) @ r # drop b (node_rids h m)"
proof -
  have len: "length x = col_len h" and sz: "node_size_ok h m" using x ok by (simp_all add: valid_key_def node_ok_def)
  have b: "int b \<le> GetSize m" using bounds_spec(1) [OF ok x] sz unfolding b_def node_size_ok_def by linarith
  note eff = insert_pair_effect [OF h sz b room len r]
  have "\<forall>k \<in> set (node_keys h m). hdr_cmp h x k \<noteq> 0"
    using new by (auto simp: key_at_def in_set_conv_nth)
  then have "keys_ok h (node_keys h (insert_pair h b x r m))"
    using ok x ixk.increasing_insert [of "col_type h" "col_len h" "node_keys h m" x, folded lower_bound_keys b_def]
    unfolding eff(2) node_ok_def by blast
  then have "node_ok h (insert_pair h b x r m)" using eff(5) by (simp add: node_ok_def)
  moreover have "Insert h x r m = (GetSize m + 1, insert_pair h b x r m)"
    using new st lower_bound_match [OF ok x] eff(1) by (simp add: Insert_def Let_def b_def)
  ultimately show thesis using that eff(2-4) by blast
qed

lemma Remove_absent: "node_ok h m \<Longrightarrow> hdr_key h x \<Longrightarrow> (\<And>i. \<not> key_at h m x i) \<Longrightarrow> \<not> stale_match h m x \<Longrightarrow> Remove h x m = (GetSize m, m)"
  using lower_bound_match [of h m x] by (simp add: Remove_def Let_def)

lemma Remove_present:
  assumes h: "hdr_fits h" and ok: "node_ok h m" and x: "hdr_key h x" and i: "key_at h m x i"
  obtains m' where "Remove h x m = (GetSize m - 1, m')" and "node_ok h m'" and "node_links m' = node_links m"
    and "node_keys h m' = take i (node_keys h m) @ drop (i + 1) (node_keys h m)"
    and "node_rids h m' = take i (node_rids h m) @ drop (i + 1) (node_rids h m)"
proof -
  have sz: "node_size_ok h m" and p: "int i < GetSize m" using ok i by (auto simp: node_ok_def key_at_def)
  note eff = erase_pair_effect [OF h sz p]
  have "Remove h x m = (GetSize m - 1, erase_pair h i m)"
    using i lower_bound_exact [OF ok x, of i] eff(1) by (auto simp: Remove_def Let_def key_at_def)
  moreover have "node_ok h (erase_pair h i m)"
    using ok eff(2,5) ixk.increasing_erase [of "col_type h" "col_len h" "node_keys h m" i] by (simp add: node_ok_def)
  ultimately show thesis using that eff(2-4) by blast
qed

section \<open>A node as a map\<close>

definition node_entries :: "IxFileHdr \<Rightarrow> mem \<Rightarrow> (byte list \<times> Rid) list" where
  "node_entries h m = zip (node_keys h m) (node_rids h m)"

lemma key_at_valid: "node_ok h m \<Longrightarrow> i < nat (GetSize m) \<Longrightarrow> hdr_key h (get_key h m i)"
  unfolding node_ok_def ixk.increasing_def by (metis length_node_keys nth_mem nth_node_keys)

lemma set_node_entries:
  "(k, r) \<in> set (node_entries h m) \<longleftrightarrow> (\<exists>i < nat (GetSize m). k = get_key h m i \<and> r = get_rid h m i)"
  unfolding node_entries_def in_set_zip by (simp, metis nth_node_keys nth_node_rids)

lemma LeafLookup_entries:
  assumes "node_ok h m" and "hdr_key h y"
  shows "LeafLookup h m y = Some r \<longleftrightarrow> (\<exists>k. (k, r) \<in> set (node_entries h m) \<and> hdr_cmp h y k = 0)"
  unfolding LeafLookup_spec [OF assms] set_node_entries key_at_def by blast

lemma entries_insert:
  assumes "node_keys h m' = take b (node_keys h m) @ x # drop b (node_keys h m)"
    and "node_rids h m' = take b (node_rids h m) @ r # drop b (node_rids h m)"
  shows "node_entries h m' = take b (node_entries h m) @ (x, r) # drop b (node_entries h m)"
  unfolding node_entries_def assms by (simp add: take_zip drop_zip)

lemma entries_erase:
  assumes "node_keys h m' = take i (node_keys h m) @ drop (i + 1) (node_keys h m)"
    and "node_rids h m' = take i (node_rids h m) @ drop (i + 1) (node_rids h m)"
  shows "node_entries h m' = take i (node_entries h m) @ drop (i + 1) (node_entries h m)"
  unfolding node_entries_def assms by (simp add: take_zip drop_zip)

lemma in_set_take_drop:
  assumes "a \<in> set (take i xs @ drop (i + 1) xs)"
  shows "\<exists>j < length xs. j \<noteq> i \<and> a = xs ! j"
proof -
  from assms consider n where "n < length (take i xs)" "a = take i xs ! n"
    | n where "n < length (drop (i + 1) xs)" "a = drop (i + 1) xs ! n"
    by (auto simp: in_set_conv_nth)
  then show ?thesis
  proof cases
    case 1
    then show ?thesis by (intro exI [of _ n]) auto
  next
    case 2
    then show ?thesis by (intro exI [of _ "i + 1 + n"]) auto
  qed
qed

lemma set_take_drop: "set (take b xs @ x # drop b xs) = insert x (set xs)"
  by (metis Un_insert_right append_take_drop_id list.set(2) set_append)

lemma InternalLookup_separators:
  assumes ok: "node_ok h m" and x: "hdr_key h x" and ne: "0 < GetSize m"
  shows "\<exists>i < nat (GetSize m). InternalLookup h m x = ValueAt h m i \<and>
    (\<forall>j < nat (GetSize m). 0 < j \<and> j \<le> i \<longrightarrow> hdr_cmp h (get_key h m j) x \<le> 0) \<and>
    (\<forall>j < nat (GetSize m). i < j \<longrightarrow> 0 < hdr_cmp h (get_key h m j) x)"
proof -
  note U = bounds_spec(2,4) [OF ok x]
  let ?u = "upper_bound h m x"
  have "?u - 1 < nat (GetSize m)" using U(1) ne by linarith
  moreover have "hdr_cmp h (get_key h m j) x \<le> 0" if "j < nat (GetSize m)" "0 < j" "j \<le> ?u - 1" for j
    using U(2) [OF that(1)] that(2,3) by linarith
  moreover have "0 < hdr_cmp h (get_key h m j) x" if "j < nat (GetSize m)" "?u - 1 < j" for j
    using U(2) [OF that(1)] that(2) by linarith
  moreover have "InternalLookup h m x = ValueAt h m (?u - 1)" by (simp add: InternalLookup_def Let_def)
  ultimately show ?thesis by blast
qed

text \<open>
  C27. Searching a node with sorted keys: \<open>lower_bound\<close> returns the number of keys below the target and \<open>upper_bound\<close> the number of
  keys not above it (0 when every key is above the target), \<open>LeafLookup\<close> finds the record id of the key exactly when the node has the key, and
  \<open>InternalLookup\<close> on a node with entries returns the child whose range the target falls in: no separator up to this child but
  the first one is above the target, and every later separator is.
\<close>

theorem node_search_correct:
  assumes ok: "node_ok h m" and x: "hdr_key h x"
  shows "(\<forall>i. i < nat (GetSize m) \<longrightarrow> (i < lower_bound h m x \<longleftrightarrow> hdr_cmp h (get_key h m i) x < 0)) \<and>
    (\<forall>i. i < nat (GetSize m) \<longrightarrow> (i < upper_bound h m x \<longleftrightarrow> hdr_cmp h (get_key h m i) x \<le> 0)) \<and>
    lower_bound h m x \<le> nat (GetSize m) \<and> upper_bound h m x \<le> nat (GetSize m) \<and>
    (\<forall>r. LeafLookup h m x = Some r \<longleftrightarrow> (\<exists>k. (k, r) \<in> set (node_entries h m) \<and> hdr_cmp h x k = 0)) \<and>
    (0 < GetSize m \<longrightarrow> (\<exists>i < nat (GetSize m). InternalLookup h m x = ValueAt h m i \<and>
       (\<forall>j < nat (GetSize m). 0 < j \<and> j \<le> i \<longrightarrow> hdr_cmp h (get_key h m j) x \<le> 0) \<and>
       (\<forall>j < nat (GetSize m). i < j \<longrightarrow> 0 < hdr_cmp h (get_key h m j) x)))"
  by (intro conjI allI impI InternalLookup_separators [OF ok x]) (simp_all add: bounds_spec [OF ok x] LeafLookup_entries [OF ok x])

text \<open>
  C25. \<open>Insert\<close> of a new key into a sorted node that is not full adds the entry: the node stays sorted, the key is found with its record id,
  every other key is found as before, and the links of the node do not change. The bytes behind the last entry must not
  happen to equal a key above all others.
\<close>

theorem Insert_refines_map:
  assumes h: "hdr_fits h" and ok: "node_ok h m" and x: "hdr_key h x" and r: "rid_i32 r" and room: "GetSize m < GetMaxSize h"
    and new: "LeafLookup h m x = None" and st: "\<not> stale_match h m x"
  shows "\<exists>m'. Insert h x r m = (GetSize m + 1, m') \<and> node_ok h m' \<and> node_links m' = node_links m \<and>
    (\<forall>y. hdr_key h y \<longrightarrow> LeafLookup h m' y = (if hdr_cmp h y x = 0 then Some r else LeafLookup h m y))"
proof -
  have "\<not> key_at h m x i" for i using LeafLookup_spec [OF ok x] new by fastforce
  from Insert_absent [OF h ok x r room this st] obtain m' where m': "Insert h x r m = (GetSize m + 1, m')" "node_ok h m'"
      "node_links m' = node_links m" and keys: "node_keys h m' = take (lower_bound h m x) (node_keys h m) @ x # drop (lower_bound h m x) (node_keys h m)"
    and rids: "node_rids h m' = take (lower_bound h m x) (node_rids h m) @ r # drop (lower_bound h m x) (node_rids h m)" by metis
  have set: "set (node_entries h m') = insert (x, r) (set (node_entries h m))"
    unfolding entries_insert [OF keys rids] by (rule set_take_drop)
  have "LeafLookup h m' y = (if hdr_cmp h y x = 0 then Some r else LeafLookup h m y)" if y: "hdr_key h y" for y
  proof (cases "hdr_cmp h y x = 0")
    case True
    then show ?thesis using LeafLookup_entries [OF m'(2) y, of r] set by auto
  next
    case False
    then have "LeafLookup h m' y = Some q \<longleftrightarrow> LeafLookup h m y = Some q" for q
      unfolding LeafLookup_entries [OF m'(2) y] LeafLookup_entries [OF ok y] set by auto
    then show ?thesis using False by (metis option.exhaust)
  qed
  then show ?thesis using m' by blast
qed

text \<open>
  C26. \<open>Remove\<close> of a key of a sorted node removes exactly this entry: the node stays sorted, the key is no longer found and every
  other key is found as before.
\<close>

theorem Remove_refines_map:
  assumes h: "hdr_fits h" and ok: "node_ok h m" and x: "hdr_key h x" and old: "LeafLookup h m x = Some r"
  shows "\<exists>m'. Remove h x m = (GetSize m - 1, m') \<and> node_ok h m' \<and> node_links m' = node_links m \<and>
    (\<forall>y. hdr_key h y \<longrightarrow> LeafLookup h m' y = (if hdr_cmp h y x = 0 then None else LeafLookup h m y))"
proof -
  from old obtain i where i: "key_at h m x i" using LeafLookup_spec [OF ok x] by blast
  from Remove_present [OF h ok x i] obtain m' where m': "Remove h x m = (GetSize m - 1, m')" "node_ok h m'"
      "node_links m' = node_links m" and keys: "node_keys h m' = take i (node_keys h m) @ drop (i + 1) (node_keys h m)"
    and rids: "node_rids h m' = take i (node_rids h m) @ drop (i + 1) (node_rids h m)" by metis
  have len: "i < length (node_entries h m)" using i by (simp add: key_at_def node_entries_def)
  have split: "node_entries h m = take i (node_entries h m) @ (get_key h m i, get_rid h m i) # drop (i + 1) (node_entries h m)"
    using id_take_nth_drop [OF len] i by (simp add: node_entries_def key_at_def)
  have set: "set (node_entries h m) = insert (get_key h m i, get_rid h m i) (set (node_entries h m'))"
    unfolding entries_erase [OF keys rids] by (subst split) simp
  have gone: "hdr_cmp h x k \<noteq> 0" if "(k, q) \<in> set (node_entries h m')" for k q
  proof
    assume eq: "hdr_cmp h x k = 0"
    from that obtain j where j: "j < length (node_entries h m)" "j \<noteq> i" "(k, q) = node_entries h m ! j"
      unfolding entries_erase [OF keys rids] using in_set_take_drop by metis
    then have "key_at h m x j" using eq by (simp add: node_entries_def key_at_def)
    then show False using key_at_unique [OF ok x i] j(2) by blast
  qed
  have v: "hdr_key h k" if "(k, q) \<in> set (node_entries h m)" for k q
    using that key_at_valid [OF ok] by (auto simp: set_node_entries)
  have "LeafLookup h m' y = (if hdr_cmp h y x = 0 then None else LeafLookup h m y)" if y: "hdr_key h y" for y
  proof (cases "hdr_cmp h y x = 0")
    case True
    have "hdr_cmp h y k \<noteq> 0" if k: "(k, q) \<in> set (node_entries h m')" for k q
      using gone [OF k] ixk.cmp_eq_trans [OF x y, of k] v [of k q] ixk.cmp_eq_swap [OF x y] True k set by auto
    then have "LeafLookup h m' y \<noteq> Some q" for q unfolding LeafLookup_entries [OF m'(2) y] by blast
    then show ?thesis using True by (metis option.exhaust)
  next
    case False
    have ki: "hdr_key h (get_key h m i)" using v set by blast
    have "hdr_cmp h y (get_key h m i) \<noteq> 0"
      using False ixk.cmp_eq_trans [OF y ki x] ixk.cmp_eq_swap [OF x ki] i by (auto simp: key_at_def)
    then have "LeafLookup h m' y = Some q \<longleftrightarrow> LeafLookup h m y = Some q" for q
      unfolding LeafLookup_entries [OF m'(2) y] LeafLookup_entries [OF ok y] set by auto
    then show ?thesis using False by (metis option.exhaust)
  qed
  then show ?thesis using m' by blast
qed

text \<open>
  C30. \<open>Insert\<close> compares the key with the entry behind the last one when the key is above all others. If the bytes left there, for example by
  a split, equal the key, the insertion of a key that the node does not hold is refused and the node is not changed.
\<close>

theorem Insert_refuses_stale_key:
  assumes "node_ok h m" and "hdr_key h x" and "stale_match h m x"
  shows "LeafLookup h m x = None \<and> Insert h x r m = (GetSize m, m)"
  using Insert_stale [OF assms] LeafLookup_spec [OF assms(1,2)] stale_match_end(2) [OF assms]
  by (metis option.exhaust)

text \<open>
  In the same situation \<open>Remove\<close> of a key that the node does not hold drops the last entry of the node, an entry of another key.
\<close>

theorem Remove_stale_key_drops_last:
  assumes h: "hdr_fits h" and ok: "node_ok h m" and x: "hdr_key h x" and st: "stale_match h m x" and ne: "0 < GetSize m"
  shows "LeafLookup h m x = None \<and> (\<exists>m'. Remove h x m = (GetSize m - 1, m') \<and> node_entries h m' = butlast (node_entries h m))"
proof -
  have sz: "GetSize m \<le> int (btree_order h) + 1" using ok by (simp add: node_ok_def node_size_ok_def GetMaxSize_def)
  have i32: "is_i32 (GetSize m - 1)"
    using h sz ne by (simp add: hdr_fits_def PAGE_SIZE_def sizeof_Rid_def is_i32_def)
  let ?m = "SetSize (GetSize m - 1) m"
  have size: "GetSize ?m = GetSize m - 1" using i32 by (simp add: SetSize_effect)
  have "Remove h x m = (GetSize m - 1, ?m)"
    using lower_bound_match [OF ok x] stale_match_end(1) [OF ok x st] st i32 size
    by (simp add: Remove_def erase_pair_def erase_loop_fold Let_def)
  moreover have "get_key h ?m i = get_key h m i" "get_rid h ?m i = get_rid h m i" for i
    by (auto simp: get_key_def get_rid_def key_off_def rid_off_def SetSize_effect intro!: mread_cong get_i32_cong)
  then have "node_entries h ?m = butlast (node_entries h m)"
    using ne by (intro nth_equalityI) (auto simp: node_entries_def size nth_butlast)
  moreover have "LeafLookup h m x = None"
    using LeafLookup_spec [OF ok x] stale_match_end(2) [OF ok x st] by (metis option.exhaust)
  ultimately show ?thesis by blast
qed

section \<open>A concrete node\<close>

text \<open>
  The header of an index on an \<open>int\<close> column, as \<open>IxManager::create_index\<close> computes it, and a leaf that was split: the first \<open>n\<close> of the keys 5 and 9
  are its entries.
\<close>

definition sample_ix :: IxFileHdr where
  "sample_ix = \<lparr>ix_first_free = -1, ix_num_pages = 3, root_page = 2, col_type = TYPE_INT, col_len = 4, btree_order = 338,
     keys_size = 1356, first_leaf = 2, last_leaf = 2\<rparr>"

definition sample_node :: "int \<Rightarrow> mem" where
  "sample_node n = SetSize n (set_key sample_ix 0 (i32_bytes 5) (set_key sample_ix 1 (i32_bytes 9)
     (set_rid sample_ix 0 \<lparr>rid_page = 1, rid_slot = 0\<rparr> (set_rid sample_ix 1 \<lparr>rid_page = 1, rid_slot = 1\<rparr> zero_mem))))"

lemma sample_ix_fits: "hdr_fits sample_ix"
  by (simp add: hdr_fits_def sample_ix_def sizeof_IxPageHdr_def sizeof_Rid_def PAGE_SIZE_def)

lemma sample_ix_simps [simp]: "col_type sample_ix = TYPE_INT" "col_len sample_ix = 4" "btree_order sample_ix = 338"
  by (simp_all add: sample_ix_def)

lemma get_key_SetSize [simp]: "get_key h (SetSize n m) i = get_key h m i"
  and get_rid_SetSize [simp]: "get_rid h (SetSize n m) i = get_rid h m i"
  by (auto simp: get_key_def get_rid_def key_off_def rid_off_def SetSize_effect intro!: mread_cong get_i32_cong)

lemma sample_node_facts:
  assumes "n = 1 \<or> n = 2"
  shows "GetSize (sample_node n) = n" and "get_key sample_ix (sample_node n) 0 = i32_bytes 5"
    and "get_key sample_ix (sample_node n) (Suc 0) = i32_bytes 9"
    and "get_rid sample_ix (sample_node n) 0 = \<lparr>rid_page = 1, rid_slot = 0\<rparr>"
  using assms
  by (auto simp: sample_node_def SetSize_effect get_key_set_key get_rid_set_key get_rid_set_rid sample_ix_fits rid_i32_def
    is_i32_def)

lemma int_cmp: "is_i32 a \<Longrightarrow> is_i32 b \<Longrightarrow> ix_compare TYPE_INT 4 (i32_bytes a) (i32_bytes b) = (if a < b then -1 else if a > b then 1 else 0)"
  by (simp add: ix_compare_def)

lemma int_key [simp]: "valid_key TYPE_INT 4 (i32_bytes a)"
  by (simp add: valid_key_def)

lemma sample_node_ok: "n = 1 \<or> n = 2 \<Longrightarrow> node_ok sample_ix (sample_node n)"
  by (auto simp: node_ok_def node_size_ok_def node_keys_def ixk.increasing_def sample_node_facts GetMaxSize_def numeral_2_eq_2
    int_cmp is_i32_def less_Suc_eq)

lemma sample_node_lookup:
  assumes "is_i32 x" and "n = 1 \<or> n = 2"
  shows "key_at sample_ix (sample_node n) (i32_bytes x) i \<longleftrightarrow> i < nat n \<and> x = (if i = 0 then 5 else 9)"
  using assms by (cases "i = 0"; cases "i = 1") (auto simp: key_at_def sample_node_facts int_cmp is_i32_def)

lemma sample_node_stale: "stale_match sample_ix (sample_node 1) (i32_bytes 9)"
  by (simp add: stale_match_def sample_node_facts int_cmp is_i32_def)

theorem Insert_refuses_stale_key_witness:
  "LeafLookup sample_ix (sample_node 1) (i32_bytes 9) = None \<and>
    Insert sample_ix (i32_bytes 9) \<lparr>rid_page = 3, rid_slot = 3\<rparr> (sample_node 1) = (1, sample_node 1)"
  using Insert_refuses_stale_key [of sample_ix "sample_node 1" "i32_bytes 9" "\<lparr>rid_page = 3, rid_slot = 3\<rparr>"]
  by (simp add: sample_node_ok sample_node_stale sample_node_facts)

theorem Remove_stale_key_drops_last_witness:
  "LeafLookup sample_ix (sample_node 1) (i32_bytes 9) = None \<and>
    (\<exists>m'. Remove sample_ix (i32_bytes 9) (sample_node 1) = (0, m') \<and>
      node_entries sample_ix m' = butlast (node_entries sample_ix (sample_node 1)))"
  using Remove_stale_key_drops_last [of sample_ix "sample_node 1" "i32_bytes 9"]
  by (simp add: sample_ix_fits sample_node_ok sample_node_stale sample_node_facts)

theorem node_search_correct_witness:
  "lower_bound sample_ix (sample_node 2) (i32_bytes 7) \<le> nat 2 \<and> 0 < lower_bound sample_ix (sample_node 2) (i32_bytes 7) \<and>
    \<not> 1 < upper_bound sample_ix (sample_node 2) (i32_bytes 7)"
  using node_search_correct [OF sample_node_ok [of 2], of "i32_bytes 7"]
  by (simp add: sample_node_facts int_cmp is_i32_def)

theorem Insert_refines_map_witness:
  "\<exists>m'. Insert sample_ix (i32_bytes 7) \<lparr>rid_page = 3, rid_slot = 3\<rparr> (sample_node 2) = (3, m') \<and> node_ok sample_ix m' \<and>
    LeafLookup sample_ix m' (i32_bytes 7) = Some \<lparr>rid_page = 3, rid_slot = 3\<rparr>"
proof -
  have ok: "node_ok sample_ix (sample_node 2)" by (simp add: sample_node_ok)
  have new: "LeafLookup sample_ix (sample_node 2) (i32_bytes 7) = None"
  proof -
    have "\<not> key_at sample_ix (sample_node 2) (i32_bytes 7) i" for i by (simp add: sample_node_lookup is_i32_def)
    then show ?thesis using LeafLookup_spec [OF ok, of "i32_bytes 7"] by (auto simp: not_Some_eq [symmetric])
  qed
  have st: "\<not> stale_match sample_ix (sample_node 2) (i32_bytes 7)"
    by (auto simp: stale_match_def sample_node_facts int_cmp is_i32_def intro!: exI [of _ 1])
  have "\<exists>m'. Insert sample_ix (i32_bytes 7) \<lparr>rid_page = 3, rid_slot = 3\<rparr> (sample_node 2) = (GetSize (sample_node 2) + 1, m') \<and>
    node_ok sample_ix m' \<and> node_links m' = node_links (sample_node 2) \<and>
    (\<forall>y. hdr_key sample_ix y \<longrightarrow> LeafLookup sample_ix m' y =
      (if hdr_cmp sample_ix y (i32_bytes 7) = 0 then Some \<lparr>rid_page = 3, rid_slot = 3\<rparr> else LeafLookup sample_ix (sample_node 2) y))"
    by (rule Insert_refines_map [OF sample_ix_fits ok _ _ _ new st])
      (simp_all add: sample_node_facts GetMaxSize_def rid_i32_def is_i32_def)
  then show ?thesis by (auto simp: sample_node_facts int_cmp is_i32_def)
qed

theorem Remove_refines_map_witness:
  "\<exists>m'. Remove sample_ix (i32_bytes 5) (sample_node 2) = (1, m') \<and> node_ok sample_ix m' \<and>
    LeafLookup sample_ix m' (i32_bytes 5) = None"
proof -
  have ok: "node_ok sample_ix (sample_node 2)" by (simp add: sample_node_ok)
  have old: "LeafLookup sample_ix (sample_node 2) (i32_bytes 5) = Some \<lparr>rid_page = 1, rid_slot = 0\<rparr>"
    using LeafLookup_spec [OF ok, of "i32_bytes 5"] sample_node_lookup [of 5 2]
    by (auto simp: is_i32_def sample_node_facts split: if_splits)
  have "\<exists>m'. Remove sample_ix (i32_bytes 5) (sample_node 2) = (GetSize (sample_node 2) - 1, m') \<and>
    node_ok sample_ix m' \<and> node_links m' = node_links (sample_node 2) \<and>
    (\<forall>y. hdr_key sample_ix y \<longrightarrow> LeafLookup sample_ix m' y =
      (if hdr_cmp sample_ix y (i32_bytes 5) = 0 then None else LeafLookup sample_ix (sample_node 2) y))"
    by (rule Remove_refines_map [OF sample_ix_fits ok _ old]) simp
  then show ?thesis by (auto simp: sample_node_facts int_cmp is_i32_def)
qed

end
