(* ===== verification/Ix_Index.thy ===== *)
theory Ix_Index
  imports Ix_Node Record_File
begin

text \<open>
  \<open>index/ix_index_handle.h\<close>, \<open>index/ix_index_handle.cpp\<close>, \<open>index/ix_scan.h\<close>, \<open>index/ix_scan.cpp\<close> and \<open>index/ix_manager.h\<close>: the B+ tree of
  an index file over the buffer pool. A node pointer is the number of the frame that holds its page, so what a pointer reads after its page was unpinned
  is what the frame then holds. A key pointer into a node is the frame and the number of the key.

  The loops that follow child or parent pointers need not end on a damaged tree; they carry a bound on their rounds and fail with \<open>OutOfFuel\<close> when it
  is used up. \<open>root_latch_\<close> is held during each of the operations that take it and has no state here.
\<close>

section \<open>State\<close>

record IxIndexHandle =
  ix_bpm :: BufferPoolManager
  ix_fd :: int
  ix_hdr :: IxFileHdr

type_synonym 'a ix_op = "(rb_error, IxIndexHandle, 'a) op"

definition node_data :: "frame_id \<Rightarrow> IxIndexHandle \<Rightarrow> mem" where
  "node_data f s = pg_data (pages (ix_bpm s) f)"

definition on_node :: "frame_id \<Rightarrow> (IxFileHdr \<Rightarrow> mem \<Rightarrow> mem) \<Rightarrow> unit ix_op" where
  "on_node f g = modify_st (\<lambda>s. s\<lparr>ix_bpm := store_page f (g (ix_hdr s) (node_data f s)) (ix_bpm s)\<rparr>)"

definition read_node :: "frame_id \<Rightarrow> (IxFileHdr \<Rightarrow> mem \<Rightarrow> 'a) \<Rightarrow> 'a ix_op" where
  "read_node f g = read_st (\<lambda>s. g (ix_hdr s) (node_data f s))"

definition on_ix_hdr :: "(IxFileHdr \<Rightarrow> IxFileHdr) \<Rightarrow> unit ix_op" where
  "on_ix_hdr g = modify_st (\<lambda>s. s\<lparr>ix_hdr := g (ix_hdr s)\<rparr>)"

definition GetPageNo :: "frame_id \<Rightarrow> IxIndexHandle \<Rightarrow> int" where
  "GetPageNo f s = pid_no (pg_id (pages (ix_bpm s) f))"

definition GetPageId :: "frame_id \<Rightarrow> IxIndexHandle \<Rightarrow> PageId" where
  "GetPageId f s = pg_id (pages (ix_bpm s) f)"

definition on_bpm :: "(rb_error, BufferPoolManager, 'a) op \<Rightarrow> 'a ix_op" where
  "on_bpm m s = (let (r, b) = m (ix_bpm s) in (r, s\<lparr>ix_bpm := b\<rparr>))"

definition unpin_node :: "frame_id \<Rightarrow> bool \<Rightarrow> bool ix_op" where
  "unpin_node f dirty s = (let (r, b) = UnpinPage (GetPageId f s) dirty (ix_bpm s) in (Inr r, s\<lparr>ix_bpm := b\<rparr>))"

section \<open>Nodes\<close>

definition FetchNode :: "int \<Rightarrow> frame_id ix_op" where
  "FetchNode page_no s =
     andthen (on_bpm (FetchPage \<lparr>pid_fd = ix_fd s, pid_no = page_no\<rparr>))
       (\<lambda>p. case p of None \<Rightarrow> throw NullDereference | Some f \<Rightarrow> ret f) s"

definition CreateNode :: "frame_id ix_op" where
  "CreateNode =
     andthen (on_ix_hdr (ix_num_pages_update (\<lambda>n. to_i32 (n + 1)))) (\<lambda>_ s.
     andthen (on_bpm (NewPage (ix_fd s))) (\<lambda>p. case p of None \<Rightarrow> throw NullDereference | Some (f, _) \<Rightarrow> ret f) s)"

definition release_node_handle :: "frame_id \<Rightarrow> unit ix_op" where
  "release_node_handle node = on_ix_hdr (ix_num_pages_update (\<lambda>n. to_i32 (n - 1)))"

definition UpdateRootPageNo :: "int \<Rightarrow> unit ix_op" where
  "UpdateRootPageNo root = on_ix_hdr (root_page_update (\<lambda>_. root))"

definition IsEmpty :: "IxIndexHandle \<Rightarrow> bool" where
  "IsEmpty s \<longleftrightarrow> root_page (ix_hdr s) = IX_NO_PAGE"

definition maintain_child :: "frame_id \<Rightarrow> nat \<Rightarrow> unit ix_op" where
  "maintain_child node child_idx s =
     (if \<not> IsLeafPage (node_data node s) then
        andthen (FetchNode (ValueAt (ix_hdr s) (node_data node s) child_idx)) (\<lambda>child.
        andthen (\<lambda>t. on_node child (\<lambda>_. SetParentPageNo (GetPageNo node t)) t) (\<lambda>_.
        andthen (unpin_node child True) (\<lambda>_. ret ()))) s
      else ret () s)"

fun maintain_parent :: "nat \<Rightarrow> frame_id \<Rightarrow> unit ix_op" where
  "maintain_parent fuel node s =
     (if GetParentPageNo (node_data node s) = IX_NO_PAGE then ret () s
      else case fuel of
        0 \<Rightarrow> throw OutOfFuel s
      | Suc fuel' \<Rightarrow>
          andthen (FetchNode (GetParentPageNo (node_data node s))) (\<lambda>parent t.
            case find_child (ix_hdr t) (node_data parent t) (GetPageNo node t) of
              Inl e \<Rightarrow> throw e t
            | Inr rank \<Rightarrow>
                (let child_first_key = get_key (ix_hdr t) (node_data node t) 0
                 in if get_key (ix_hdr t) (node_data parent t) rank = child_first_key then
                      andthen (unpin_node parent True) (\<lambda>b. if b then ret () else throw AssertionFailure) t
                    else
                      andthen (on_node parent (\<lambda>h. set_key h rank child_first_key)) (\<lambda>_.
                      andthen (unpin_node parent True) (\<lambda>b. if b then maintain_parent fuel' parent else throw AssertionFailure)) t)) s)"

declare maintain_parent.simps [simp del]

definition erase_leaf :: "frame_id \<Rightarrow> unit ix_op" where
  "erase_leaf leaf s =
     (if \<not> IsLeafPage (node_data leaf s) then throw AssertionFailure s
      else andthen (FetchNode (GetPrevLeaf (node_data leaf s))) (\<lambda>prv.
           andthen (\<lambda>t. on_node prv (\<lambda>_. SetNextLeaf (GetNextLeaf (node_data leaf t))) t) (\<lambda>_.
           andthen (unpin_node prv True) (\<lambda>_.
           andthen (\<lambda>t. FetchNode (GetNextLeaf (node_data leaf t)) t) (\<lambda>nxt.
           andthen (\<lambda>t. on_node nxt (\<lambda>_. SetPrevLeaf (GetPrevLeaf (node_data leaf t))) t) (\<lambda>_.
           andthen (unpin_node nxt True) (\<lambda>_. ret ())))))) s)"

section \<open>Search\<close>

fun descend :: "nat \<Rightarrow> byte list \<Rightarrow> frame_id \<Rightarrow> frame_id ix_op" where
  "descend fuel key node s =
     (if IsLeafPage (node_data node s) then ret node s
      else case fuel of
        0 \<Rightarrow> throw OutOfFuel s
      | Suc fuel' \<Rightarrow>
          andthen (FetchNode (InternalLookup (ix_hdr s) (node_data node s) key)) (descend fuel' key) s)"

declare descend.simps [simp del]

definition FindLeafPage :: "nat \<Rightarrow> byte list \<Rightarrow> frame_id ix_op" where
  "FindLeafPage fuel key s = andthen (FetchNode (root_page (ix_hdr s))) (descend fuel key) s"

text \<open>The result is what \<open>GetValue\<close> pushes to the result vector; the leaf is only unpinned when the key is not found.\<close>

definition GetValue :: "nat \<Rightarrow> byte list \<Rightarrow> Rid option ix_op" where
  "GetValue fuel key =
     andthen (FindLeafPage fuel key) (\<lambda>leaf s.
       case LeafLookup (ix_hdr s) (node_data leaf s) key of
         Some rid \<Rightarrow> ret (Some rid) s
       | None \<Rightarrow> andthen (unpin_node leaf False) (\<lambda>_. ret None) s)"

section \<open>Insertion\<close>

definition updateLastLeaf :: "frame_id \<Rightarrow> frame_id \<Rightarrow> unit ix_op" where
  "updateLastLeaf originNode newNode s =
     (if GetPageNo originNode s = last_leaf (ix_hdr s) then on_ix_hdr (last_leaf_update (\<lambda>_. GetPageNo newNode s)) s
      else ret () s)"

fun move_pairs :: "IxFileHdr \<Rightarrow> nat \<Rightarrow> mem \<Rightarrow> nat list \<Rightarrow> mem \<Rightarrow> mem" where
  "move_pairs h newKeyNum origin [] m = m"
| "move_pairs h newKeyNum origin (i # is) m =
     move_pairs h newKeyNum origin is
       (set_rid h i (get_rid h origin (newKeyNum + i)) (set_key h i (get_key h origin (newKeyNum + i)) m))"

text \<open>The two nodes are in different frames; the result is the new content of the new node and of the original one.\<close>

definition evenlyDistributePairs :: "IxFileHdr \<Rightarrow> mem \<Rightarrow> mem \<Rightarrow> mem \<times> mem" where
  "evenlyDistributePairs h newNode originNode =
     (let newKeyNum = GetSize originNode div 2;
          n1 = set_leaf (IsLeafPage originNode) newNode;
          n2 = SetSize (to_i32 (GetSize originNode - newKeyNum)) n1;
          o1 = SetSize newKeyNum originNode;
          n3 = SetParentPageNo (GetParentPageNo o1) n2
      in (move_pairs h (nat newKeyNum) o1 [0..<nat (GetSize n3)] n3, o1))"

definition setNewRoot :: "frame_id \<Rightarrow> frame_id \<Rightarrow> frame_id \<Rightarrow> unit ix_op" where
  "setNewRoot root left right =
     andthen (on_node root (\<lambda>_ m. SetParentPageNo INVALID_PAGE_ID (SetSize 2 (set_leaf False m)))) (\<lambda>_.
     andthen (\<lambda>s. UpdateRootPageNo (GetPageNo root s) s) (\<lambda>_.
     andthen (\<lambda>s. on_node root (\<lambda>h m.
         set_rid h 1 \<lparr>rid_page = GetPageNo right s, rid_slot = -1\<rparr> (set_key h 1 (get_key h (node_data right s) 0)
           (set_rid h 0 \<lparr>rid_page = GetPageNo left s, rid_slot = -1\<rparr> (set_key h 0 (get_key h (node_data left s) 0) m)))) s) (\<lambda>_.
     andthen (\<lambda>s. for_each (maintain_child root) [0..<nat (GetSize (node_data root s))] s) (\<lambda>_.
     andthen (unpin_node root True) (\<lambda>_. ret ())))))"

definition insertLeaf :: "frame_id \<Rightarrow> frame_id \<Rightarrow> bool \<Rightarrow> unit ix_op" where
  "insertLeaf originNode newNode keep =
     andthen (\<lambda>s. on_node newNode (\<lambda>_. SetNextLeaf (GetNextLeaf (node_data originNode s))) s) (\<lambda>_.
     andthen (if keep then
                andthen (\<lambda>s. on_node newNode (\<lambda>_. SetPrevLeaf (GetPageNo originNode s)) s)
                  (\<lambda>_ s. on_node originNode (\<lambda>_. SetNextLeaf (GetPageNo newNode s)) s)
              else ret ()) (\<lambda>_ s.
     if GetNextLeaf (node_data newNode s) \<noteq> INVALID_PAGE_ID then
       andthen (FetchNode (GetNextLeaf (node_data newNode s))) (\<lambda>nextNode.
       andthen (\<lambda>t. on_node nextNode (\<lambda>_. SetPrevLeaf (GetPageNo newNode t)) t) (\<lambda>_.
       andthen (unpin_node nextNode True) (\<lambda>_. ret ()))) s
     else ret () s))"

definition distribute_nodes :: "frame_id \<Rightarrow> frame_id \<Rightarrow> unit ix_op" where
  "distribute_nodes newNode originNode s =
     (let (n, orig) = evenlyDistributePairs (ix_hdr s) (node_data newNode s) (node_data originNode s)
      in andthen (on_node originNode (\<lambda>_ _. orig)) (\<lambda>_. on_node newNode (\<lambda>_ _. n)) s)"

definition Split :: "frame_id \<Rightarrow> frame_id ix_op" where
  "Split node =
     andthen CreateNode (\<lambda>newNode.
     andthen (distribute_nodes newNode node) (\<lambda>_.
     andthen (\<lambda>s. if IsLeafPage (node_data newNode s) then insertLeaf node newNode True s
                  else for_each (maintain_child newNode) [0..<nat (GetSize (node_data newNode s))] s) (\<lambda>_.
     ret newNode)))"

type_synonym key_ptr = "frame_id \<times> nat"

definition key_of_ptr :: "key_ptr \<Rightarrow> IxIndexHandle \<Rightarrow> byte list" where
  "key_of_ptr p s = get_key (ix_hdr s) (node_data (fst p) s) (snd p)"

text \<open>\<open>splitNodeIfFull\<close> and \<open>InsertIntoParent\<close> call each other; the first is written over the second.\<close>

definition splitNodeIfFull_by :: "(frame_id \<Rightarrow> key_ptr \<Rightarrow> frame_id \<Rightarrow> unit ix_op) \<Rightarrow> frame_id \<Rightarrow> unit ix_op" where
  "splitNodeIfFull_by insert_into_parent node s =
     (if is_full (ix_hdr s) (node_data node s) then
        andthen (Split node) (\<lambda>newNode.
        andthen (insert_into_parent node (newNode, 0) newNode) (\<lambda>_ t.
        if IsLeafPage (node_data node t) then
          andthen (updateLastLeaf node newNode) (\<lambda>_.
          andthen (unpin_node node True) (\<lambda>_.
          andthen (unpin_node newNode True) (\<lambda>_. ret ()))) t
        else ret () t)) s
      else ret () s)"

primrec InsertIntoParent :: "nat \<Rightarrow> frame_id \<Rightarrow> key_ptr \<Rightarrow> frame_id \<Rightarrow> unit ix_op" where
  "InsertIntoParent 0 = (\<lambda>old_node key new_node. throw OutOfFuel)"
| "InsertIntoParent (Suc fuel) = (\<lambda>old_node key new_node s.
     if IsRootPage (node_data old_node s) then
       andthen CreateNode (\<lambda>newRoot. setNewRoot newRoot old_node new_node) s
     else
       andthen (FetchNode (GetParentPageNo (node_data old_node s))) (\<lambda>parent.
       andthen (\<lambda>t. on_node parent (\<lambda>h m. snd (Insert h (key_of_ptr key t) \<lparr>rid_page = GetPageNo new_node t, rid_slot = -1\<rparr> m)) t) (\<lambda>_.
       andthen (splitNodeIfFull_by (InsertIntoParent fuel) parent) (\<lambda>_.
       andthen (unpin_node parent True) (\<lambda>_. ret ())))) s)"

definition splitNodeIfFull :: "nat \<Rightarrow> frame_id \<Rightarrow> unit ix_op" where
  "splitNodeIfFull fuel = splitNodeIfFull_by (InsertIntoParent fuel)"

definition insert_entry :: "nat \<Rightarrow> byte list \<Rightarrow> Rid \<Rightarrow> bool ix_op" where
  "insert_entry fuel key value =
     andthen (FindLeafPage fuel key) (\<lambda>leaf s.
       let originSize = GetSize (node_data leaf s);
           (nowSize, m') = Insert (ix_hdr s) key value (node_data leaf s)
       in andthen (on_node leaf (\<lambda>_ _. m')) (\<lambda>_.
          if nowSize > originSize then andthen (splitNodeIfFull fuel leaf) (\<lambda>_. ret True)
          else ret False) s)"

section \<open>Deletion\<close>

definition AdjustRoot :: "frame_id \<Rightarrow> bool ix_op" where
  "AdjustRoot old_root_node s =
     (if IsLeafPage (node_data old_root_node s) then
        (if GetSize (node_data old_root_node s) = 0 then
           andthen (release_node_handle old_root_node) (\<lambda>_.
           andthen (on_ix_hdr (root_page_update (\<lambda>_. INVALID_PAGE_ID))) (\<lambda>_. ret True)) s
         else ret False s)
      else if GetSize (node_data old_root_node s) = 1 then
        andthen (FetchNode (ValueAt (ix_hdr s) (node_data old_root_node s) 0)) (\<lambda>new_root.
        andthen (on_node new_root (\<lambda>_. SetParentPageNo INVALID_PAGE_ID)) (\<lambda>_.
        andthen (\<lambda>t. on_ix_hdr (root_page_update (\<lambda>_. GetPageNo new_root t)) t) (\<lambda>_.
        andthen (release_node_handle old_root_node) (\<lambda>_.
        andthen (unpin_node new_root True) (\<lambda>_. ret True))))) s
      else ret False s)"

definition Redistribute :: "nat \<Rightarrow> frame_id \<Rightarrow> frame_id \<Rightarrow> frame_id \<Rightarrow> nat \<Rightarrow> unit ix_op" where
  "Redistribute fuel neighbor_node node parent index =
     (if index \<noteq> 0 then
        andthen (guard OutOfRange (\<lambda>s. 0 < GetSize (node_data neighbor_node s))) (\<lambda>_.
        andthen (read_node neighbor_node (\<lambda>_ m. nat (GetSize m - 1))) (\<lambda>p.
        andthen (\<lambda>s. on_node node (\<lambda>h. insert_pair h 0 (get_key h (node_data neighbor_node s) p)
                       (get_rid h (node_data neighbor_node s) p)) s) (\<lambda>_.
        andthen (on_node neighbor_node (\<lambda>h. erase_pair h p)) (\<lambda>_.
        andthen (maintain_child node 0) (\<lambda>_.
        maintain_parent fuel node)))))
      else
        andthen (guard OutOfRange (\<lambda>s. 0 \<le> GetSize (node_data node s))) (\<lambda>_.
        andthen (\<lambda>s. on_node node (\<lambda>h m. insert_pair h (nat (GetSize m)) (get_key h (node_data neighbor_node s) 0)
                       (get_rid h (node_data neighbor_node s) 0) m) s) (\<lambda>_.
        andthen (on_node neighbor_node (\<lambda>h. erase_pair h 0)) (\<lambda>_.
        andthen (\<lambda>s. maintain_child node (nat (GetSize (node_data node s) - 1)) s) (\<lambda>_.
        maintain_parent fuel neighbor_node)))))"

text \<open>What \<open>Coalesce\<close> does once the entries of \<open>node\<close> are in its left neighbour.\<close>

definition drop_merged :: "(frame_id \<Rightarrow> bool ix_op) \<Rightarrow> frame_id \<Rightarrow> frame_id \<Rightarrow> frame_id \<Rightarrow> nat \<Rightarrow> bool ix_op" where
  "drop_merged coalesce_or_redistribute neighbor_node node parent index =
     andthen (\<lambda>s. if GetPageNo node s = last_leaf (ix_hdr s)
                  then on_ix_hdr (last_leaf_update (\<lambda>_. GetPageNo neighbor_node s)) s else ret () s) (\<lambda>_.
     andthen (erase_leaf node) (\<lambda>_.
     andthen (release_node_handle node) (\<lambda>_.
     andthen (on_node parent (\<lambda>h. erase_pair h index)) (\<lambda>_.
     coalesce_or_redistribute parent))))"

text \<open>\<open>Coalesce\<close> swaps its caller's pointers when \<open>index\<close> is 0: the pointers it leaves behind are part of its result.\<close>

definition Coalesce_by :: "(frame_id \<Rightarrow> bool ix_op) \<Rightarrow> frame_id \<Rightarrow> frame_id \<Rightarrow> frame_id \<Rightarrow> nat \<Rightarrow> (frame_id \<times> frame_id \<times> bool) ix_op" where
  "Coalesce_by coalesce_or_redistribute neighbor0 node0 parent index0 =
     (let (neighbor_node, node, index) = (if index0 = 0 then (node0, neighbor0, index0 + 1) else (neighbor0, node0, index0))
      in andthen (guard OutOfRange (\<lambda>s. 0 \<le> GetSize (node_data neighbor_node s) \<and> 0 \<le> GetSize (node_data node s))) (\<lambda>_.
         andthen (read_node neighbor_node (\<lambda>_. GetSize)) (\<lambda>before_num.
         andthen (\<lambda>s. on_node neighbor_node (\<lambda>h. insert_pairs h (nat before_num)
                    (map (get_key h (node_data node s)) [0..<nat (GetSize (node_data node s))])
                    (map (get_rid h (node_data node s)) [0..<nat (GetSize (node_data node s))])) s) (\<lambda>_.
         andthen (read_node neighbor_node (\<lambda>_. GetSize)) (\<lambda>after_num.
         andthen (for_each (maintain_child neighbor_node) [nat before_num..<nat after_num]) (\<lambda>_.
         andthen (drop_merged coalesce_or_redistribute neighbor_node node parent index)
           (\<lambda>b. ret (neighbor_node, node, b))))))))"

primrec CoalesceOrRedistribute :: "nat \<Rightarrow> frame_id \<Rightarrow> bool ix_op" where
  "CoalesceOrRedistribute 0 = (\<lambda>node. throw OutOfFuel)"
| "CoalesceOrRedistribute (Suc fuel) = (\<lambda>node s.
     if IsRootPage (node_data node s) then AdjustRoot node s
     else if GetSize (node_data node s) \<ge> GetMinSize (ix_hdr s) then
       andthen (maintain_parent fuel node) (\<lambda>_. ret False) s
     else
       andthen (FetchNode (GetParentPageNo (node_data node s))) (\<lambda>parent_node t.
         case find_child (ix_hdr t) (node_data parent_node t) (GetPageNo node t) of
           Inl e \<Rightarrow> throw e t
         | Inr p \<Rightarrow>
             andthen (FetchNode (if p \<noteq> 0 then GetPrevLeaf (node_data node t) else GetNextLeaf (node_data node t))) (\<lambda>brother_node u.
               if GetSize (node_data node u) + GetSize (node_data brother_node u) \<ge> GetMinSize (ix_hdr u) * 2 then
                 andthen (Redistribute fuel brother_node node parent_node p) (\<lambda>_.
                 andthen (unpin_node parent_node True) (\<lambda>_.
                 andthen (unpin_node brother_node True) (\<lambda>_. ret False))) u
               else
                 andthen (Coalesce_by (CoalesceOrRedistribute fuel) brother_node node parent_node p) (\<lambda>(brother_node', _, _).
                 andthen (unpin_node parent_node True) (\<lambda>_.
                 andthen (unpin_node brother_node' True) (\<lambda>_. ret True))) u) t) s)"

definition Coalesce :: "nat \<Rightarrow> frame_id \<Rightarrow> frame_id \<Rightarrow> frame_id \<Rightarrow> nat \<Rightarrow> (frame_id \<times> frame_id \<times> bool) ix_op" where
  "Coalesce fuel = Coalesce_by (CoalesceOrRedistribute fuel)"

definition delete_entry :: "nat \<Rightarrow> byte list \<Rightarrow> bool ix_op" where
  "delete_entry fuel key =
     andthen (FindLeafPage fuel key) (\<lambda>leaf s.
       let sz = GetSize (node_data leaf s);
           (now, m') = Remove (ix_hdr s) key (node_data leaf s)
       in andthen (on_node leaf (\<lambda>_ _. m')) (\<lambda>_.
          if now = sz then andthen (unpin_node leaf False) (\<lambda>_. ret False)
          else andthen (CoalesceOrRedistribute fuel leaf) (\<lambda>_.
               andthen (unpin_node leaf True) (\<lambda>_. ret True))) s)"

definition getNeighbor :: "nat \<Rightarrow> frame_id \<Rightarrow> frame_id ix_op" where
  "getNeighbor index parent s =
     FetchNode (rid_page (get_rid (ix_hdr s) (node_data parent s) (if index \<noteq> 0 then index - 1 else index + 1))) s"

section \<open>Positions\<close>

definition IxIndex_get_rid :: "Iid \<Rightarrow> Rid ix_op" where
  "IxIndex_get_rid iid =
     andthen (FetchNode (iid_page iid)) (\<lambda>node s.
       if iid_slot iid \<ge> GetSize (node_data node s) then throw IndexEntryNotFoundError s
       else andthen (unpin_node node False) (\<lambda>_.
            andthen (guard OutOfRange (\<lambda>_. 0 \<le> iid_slot iid)) (\<lambda>_.
            read_node node (\<lambda>h m. get_rid h m (nat (iid_slot iid))))) s)"

definition IxIndex_lower_bound :: "nat \<Rightarrow> byte list \<Rightarrow> Iid ix_op" where
  "IxIndex_lower_bound fuel key =
     andthen (FindLeafPage fuel key) (\<lambda>node s.
       let iid = \<lparr>iid_page = GetPageNo node s, iid_slot = int (lower_bound (ix_hdr s) (node_data node s) key)\<rparr>
       in andthen (unpin_node node False) (\<lambda>_. ret iid) s)"

definition leaf_begin :: "IxIndexHandle \<Rightarrow> Iid" where
  "leaf_begin s = \<lparr>iid_page = first_leaf (ix_hdr s), iid_slot = 0\<rparr>"

definition leaf_end :: "Iid ix_op" where
  "leaf_end s =
     andthen (FetchNode (last_leaf (ix_hdr s))) (\<lambda>node t.
       let iid = \<lparr>iid_page = last_leaf (ix_hdr t), iid_slot = GetSize (node_data node t)\<rparr>
       in andthen (unpin_node node False) (\<lambda>_. ret iid) t) s"

definition IxIndex_upper_bound :: "nat \<Rightarrow> byte list \<Rightarrow> Iid ix_op" where
  "IxIndex_upper_bound fuel key =
     andthen (FindLeafPage fuel key) (\<lambda>node s.
       let key_idx = upper_bound (ix_hdr s) (node_data node s) key
       in andthen (if int key_idx = GetSize (node_data node s) then leaf_end
                   else ret \<lparr>iid_page = GetPageNo node s, iid_slot = int key_idx\<rparr>) (\<lambda>iid.
          andthen (unpin_node node False) (\<lambda>_. ret iid)) s)"

section \<open>IxScan\<close>

record IxScan =
  scan_iid :: Iid
  scan_end :: Iid

definition IxScan_is_end :: "IxScan \<Rightarrow> bool" where
  "IxScan_is_end sc \<longleftrightarrow> scan_iid sc = scan_end sc"

definition IxScan_next :: "IxScan \<Rightarrow> IxScan ix_op" where
  "IxScan_next sc =
     andthen (guard AssertionFailure (\<lambda>_. \<not> IxScan_is_end sc)) (\<lambda>_.
     andthen (FetchNode (iid_page (scan_iid sc))) (\<lambda>node.
     andthen (guard AssertionFailure (\<lambda>s. IsLeafPage (node_data node s))) (\<lambda>_.
     andthen (guard AssertionFailure (\<lambda>s. iid_slot (scan_iid sc) < GetSize (node_data node s))) (\<lambda>_ s.
     let slot = iid_slot (scan_iid sc) + 1
     in ret (sc\<lparr>scan_iid :=
          (if iid_page (scan_iid sc) \<noteq> last_leaf (ix_hdr s) \<and> slot = GetSize (node_data node s)
           then \<lparr>iid_page = GetNextLeaf (node_data node s), iid_slot = 0\<rparr>
           else \<lparr>iid_page = iid_page (scan_iid sc), iid_slot = slot\<rparr>)\<rparr>) s))))"

definition IxScan_rid :: "IxScan \<Rightarrow> Rid ix_op" where
  "IxScan_rid sc = IxIndex_get_rid (scan_iid sc)"

end
