(* ===== verification/Ix_Tree.thy ===== *)
theory Ix_Tree
  imports Ix_Index
begin

text \<open>
  The B+ tree of an index as a tree of pages: a predicate on the page contents of a file, the entries in its leaves, and the correctness of the search from
  the root to a leaf, of \<open>GetValue\<close> and of \<open>insert_entry\<close> into a leaf with room. Page contents are functions from page numbers to
  bytes, so that the part on trees does not mention the buffer pool.
\<close>

section \<open>Trees of pages\<close>

abbreviation child_no :: "IxFileHdr \<Rightarrow> (int \<Rightarrow> mem) \<Rightarrow> int \<Rightarrow> nat \<Rightarrow> int" where
  "child_no h pg p i \<equiv> ValueAt h (pg p) i"

fun tree_pages :: "IxFileHdr \<Rightarrow> (int \<Rightarrow> mem) \<Rightarrow> nat \<Rightarrow> int \<Rightarrow> int list" where
  "tree_pages h pg 0 p = [p]"
| "tree_pages h pg (Suc d) p = p # concat (map (\<lambda>i. tree_pages h pg d (child_no h pg p i)) [0..<nat (GetSize (pg p))])"

fun tree_entries :: "IxFileHdr \<Rightarrow> (int \<Rightarrow> mem) \<Rightarrow> nat \<Rightarrow> int \<Rightarrow> (byte list \<times> Rid) list" where
  "tree_entries h pg 0 p = node_entries h (pg p)"
| "tree_entries h pg (Suc d) p = concat (map (\<lambda>i. tree_entries h pg d (child_no h pg p i)) [0..<nat (GetSize (pg p))])"

text \<open>The keys below the \<open>i\<close>-th child are not below the \<open>i\<close>-th key (the first key bounds nothing) and below the next key.\<close>

definition in_range :: "IxFileHdr \<Rightarrow> mem \<Rightarrow> nat \<Rightarrow> byte list \<Rightarrow> bool" where
  "in_range h m i k \<longleftrightarrow> (0 < i \<longrightarrow> hdr_cmp h (get_key h m i) k \<le> 0) \<and>
     (i + 1 < nat (GetSize m) \<longrightarrow> hdr_cmp h k (get_key h m (i + 1)) < 0)"

fun tree_ok :: "IxFileHdr \<Rightarrow> (int \<Rightarrow> mem) \<Rightarrow> nat \<Rightarrow> int \<Rightarrow> bool" where
  "tree_ok h pg 0 p \<longleftrightarrow> IsLeafPage (pg p) \<and> node_ok h (pg p)"
| "tree_ok h pg (Suc d) p \<longleftrightarrow> \<not> IsLeafPage (pg p) \<and> node_ok h (pg p) \<and> 0 < GetSize (pg p) \<and>
     (\<forall>i < nat (GetSize (pg p)). tree_ok h pg d (child_no h pg p i) \<and>
        (\<forall>e \<in> set (tree_entries h pg d (child_no h pg p i)). in_range h (pg p) i (fst e)))"

fun leaf_of :: "IxFileHdr \<Rightarrow> (int \<Rightarrow> mem) \<Rightarrow> nat \<Rightarrow> int \<Rightarrow> byte list \<Rightarrow> int" where
  "leaf_of h pg 0 p x = p"
| "leaf_of h pg (Suc d) p x = leaf_of h pg d (InternalLookup h (pg p) x) x"

lemma tree_pages_child:
  "i < nat (GetSize (pg p)) \<Longrightarrow> set (tree_pages h pg d (child_no h pg p i)) \<subseteq> set (tree_pages h pg (Suc d) p)"
  by force

lemma tree_cong:
  assumes "\<And>q. q \<in> set (tree_pages h pg d p) \<Longrightarrow> pg' q = pg q"
  shows "tree_pages h pg' d p = tree_pages h pg d p" and "tree_entries h pg' d p = tree_entries h pg d p"
    and "tree_ok h pg' d p = tree_ok h pg d p"
  using assms
proof (induction d arbitrary: p)
  case (Suc d)
  { case 1
    have "tree_pages h pg' d (child_no h pg p i) = tree_pages h pg d (child_no h pg p i)" if "i < nat (GetSize (pg p))" for i
      by (rule Suc.IH(1), rule 1) (use that tree_pages_child in blast)
    then show ?case using 1 by (auto intro!: arg_cong [where f = concat]) }
  { case 2
    have "tree_entries h pg' d (child_no h pg p i) = tree_entries h pg d (child_no h pg p i)" if "i < nat (GetSize (pg p))" for i
      by (rule Suc.IH(2), rule 2) (use that tree_pages_child in blast)
    then show ?case using 2 by (auto intro!: arg_cong [where f = concat]) }
  { case 3
    have "tree_ok h pg' d (child_no h pg p i) = tree_ok h pg d (child_no h pg p i)"
      "tree_entries h pg' d (child_no h pg p i) = tree_entries h pg d (child_no h pg p i)" if "i < nat (GetSize (pg p))" for i
      by (rule Suc.IH(3), rule 3, use that tree_pages_child in blast)
        (rule Suc.IH(2), rule 3, use that tree_pages_child in blast)
    then show ?case using 3 by auto }
qed simp_all

lemma tree_node_ok: "tree_ok h pg d p \<Longrightarrow> node_ok h (pg p)"
  by (cases d) auto

lemma tree_entry_valid: "tree_ok h pg d p \<Longrightarrow> e \<in> set (tree_entries h pg d p) \<Longrightarrow> hdr_key h (fst e)"
proof (induction d arbitrary: p)
  case 0
  then show ?case using key_at_valid [of h "pg p"] by (cases e) (auto simp: set_node_entries)
next
  case (Suc d)
  then show ?case by auto
qed

text \<open>The child that \<open>InternalLookup\<close> chooses.\<close>

definition child_idx :: "IxFileHdr \<Rightarrow> mem \<Rightarrow> byte list \<Rightarrow> nat" where
  "child_idx h m x = upper_bound h m x - 1"

lemma InternalLookup_child: "InternalLookup h m x = ValueAt h m (child_idx h m x)"
  by (simp add: InternalLookup_def child_idx_def Let_def)

lemma child_idx_range:
  assumes ok: "node_ok h m" and x: "hdr_key h x" and ne: "0 < GetSize m"
  shows "child_idx h m x < nat (GetSize m)" and "in_range h m (child_idx h m x) x"
proof -
  have len: "child_idx h m x < nat (GetSize m)" using bounds_spec(2) [OF ok x] ne by (simp add: child_idx_def)
  then show "child_idx h m x < nat (GetSize m)" .
  have "hdr_cmp h (get_key h m (child_idx h m x)) x \<le> 0" if "0 < child_idx h m x"
    using bounds_spec(4) [OF ok x len] that by (simp add: child_idx_def)
  moreover have "hdr_cmp h x (get_key h m (child_idx h m x + 1)) < 0" if "child_idx h m x + 1 < nat (GetSize m)"
    using bounds_spec(4) [OF ok x that] ixk.cmp_swap [OF key_at_valid [OF ok that] x]
    by (auto simp: child_idx_def)
  ultimately show "in_range h m (child_idx h m x) x" by (simp add: in_range_def)
qed

lemma in_range_unique:
  assumes ok: "node_ok h m" and i: "i < nat (GetSize m)" and j: "j < nat (GetSize m)"
    and x: "hdr_key h x" and y: "hdr_key h y" and "in_range h m i x" and "in_range h m j y" and eq: "hdr_cmp h x y = 0"
  shows "i = j"
proof -
  have less: False if "a < b" "b < nat (GetSize m)" "hdr_key h u" "hdr_key h v" "in_range h m a u" "in_range h m b v" "hdr_cmp h v u \<le> 0" for a b u v
  proof -
    have k: "hdr_key h (get_key h m l)" if "l < nat (GetSize m)" for l using that by (rule key_at_valid [OF ok])
    have "hdr_cmp h u (get_key h m (a + 1)) < 0" using that by (simp add: in_range_def)
    moreover have "hdr_cmp h (get_key h m (a + 1)) (get_key h m b) \<le> 0"
    proof (cases "a + 1 = b")
      case True
      then show ?thesis using ixk.cmp_self [OF k, of b] that by simp
    next
      case False
      then have "hdr_cmp h (node_keys h m ! (a + 1)) (node_keys h m ! b) < 0"
        using ok that unfolding node_ok_def ixk.increasing_def sorted_wrt_iff_nth_less by simp
      then show ?thesis using that by simp
    qed
    moreover have "hdr_cmp h (get_key h m b) v \<le> 0" using that by (simp add: in_range_def)
    ultimately have "hdr_cmp h (get_key h m (a + 1)) u \<le> 0"
      using ixk.cmp_trans [OF k k that(4), of "a + 1" b] ixk.cmp_trans [OF k that(4,3), of "a + 1"] that by simp
    then show False using ixk.cmp_swap [OF k that(3), of "a + 1"] \<open>hdr_cmp h u (get_key h m (a + 1)) < 0\<close> that by simp
  qed
  have "hdr_cmp h y x = 0" using eq ixk.cmp_eq_swap [OF x y] by simp
  then show ?thesis using less [of i j x y] less [of j i y x] assms by (cases i j rule: linorder_cases) auto
qed

lemma leaf_of_entries:
  assumes "tree_ok h pg d p" and x: "hdr_key h x"
  shows "(\<exists>k. (k, r) \<in> set (tree_entries h pg d p) \<and> hdr_cmp h x k = 0) \<longleftrightarrow>
    LeafLookup h (pg (leaf_of h pg d p x)) x = Some r" (is ?eq)
    and "tree_ok h pg 0 (leaf_of h pg d p x)" and "leaf_of h pg d p x \<in> set (tree_pages h pg d p)"
  using assms(1)
proof (induction d arbitrary: p)
  case 0
  { case 1 then show ?case using LeafLookup_entries [of h "pg p" x r] x by simp }
  { case 2 then show ?case by simp }
  { case 3 show ?case by simp }
next
  case (Suc d)
  { case 1
    let ?j = "child_idx h (pg p) x"
    note ok = 1
    from ok have n: "node_ok h (pg p)" "0 < GetSize (pg p)" by auto
    note j = child_idx_range [OF n(1) x n(2)]
    have "(\<exists>k. (k, r) \<in> set (tree_entries h pg (Suc d) p) \<and> hdr_cmp h x k = 0) \<longleftrightarrow>
      (\<exists>k. (k, r) \<in> set (tree_entries h pg d (child_no h pg p ?j)) \<and> hdr_cmp h x k = 0)"
    proof
      assume "\<exists>k. (k, r) \<in> set (tree_entries h pg (Suc d) p) \<and> hdr_cmp h x k = 0"
      then obtain k i where k: "i < nat (GetSize (pg p))" "(k, r) \<in> set (tree_entries h pg d (child_no h pg p i))" "hdr_cmp h x k = 0"
        by auto
      have "in_range h (pg p) i k" "hdr_key h k"
        using ok k tree_entry_valid [of h pg d "child_no h pg p i" "(k, r)"] by force+
      then have "i = ?j" using in_range_unique [OF n(1) j(1) k(1) x _ j(2) _ k(3)] by auto
      then show "\<exists>k. (k, r) \<in> set (tree_entries h pg d (child_no h pg p ?j)) \<and> hdr_cmp h x k = 0" using k by blast
    qed (use j(1) in force)
    then show ?case using Suc.IH(1) [of "child_no h pg p ?j"] ok j(1) by (simp add: InternalLookup_child) }
  { case 2
    then show ?case using Suc.IH(2) [of "child_no h pg p (child_idx h (pg p) x)"] child_idx_range(1) [OF _ x, of "pg p"] by (simp add: InternalLookup_child) }
  { case 3
    then show ?case using Suc.IH(3) [of "child_no h pg p (child_idx h (pg p) x)"] child_idx_range(1) [OF _ x, of "pg p"] by (auto simp: InternalLookup_child) }
qed

section \<open>Changing a leaf\<close>

lemma distinct_concat_upt:
  assumes "distinct (concat (map f [0..<n]))" and "i < n" and "j < n"
  shows "distinct (f i)" and "i \<noteq> j \<Longrightarrow> set (f i) \<inter> set (f j) = {}"
proof -
  show "distinct (f i)" using assms(1,2) by (induction n) (auto simp: less_Suc_eq)
  have "i \<noteq> j \<longrightarrow> set (f i) \<inter> set (f j) = {}"
    using assms
  proof (induction n)
    case (Suc n)
    have sub: "set (f k) \<subseteq> set (concat (map f [0..<n]))" if "k < n" for k using that by auto
    show ?case using Suc sub [of i] sub [of j] by (cases "i = n"; cases "j = n") auto
  qed simp
  then show "i \<noteq> j \<Longrightarrow> set (f i) \<inter> set (f j) = {}" by blast
qed

lemma tree_leaf_insert:
  assumes "tree_ok h pg d p" and "distinct (tree_pages h pg d p)" and x: "hdr_key h x"
    and l: "leaf_of h pg d p x = l" and m: "IsLeafPage m" "node_ok h m"
    and e: "set (node_entries h m) = insert (x, r) (set (node_entries h (pg l)))"
  defines "pg' \<equiv> pg(l := m)"
  shows "tree_ok h pg' d p \<and> set (tree_entries h pg' d p) = insert (x, r) (set (tree_entries h pg d p)) \<and>
    tree_pages h pg' d p = tree_pages h pg d p"
  using assms(1,2) l
proof (induction d arbitrary: p)
  case 0
  then show ?case using m e by (simp add: pg'_def)
next
  case (Suc d)
  let ?n = "nat (GetSize (pg p))" let ?c = "child_no h pg p" let ?j = "child_idx h (pg p) x"
  note ok = Suc.prems(1)
  then have n: "node_ok h (pg p)" "0 < GetSize (pg p)" by auto
  note j = child_idx_range [OF n(1) x n(2)]
  have lj: "leaf_of h pg d (?c ?j) x = l" using Suc.prems(3) by (simp add: InternalLookup_child)
  have okj: "tree_ok h pg d (?c ?j)" using ok j(1) by simp
  have lin: "l \<in> set (tree_pages h pg d (?c ?j))" using leaf_of_entries(3) [OF okj x] lj by simp
  have dis: "distinct (concat (map (\<lambda>i. tree_pages h pg d (?c i)) [0..<?n]))" and "p \<noteq> l"
    using Suc.prems(2) lin j(1) by auto
  then have pgp: "pg' p = pg p" by (simp add: pg'_def)
  note dj = distinct_concat_upt(1) [OF dis j(1) j(1)]
  have IH: "tree_ok h pg' d (?c ?j)" "set (tree_entries h pg' d (?c ?j)) = insert (x, r) (set (tree_entries h pg d (?c ?j)))"
    "tree_pages h pg' d (?c ?j) = tree_pages h pg d (?c ?j)"
    using Suc.IH [OF okj dj lj] by auto
  have other: "tree_ok h pg' d (?c i) = tree_ok h pg d (?c i)" "tree_entries h pg' d (?c i) = tree_entries h pg d (?c i)"
    "tree_pages h pg' d (?c i) = tree_pages h pg d (?c i)" if "i < ?n" "i \<noteq> ?j" for i
  proof -
    have "pg' q = pg q" if "q \<in> set (tree_pages h pg d (?c i))" for q
      using distinct_concat_upt(2) [OF dis \<open>i < ?n\<close> j(1) \<open>i \<noteq> ?j\<close>] lin that by (auto simp: pg'_def)
    note tree_cong [of h pg d "?c i" pg', OF this]
    then show "tree_ok h pg' d (?c i) = tree_ok h pg d (?c i)" "tree_entries h pg' d (?c i) = tree_entries h pg d (?c i)"
      "tree_pages h pg' d (?c i) = tree_pages h pg d (?c i)" by blast+
  qed
  have pages: "tree_pages h pg' d (?c i) = tree_pages h pg d (?c i)" if "i < ?n" for i
    using that IH(3) other(3) by (cases "i = ?j") auto
  have ents: "set (tree_entries h pg' d (?c i)) = (if i = ?j then insert (x, r) (set (tree_entries h pg d (?c i)))
      else set (tree_entries h pg d (?c i)))" if "i < ?n" for i
    using that IH(2) other(2) by simp
  have "tree_ok h pg' d (?c i) \<and> (\<forall>e \<in> set (tree_entries h pg' d (?c i)). in_range h (pg p) i (fst e))" if "i < ?n" for i
    using ok that IH(1) other(1) ents j(2) by (cases "i = ?j") auto
  then have "tree_ok h pg' (Suc d) p" using ok by (simp add: pgp)
  moreover have "set (tree_entries h pg' (Suc d) p) = insert (x, r) (set (tree_entries h pg (Suc d) p))"
    using ents j(1) by (auto simp: pgp split: if_splits)
  moreover have "tree_pages h pg' (Suc d) p = tree_pages h pg (Suc d) p"
    using pages by (auto simp: pgp intro!: arg_cong [where f = concat])
  ultimately show ?case by blast
qed

section \<open>Pages and frames\<close>

lemma node_trim:
  assumes h: "hdr_fits h"
  shows "GetSize (trim m) = GetSize m" and "node_links (trim m) = node_links m"
    and "i \<le> btree_order h \<Longrightarrow> get_key h (trim m) i = get_key h m i"
    and "i \<le> btree_order h \<Longrightarrow> get_rid h (trim m) i = get_rid h m i"
proof -
  show "GetSize (trim m) = GetSize m" and "node_links (trim m) = node_links m"
    by (rule node_header_cong; simp add: trim_def sizeof_IxPageHdr_def PAGE_SIZE_def)+
  assume i: "i \<le> btree_order h"
  have 1: "key_off h i + col_len h \<le> PAGE_SIZE"
    using key_rid_before [OF h i, of 0] h by (simp add: hdr_fits_def rid_off_def)
  have 2: "rid_off h i + 8 \<le> PAGE_SIZE"
    using h i cell_before [of i "btree_order h + 1" sizeof_Rid] by (simp add: hdr_fits_def rid_off_def sizeof_Rid_def)
  show "get_key h (trim m) i = get_key h m i"
    unfolding get_key_def by (rule mread_cong) (use 1 in \<open>simp add: trim_def\<close>)
  have "get_i32 (trim m) (rid_off h i) = get_i32 m (rid_off h i)" "get_i32 (trim m) (rid_off h i + 4) = get_i32 m (rid_off h i + 4)"
    by (rule get_i32_cong; use 2 in \<open>simp add: trim_def\<close>)+
  then show "get_rid h (trim m) i = get_rid h m i" by (simp add: get_rid_def)
qed

lemma node_trim_lists:
  assumes h: "hdr_fits h" and sz: "node_size_ok h m \<or> node_size_ok h (trim m)"
  shows "node_keys h (trim m) = node_keys h m" and "node_rids h (trim m) = node_rids h m"
    and "node_entries h (trim m) = node_entries h m" and "node_ok h (trim m) = node_ok h m"
proof -
  have "i \<le> btree_order h" if "i < nat (GetSize m)" for i
    using that sz by (auto simp: node_size_ok_def GetMaxSize_def node_trim(1) [OF h])
  then show k: "node_keys h (trim m) = node_keys h m" and r: "node_rids h (trim m) = node_rids h m"
    using node_trim [OF h] by (auto simp: node_keys_def node_rids_def)
  then show "node_entries h (trim m) = node_entries h m" and "node_ok h (trim m) = node_ok h m"
    by (simp_all add: node_entries_def node_ok_def node_size_ok_def node_trim(1) [OF h])
qed

lemma node_trim_lookup:
  assumes h: "hdr_fits h" and ok: "node_ok h m" and x: "hdr_key h x"
  shows "lower_bound h (trim m) x = lower_bound h m x" and "LeafLookup h (trim m) x = LeafLookup h m x"
    and "0 < GetSize m \<Longrightarrow> InternalLookup h (trim m) x = InternalLookup h m x"
    and "GetSize m < GetMaxSize h \<Longrightarrow> stale_match h (trim m) x = stale_match h m x"
proof -
  have sz: "node_size_ok h m" using ok by (simp add: node_ok_def)
  note L = node_trim_lists [OF h disjI1 [OF sz]]
  have okt: "node_ok h (trim m)" using ok L(4) by simp
  show "lower_bound h (trim m) x = lower_bound h m x" unfolding lower_bound_keys L(1) ..
  have "LeafLookup h (trim m) x = Some r \<longleftrightarrow> LeafLookup h m x = Some r" for r
    unfolding LeafLookup_entries [OF ok x] LeafLookup_entries [OF okt x] L(3) ..
  then show "LeafLookup h (trim m) x = LeafLookup h m x" by (metis option.exhaust)
  have idx: "child_idx h (trim m) x = child_idx h m x" unfolding child_idx_def upper_bound_keys L(1) ..
  show "InternalLookup h (trim m) x = InternalLookup h m x" if "0 < GetSize m"
  proof -
    have "child_idx h m x \<le> btree_order h"
      using child_idx_range(1) [OF ok x that] sz by (auto simp: node_size_ok_def GetMaxSize_def)
    then show ?thesis by (simp add: InternalLookup_child idx ValueAt_def node_trim(4) [OF h])
  qed
  show "stale_match h (trim m) x = stale_match h m x" if "GetSize m < GetMaxSize h"
  proof -
    have "i \<le> btree_order h" if "i \<le> nat (GetSize m)" for i
      using that \<open>GetSize m < GetMaxSize h\<close> by (auto simp: GetMaxSize_def)
    then show ?thesis by (simp add: stale_match_def node_trim(1,3) [OF h])
  qed
qed

section \<open>Fetching nodes\<close>

definition pinned :: "BufferPoolManager \<Rightarrow> nat" where
  "pinned b = card {f. f < pool_size b \<and> 0 < pg_pin (pages b f)}"

lemma FindVictimPage_pages: "FindVictimPage s = (r, t) \<Longrightarrow> pages t = pages s"
  by (auto simp: FindVictimPage_def split: list.splits prod.splits option.splits)

lemma upd_frame_pages: "pages (upd_frame f g s) = (pages s)(f := g (pages s f))"
  by (simp add: upd_frame_def)

lemma read_frame_pin: "read_frame f s = (r, t) \<Longrightarrow> pg_pin (pages t g) = pg_pin (pages s g)"
  by (auto simp: read_frame_def upd_frame_pages Let_def split: prod.splits)

lemma UpdatePage_pin: "UpdatePage f pid f' s = (r, t) \<Longrightarrow> pg_pin (pages t g) = pg_pin (pages s g)"
  by (auto simp: UpdatePage_def andthen_def write_back_def disk_write_def run_simps upd_frame_pages Let_def ResetMemory_def
    split: prod.splits sum.splits if_splits)

lemma FetchPage_pins:
  assumes "FetchPage pid s = (Inr (Some f), t)" and "g \<noteq> f"
  shows "pg_pin (pages t g) = pg_pin (pages s g)"
proof (cases "page_table s pid")
  case (Some k)
  then show ?thesis using assms by (auto simp: FetchPage_def upd_frame_pages)
next
  case None
  obtain v s1 where v: "FindVictimPage s = (v, s1)" by fastforce
  with None assms obtain k where k: "v = Some k" by (cases v) (auto simp: FetchPage_def)
  let ?load = "if pg_dirty (pages s1 k) then UpdatePage k pid k else modify_st (upd_frame k (pg_id_update (\<lambda>_. pid)))"
  have "andthen ?load (\<lambda>_. andthen (read_frame k) (\<lambda>_ t. (Inr (Some k), upd_frame k (pg_pin_update (\<lambda>n. n + 1))
      (t\<lparr>page_table := table_insert pid k (page_table t), replacer_of := Pin k (replacer_of t)\<rparr>)))) s1 = (Inr (Some f), t)"
    using assms(1) None v k by (simp add: FetchPage_def)
  then obtain u w where u: "?load s1 = (Inr (), u)" "read_frame k u = (Inr (), w)" and t: "f = k" "pages t = (pages w)(k := pg_pin_update (\<lambda>n. n + 1) (pages w k))"
    by (auto simp: andthen_Inr_iff upd_frame_pages)
  have "pg_pin (pages u g) = pg_pin (pages s1 g)"
    using u(1) UpdatePage_pin [of k pid k s1] by (auto simp: run_simps upd_frame_pages split: if_splits)
  then show ?thesis using t assms(2) read_frame_pin [OF u(2)] FindVictimPage_pages [OF v] by simp
qed

lemma FetchPage_pinned:
  assumes "FetchPage pid s = (Inr (Some f), t)" and "pool_size t = pool_size s"
  shows "pinned t \<le> pinned s + 1"
proof -
  let ?B = "{g. g < pool_size s \<and> 0 < pg_pin (pages s g)}"
  have "pinned t \<le> card (insert f ?B)"
    unfolding pinned_def by (rule card_mono) (use FetchPage_pins [OF assms(1)] assms(2) in auto)
  also have "\<dots> \<le> card ?B + 1" by (simp add: card_insert_if)
  finally show ?thesis by (simp add: pinned_def)
qed

lemma spare_frame:
  assumes "bpm_inv s" and "pinned s < pool_size s"
  shows "\<not> no_frame s"
proof
  assume "no_frame s"
  then have "{f. f < pool_size s \<and> 0 < pg_pin (pages s f)} = {..<pool_size s}" using no_frame_iff [OF assms(1)] by auto
  then show False using assms(2) by (simp add: pinned_def)
qed

definition ix_pid :: "IxIndexHandle \<Rightarrow> int \<Rightarrow> PageId" where
  "ix_pid s no = \<lparr>pid_fd = ix_fd s, pid_no = no\<rparr>"

definition ix_page :: "IxIndexHandle \<Rightarrow> int \<Rightarrow> mem" where
  "ix_page s no = page_view (ix_bpm s) (ix_pid s no)"

definition ix_inv :: "IxIndexHandle \<Rightarrow> bool" where
  "ix_inv s \<longleftrightarrow> bpm_inv (ix_bpm s) \<and> hdr_fits (ix_hdr s)"

definition ix_has :: "IxIndexHandle \<Rightarrow> int \<Rightarrow> bool" where
  "ix_has s no \<longleftrightarrow> usable (ix_bpm s) (ix_pid s no) \<and> stored (ix_bpm s) (ix_pid s no)"

definition holds_node :: "IxIndexHandle \<Rightarrow> int \<Rightarrow> frame_id \<Rightarrow> bool" where
  "holds_node s no f \<longleftrightarrow> page_table (ix_bpm s) (ix_pid s no) = Some f \<and> 0 < pg_pin (pages (ix_bpm s) f)"

definition fresh_node :: "IxIndexHandle \<Rightarrow> frame_id \<Rightarrow> bool" where
  "fresh_node s f \<longleftrightarrow> (pg_pin (pages (ix_bpm s) f) = 1 \<longrightarrow> \<not> pg_dirty (pages (ix_bpm s) f) \<longrightarrow> synced (ix_bpm s) f)"

definition ix_keeps :: "IxIndexHandle \<Rightarrow> IxIndexHandle \<Rightarrow> bool" where
  "ix_keeps s t \<longleftrightarrow> ix_fd t = ix_fd s \<and> ix_hdr t = ix_hdr s \<and> keeps (ix_bpm s) (ix_bpm t)"

lemma ix_keeps_refl [simp]: "ix_keeps s s"
  by (simp add: ix_keeps_def)

lemma ix_keeps_trans: "ix_keeps s t \<Longrightarrow> ix_keeps t u \<Longrightarrow> ix_keeps s u"
  unfolding ix_keeps_def using keeps_trans by metis

lemma ix_keepsD:
  assumes "ix_keeps s t" and "ix_has s no"
  shows "ix_page t no = ix_page s no" and "ix_has t no"
proof -
  have k: "keeps (ix_bpm s) (ix_bpm t)" and pid: "ix_pid t no = ix_pid s no"
    using assms(1) by (simp_all add: ix_keeps_def ix_pid_def)
  have us: "usable (ix_bpm s) (ix_pid s no)" "stored (ix_bpm s) (ix_pid s no)" using assms(2) by (simp_all add: ix_has_def)
  show "ix_page t no = ix_page s no" using k us(1) pid by (simp add: keeps_def ix_page_def)
  show "ix_has t no" using keeps_usable [OF k] us k pid by (simp add: ix_has_def keeps_def)
qed

lemma holds_node_page: "holds_node s no f \<Longrightarrow> ix_page s no = trim (node_data f s)"
  by (simp add: holds_node_def ix_page_def page_view_def node_data_def)

lemma FetchNode_ok:
  assumes inv: "ix_inv s" and has: "ix_has s no" and room: "pinned (ix_bpm s) < pool_size (ix_bpm s)"
  obtains f t where "FetchNode no s = (Inr f, t)" and "ix_inv t" and "ix_keeps s t" and "holds_node t no f"
    and "pinned (ix_bpm t) \<le> pinned (ix_bpm s) + 1" and "fresh_node t f"
proof -
  have ok: "bpm_inv (ix_bpm s)" and us: "usable (ix_bpm s) (ix_pid s no)" and st: "stored (ix_bpm s) (ix_pid s no)"
    using inv has by (simp_all add: ix_inv_def ix_has_def)
  show ?thesis
  proof (cases rule: FetchPage_ok [OF ok us st])
    case 1
    then show ?thesis using spare_frame [OF ok room] by simp
  next
    case (2 f b)
    let ?t = "s\<lparr>ix_bpm := b\<rparr>"
    have "FetchNode no s = (Inr f, ?t)"
      using 2(1) by (simp add: FetchNode_def on_bpm_def andthen_def run_simps flip: ix_pid_def)
    moreover have "ix_inv ?t" "ix_keeps s ?t" "holds_node ?t no f"
      using inv 2 by (simp_all add: ix_inv_def ix_keeps_def holds_node_def ix_pid_def)
    moreover have "pinned b \<le> pinned (ix_bpm s) + 1" using FetchPage_pinned [OF 2(1)] keepsD(1) [OF 2(3)] by simp
    moreover have "fresh_node ?t f" using FetchPage_synced [OF ok us 2(1)] by (simp add: fresh_node_def)
    ultimately show ?thesis using that by simp
  qed
qed

section \<open>Search from the root\<close>

abbreviation tree_stored :: "IxIndexHandle \<Rightarrow> (int \<Rightarrow> mem) \<Rightarrow> nat \<Rightarrow> int \<Rightarrow> bool" where
  "tree_stored s pg d p \<equiv> \<forall>q \<in> set (tree_pages (ix_hdr s) pg d p). ix_has s q \<and> ix_page s q = pg q"

lemma tree_stored_keeps:
  assumes "ix_keeps s t" and "tree_stored s pg d p"
  shows "tree_stored t pg d p"
  using assms ix_keepsD [OF assms(1)] by (auto simp: ix_keeps_def)

lemma leaf_links: "node_links m = node_links m' \<Longrightarrow> IsLeafPage m = IsLeafPage m'"
  by (simp add: node_links_def)

lemma descend_ok:
  assumes "ix_inv s" and "holds_node s p f" and "tree_stored s pg d p" and "tree_ok (ix_hdr s) pg d p" and "fresh_node s f"
    and x: "hdr_key (ix_hdr s) x" and "d \<le> fuel" and "pinned (ix_bpm s) + d \<le> pool_size (ix_bpm s)"
  shows "\<exists>g t. descend fuel x f s = (Inr g, t) \<and> ix_inv t \<and> ix_keeps s t \<and> holds_node t (leaf_of (ix_hdr s) pg d p x) g \<and>
    pinned (ix_bpm t) \<le> pinned (ix_bpm s) + d \<and> fresh_node t g"
  using assms
proof (induction d arbitrary: s p f fuel)
  case 0
  note h = 0(1) [unfolded ix_inv_def, THEN conjunct2]
  have "IsLeafPage (node_data f s)"
    using 0(3,4) holds_node_page [OF 0(2)] leaf_links [OF node_trim(2) [OF h, of "node_data f s"]] by simp
  then show ?case using 0 by (subst descend.simps) (simp add: run_simps)
next
  case (Suc d)
  note h = Suc.prems(1) [unfolded ix_inv_def, THEN conjunct2]
  let ?h = "ix_hdr s" let ?m = "node_data f s" let ?c = "child_no ?h pg p (child_idx ?h (pg p) x)"
  have pg: "pg p = trim ?m" using Suc.prems(3) holds_node_page [OF Suc.prems(2)] by auto
  have n: "node_ok ?h (pg p)" "0 < GetSize (pg p)" "\<not> IsLeafPage (pg p)" using Suc.prems(4) by auto
  have nl: "\<not> IsLeafPage ?m" using n(3) pg leaf_links [OF node_trim(2) [OF h, of ?m]] by simp
  have m: "node_ok ?h ?m" "0 < GetSize ?m"
    using n pg node_trim_lists(4) [OF h, of ?m] node_trim(1) [OF h, of ?m] by (auto simp: node_ok_def)
  have look: "InternalLookup ?h ?m x = ?c"
    using node_trim_lookup(3) [OF h m(1) Suc.prems(6) m(2)] pg by (simp add: InternalLookup_child)
  have j: "child_idx ?h (pg p) x < nat (GetSize (pg p))" by (rule child_idx_range [OF n(1) Suc.prems(6) n(2)])
  have sub: "set (tree_pages ?h pg d ?c) \<subseteq> set (tree_pages ?h pg (Suc d) p)" using tree_pages_child j by blast
  have st: "tree_stored s pg d ?c" using Suc.prems(3) sub by blast
  have "?c \<in> set (tree_pages ?h pg d ?c)" by (cases d) simp_all
  then have has: "ix_has s ?c" using st by blast
  from Suc.prems(7) obtain fuel' where fuel: "fuel = Suc fuel'" "d \<le> fuel'" by (cases fuel) auto
  have room: "pinned (ix_bpm s) < pool_size (ix_bpm s)" using Suc.prems(8) by simp
  obtain k t where F: "FetchNode ?c s = (Inr k, t)" "ix_inv t" "ix_keeps s t" "holds_node t ?c k"
    "pinned (ix_bpm t) \<le> pinned (ix_bpm s) + 1" "fresh_node t k"
    by (rule FetchNode_ok [OF Suc.prems(1) has room])
  have ht: "ix_hdr t = ?h" and ps: "pool_size (ix_bpm t) = pool_size (ix_bpm s)" using F(3) by (simp_all add: ix_keeps_def keeps_def)
  have "\<exists>g u. descend fuel' x k t = (Inr g, u) \<and> ix_inv u \<and> ix_keeps t u \<and> holds_node u (leaf_of (ix_hdr t) pg d ?c x) g \<and>
    pinned (ix_bpm u) \<le> pinned (ix_bpm t) + d \<and> fresh_node u g"
    by (rule Suc.IH [OF F(2,4) tree_stored_keeps [OF F(3) st]])
      (use Suc.prems(4,6,8) j fuel F(5) F(6) in \<open>simp_all add: ht ps\<close>)
  then obtain g u where D: "descend fuel' x k t = (Inr g, u)" "ix_inv u" "ix_keeps t u" "holds_node u (leaf_of ?h pg d ?c x) g"
    "pinned (ix_bpm u) \<le> pinned (ix_bpm t) + d" "fresh_node u g" by (auto simp: ht)
  have "descend fuel x f s = (Inr g, u)"
    using nl look F(1) D(1) fuel by (subst descend.simps) (simp add: andthen_def)
  then show ?case using D(2,4-6) F(5) ix_keeps_trans [OF F(3) D(3)] by (simp add: InternalLookup_child)
qed

lemma FindLeafPage_ok:
  assumes inv: "ix_inv s" and st: "tree_stored s pg d (root_page (ix_hdr s))" and ok: "tree_ok (ix_hdr s) pg d (root_page (ix_hdr s))"
    and x: "hdr_key (ix_hdr s) x" and fuel: "d \<le> fuel" and room: "pinned (ix_bpm s) + d < pool_size (ix_bpm s)"
  obtains g t where "FindLeafPage fuel x s = (Inr g, t)" and "ix_inv t" and "ix_keeps s t"
    and "holds_node t (leaf_of (ix_hdr s) pg d (root_page (ix_hdr s)) x) g" and "pinned (ix_bpm t) \<le> pinned (ix_bpm s) + d + 1"
    and "fresh_node t g"
proof -
  let ?r = "root_page (ix_hdr s)"
  have "?r \<in> set (tree_pages (ix_hdr s) pg d ?r)" by (cases d) simp_all
  then have has: "ix_has s ?r" using st by blast
  obtain k t where F: "FetchNode ?r s = (Inr k, t)" "ix_inv t" "ix_keeps s t" "holds_node t ?r k"
    "pinned (ix_bpm t) \<le> pinned (ix_bpm s) + 1" "fresh_node t k"
    by (rule FetchNode_ok [OF inv has]) (use room in simp)
  have ht: "ix_hdr t = ix_hdr s" and ps: "pool_size (ix_bpm t) = pool_size (ix_bpm s)" using F(3) by (simp_all add: ix_keeps_def keeps_def)
  obtain g u where D: "descend fuel x k t = (Inr g, u)" "ix_inv u" "ix_keeps t u" "holds_node u (leaf_of (ix_hdr t) pg d ?r x) g"
    "pinned (ix_bpm u) \<le> pinned (ix_bpm t) + d" "fresh_node u g"
    using descend_ok [OF F(2,4) tree_stored_keeps [OF F(3) st], of x fuel] ok x fuel room F(5,6) by (auto simp: ht ps)
  have "FindLeafPage fuel x s = (Inr g, u)" using F(1) D(1) by (simp add: FindLeafPage_def andthen_def)
  then show ?thesis using that [of g u] D(2,4-6) F(5) ix_keeps_trans [OF F(3) D(3)] by (simp add: ht)
qed

section \<open>Lookup and insertion\<close>

lemma unpin_node_ok:
  assumes inv: "ix_inv s" and own: "holds_node s no f" and fr: "dirty \<or> fresh_node s f"
  obtains t where "unpin_node f dirty s = (Inr True, t)" and "ix_inv t" and "ix_keeps s t"
proof -
  have ok: "bpm_inv (ix_bpm s)" and tab: "page_table (ix_bpm s) (ix_pid s no) = Some f" "0 < pg_pin (pages (ix_bpm s) f)"
    using inv own by (simp_all add: ix_inv_def holds_node_def)
  have id: "GetPageId f s = ix_pid s no" using pool_okD(5) [OF ok tab(1)] by (simp add: GetPageId_def)
  have "pg_pin (pages (ix_bpm s) f) = 1 \<Longrightarrow> \<not> dirty \<Longrightarrow> \<not> pg_dirty (pages (ix_bpm s) f) \<Longrightarrow> synced (ix_bpm s) f"
    using fr by (simp add: fresh_node_def)
  from UnpinPage_ok [OF ok tab this] obtain b where b: "UnpinPage (ix_pid s no) dirty (ix_bpm s) = (True, b)" "bpm_inv b" "keeps (ix_bpm s) b"
    by metis
  then have "unpin_node f dirty s = (Inr True, s\<lparr>ix_bpm := b\<rparr>)" "ix_inv (s\<lparr>ix_bpm := b\<rparr>)" "ix_keeps s (s\<lparr>ix_bpm := b\<rparr>)"
    using inv by (simp_all add: unpin_node_def id ix_inv_def ix_keeps_def)
  then show ?thesis using that by blast
qed

lemma on_node_ok:
  assumes inv: "ix_inv s" and own: "holds_node s no f"
  obtains t where "on_node f g s = (Inr (), t)" and "ix_inv t" and "ix_fd t = ix_fd s" and "ix_hdr t = ix_hdr s"
    and "holds_node t no f" and "\<And>q. ix_page t q = (if q = no then trim (g (ix_hdr s) (node_data f s)) else ix_page s q)"
    and "ix_has t = ix_has s" and "node_data f t = g (ix_hdr s) (node_data f s)"
proof -
  have ok: "bpm_inv (ix_bpm s)" and tab: "page_table (ix_bpm s) (ix_pid s no) = Some f" "0 < pg_pin (pages (ix_bpm s) f)"
    using inv own by (simp_all add: ix_inv_def holds_node_def)
  let ?m = "g (ix_hdr s) (node_data f s)" let ?t = "s\<lparr>ix_bpm := store_page f ?m (ix_bpm s)\<rparr>"
  note S = store_page_ok [OF ok tab, of ?m]
  have pid: "ix_pid ?t = ix_pid s" by (simp add: ix_pid_def fun_eq_iff)
  have eq: "ix_pid s q = ix_pid s no \<longleftrightarrow> q = no" for q by (simp add: ix_pid_def)
  show ?thesis
  proof (rule that [of ?t])
    show "on_node f g s = (Inr (), ?t)" by (simp add: on_node_def run_simps)
    show "ix_inv ?t" using S(1) inv by (simp add: ix_inv_def)
    show "holds_node ?t no f" using tab by (simp add: holds_node_def pid) (simp add: store_page_def upd_frame_def)
    show "ix_page ?t q = (if q = no then trim ?m else ix_page s q)" for q by (simp add: ix_page_def pid S(2) eq)
    show "ix_has ?t = ix_has s" by (simp add: ix_has_def S(3,4) pid fun_eq_iff)
  qed (simp_all add: node_data_def store_page_def upd_frame_def)
qed

text \<open>An index whose pages from the root down form a search tree of height \<open>d\<close>.\<close>

definition ix_tree :: "IxIndexHandle \<Rightarrow> nat \<Rightarrow> bool" where
  "ix_tree s d \<longleftrightarrow> ix_inv s \<and> tree_ok (ix_hdr s) (ix_page s) d (root_page (ix_hdr s)) \<and>
     distinct (tree_pages (ix_hdr s) (ix_page s) d (root_page (ix_hdr s))) \<and>
     (\<forall>q \<in> set (tree_pages (ix_hdr s) (ix_page s) d (root_page (ix_hdr s))). ix_has s q)"

definition ix_entries :: "IxIndexHandle \<Rightarrow> nat \<Rightarrow> (byte list \<times> Rid) list" where
  "ix_entries s d = tree_entries (ix_hdr s) (ix_page s) d (root_page (ix_hdr s))"

definition ix_leaf :: "IxIndexHandle \<Rightarrow> nat \<Rightarrow> byte list \<Rightarrow> int" where
  "ix_leaf s d x = leaf_of (ix_hdr s) (ix_page s) d (root_page (ix_hdr s)) x"

lemma ix_tree_keeps:
  assumes tr: "ix_tree s d" and k: "ix_keeps s t" and inv: "ix_inv t"
  shows "ix_tree t d" and "ix_entries t d = ix_entries s d"
proof -
  have h: "ix_hdr t = ix_hdr s" using k by (simp add: ix_keeps_def)
  have has: "ix_has t q" "ix_page t q = ix_page s q"
    if "q \<in> set (tree_pages (ix_hdr s) (ix_page s) d (root_page (ix_hdr s)))" for q
    using that tr ix_keepsD [OF k] by (auto simp: ix_tree_def)
  note C = tree_cong [of "ix_hdr s" "ix_page s" d "root_page (ix_hdr s)" "ix_page t", OF has(2)]
  show "ix_tree t d" using tr inv has C by (auto simp: ix_tree_def h)
  show "ix_entries t d = ix_entries s d" using C by (simp add: ix_entries_def h)
qed

lemma find_leaf_in_tree:
  assumes tr: "ix_tree s d" and x: "hdr_key (ix_hdr s) x" and fuel: "d \<le> fuel" and room: "pinned (ix_bpm s) + d < pool_size (ix_bpm s)"
  obtains g t where "FindLeafPage fuel x s = (Inr g, t)" and "ix_inv t" and "ix_keeps s t" and "holds_node t (ix_leaf s d x) g"
    and "fresh_node t g" and "node_ok (ix_hdr s) (node_data g t)" and "trim (node_data g t) = ix_page s (ix_leaf s d x)"
proof -
  have T: "ix_inv s" "tree_ok (ix_hdr s) (ix_page s) d (root_page (ix_hdr s))" "tree_stored s (ix_page s) d (root_page (ix_hdr s))"
    using tr by (auto simp: ix_tree_def)
  obtain g t where F: "FindLeafPage fuel x s = (Inr g, t)" "ix_inv t" "ix_keeps s t" "holds_node t (ix_leaf s d x) g" "fresh_node t g"
    using FindLeafPage_ok [OF T(1,3,2) x fuel room] unfolding ix_leaf_def by metis
  note L = leaf_of_entries(2,3) [OF T(2) x, folded ix_leaf_def]
  have pg: "trim (node_data g t) = ix_page s (ix_leaf s d x)"
    using holds_node_page [OF F(4)] ix_keepsD(1) [OF F(3)] L(2) T(3) by simp
  have "node_ok (ix_hdr s) (trim (node_data g t))" using L(1) pg by simp
  then have "node_ok (ix_hdr s) (node_data g t)"
    using node_trim_lists(4) T(1) by (auto simp: ix_inv_def node_ok_def)
  then show ?thesis using that F pg by blast
qed

text \<open>
  C21. \<open>GetValue\<close> on an index whose pages form a search tree returns the record id of the entry with the key, nothing exactly when the tree has
  no such entry, and leaves the tree as it was. The descent ends after as many rounds as the tree is high; it needs a frame for each
  node on the path.
\<close>

theorem GetValue_correct:
  assumes tr: "ix_tree s d" and x: "hdr_key (ix_hdr s) x" and fuel: "d \<le> fuel" and room: "pinned (ix_bpm s) + d < pool_size (ix_bpm s)"
  shows "\<exists>v t. GetValue fuel x s = (Inr v, t) \<and> ix_tree t d \<and> ix_entries t d = ix_entries s d \<and>
    (\<forall>r. v = Some r \<longleftrightarrow> (\<exists>k. (k, r) \<in> set (ix_entries s d) \<and> hdr_cmp (ix_hdr s) x k = 0))"
proof -
  obtain g t where F: "FindLeafPage fuel x s = (Inr g, t)" "ix_inv t" "ix_keeps s t" "holds_node t (ix_leaf s d x) g"
    "fresh_node t g" "node_ok (ix_hdr s) (node_data g t)" "trim (node_data g t) = ix_page s (ix_leaf s d x)"
    by (rule find_leaf_in_tree [OF assms])
  have h: "ix_hdr t = ix_hdr s" using F(3) by (simp add: ix_keeps_def)
  let ?v = "LeafLookup (ix_hdr s) (node_data g t) x"
  have "?v = LeafLookup (ix_hdr s) (ix_page s (ix_leaf s d x)) x"
    using node_trim_lookup(2) [OF _ F(6) x] tr F(7) by (simp add: ix_tree_def ix_inv_def)
  then have val: "?v = Some r \<longleftrightarrow> (\<exists>k. (k, r) \<in> set (ix_entries s d) \<and> hdr_cmp (ix_hdr s) x k = 0)" for r
    using leaf_of_entries(1) [of "ix_hdr s" "ix_page s" d "root_page (ix_hdr s)" x r] tr x
    by (simp add: ix_tree_def ix_entries_def ix_leaf_def)
  obtain u where U: "unpin_node g False t = (Inr True, u)" "ix_inv u" "ix_keeps t u"
    by (rule unpin_node_ok [OF F(2,4)]) (use F(5) in simp_all)
  show ?thesis
  proof (cases ?v)
    case None
    then have "GetValue fuel x s = (Inr ?v, u)" using F(1) U(1) by (simp add: GetValue_def andthen_def h run_simps)
    then show ?thesis using val ix_tree_keeps [OF tr ix_keeps_trans [OF F(3) U(3)] U(2)] by blast
  next
    case (Some r)
    then have "GetValue fuel x s = (Inr ?v, t)" using F(1) by (simp add: GetValue_def andthen_def h run_simps)
    then show ?thesis using val ix_tree_keeps [OF tr F(3,2)] by blast
  qed
qed

lemma grown_size:
  assumes "node_ok h m'" and "node_ok h m" and "node_keys h m' = take b (node_keys h m) @ x # drop b (node_keys h m)"
  shows "GetSize m' = GetSize m + 1"
proof -
  have "int (length (node_keys h m')) = int (length (node_keys h m)) + 1"
    unfolding assms(3) length_append length_take length_Cons length_drop by linarith
  then show ?thesis using assms(1,2) by (simp add: node_ok_def node_size_ok_def)
qed

text \<open>
  C22. \<open>insert_entry\<close> of a new key returns true and adds exactly the entry, and the pages still form a search tree, when the leaf of the key has room for it
  without a split and the bytes behind its last entry do not equal the key.
\<close>

theorem insert_entry_into_leaf:
  assumes tr: "ix_tree s d" and x: "hdr_key (ix_hdr s) x" and r: "rid_i32 r" and fuel: "d \<le> fuel"
    and room: "pinned (ix_bpm s) + d < pool_size (ix_bpm s)"
    and new: "\<forall>e \<in> set (ix_entries s d). hdr_cmp (ix_hdr s) x (fst e) \<noteq> 0"
    and fits: "GetSize (ix_page s (ix_leaf s d x)) + 1 < GetMaxSize (ix_hdr s)"
    and st: "\<not> stale_match (ix_hdr s) (ix_page s (ix_leaf s d x)) x"
  shows "\<exists>t. insert_entry fuel x r s = (Inr True, t) \<and> ix_tree t d \<and> set (ix_entries t d) = insert (x, r) (set (ix_entries s d))"
proof -
  let ?h = "ix_hdr s" let ?l = "ix_leaf s d x"
  obtain g t where F: "FindLeafPage fuel x s = (Inr g, t)" "ix_inv t" "ix_keeps s t" "holds_node t ?l g"
    "fresh_node t g" "node_ok ?h (node_data g t)" "trim (node_data g t) = ix_page s ?l"
    by (rule find_leaf_in_tree [OF tr x fuel room])
  have hf: "hdr_fits ?h" and h: "ix_hdr t = ?h" using tr F(3) by (simp_all add: ix_tree_def ix_inv_def ix_keeps_def)
  let ?m = "node_data g t"
  have T: "tree_ok ?h (ix_page s) d (root_page ?h)" using tr by (simp add: ix_tree_def)
  have size: "GetSize ?m + 1 < GetMaxSize ?h" using fits F(7) node_trim(1) [OF hf, of ?m] by simp
  have stm: "\<not> stale_match ?h ?m x" using st node_trim_lookup(4) [OF hf F(6) x] size F(7) by simp
  have "LeafLookup ?h (ix_page s ?l) x = None"
    using leaf_of_entries(1) [OF T x] new unfolding ix_entries_def ix_leaf_def by (metis fst_conv option.exhaust)
  then have look: "LeafLookup ?h ?m x = None" using node_trim_lookup(2) [OF hf F(6) x] F(7) by simp
  have nokey: "\<not> key_at ?h ?m x i" for i using LeafLookup_spec [OF F(6) x] look by fastforce
  have lt: "GetSize ?m < GetMaxSize ?h" using size by linarith
  obtain m' where M: "Insert ?h x r ?m = (GetSize ?m + 1, m')" "node_ok ?h m'" "node_links m' = node_links ?m"
    "node_keys ?h m' = take (lower_bound ?h ?m x) (node_keys ?h ?m) @ x # drop (lower_bound ?h ?m x) (node_keys ?h ?m)"
    "node_rids ?h m' = take (lower_bound ?h ?m x) (node_rids ?h ?m) @ r # drop (lower_bound ?h ?m x) (node_rids ?h ?m)"
    by (rule Insert_absent [OF hf F(6) x r lt nokey stm])
  have ents: "set (node_entries ?h m') = insert (x, r) (set (node_entries ?h ?m))"
    unfolding entries_insert [OF M(4,5)] by (rule set_take_drop)
  obtain u where U: "on_node g (\<lambda>_ _. m') t = (Inr (), u)" "ix_inv u" "ix_fd u = ix_fd t" "ix_hdr u = ix_hdr t"
    "\<And>q. ix_page u q = (if q = ?l then trim m' else ix_page t q)" "ix_has u = ix_has t" "node_data g u = m'"
    using on_node_ok [OF F(2,4), of "\<lambda>_ _. m'"] by metis
  have gs: "GetSize m' = GetSize ?m + 1" by (rule grown_size [OF M(2) F(6) M(4)])
  have "insert_entry fuel x r s = (Inr True, u)"
    using F(1) M(1) U(1,7) size gs
    by (simp add: insert_entry_def andthen_def h U(4) splitNodeIfFull_def splitNodeIfFull_by_def is_full_def run_simps)
  moreover have "ix_tree u d \<and> set (ix_entries u d) = insert (x, r) (set (ix_entries s d))"
  proof -
    note L = leaf_of_entries(2,3) [OF T x, folded ix_leaf_def]
    note tm = node_trim_lists [OF hf disjI1, of m']
    have szm: "node_size_ok ?h m'" "node_size_ok ?h ?m" using M(2) F(6) by (simp_all add: node_ok_def)
    have leaf: "IsLeafPage (trim m')"
      using L(1) F(7) leaf_links [OF node_trim(2) [OF hf, of m']] leaf_links [OF M(3)] leaf_links [OF node_trim(2) [OF hf, of ?m]] by simp
    have set': "set (node_entries ?h (trim m')) = insert (x, r) (set (node_entries ?h (ix_page s ?l)))"
      using ents tm(3) [OF szm(1)] node_trim_lists(3) [OF hf disjI1 [OF szm(2)]] F(7) by simp
    have I: "tree_ok ?h ((ix_page s)(?l := trim m')) d (root_page ?h)"
      "set (tree_entries ?h ((ix_page s)(?l := trim m')) d (root_page ?h)) = insert (x, r) (set (tree_entries ?h (ix_page s) d (root_page ?h)))"
      "tree_pages ?h ((ix_page s)(?l := trim m')) d (root_page ?h) = tree_pages ?h (ix_page s) d (root_page ?h)"
      using tree_leaf_insert [OF T _ x ix_leaf_def [symmetric] leaf _ set'] tr M(2) tm(4) [OF szm(1)] by (auto simp: ix_tree_def)
    have pg: "ix_page u q = ((ix_page s)(?l := trim m')) q"
      if "q \<in> set (tree_pages ?h ((ix_page s)(?l := trim m')) d (root_page ?h))" for q
      using that I(3) tr ix_keepsD(1) [OF F(3)] U(5) by (auto simp: ix_tree_def)
    note C = tree_cong [of ?h "(ix_page s)(?l := trim m')" d "root_page ?h" "ix_page u", OF pg]
    show ?thesis
      using tr U(2,4,6) I C ix_keepsD(2) [OF F(3)] by (auto simp: ix_tree_def ix_entries_def h)
  qed
  ultimately show ?thesis by blast
qed

section \<open>A tree of height one\<close>

text \<open>Page 0 is the root with the keys 5 and 9; pages 1 and 2 are the leaves with one entry each. All are in a pool of four frames.\<close>

definition tree_root :: mem where
  "tree_root = SetSize 2 (set_key sample_ix 0 (i32_bytes 5) (set_key sample_ix 1 (i32_bytes 9)
     (set_rid sample_ix 0 \<lparr>rid_page = 1, rid_slot = -1\<rparr> (set_rid sample_ix 1 \<lparr>rid_page = 2, rid_slot = -1\<rparr> zero_mem))))"

definition tree_leaf :: "int \<Rightarrow> mem" where
  "tree_leaf k = set_leaf True (SetSize 1 (set_key sample_ix 0 (i32_bytes k) (set_rid sample_ix 0 \<lparr>rid_page = 7, rid_slot = k\<rparr> zero_mem)))"

definition tree_frame :: "nat \<Rightarrow> mem" where
  "tree_frame f = (if f = 0 then tree_root else if f = 1 then tree_leaf 5 else tree_leaf 9)"

definition sample_tree :: IxIndexHandle where
  "sample_tree = \<lparr>ix_bpm = \<lparr>pool_size = 4,
       pages = (\<lambda>f. if f < 3 then \<lparr>pg_id = sample_pid (int f), pg_data = tree_frame f, pg_dirty = True, pg_pin = 0\<rparr> else Page_new 0),
       page_table = [sample_pid 0 \<mapsto> 0, sample_pid 1 \<mapsto> 1, sample_pid 2 \<mapsto> 2], free_list = [3], disk_manager = sample_disk,
       replacer_of = \<lparr>LRUlist = [(0, 0), (1, 1), (2, 2)], LRUhash = [0 \<mapsto> 0, 1 \<mapsto> 1, 2 \<mapsto> 2], LRUalloc = 3, LRUmax_size = 4\<rparr>\<rparr>,
     ix_fd = 0, ix_hdr = sample_ix\<lparr>root_page := 0\<rparr>\<rparr>"

lemma node_root_page [simp]:
  "get_key (h\<lparr>root_page := p\<rparr>) = get_key h" "get_rid (h\<lparr>root_page := p\<rparr>) = get_rid h" "ValueAt (h\<lparr>root_page := p\<rparr>) = ValueAt h"
  "hdr_fits (h\<lparr>root_page := p\<rparr>) = hdr_fits h" "GetMaxSize (h\<lparr>root_page := p\<rparr>) = GetMaxSize h"
  "node_keys (h\<lparr>root_page := p\<rparr>) = node_keys h" "node_rids (h\<lparr>root_page := p\<rparr>) = node_rids h"
  by (simp_all add: node_keys_def node_rids_def get_key_def get_rid_def ValueAt_def key_off_def rid_off_def hdr_fits_def GetMaxSize_def fun_eq_iff)

lemma set_leaf_simps [simp]:
  "GetSize (set_leaf b m) = GetSize m" "IsLeafPage (set_leaf b m) = b" "get_key h (set_leaf b m) i = get_key h m i"
  "get_rid h (set_leaf b m) i = get_rid h m i"
  by (auto simp: set_leaf_def GetSize_def IsLeafPage_def get_key_def get_rid_def key_off_def rid_off_def sizeof_IxPageHdr_def
    intro!: get_i32_cong mread_cong)

lemma leaf_fields:
  "is_i32 k \<Longrightarrow> GetSize (tree_leaf k) = 1" "IsLeafPage (tree_leaf k)"
  "get_key sample_ix (tree_leaf k) 0 = i32_bytes k" "is_i32 k \<Longrightarrow> get_rid sample_ix (tree_leaf k) 0 = \<lparr>rid_page = 7, rid_slot = k\<rparr>"
  by (simp_all add: tree_leaf_def SetSize_effect get_key_set_key get_rid_set_key get_rid_set_rid sample_ix_fits rid_i32_def is_i32_def)

lemma IsLeafPage_low: "(\<And>i. i < sizeof_IxPageHdr \<Longrightarrow> m i = m' i) \<Longrightarrow> IsLeafPage m = IsLeafPage m'"
  by (simp add: IsLeafPage_def sizeof_IxPageHdr_def)

lemma root_fields:
  "GetSize tree_root = 2" "\<not> IsLeafPage tree_root" "get_key sample_ix tree_root 0 = i32_bytes 5" "get_key sample_ix tree_root (Suc 0) = i32_bytes 9"
  "ValueAt sample_ix tree_root 0 = 1" "ValueAt sample_ix tree_root (Suc 0) = 2"
proof -
  have "IsLeafPage tree_root = IsLeafPage zero_mem"
    unfolding tree_root_def SetSize_def set_key_def set_rid_def
    by (simp add: IsLeafPage_def put_i32_def mwrite_def key_off_def rid_off_def sizeof_IxPageHdr_def)
  then show "\<not> IsLeafPage tree_root" by (simp add: IsLeafPage_def)
qed (simp_all add: tree_root_def ValueAt_def SetSize_effect get_key_set_key get_rid_set_key get_rid_set_rid sample_ix_fits rid_i32_def is_i32_def)

lemma sample_tree_pages:
  "ix_page sample_tree 0 = trim tree_root" "ix_page sample_tree 1 = trim (tree_leaf 5)" "ix_page sample_tree 2 = trim (tree_leaf 9)"
  by (simp_all add: ix_page_def page_view_def ix_pid_def sample_tree_def sample_pid_def tree_frame_def)

lemma sample_tree_bpm: "bpm_inv (ix_bpm sample_tree)"
proof (rule pool_okI)
  fix f show "f < pool_size (ix_bpm sample_tree) \<Longrightarrow> f \<in> {} \<or> f \<in> set (free_list (ix_bpm sample_tree)) \<or>
      page_table (ix_bpm sample_tree) (pg_id (pages (ix_bpm sample_tree) f)) = Some f"
    by (auto simp: sample_tree_def sample_pid_def eval_nat_numeral less_Suc_eq)
  show "f \<in> set (lru_frames (replacer_of (ix_bpm sample_tree))) \<longleftrightarrow> f < pool_size (ix_bpm sample_tree) \<and> f \<notin> {} \<and>
      f \<notin> set (free_list (ix_bpm sample_tree)) \<and> pg_pin (pages (ix_bpm sample_tree) f) = 0"
    by (auto simp: sample_tree_def lru_frames_def Page_new_def)
qed (auto simp: sample_tree_def sample_disk_ok lru_inv_def lru_frames_def usable_def sample_pid_def addressable_def sample_disk_file
    Page_new_def split: if_splits)

lemmas sample_trim = node_trim [OF sample_ix_fits, unfolded sample_ix_simps]

lemma sample_tree_nodes:
  "node_ok (ix_hdr sample_tree) (trim tree_root)" "is_i32 k \<Longrightarrow> node_ok (ix_hdr sample_tree) (trim (tree_leaf k))"
  "is_i32 k \<Longrightarrow> node_entries (ix_hdr sample_tree) (trim (tree_leaf k)) = [(i32_bytes k, \<lparr>rid_page = 7, rid_slot = k\<rparr>)]"
  by (auto simp: sample_tree_def node_ok_def node_size_ok_def GetMaxSize_def node_keys_def node_rids_def node_entries_def ixk.increasing_def
    sample_trim root_fields leaf_fields numeral_2_eq_2 less_Suc_eq int_cmp is_i32_def)

lemma sample_tree_hdr: "root_page (ix_hdr sample_tree) = 0" "col_type (ix_hdr sample_tree) = TYPE_INT" "col_len (ix_hdr sample_tree) = 4"
    "GetMaxSize (ix_hdr sample_tree) = 339" "ValueAt (ix_hdr sample_tree) = ValueAt sample_ix" "get_key (ix_hdr sample_tree) = get_key sample_ix"
  by (simp_all add: sample_tree_def GetMaxSize_def)

lemma sample_tree_leaf: "IsLeafPage (trim m) = IsLeafPage m"
  by (rule leaf_links) (rule sample_trim(2))

lemma sample_tree_children:
  "child_no (ix_hdr sample_tree) (ix_page sample_tree) 0 0 = 1" "child_no (ix_hdr sample_tree) (ix_page sample_tree) 0 (Suc 0) = 2"
  using root_fields(5,6) by (simp_all add: sample_tree_pages sample_tree_hdr ValueAt_def sample_trim)

lemma sample_tree_ok: "ix_tree sample_tree 1"
proof -
  let ?h = "ix_hdr sample_tree" and ?pg = "ix_page sample_tree"
  have two: "nat (GetSize (?pg 0)) = 2" by (simp add: sample_tree_pages sample_trim root_fields)
  have pages: "tree_pages ?h ?pg 1 0 = [0, 1, 2]"
    by (simp add: two numeral_2_eq_2 sample_tree_children)
  have ents: "tree_entries ?h ?pg 0 1 = [(i32_bytes 5, \<lparr>rid_page = 7, rid_slot = 5\<rparr>)]"
    "tree_entries ?h ?pg 0 2 = [(i32_bytes 9, \<lparr>rid_page = 7, rid_slot = 9\<rparr>)]"
    by (simp_all add: sample_tree_pages sample_tree_nodes is_i32_def)
  have leaves: "tree_ok ?h ?pg 0 1" "tree_ok ?h ?pg 0 2"
    by (simp_all add: sample_tree_pages sample_tree_nodes sample_tree_leaf leaf_fields is_i32_def)
  have rng: "in_range ?h (?pg 0) 0 (i32_bytes 5)" "in_range ?h (?pg 0) (Suc 0) (i32_bytes 9)"
    by (simp_all add: in_range_def two sample_tree_hdr sample_tree_pages sample_trim root_fields int_cmp is_i32_def)
  have "tree_ok ?h ?pg (Suc 0) 0"
    using leaves ents rng unfolding tree_ok.simps(2) two
    by (auto simp: numeral_2_eq_2 less_Suc_eq sample_tree_children simp del: tree_ok.simps tree_entries.simps)
      (simp_all add: sample_tree_pages sample_tree_nodes sample_tree_leaf root_fields sample_trim)
  moreover have "ix_has sample_tree q" if "q = 0 \<or> q = 1 \<or> q = 2" for q
    using that by (auto simp: ix_has_def usable_def stored_def ix_pid_def sample_tree_def sample_pid_def addressable_def sample_disk_file)
  ultimately show ?thesis
    using sample_tree_bpm pages
    by (simp add: ix_tree_def ix_inv_def sample_tree_hdr, simp add: sample_tree_def sample_ix_fits)
qed

lemma sample_tree_room: "pinned (ix_bpm sample_tree) + 1 < pool_size (ix_bpm sample_tree)"
proof -
  have "{f. f < pool_size (ix_bpm sample_tree) \<and> 0 < pg_pin (pages (ix_bpm sample_tree) f)} = {}"
    by (auto simp: sample_tree_def Page_new_def split: if_splits)
  then have "pinned (ix_bpm sample_tree) = 0" unfolding pinned_def by simp
  then show ?thesis by (simp add: sample_tree_def)
qed

lemma sample_tree_entries:
  "ix_entries sample_tree 1 = [(i32_bytes 5, \<lparr>rid_page = 7, rid_slot = 5\<rparr>), (i32_bytes 9, \<lparr>rid_page = 7, rid_slot = 9\<rparr>)]"
proof -
  have "nat (GetSize (ix_page sample_tree 0)) = 2" by (simp add: sample_tree_pages sample_trim root_fields)
  then show ?thesis
    by (simp add: ix_entries_def sample_tree_hdr(1) numeral_2_eq_2 sample_tree_children,
      simp add: sample_tree_pages sample_tree_nodes is_i32_def)
qed

theorem GetValue_correct_witness:
  "\<exists>t. GetValue 1 (i32_bytes 9) sample_tree = (Inr (Some \<lparr>rid_page = 7, rid_slot = 9\<rparr>), t) \<and> ix_tree t 1"
proof -
  obtain v t where "GetValue 1 (i32_bytes 9) sample_tree = (Inr v, t)" "ix_tree t 1"
    and v: "v = Some r \<longleftrightarrow> (\<exists>k. (k, r) \<in> set (ix_entries sample_tree 1) \<and> hdr_cmp (ix_hdr sample_tree) (i32_bytes 9) k = 0)" for r
    using GetValue_correct [OF sample_tree_ok _ le_refl sample_tree_room, of "i32_bytes 9"] by (auto simp: sample_tree_hdr)
  moreover have "v = Some \<lparr>rid_page = 7, rid_slot = 9\<rparr>"
    unfolding v by (intro exI [of _ "i32_bytes 9"]) (simp add: sample_tree_entries [unfolded One_nat_def] sample_tree_hdr int_cmp is_i32_def)
  ultimately show ?thesis by blast
qed

lemma sample_tree_leaf_7: "ix_leaf sample_tree 1 (i32_bytes 7) = 1"
proof -
  let ?h = "ix_hdr sample_tree" and ?m = "trim tree_root"
  have x: "hdr_key ?h (i32_bytes 7)" by (simp add: sample_tree_hdr)
  note B = bounds_spec [OF sample_tree_nodes(1) x]
  have "upper_bound ?h ?m (i32_bytes 7) \<le> 2" "0 < upper_bound ?h ?m (i32_bytes 7)" "\<not> 1 < upper_bound ?h ?m (i32_bytes 7)"
    using B(2) B(4) [of 0] B(4) [of 1] by (simp_all add: sample_tree_hdr sample_trim root_fields int_cmp is_i32_def)
  then have "child_idx ?h (ix_page sample_tree 0) (i32_bytes 7) = 0" by (simp add: child_idx_def sample_tree_pages)
  then show ?thesis by (simp add: ix_leaf_def sample_tree_hdr(1) InternalLookup_child sample_tree_children)
qed

lemma sample_leaf_not_stale: "\<not> stale_match (ix_hdr sample_tree) (trim (tree_leaf 5)) (i32_bytes 7)"
proof -
  have "get_key sample_ix (tree_leaf 5) (Suc 0) = get_key sample_ix zero_mem (Suc 0)"
    by (simp add: tree_leaf_def get_key_set_key get_key_mwrite_rid sample_ix_fits)
  moreover have "bytes_i32 (get_key sample_ix zero_mem (Suc 0)) = 0"
    unfolding get_key_def sample_ix_simps get_i32_def [symmetric] by (rule get_i32_zero)
  ultimately show ?thesis
    by (simp add: stale_match_def sample_tree_hdr sample_trim leaf_fields is_i32_def ix_compare_def)
qed

theorem insert_entry_into_leaf_witness:
  "\<exists>t. insert_entry 1 (i32_bytes 7) \<lparr>rid_page = 8, rid_slot = 0\<rparr> sample_tree = (Inr True, t) \<and> ix_tree t 1 \<and>
    set (ix_entries t 1) = insert (i32_bytes 7, \<lparr>rid_page = 8, rid_slot = 0\<rparr>) (set (ix_entries sample_tree 1))"
proof (rule insert_entry_into_leaf [OF sample_tree_ok _ _ le_refl sample_tree_room])
  show "\<forall>e \<in> set (ix_entries sample_tree 1). hdr_cmp (ix_hdr sample_tree) (i32_bytes 7) (fst e) \<noteq> 0"
    unfolding sample_tree_entries by (simp add: sample_tree_hdr int_cmp is_i32_def)
  show "\<not> stale_match (ix_hdr sample_tree) (ix_page sample_tree (ix_leaf sample_tree 1 (i32_bytes 7))) (i32_bytes 7)"
    unfolding sample_tree_leaf_7 sample_tree_pages by (rule sample_leaf_not_stale)
  show "GetSize (ix_page sample_tree (ix_leaf sample_tree 1 (i32_bytes 7))) + 1 < GetMaxSize (ix_hdr sample_tree)"
    unfolding sample_tree_leaf_7 sample_tree_pages by (simp add: sample_trim leaf_fields is_i32_def sample_tree_hdr)
qed (simp_all add: sample_tree_hdr rid_i32_def is_i32_def)

end
