(* ===== verification/Ix_Split.thy ===== *)
theory Ix_Split
  imports Ix_Tree
begin

text \<open>
  Splitting and merging nodes: what \<open>evenlyDistributePairs\<close> of \<open>index/ix_index_handle.h\<close> does to the entries of a full node, and what the two
  moves of \<open>Redistribute\<close> and the merge of \<open>Coalesce\<close> of \<open>index/ix_index_handle.cpp\<close> do to the entries of two neighbours.
\<close>

section \<open>Moving entries to a new node\<close>

definition move_cell :: "IxFileHdr \<Rightarrow> nat \<Rightarrow> mem \<Rightarrow> nat \<Rightarrow> mem \<Rightarrow> mem" where
  "move_cell h n orig i m = set_rid h i (get_rid h orig (n + i)) (set_key h i (get_key h orig (n + i)) m)"

lemma move_pairs_fold: "move_pairs h n orig is m = fold (move_cell h n orig) is m"
  by (induction h n orig "is" m rule: move_pairs.induct) (simp_all add: move_cell_def)

lemma move_cell_effect:
  assumes h: "hdr_fits h" and i: "i \<le> btree_order h"
  shows "j \<le> btree_order h \<Longrightarrow> get_key h (move_cell h n orig i m) j = (if j = i then get_key h orig (n + i) else get_key h m j)"
    and "get_rid h (move_cell h n orig i m) j = (if j = i then get_rid h orig (n + i) else get_rid h m j)"
    and "k < sizeof_IxPageHdr \<Longrightarrow> move_cell h n orig i m k = m k"
  using assms
  by (simp_all add: move_cell_def get_key_mwrite_rid get_key_set_key get_rid_set_rid get_rid_set_key,
      simp add: set_rid_def set_key_def mwrite_def rid_off_def key_off_def)

lemma move_pairs_effect:
  assumes h: "hdr_fits h" and "k \<le> btree_order h + 1"
  shows "j < k \<Longrightarrow> get_key h (move_pairs h n orig [0..<k] m) j = get_key h orig (n + j)"
    and "j < k \<Longrightarrow> get_rid h (move_pairs h n orig [0..<k] m) j = get_rid h orig (n + j)"
    and "i < sizeof_IxPageHdr \<Longrightarrow> move_pairs h n orig [0..<k] m i = m i"
  using assms(2)
proof (induction k)
  case (Suc k)
  note step = move_cell_effect [OF h, of k]
  { case 1 then show ?case using Suc.IH(1) step(1) [of j n orig "move_pairs h n orig [0..<k] m"]
      by (auto simp: move_pairs_fold less_Suc_eq) }
  { case 2 then show ?case using Suc.IH(2) step(2) [of n orig "move_pairs h n orig [0..<k] m" j]
      by (auto simp: move_pairs_fold less_Suc_eq) }
  { case 3 then show ?case using Suc.IH(3) step(3) [of i n orig "move_pairs h n orig [0..<k] m"]
      by (auto simp: move_pairs_fold) }
qed (simp_all add: move_pairs_fold)

lemma set_leaf_links: "GetParentPageNo (set_leaf b m) = GetParentPageNo m" "GetSize (SetParentPageNo p m) = GetSize m"
    "IsLeafPage (SetParentPageNo p m) = IsLeafPage m" "is_i32 p \<Longrightarrow> GetParentPageNo (SetParentPageNo p m) = p"
    "IsLeafPage (SetSize n m) = IsLeafPage m"
  by (auto simp: set_leaf_def GetParentPageNo_def SetParentPageNo_def SetSize_def GetSize_def IsLeafPage_def mem_simps intro!: get_i32_cong)

lemma is_i32_parent [simp]: "is_i32 (GetParentPageNo m)"
  by (simp add: GetParentPageNo_def)

lemma increasing_append:
  "ixk.increasing t n (xs @ ys) \<Longrightarrow> ixk.increasing t n xs \<and> ixk.increasing t n ys"
  by (auto simp: ixk.increasing_def sorted_wrt_append)

text \<open>
  The split of a node: the original node keeps the first half of its entries, the new node gets the others in the same order, both stay sorted,
  the new node is of the same kind and has the same parent, and after the split of a full node neither has less than the minimum number of entries.
\<close>

lemma evenlyDistributePairs_splits:
  assumes h: "hdr_fits h" and ok: "node_ok h m"
    and run: "evenlyDistributePairs h new m = (new', m')"
  shows "node_ok h m' \<and> node_ok h new' \<and> node_entries h m' @ node_entries h new' = node_entries h m \<and>
    node_links m' = node_links m \<and> IsLeafPage new' = IsLeafPage m \<and> GetParentPageNo new' = GetParentPageNo m \<and>
    (is_full h m \<longrightarrow> GetMinSize h \<le> GetSize m' \<and> GetMinSize h \<le> GetSize new')"
proof -
  define s where "s = nat (GetSize m)"
  define a where "a = s div 2"
  have s: "GetSize m = int s" "s \<le> btree_order h + 1"
    using ok by (auto simp: s_def node_ok_def node_size_ok_def GetMaxSize_def)
  have small: "s < 2 ^ 31" using h s(2) by (simp add: hdr_fits_def PAGE_SIZE_def sizeof_Rid_def)
  let ?n = "SetParentPageNo (GetParentPageNo m) (SetSize (int (s - a)) (set_leaf (IsLeafPage m) new))"
  have m': "m' = SetSize (int a) m" and new': "new' = move_pairs h a m' [0..<s - a] ?n"
  proof -
    have q: "GetSize m div 2 = int a" "GetSize m - int a = int (s - a)" by (simp_all add: a_def s(1) zdiv_int of_nat_diff)
    have sz: "GetSize ?n = int (s - a)" using small by (simp add: set_leaf_links SetSize_effect is_i32_def)
    have par: "GetParentPageNo (SetSize (int a) m) = GetParentPageNo m" using SetSize_effect(2) [of "int a" m] by (simp add: node_links_def)
    have "to_i32 (int (s - a)) = int (s - a)" using small by (simp add: is_i32_def)
    then show "m' = SetSize (int a) m" and "new' = move_pairs h a m' [0..<s - a] ?n"
      using run sz par unfolding evenlyDistributePairs_def Let_def q by auto
  qed
  have a: "a \<le> s" "s - a \<le> btree_order h + 1" using s by (simp_all add: a_def)
  note E = move_pairs_effect [OF h a(2), where n = a and orig = m' and m = ?n, folded new']
  have szm: "GetSize m' = int a" using small a by (simp add: m' SetSize_effect is_i32_def)
  have hd: "GetSize new' = GetSize ?n" "node_links new' = node_links ?n" using node_header_cong [of new' ?n] E(3) by auto
  have szn: "GetSize new' = int (s - a)" using small by (simp add: hd set_leaf_links SetSize_effect is_i32_def)
  have links: "IsLeafPage new' = IsLeafPage m" "GetParentPageNo new' = GetParentPageNo m"
    using hd(2) by (simp_all add: node_links_def set_leaf_links)
  have split: "map f [0..<a] @ map (\<lambda>i. f (a + i)) [0..<s - a] = map f [0..<s]" for f :: "nat \<Rightarrow> 'z"
    using a(1) by (intro nth_equalityI) (auto simp: nth_append)
  have keys: "node_keys h m' @ node_keys h new' = node_keys h m"
    unfolding node_keys_def szm szn s(1) nat_int by (subst split [symmetric]) (auto simp: E(1) m')
  have rids: "node_rids h m' @ node_rids h new' = node_rids h m"
    unfolding node_rids_def szm szn s(1) nat_int by (subst split [symmetric]) (auto simp: E(2) m')
  have "node_entries h m' @ node_entries h new' = node_entries h m"
    unfolding node_entries_def keys [symmetric] rids [symmetric] by (rule zip_append [symmetric]) simp
  moreover have "keys_ok h (node_keys h m')" "keys_ok h (node_keys h new')"
    using increasing_append ok keys unfolding node_ok_def by metis+
  moreover have "node_size_ok h m'" "node_size_ok h new'"
    using a s by (auto simp: node_size_ok_def szm szn GetMaxSize_def)
  moreover have "GetMinSize h \<le> GetSize m' \<and> GetMinSize h \<le> GetSize new'" if "is_full h m"
    using that s(1) by (auto simp: is_full_def GetMinSize_def szm szn a_def zdiv_int of_nat_diff)
  ultimately show ?thesis using links m' SetSize_effect(2) [of "int a" m] by (simp add: node_ok_def)
qed

text \<open>
  \<open>insert_entry\<close> never lowers the first key of an inner node, so a leftmost child may hold keys below it. When that child splits at such a key
  \<open>x\<close>, \<open>InsertIntoParent\<close> puts the new node before the old one: the keys below \<open>x\<close>, which stay in the old node, are searched in the new node.
\<close>

lemma Insert_below_first_key:
  assumes h: "hdr_fits h" and ok: "node_ok h m" and x: "hdr_key h x" and n: "is_i32 n" and sz: "0 < GetSize m" "GetSize m < GetMaxSize h"
    and low: "hdr_cmp h x (get_key h m 0) < 0"
  obtains m' where "Insert h x \<lparr>rid_page = n, rid_slot = -1\<rparr> m = (GetSize m + 1, m')" and "node_ok h m'"
    and "ValueAt h m' 0 = n" and "ValueAt h m' 1 = ValueAt h m 0"
    and "\<forall>y. hdr_key h y \<and> hdr_cmp h y x < 0 \<longrightarrow> InternalLookup h m' y = n"
proof -
  have zero: "0 < nat (GetSize m)" using sz(1) by simp
  have v: "hdr_key h (get_key h m 0)" by (rule key_at_valid [OF ok]) (use sz in simp)
  have up: "0 < hdr_cmp h (get_key h m 0) x" using ixk.cmp_swap [OF v x] low by simp
  have b: "lower_bound h m x = 0" using bounds_spec(3) [OF ok x zero] up by (cases "lower_bound h m x") auto
  have "\<not> (hdr_cmp h x (get_key h m 0) = 0)" using low by simp
  then have new: "\<not> key_at h m x i" for i
    using lower_bound_exact [OF ok x, of i] b by (auto simp: key_at_def)
  have st: "\<not> stale_match h m x"
  proof
    assume "stale_match h m x"
    then have "hdr_cmp h (get_key h m 0) x < 0" using zero unfolding stale_match_def by blast
    then show False using up by simp
  qed
  have r: "rid_i32 \<lparr>rid_page = n, rid_slot = -1\<rparr>" using n by (simp add: rid_i32_def is_i32_def)
  obtain m' where M: "Insert h x \<lparr>rid_page = n, rid_slot = -1\<rparr> m = (GetSize m + 1, m')" "node_ok h m'" "node_links m' = node_links m"
    "node_keys h m' = take (lower_bound h m x) (node_keys h m) @ x # drop (lower_bound h m x) (node_keys h m)"
    "node_rids h m' = take (lower_bound h m x) (node_rids h m) @ \<lparr>rid_page = n, rid_slot = -1\<rparr> # drop (lower_bound h m x) (node_rids h m)"
    by (rule Insert_absent [OF h ok x r sz(2) new st])
  have "length (node_keys h m') = Suc (nat (GetSize m))" using M(4) b by simp
  then have len: "nat (GetSize m') = Suc (nat (GetSize m))" by simp
  have "get_rid h m' i = node_rids h m' ! i" if "i < nat (GetSize m')" for i using that by simp
  then have rids: "get_rid h m' 0 = \<lparr>rid_page = n, rid_slot = -1\<rparr>" "get_rid h m' 1 = get_rid h m 0"
    using M(5) b len zero by (simp_all add: nth_Cons')
  have k0: "get_key h m' 0 = x"
  proof -
    have "get_key h m' 0 = node_keys h m' ! 0" using len by simp
    then show ?thesis using M(4) b by simp
  qed
  have "InternalLookup h m' y = n" if y: "hdr_key h y" "hdr_cmp h y x < 0" for y
  proof -
    have "\<not> hdr_cmp h (get_key h m' 0) y \<le> 0" using ixk.cmp_swap [OF x y(1)] y(2) k0 by simp
    then have "upper_bound h m' y = 0" using bounds_spec(4) [OF M(2) y(1), of 0] len by simp
    then show ?thesis by (simp add: InternalLookup_def ValueAt_def rids)
  qed
  then show ?thesis by (intro that [OF M(1,2)]) (simp_all add: ValueAt_def rids [unfolded One_nat_def])
qed

section \<open>Neighbours\<close>

lemma entries_of_lists:
  assumes "node_keys h a = ks" and "node_rids h a = rs"
  shows "node_entries h a = zip ks rs"
  using assms by (simp add: node_entries_def)

lemma last_entry:
  assumes "0 < GetSize m"
  shows "get_key h m (nat (GetSize m - 1)) = last (node_keys h m)" and "get_rid h m (nat (GetSize m - 1)) = last (node_rids h m)"
    and "node_keys h m \<noteq> []" and "node_rids h m \<noteq> []"
proof -
  have ne: "node_keys h m \<noteq> []" "node_rids h m \<noteq> []" using assms by (auto simp flip: length_greater_0_conv)
  moreover have "nat (GetSize m - 1) = nat (GetSize m) - 1" using assms by simp
  ultimately show "get_key h m (nat (GetSize m - 1)) = last (node_keys h m)" and "get_rid h m (nat (GetSize m - 1)) = last (node_rids h m)"
    using assms by (simp_all add: last_conv_nth)
  show "node_keys h m \<noteq> []" "node_rids h m \<noteq> []" by (rule ne)+
qed

lemma first_entry:
  assumes "0 < GetSize m"
  shows "get_key h m 0 = hd (node_keys h m)" and "get_rid h m 0 = hd (node_rids h m)"
  using assms last_entry(3,4) [OF assms, of h] by (simp_all add: hd_conv_nth)

lemma zip_append_regroup:
  assumes "length ks = length rs" and "length ks' = length rs'" and "ks @ ks' = K" and "rs @ rs' = R"
  shows "zip ks rs @ zip ks' rs' = zip K R"
  using assms zip_append [of ks rs ks' rs'] by simp

definition neighbours :: "IxFileHdr \<Rightarrow> mem \<Rightarrow> mem \<Rightarrow> bool" where
  "neighbours h l r \<longleftrightarrow> hdr_fits h \<and> node_ok h l \<and> node_ok h r \<and> keys_ok h (node_keys h l @ node_keys h r)"

lemma neighboursD:
  assumes "neighbours h l r"
  shows "hdr_fits h" "node_size_ok h l" "node_size_ok h r" "keys_ok h (node_keys h l @ node_keys h r)"
  using assms by (simp_all add: neighbours_def node_ok_def)

lemma entry_shapes: "\<forall>k \<in> set (node_keys h r). length k = col_len h" "\<forall>q \<in> set (node_rids h r). rid_i32 q"
  by (auto simp: node_keys_def node_rids_def)

lemma merge_nodes:
  assumes nb: "neighbours h l r" and "GetSize l + GetSize r \<le> GetMaxSize h"
  defines "m \<equiv> insert_pairs h (nat (GetSize l)) (node_keys h r) (node_rids h r) l"
  shows "node_ok h m" and "node_entries h m = node_entries h l @ node_entries h r" and "node_links m = node_links l"
proof -
  note N = neighboursD [OF nb]
  have p: "int (nat (GetSize l)) \<le> GetSize l" "GetSize l + int (length (node_keys h r)) \<le> GetMaxSize h"
      "length (node_rids h r) = length (node_keys h r)"
    using N assms(2) by (simp_all add: node_size_ok_def)
  note E = insert_pairs_effect [OF N(1,2) p entry_shapes, folded m_def]
  have k: "node_keys h m = node_keys h l @ node_keys h r" "node_rids h m = node_rids h l @ node_rids h r"
    using E(2,3) by simp_all
  show "node_ok h m" using E(5) N(4) by (simp add: node_ok_def k)
  show "node_entries h m = node_entries h l @ node_entries h r" by (simp add: node_entries_def k)
  show "node_links m = node_links l" by (rule E(4))
qed

text \<open>The last entry of the left node becomes the first of the right one.\<close>

lemma shift_right:
  assumes nb: "neighbours h l r" and ne: "0 < GetSize l" and room: "GetSize r < GetMaxSize h"
  defines "p \<equiv> nat (GetSize l - 1)"
  defines "r' \<equiv> insert_pair h 0 (get_key h l p) (get_rid h l p) r" and "l' \<equiv> erase_pair h p l"
  shows "node_ok h l' \<and> node_ok h r' \<and> node_entries h l' @ node_entries h r' = node_entries h l @ node_entries h r \<and>
    keys_ok h (node_keys h l' @ node_keys h r')"
proof -
  note N = neighboursD [OF nb]
  have r0: "int 0 \<le> GetSize r" and pl: "int p < GetSize l" using N(2,3) ne by (simp_all add: node_size_ok_def p_def)
  note R = insert_pair_effect [where k = "get_key h l p" and r = "get_rid h l p", OF N(1,3) r0 room length_get_key rid_i32_get, folded r'_def]
  note L = erase_pair_effect [OF N(1,2) pl, folded l'_def]
  note last = last_entry [OF ne, of h, folded p_def]
  have len: "p + 1 = length (node_keys h l)" "p + 1 = length (node_rids h l)" using ne by (simp_all add: p_def)
  have lk: "node_keys h l' = butlast (node_keys h l)" "node_rids h l' = butlast (node_rids h l)"
  proof -
    have "p = nat (GetSize l) - Suc 0" using len(1) by simp
    then show "node_keys h l' = butlast (node_keys h l)" "node_rids h l' = butlast (node_rids h l)"
      using L(2,3) len by (simp_all add: butlast_conv_take)
  qed
  have k: "node_keys h l' @ node_keys h r' = node_keys h l @ node_keys h r" "node_rids h l' @ node_rids h r' = node_rids h l @ node_rids h r"
    using R(2,3) lk last by simp_all
  have "node_entries h l' @ node_entries h r' = node_entries h l @ node_entries h r"
    unfolding node_entries_def by (simp add: zip_append_regroup [OF _ _ k])
  moreover have inc: "keys_ok h (node_keys h l' @ node_keys h r')" using N(4) k(1) by simp
  ultimately show ?thesis using increasing_append [OF inc] L(5) R(5) by (simp add: node_ok_def)
qed

text \<open>The first entry of the right node becomes the last of the left one.\<close>

lemma shift_left:
  assumes nb: "neighbours h l r" and ne: "0 < GetSize r" and room: "GetSize l < GetMaxSize h"
  defines "l' \<equiv> insert_pair h (nat (GetSize l)) (get_key h r 0) (get_rid h r 0) l" and "r' \<equiv> erase_pair h 0 r"
  shows "node_ok h l' \<and> node_ok h r' \<and> node_entries h l' @ node_entries h r' = node_entries h l @ node_entries h r \<and>
    keys_ok h (node_keys h l' @ node_keys h r')"
proof -
  note N = neighboursD [OF nb]
  have pl: "int (nat (GetSize l)) \<le> GetSize l" and r0: "int 0 < GetSize r" using N(2,3) ne by (simp_all add: node_size_ok_def)
  note L = insert_pair_effect [where k = "get_key h r 0" and r = "get_rid h r 0", OF N(1,2) pl room length_get_key rid_i32_get, folded l'_def]
  note R = erase_pair_effect [OF N(1,3) r0, folded r'_def]
  note first = first_entry [OF ne, of h] and nonempty = last_entry(3,4) [OF ne, of h]
  have rk: "node_keys h r' = tl (node_keys h r)" "node_rids h r' = tl (node_rids h r)"
    using R(2,3) by (simp_all add: drop_Suc)
  have k: "node_keys h l' @ node_keys h r' = node_keys h l @ node_keys h r" "node_rids h l' @ node_rids h r' = node_rids h l @ node_rids h r"
    using L(2,3) rk first nonempty by simp_all
  have "node_entries h l' @ node_entries h r' = node_entries h l @ node_entries h r"
    unfolding node_entries_def by (simp add: zip_append_regroup [OF _ _ k])
  moreover have inc: "keys_ok h (node_keys h l' @ node_keys h r')" using N(4) k(1) by simp
  ultimately show ?thesis using increasing_append [OF inc] L(5) R(5) by (simp add: node_ok_def)
qed

text \<open>The frames of \<open>neighbor_node\<close> and \<open>node\<close>, from left to right: the neighbour is the right one exactly if \<open>index\<close> is 0.\<close>

definition left_frame :: "frame_id \<Rightarrow> frame_id \<Rightarrow> nat \<Rightarrow> frame_id" where
  "left_frame nb nd index = (if index = 0 then nd else nb)"

definition right_frame :: "frame_id \<Rightarrow> frame_id \<Rightarrow> nat \<Rightarrow> frame_id" where
  "right_frame nb nd index = (if index = 0 then nb else nd)"

text \<open>Only the bytes and the dirty flags of the given frames differ.\<close>

definition others_kept :: "frame_id set \<Rightarrow> IxIndexHandle \<Rightarrow> IxIndexHandle \<Rightarrow> bool" where
  "others_kept F s t \<longleftrightarrow> ix_hdr t = ix_hdr s \<and> ix_fd t = ix_fd s \<and> page_table (ix_bpm t) = page_table (ix_bpm s) \<and>
     disk_manager (ix_bpm t) = disk_manager (ix_bpm s) \<and>
     (\<forall>f. GetPageId f t = GetPageId f s \<and> (f \<notin> F \<longrightarrow> node_data f t = node_data f s))"

lemma on_node_run:
  "on_node f g s = (Inr (), s\<lparr>ix_bpm := store_page f (g (ix_hdr s) (node_data f s)) (ix_bpm s)\<rparr>)"
  by (simp add: on_node_def run_simps)

lemma node_data_stored [simp]:
  "node_data f (s\<lparr>ix_bpm := store_page g m b\<rparr>) = (if f = g then m else pg_data (pages b f))"
  by (simp add: node_data_def store_page_def upd_frame_def)

lemma others_kept_stored:
  "others_kept {f} s (s\<lparr>ix_bpm := store_page f m (ix_bpm s)\<rparr>)"
  "others_kept F s t \<Longrightarrow> f \<in> F \<Longrightarrow> others_kept F s (t\<lparr>ix_bpm := store_page f m (ix_bpm t)\<rparr>)"
  by (auto simp: others_kept_def GetPageId_def node_data_def store_page_def upd_frame_def)

lemma Redistribute_run:
  fixes s index nb nd
  assumes ne: "nb \<noteq> nd" and sz: "0 < GetSize (node_data nb s)" "0 \<le> GetSize (node_data nd s)"
  defines "h \<equiv> ix_hdr s" and "a \<equiv> node_data nb s" and "b \<equiv> node_data nd s"
  defines "p \<equiv> if index = 0 then 0 else nat (GetSize a - 1)" and "q \<equiv> if index = 0 then nat (GetSize b) else 0"
  defines "t \<equiv> snd (andthen (on_node nd (\<lambda>h. insert_pair h q (get_key h a p) (get_rid h a p))) (\<lambda>_. on_node nb (\<lambda>h. erase_pair h p)) s)"
  assumes grown: "index = 0 \<Longrightarrow> nat (GetSize (insert_pair h q (get_key h a p) (get_rid h a p) b) - 1) = q"
  shows "Redistribute fuel nb nd parent index s = andthen (maintain_child nd q) (\<lambda>_. maintain_parent fuel (right_frame nb nd index)) t"
    and "node_data nb t = erase_pair h p a" and "node_data nd t = insert_pair h q (get_key h a p) (get_rid h a p) b"
    and "others_kept {nb, nd} s t"
proof -
  have t: "t = s\<lparr>ix_bpm := store_page nb (erase_pair h p a) (store_page nd (insert_pair h q (get_key h a p) (get_rid h a p) b) (ix_bpm s))\<rparr>"
    using ne by (simp add: t_def andthen_def on_node_run h_def a_def b_def node_data_def [of _ s])
  show data: "node_data nb t = erase_pair h p a" "node_data nd t = insert_pair h q (get_key h a p) (get_rid h a p) b"
    using ne by (simp_all add: t) (simp add: store_page_def upd_frame_def)
  show "others_kept {nb, nd} s t"
    using others_kept_stored(2) [OF others_kept_stored(2) [of "{nb, nd}" s s nd], of nb] by (simp add: t others_kept_def)
  show "Redistribute fuel nb nd parent index s = andthen (maintain_child nd q) (\<lambda>_. maintain_parent fuel (right_frame nb nd index)) t"
    using ne sz grown data
    by (cases "index = 0") (simp_all add: Redistribute_def andthen_def guard_def read_node_def run_simps on_node_run right_frame_def
      p_def q_def a_def b_def h_def t node_data_def [of _ s])
qed

lemma Coalesce_run:
  fixes s index nb nd
  defines "l \<equiv> left_frame nb nd index" and "r \<equiv> right_frame nb nd index"
  defines "h \<equiv> ix_hdr s"
  defines "m \<equiv> insert_pairs h (nat (GetSize (node_data l s))) (node_keys h (node_data r s)) (node_rids h (node_data r s)) (node_data l s)"
  defines "t \<equiv> s\<lparr>ix_bpm := store_page l m (ix_bpm s)\<rparr>"
  assumes sz: "0 \<le> GetSize (node_data l s)" "0 \<le> GetSize (node_data r s)"
  shows "Coalesce fuel nb nd parent index s =
      andthen (for_each (maintain_child l) [nat (GetSize (node_data l s))..<nat (GetSize m)]) (\<lambda>_.
      andthen (drop_merged (CoalesceOrRedistribute fuel) l r parent (max 1 index)) (\<lambda>b. ret (l, r, b))) t"
    and "node_data l t = m" and "others_kept {l} s t"
proof -
  have swap: "(if index = 0 then (nd, nb, index + 1) else (nb, nd, index)) = (l, r, max 1 index)"
    by (simp add: l_def r_def left_frame_def right_frame_def)
  show data: "node_data l t = m" by (simp add: t_def)
  show "others_kept {l} s t" unfolding t_def by (rule others_kept_stored)
  show "Coalesce fuel nb nd parent index s =
      andthen (for_each (maintain_child l) [nat (GetSize (node_data l s))..<nat (GetSize m)]) (\<lambda>_.
      andthen (drop_merged (CoalesceOrRedistribute fuel) l r parent (max 1 index)) (\<lambda>b. ret (l, r, b))) t"
    unfolding Coalesce_def Coalesce_by_def swap
    using sz data by (simp add: andthen_def guard_def read_node_def run_simps on_node_run node_keys_def [symmetric]
      node_rids_def [symmetric] h_def [symmetric] m_def [symmetric] t_def [symmetric])
qed

lemma Redistribute_keeps:
  assumes l: "l = left_frame nb nd index" and r: "r = right_frame nb nd index" and h: "h = ix_hdr s" and ne: "nb \<noteq> nd"
    and nbs: "neighbours h (node_data l s) (node_data r s)"
    and sz: "0 < GetSize (node_data nb s)" "GetSize (node_data nd s) < GetMaxSize h"
  shows "\<exists>t. Redistribute fuel nb nd parent index s =
          andthen (maintain_child nd (if index = 0 then nat (GetSize (node_data nd s)) else 0)) (\<lambda>_. maintain_parent fuel r) t \<and>
        others_kept {nb, nd} s t \<and> neighbours h (node_data l t) (node_data r t) \<and>
        GetSize (node_data nb t) = GetSize (node_data nb s) - 1 \<and> GetSize (node_data nd t) = GetSize (node_data nd s) + 1 \<and>
        node_entries h (node_data l t) @ node_entries h (node_data r t) =
          node_entries h (node_data l s) @ node_entries h (node_data r s)"
proof -
  note N = neighboursD [OF nbs]
  define a b where "a = node_data nb s" and "b = node_data nd s"
  define p q where "p = (if index = 0 then 0 else nat (GetSize a - 1))" and "q = (if index = 0 then nat (GetSize b) else 0)"
  have ok: "node_size_ok h a" "node_size_ok h b"
    using N(2,3) by (auto simp: l r left_frame_def right_frame_def a_def b_def split: if_splits)
  have pq: "int p < GetSize a" "int q \<le> GetSize b" "GetSize b < GetMaxSize h" "0 \<le> GetSize b"
    using sz ok by (auto simp: p_def q_def a_def b_def node_size_ok_def)
  note B = insert_pair_effect [where k = "get_key h a p" and r = "get_rid h a p", OF N(1) ok(2) pq(2,3) length_get_key rid_i32_get]
  note A = erase_pair_effect [OF N(1) ok(1) pq(1)]
  have "index = 0 \<Longrightarrow> nat (GetSize (insert_pair h q (get_key h a p) (get_rid h a p) b) - 1) = q"
    using B(1) by (simp add: q_def)
  from Redistribute_run [where s = s and nb = nb and nd = nd and index = index,
      folded a_def b_def h, folded p_def q_def, OF ne _ pq(4) this]
  obtain t where run: "Redistribute fuel nb nd parent index s = andthen (maintain_child nd q) (\<lambda>_. maintain_parent fuel r) t"
    and t: "node_data nb t = erase_pair h p a" "node_data nd t = insert_pair h q (get_key h a p) (get_rid h a p) b"
      "others_kept {nb, nd} s t"
    using sz(1) unfolding r a_def by blast
  have "neighbours h (node_data l t) (node_data r t) \<and>
    node_entries h (node_data l t) @ node_entries h (node_data r t) = node_entries h (node_data l s) @ node_entries h (node_data r s)"
    using shift_right [of h a b] shift_left [of h b a] nbs N(1) pq sz t(1,2)
    by (cases "index = 0") (simp_all add: neighbours_def l r left_frame_def right_frame_def p_def q_def a_def [symmetric] b_def [symmetric])
  then show ?thesis using run t(3) A(1) B(1) by (auto simp: q_def t(1,2) a_def [symmetric] b_def [symmetric])
qed

lemma Coalesce_keeps:
  assumes l: "l = left_frame nb nd index" and r: "r = right_frame nb nd index" and h: "h = ix_hdr s"
    and nbs: "neighbours h (node_data l s) (node_data r s)"
    and room: "GetSize (node_data l s) + GetSize (node_data r s) \<le> GetMaxSize h"
  shows "\<exists>t. Coalesce fuel nb nd parent index s =
          andthen (for_each (maintain_child l) [nat (GetSize (node_data l s))..<nat (GetSize (node_data l s) + GetSize (node_data r s))]) (\<lambda>_.
          andthen (drop_merged (CoalesceOrRedistribute fuel) l r parent (max 1 index)) (\<lambda>b. ret (l, r, b))) t \<and>
        others_kept {l} s t \<and> node_ok h (node_data l t) \<and>
        node_entries h (node_data l t) = node_entries h (node_data l s) @ node_entries h (node_data r s)"
proof -
  note N = neighboursD [OF nbs]
  have sz: "0 \<le> GetSize (node_data l s)" "0 \<le> GetSize (node_data r s)" using N(2,3) by (simp_all add: node_size_ok_def)
  let ?m = "insert_pairs h (nat (GetSize (node_data l s))) (node_keys h (node_data r s)) (node_rids h (node_data r s)) (node_data l s)"
  have "GetSize ?m = GetSize (node_data l s) + int (length (node_keys h (node_data r s)))"
    by (rule insert_pairs_effect(1) [OF N(1,2)]) (use sz room entry_shapes in auto)
  then have "GetSize ?m = GetSize (node_data l s) + GetSize (node_data r s)" using sz by simp
  then show ?thesis
    using Coalesce_run [where s = s and nb = nb and nd = nd and index = index] sz merge_nodes [OF nbs room] unfolding l [symmetric] r [symmetric] h [symmetric]
    by metis
qed

text \<open>
  C24. Balancing and merging neighbours keeps every entry. Let \<open>neighbor_node\<close> stand left of \<open>node\<close>, or right of it when \<open>index\<close> is 0, with all keys of
  the left node below those of the right one. \<open>Redistribute\<close> takes one entry from the neighbour and adds it to \<open>node\<close>, and \<open>Coalesce\<close> adds all
  entries of the right node to the left one, such that the entries of both nodes, read from left to right, are what they were and the nodes
  are sorted; no other node and no header field has changed when \<open>Redistribute\<close> goes on to \<open>maintain_child\<close> for the moved entry and
  \<open>maintain_parent\<close> for the right node, and when \<open>Coalesce\<close> goes on to \<open>maintain_child\<close> for the moved entries and drops the right node.
\<close>

theorem neighbours_keep_entries:
  assumes "l = left_frame nb nd index" and "r = right_frame nb nd index" and "h = ix_hdr s" and "nb \<noteq> nd"
    and "neighbours h (node_data l s) (node_data r s)"
  shows "(0 < GetSize (node_data nb s) \<and> GetSize (node_data nd s) < GetMaxSize h \<longrightarrow>
      (\<exists>t. Redistribute fuel nb nd parent index s =
          andthen (maintain_child nd (if index = 0 then nat (GetSize (node_data nd s)) else 0)) (\<lambda>_. maintain_parent fuel r) t \<and>
        others_kept {nb, nd} s t \<and> neighbours h (node_data l t) (node_data r t) \<and>
        GetSize (node_data nb t) = GetSize (node_data nb s) - 1 \<and> GetSize (node_data nd t) = GetSize (node_data nd s) + 1 \<and>
        node_entries h (node_data l t) @ node_entries h (node_data r t) =
          node_entries h (node_data l s) @ node_entries h (node_data r s))) \<and>
    (GetSize (node_data l s) + GetSize (node_data r s) \<le> GetMaxSize h \<longrightarrow>
      (\<exists>t. Coalesce fuel nb nd parent index s =
          andthen (for_each (maintain_child l) [nat (GetSize (node_data l s))..<nat (GetSize (node_data l s) + GetSize (node_data r s))]) (\<lambda>_.
          andthen (drop_merged (CoalesceOrRedistribute fuel) l r parent (max 1 index)) (\<lambda>b. ret (l, r, b))) t \<and>
        others_kept {l} s t \<and> node_ok h (node_data l t) \<and>
        node_entries h (node_data l t) = node_entries h (node_data l s) @ node_entries h (node_data r s)))"
  using Redistribute_keeps [OF assms] Coalesce_keeps [OF assms(1-3,5)] by blast

definition sample_neighbours :: IxIndexHandle where
  "sample_neighbours = \<lparr>ix_bpm = sample_pool\<lparr>pages := (\<lambda>f. (Page_new 0)\<lparr>pg_data := tree_leaf (if f = 0 then 5 else 9)\<rparr>)\<rparr>,
     ix_fd = 0, ix_hdr = sample_ix\<rparr>"

theorem neighbours_keep_entries_witness:
  "(\<exists>t. Redistribute 3 0 1 2 1 sample_neighbours = andthen (maintain_child 1 0) (\<lambda>_. maintain_parent 3 1) t \<and>
      others_kept {0, 1} sample_neighbours t \<and> neighbours sample_ix (node_data 0 t) (node_data 1 t) \<and>
      GetSize (node_data 0 t) = 0 \<and> GetSize (node_data 1 t) = 2 \<and>
      node_entries sample_ix (node_data 0 t) @ node_entries sample_ix (node_data 1 t) =
        node_entries sample_ix (tree_leaf 5) @ node_entries sample_ix (tree_leaf 9)) \<and>
   (\<exists>t. Coalesce 3 0 1 2 1 sample_neighbours =
        andthen (for_each (maintain_child 0) [1..<2]) (\<lambda>_.
        andthen (drop_merged (CoalesceOrRedistribute 3) 0 1 2 1) (\<lambda>b. ret (0, 1, b))) t \<and>
      others_kept {0} sample_neighbours t \<and> node_ok sample_ix (node_data 0 t) \<and>
      node_entries sample_ix (node_data 0 t) = node_entries sample_ix (tree_leaf 5) @ node_entries sample_ix (tree_leaf 9))"
proof -
  have d: "node_data 0 sample_neighbours = tree_leaf 5" "node_data 1 sample_neighbours = tree_leaf 9" "ix_hdr sample_neighbours = sample_ix"
    by (simp_all add: sample_neighbours_def node_data_def)
  have n: "neighbours sample_ix (tree_leaf 5) (tree_leaf 9)"
    by (auto simp: neighbours_def sample_ix_fits node_ok_def node_size_ok_def GetMaxSize_def node_keys_def leaf_fields is_i32_def
      ixk.increasing_def int_cmp)
  show ?thesis
    using neighbours_keep_entries [of 0 0 1 1 1 sample_ix sample_neighbours 3 2] n
    by (simp add: d [unfolded One_nat_def] left_frame_def right_frame_def leaf_fields is_i32_def GetMaxSize_def upt_rec)
qed

end
