(* ===== verification/Ix_Insert.thy ===== *)
theory Ix_Insert
  imports Ix_Split
begin

text \<open>
  Insertion into a full root leaf: \<open>insert_entry\<close> of \<open>index/ix_index_handle.cpp\<close> through \<open>splitNodeIfFull\<close>, \<open>Split\<close>, \<open>insertLeaf\<close>,
  \<open>InsertIntoParent\<close> and \<open>setNewRoot\<close>, over the buffer pool. The steps are followed by what they do to the nodes that are held: a page that is
  pinned keeps its frame and its bytes through fetches, new pages and unpins of other pages, so each step is described by the pages it touches.
\<close>

section \<open>Pinned frames stay\<close>

lemma UpdatePage_others:
  assumes "UpdatePage f pid f' s = (Inr (), t)"
  shows "g \<noteq> f \<Longrightarrow> pages t g = pages s g"
    and "q \<noteq> pid \<Longrightarrow> q \<noteq> pg_id (pages s f) \<Longrightarrow> page_table t q = page_table s q" and "pool_size t = pool_size s"
  using assms by (auto simp: UpdatePage_def write_back_def disk_write_def table_insert_def andthen_def run_simps upd_frame_def Let_def
      split: if_splits sum.splits prod.splits option.splits)

lemma victim_not_pinned:
  assumes ok: "bpm_inv s" and vic: "FindVictimPage s = (Some k, s1)" and own: "page_table s q = Some g" and pin: "0 < pg_pin (pages s g)"
  shows "g \<noteq> k" and "q \<noteq> pg_id (pages s k)"
proof -
  note V = FindVictimPage_some [OF ok vic] and G = pool_okD(5) [OF ok own]
  show gk: "g \<noteq> k" using V(5) pin by auto
  show "q \<noteq> pg_id (pages s k)"
  proof
    assume q: "q = pg_id (pages s k)"
    have "k \<notin> set (free_list s)" using pool_okD(4) [OF ok, of k] G q invalid_not_usable by metis
    then have "page_table s q = Some k" using pool_okD(6) [OF ok V(2)] q by simp
    then show False using own gk by simp
  qed
qed

lemma FetchPage_stays:
  assumes ok: "bpm_inv s" and run: "FetchPage pid s = (Inr (Some f), t)" and own: "page_table s q = Some g" and pin: "0 < pg_pin (pages s g)"
  shows "page_table t q = Some g \<and> pg_data (pages t g) = pg_data (pages s g) \<and>
    pg_pin (pages t g) = pg_pin (pages s g) + (if q = pid then 1 else 0) \<and> (q = pid \<longrightarrow> f = g)"
proof (cases "page_table s pid")
  case (Some k)
  have f: "f = k" "pages t = (pages s)(k := pg_pin_update (\<lambda>n. n + 1) (pages s k))" "page_table t = page_table s"
    using run Some by (auto simp: FetchPage_def upd_frame_def)
  show ?thesis
  proof (cases "q = pid")
    case True
    then show ?thesis using own Some f by simp
  next
    case False
    then have "g \<noteq> k" using pool_okD(5) [OF ok own] pool_okD(5) [OF ok Some] by blast
    then show ?thesis using own f False by simp
  qed
next
  case None
  obtain v s1 where v: "FindVictimPage s = (v, s1)" by fastforce
  with None run obtain k where k: "v = Some k" by (cases v) (auto simp: FetchPage_def)
  note V = FindVictimPage_some(4) [OF ok v [unfolded k]] and P = victim_not_pinned [OF ok v [unfolded k] own pin]
  let ?load = "if pg_dirty (pages s1 k) then UpdatePage k pid k else modify_st (upd_frame k (pg_id_update (\<lambda>_. pid)))"
  have "andthen ?load (\<lambda>_. andthen (read_frame k) (\<lambda>_ t. (Inr (Some k), upd_frame k (pg_pin_update (\<lambda>n. n + 1))
      (t\<lparr>page_table := table_insert pid k (page_table t), replacer_of := Pin k (replacer_of t)\<rparr>)))) s1 = (Inr (Some f), t)"
    using run None v k by (simp add: FetchPage_def)
  then obtain u w where u: "?load s1 = (Inr (), u)" "read_frame k u = (Inr (), w)"
    and t: "pages t = (pages w)(k := pg_pin_update (\<lambda>n. n + 1) (pages w k))" "page_table t = table_insert pid k (page_table w)"
    by (auto simp: andthen_Inr_iff upd_frame_pages upd_frame_def)
  have s1: "pages s1 = pages s" "page_table s1 = (page_table s)(pg_id (pages s k) := None)" by (subst V, simp)+
  have q: "q \<noteq> pid" using own None by auto
  have "pages u g = pages s g \<and> page_table u q = page_table s q"
    using u(1) UpdatePage_others [of k pid k s1 u] P q s1 by (auto simp: run_simps upd_frame_def split: if_splits)
  moreover have "pages w g = pages u g \<and> page_table w = page_table u"
    using u(2) P(1) by (auto simp: read_frame_def upd_frame_def Let_def split: prod.splits)
  ultimately show ?thesis using t P(1) q own by (simp add: table_insert_def split: option.splits)
qed

lemma NewPage_runs:
  assumes ok: "bpm_inv s" and run: "NewPage fd s = (Inr (Some (f, pid)), t)"
  obtains s1 d u where "FindVictimPage s = (Some f, s1)" and "UpdatePage f pid f (s1\<lparr>disk_manager := d\<rparr>) = (Inr (), u)"
    and "t = upd_frame f (pg_pin_update (\<lambda>_. 1)) (u\<lparr>replacer_of := Pin f (replacer_of u)\<rparr>)"
    and "pages s1 = pages s" and "pool_size s1 = pool_size s" and "page_table s1 = (page_table s)(pg_id (pages s f) := None)"
proof -
  obtain v s1 where v: "FindVictimPage s = (v, s1)" by fastforce
  with run obtain k where k: "v = Some k" by (cases v) (auto simp: NewPage_def)
  note V = FindVictimPage_some(4) [OF ok v [unfolded k]]
  obtain no d where al: "AllocatePage fd (disk_manager s1) = (Inr no, d)"
    using run v k by (auto simp: NewPage_def split: prod.splits sum.splits)
  have "k = f" "pid = \<lparr>pid_fd = fd, pid_no = no\<rparr>" using run v k al by (auto simp: NewPage_def andthen_Inr_iff)
  moreover from this obtain u where "UpdatePage k pid k (s1\<lparr>disk_manager := d\<rparr>) = (Inr (), u)"
    "t = upd_frame k (pg_pin_update (\<lambda>_. 1)) (u\<lparr>replacer_of := Pin k (replacer_of u)\<rparr>)"
    using run v k al by (auto simp: NewPage_def andthen_Inr_iff)
  moreover have "pages s1 = pages s" "pool_size s1 = pool_size s" "page_table s1 = (page_table s)(pg_id (pages s k) := None)" by (subst V, simp)+
  ultimately show ?thesis using that v k by simp
qed

lemma NewPage_stays:
  assumes ok: "bpm_inv s" and run: "NewPage fd s = (Inr (Some (f, pid)), t)"
  shows "pool_size t = pool_size s" and "g \<noteq> f \<Longrightarrow> pages t g = pages s g"
    and "page_table s pid = None \<Longrightarrow> page_table s q = Some g \<Longrightarrow> 0 < pg_pin (pages s g) \<Longrightarrow> page_table t q = Some g \<and> pages t g = pages s g"
proof -
  obtain s1 d u where N: "FindVictimPage s = (Some f, s1)" "UpdatePage f pid f (s1\<lparr>disk_manager := d\<rparr>) = (Inr (), u)"
    "t = upd_frame f (pg_pin_update (\<lambda>_. 1)) (u\<lparr>replacer_of := Pin f (replacer_of u)\<rparr>)"
    "pages s1 = pages s" "pool_size s1 = pool_size s" "page_table s1 = (page_table s)(pg_id (pages s f) := None)"
    by (rule NewPage_runs [OF ok run])
  note U = UpdatePage_others [OF N(2)]
  show "pool_size t = pool_size s" using U(3) N(3,5) by (simp add: upd_frame_def)
  show *: "pages t g = pages s g" if "g \<noteq> f" using U(1) [OF that] that N(3,4) by (simp add: upd_frame_def)
  show "page_table t q = Some g \<and> pages t g = pages s g"
    if a: "page_table s pid = None" "page_table s q = Some g" "0 < pg_pin (pages s g)"
  proof -
    note P = victim_not_pinned [OF ok N(1) a(2,3)]
    have "q \<noteq> pid" using a by auto
    then show ?thesis using U(2) [of q] P * N(3,4,6) a(2) by (simp add: upd_frame_def)
  qed
qed

section \<open>Holding nodes\<close>

text \<open>
  \<open>held s no f k m\<close>: the page \<open>no\<close> of the index is in the frame \<open>f\<close> with at least \<open>k\<close> pins and the bytes \<open>m\<close>. A step is calm outside \<open>D\<close> when
  the nodes held on other pages stay as they are and no page of the index is lost.
\<close>

definition held :: "IxIndexHandle \<Rightarrow> int \<Rightarrow> frame_id \<Rightarrow> int \<Rightarrow> mem \<Rightarrow> bool" where
  "held s no f k m \<longleftrightarrow> page_table (ix_bpm s) (ix_pid s no) = Some f \<and> k \<le> pg_pin (pages (ix_bpm s) f) \<and> node_data f s = m"

definition calm :: "int set \<Rightarrow> IxIndexHandle \<Rightarrow> IxIndexHandle \<Rightarrow> bool" where
  "calm D s t \<longleftrightarrow> ix_inv t \<and> ix_fd t = ix_fd s \<and> pool_size (ix_bpm t) = pool_size (ix_bpm s) \<and> (\<forall>q. ix_has s q \<longrightarrow> ix_has t q) \<and>
     (\<forall>no f k m. no \<notin> D \<longrightarrow> 0 < k \<longrightarrow> held s no f k m \<longrightarrow> held t no f k m)"

text \<open>The next page number the file hands out is \<open>n\<close>, and no page from there on is in the pool.\<close>

definition fresh_from :: "IxIndexHandle \<Rightarrow> int \<Rightarrow> bool" where
  "fresh_from s n \<longleftrightarrow> 0 \<le> n \<and> 0 \<le> ix_fd s \<and> ix_fd s < MAX_FD \<and> fd_ino (disk_manager (ix_bpm s)) (ix_fd s) \<noteq> None \<and>
     fd2pageno (disk_manager (ix_bpm s)) (ix_fd s) = n \<and> (\<forall>q \<ge> n. page_table (ix_bpm s) (ix_pid s q) = None)"

lemma heldD:
  assumes "ix_inv s" and "held s no f k m"
  shows "ix_page s no = trim m" and "ix_has s no" and "GetPageNo f s = no" and "GetPageId f s = ix_pid s no" and "node_data f s = m"
  using assms pool_okD(5) [of "{}" "ix_bpm s" "ix_pid s no" f]
  by (auto simp: held_def ix_page_def page_view_def ix_has_def stored_def ix_inv_def GetPageNo_def GetPageId_def node_data_def ix_pid_def)

lemma held_frame:
  assumes "ix_inv s" and "held s a f k m" and "held s b f k' m'"
  shows "a = b"
  using heldD(3) [OF assms(1,2)] heldD(3) [OF assms(1,3)] by simp

lemma held_weaken: "held s no f k m \<Longrightarrow> k' \<le> k \<Longrightarrow> held s no f k' m"
  by (simp add: held_def)

lemma calm_trans: "calm D s t \<Longrightarrow> calm E t u \<Longrightarrow> calm (D \<union> E) s u"
  by (simp add: calm_def)

lemma ix_pid_eq [simp]: "ix_pid s a = ix_pid s b \<longleftrightarrow> a = b"
  by (simp add: ix_pid_def)

lemma FetchNode_held:
  assumes inv: "ix_inv s" and has: "ix_has s no" and room: "pinned (ix_bpm s) < pool_size (ix_bpm s)"
  obtains f m t where "FetchNode no s = (Inr f, t)" and "calm {no} s t" and "ix_hdr t = ix_hdr s" and "held t no f 1 m"
    and "trim m = ix_page s no" and "pinned (ix_bpm t) \<le> pinned (ix_bpm s) + 1"
    and "\<forall>g k m'. 0 < k \<and> held s no g k m' \<longrightarrow> f = g \<and> m = m' \<and> held t no g (k + 1) m'"
    and "\<forall>n. fresh_from s n \<and> no < n \<longrightarrow> fresh_from t n"
proof -
  have ok: "bpm_inv (ix_bpm s)" and us: "usable (ix_bpm s) (ix_pid s no)" and st: "stored (ix_bpm s) (ix_pid s no)"
    using inv has by (simp_all add: ix_inv_def ix_has_def)
  show ?thesis
  proof (cases rule: FetchPage_ok [OF ok us st])
    case 1
    then show ?thesis using spare_frame [OF ok room] by simp
  next
    case (2 f b)
    let ?t = "s\<lparr>ix_bpm := b\<rparr>" and ?m = "pg_data (pages b f)"
    have pid: "ix_pid ?t = ix_pid s" by (simp add: ix_pid_def fun_eq_iff)
    have run: "FetchNode no s = (Inr f, ?t)"
      using 2(1) by (simp add: FetchNode_def on_bpm_def andthen_def run_simps flip: ix_pid_def)
    have k: "ix_keeps s ?t" using 2(3) by (simp add: ix_keeps_def)
    have inv': "ix_inv ?t" using inv 2(2) by (simp add: ix_inv_def)
    have own: "held ?t no f 1 ?m" using 2(4,5) by (simp add: held_def pid node_data_def)
    have same: "held ?t q g (if q = no then j + 1 else j) m' \<and> (q = no \<longrightarrow> f = g)" if "0 < j" "held s q g j m'" for q g j m'
      using FetchPage_stays [OF ok 2(1), of "ix_pid s q" g] that by (auto simp: held_def pid node_data_def)
    have c: "calm {no} s ?t"
      unfolding calm_def using inv' ix_keepsD(2) [OF k] keepsD(1) [OF 2(3)] same by fastforce
    have again: "f = g \<and> ?m = m' \<and> held ?t no g (j + 1) m'" if "0 < j" "held s no g j m'" for g j m'
      using same [OF that] by (simp add: held_def node_data_def)
    have fr: "fresh_from ?t n" if "fresh_from s n" "no < n" for n
      using that 2(7) keepsD(2) [OF 2(3)] unfolding fresh_from_def by (auto simp: pid same_tables_def)
    show ?thesis
      by (rule that [OF run c _ own]) (use 2(6) FetchPage_pinned [OF 2(1)] keepsD(1) [OF 2(3)] again fr in \<open>auto simp: ix_page_def\<close>)
  qed
qed

lemma on_node_held:
  assumes inv: "ix_inv s" and own: "held s no f k m" and k: "0 < k"
  obtains t where "on_node f g s = (Inr (), t)" and "calm {no} s t" and "ix_hdr t = ix_hdr s" and "held t no f k (g (ix_hdr s) m)"
    and "pinned (ix_bpm t) = pinned (ix_bpm s)" and "\<forall>n. fresh_from s n \<longrightarrow> fresh_from t n"
proof -
  have hn: "holds_node s no f" using own k by (simp add: held_def holds_node_def)
  obtain t where T: "on_node f g s = (Inr (), t)" "ix_inv t" "ix_hdr t = ix_hdr s" "ix_has t = ix_has s"
    using on_node_ok [OF inv hn, of g] by metis
  have t: "t = s\<lparr>ix_bpm := store_page f (g (ix_hdr s) m) (ix_bpm s)\<rparr>"
    using T(1) heldD(5) [OF inv own] by (simp add: on_node_def run_simps)
  have other: "f' \<noteq> f" if "held s q f' j m'" "q \<noteq> no" for q f' j m' using held_frame [OF inv own] that by blast
  have "calm {no} s t"
    using T(2,4) other by (auto simp: calm_def t held_def ix_pid_def node_data_def store_page_def upd_frame_def)
  moreover have "held t no f k (g (ix_hdr s) m)" "pinned (ix_bpm t) = pinned (ix_bpm s)"
    using own by (auto simp: t held_def ix_pid_def node_data_def store_page_def upd_frame_def pinned_def intro!: arg_cong [where f = card])
  moreover have "fresh_from t n" if "fresh_from s n" for n
    using that by (simp add: t fresh_from_def ix_pid_def store_page_def upd_frame_def)
  ultimately show ?thesis using that [OF T(1) _ T(3)] by blast
qed

lemma unpin_node_held:
  assumes inv: "ix_inv s" and own: "held s no f k m" and k: "0 < k"
  obtains t where "unpin_node f True s = (Inr True, t)" and "calm {no} s t" and "ix_hdr t = ix_hdr s" and "held t no f (k - 1) m"
    and "pinned (ix_bpm t) \<le> pinned (ix_bpm s)" and "\<forall>n. fresh_from s n \<longrightarrow> fresh_from t n"
proof -
  have ok: "bpm_inv (ix_bpm s)" and tab: "page_table (ix_bpm s) (ix_pid s no) = Some f" "0 < pg_pin (pages (ix_bpm s) f)"
    using inv own k by (simp_all add: ix_inv_def held_def)
  from UnpinPage_ok [OF ok tab, of True] obtain b where b: "UnpinPage (ix_pid s no) True (ix_bpm s) = (True, b)" "bpm_inv b" "keeps (ix_bpm s) b"
    "page_table b = page_table (ix_bpm s)" "disk_manager b = disk_manager (ix_bpm s)"
    "pages b = (pages (ix_bpm s))(f := (pages (ix_bpm s) f)\<lparr>pg_pin := pg_pin (pages (ix_bpm s) f) - 1, pg_dirty := True\<rparr>)"
    by auto
  let ?t = "s\<lparr>ix_bpm := b\<rparr>"
  have run: "unpin_node f True s = (Inr True, ?t)" using b(1) heldD(4) [OF inv own] by (simp add: unpin_node_def)
  have pid: "ix_pid ?t = ix_pid s" by (simp add: ix_pid_def fun_eq_iff)
  have other: "f' \<noteq> f" if "held s q f' j m'" "q \<noteq> no" for q f' j m' using held_frame [OF inv own] that by blast
  have has: "ix_has ?t q" if "ix_has s q" for q using that ix_keepsD(2) [of s ?t q] b(3) by (simp add: ix_keeps_def)
  have c: "calm {no} s ?t"
    unfolding calm_def using inv b(2) has keepsD(1) [OF b(3)] other
    by (auto simp: ix_inv_def held_def pid node_data_def b(4,6))
  have "pinned b \<le> pinned (ix_bpm s)"
    unfolding pinned_def by (rule card_mono) (auto simp: b(6) keepsD(1) [OF b(3)] split: if_splits)
  then show ?thesis
    by (intro that [OF run c]) (use own b(4,5,6) in \<open>auto simp: held_def pid node_data_def fresh_from_def\<close>)
qed

lemma unpin_node_others:
  assumes inv: "ix_inv s" and own: "held s no f k m" and run: "unpin_node f True s = (r, t)" and other: "held s q f' j m'" "q \<noteq> no"
  shows "held t q f' j m'"
proof -
  have "f' \<noteq> f" using held_frame [OF inv own] other by blast
  then show ?thesis
    using run other(1) heldD(4) [OF inv own] own
    by (auto simp: unpin_node_def UnpinPage_def held_def node_data_def ix_pid_def upd_frame_def Let_def split: option.splits if_splits prod.splits)
qed

lemma CreateNode_held:
  assumes inv: "ix_inv s" and fr: "fresh_from s n" and n: "n < 524288" and room: "pinned (ix_bpm s) < pool_size (ix_bpm s)"
  obtains f t where "CreateNode s = (Inr f, t)" and "calm {n} s t" and "ix_hdr t = ix_num_pages_update (\<lambda>k. to_i32 (k + 1)) (ix_hdr s)"
    and "held t n f 1 zero_mem" and "pinned (ix_bpm t) \<le> pinned (ix_bpm s) + 1" and "fresh_from t (n + 1)"
proof -
  have ok: "bpm_inv (ix_bpm s)" and F: "0 \<le> n" "0 \<le> ix_fd s" "ix_fd s < MAX_FD" "fd_ino (disk_manager (ix_bpm s)) (ix_fd s) \<noteq> None"
    "fd2pageno (disk_manager (ix_bpm s)) (ix_fd s) = n" "\<forall>q \<ge> n. page_table (ix_bpm s) (ix_pid s q) = None"
    using inv fr by (simp_all add: ix_inv_def fresh_from_def)
  have np: "next_page (ix_bpm s) (ix_fd s) = ix_pid s n" by (simp add: next_page_def ix_pid_def F(5))
  have us: "usable (ix_bpm s) (ix_pid s n)" using F n by (simp add: usable_def addressable_def ix_pid_def)
  have none: "page_table (ix_bpm s) (ix_pid s n) = None" using F(6) by simp
  obtain f b where B: "NewPage (ix_fd s) (ix_bpm s) = (Inr (Some (f, ix_pid s n)), b)" "bpm_inv b" "page_table b (ix_pid s n) = Some f"
    "pg_pin (pages b f) = 1" "pg_data (pages b f) = zero_mem" "usable b = usable (ix_bpm s)" "\<And>pid. stored (ix_bpm s) pid \<Longrightarrow> stored b pid"
    "fd2pageno (disk_manager b) (ix_fd s) = to_i32 (n + 1)" "\<And>q. q \<noteq> ix_pid s n \<Longrightarrow> page_table (ix_bpm s) q = None \<Longrightarrow> page_table b q = None"
    using NewPage_some [OF ok spare_frame [OF ok room] F(2,3), unfolded np F(5), OF us none] by metis
  let ?h = "ix_num_pages_update (\<lambda>k. to_i32 (k + 1)) (ix_hdr s)" let ?t = "s\<lparr>ix_hdr := ?h, ix_bpm := b\<rparr>"
  have pid: "ix_pid ?t = ix_pid s" by (simp add: ix_pid_def fun_eq_iff)
  have run: "CreateNode s = (Inr f, ?t)"
    using B(1) by (simp add: CreateNode_def on_ix_hdr_def on_bpm_def andthen_def run_simps)
  note S = NewPage_stays [OF ok B(1)] and keep = NewPage_stays(3) [OF ok B(1) none]
  have c: "calm {n} s ?t"
    unfolding calm_def using inv B(2,6,7) S(1) keep by (auto simp: ix_inv_def hdr_fits_def ix_has_def held_def pid node_data_def)
  have "pinned b \<le> card (insert f {g. g < pool_size (ix_bpm s) \<and> 0 < pg_pin (pages (ix_bpm s) g)})"
    unfolding pinned_def by (rule card_mono) (use S(1,2) in auto)
  then have p: "pinned b \<le> pinned (ix_bpm s) + 1" by (simp add: pinned_def card_insert_if split: if_splits)
  have ino: "fd_ino (disk_manager b) (ix_fd s) \<noteq> None" using B(6) us by (metis ix_pid_def PageId.select_convs(1) usable_def)
  have i: "to_i32 (n + 1) = n + 1" using F(1) n by (simp add: is_i32_def)
  have "fresh_from ?t (n + 1)"
    using F ino B(8,9) by (auto simp: fresh_from_def pid i)
  then show ?thesis
    by (intro that [OF run c]) (use B(3,4,5) p in \<open>simp_all add: held_def pid node_data_def\<close>)
qed

lemma calmD:
  assumes "calm D s t"
  shows "ix_inv t" and "no \<notin> D \<Longrightarrow> 0 < k \<Longrightarrow> held s no f k m \<Longrightarrow> held t no f k m" and "ix_has s q \<Longrightarrow> ix_has t q"
    and "pool_size (ix_bpm t) = pool_size (ix_bpm s)"
  using assms by (simp_all add: calm_def)

section \<open>Headers\<close>

lemma layout_cong:
  assumes "col_type h' = col_type h" and "col_len h' = col_len h" and "btree_order h' = btree_order h" and "keys_size h' = keys_size h"
  shows "get_key h' = get_key h" and "get_rid h' = get_rid h" and "set_key h' = set_key h" and "set_rid h' = set_rid h"
    and "ValueAt h' = ValueAt h" and "GetMaxSize h' = GetMaxSize h" and "is_full h' = is_full h" and "hdr_fits h' = hdr_fits h"
    and "node_keys h' = node_keys h" and "node_rids h' = node_rids h" and "node_entries h' = node_entries h" and "node_ok h' = node_ok h"
proof -
  show k: "get_key h' = get_key h" and r: "get_rid h' = get_rid h" and "set_key h' = set_key h" and "set_rid h' = set_rid h"
    and "GetMaxSize h' = GetMaxSize h" and "is_full h' = is_full h" and "hdr_fits h' = hdr_fits h"
    by (auto simp: fun_eq_iff get_key_def get_rid_def set_key_def set_rid_def key_off_def rid_off_def GetMaxSize_def is_full_def hdr_fits_def assms)
  then show "ValueAt h' = ValueAt h" and nk: "node_keys h' = node_keys h" and nr: "node_rids h' = node_rids h"
    by (simp_all add: fun_eq_iff ValueAt_def node_keys_def node_rids_def)
  then show "node_entries h' = node_entries h" and "node_ok h' = node_ok h"
    using \<open>GetMaxSize h' = GetMaxSize h\<close> by (simp_all add: fun_eq_iff node_entries_def node_ok_def node_size_ok_def assms)
qed

lemmas hdr_num_pages [simp] = layout_cong [where h' = "ix_num_pages_update f h" and h = h for f h, simplified]
lemmas hdr_root_page [simp] = layout_cong [where h' = "root_page_update f h" and h = h for f h, simplified]
lemmas hdr_last_leaf [simp] = layout_cong [where h' = "last_leaf_update f h" and h = h for f h, simplified]

lemma node_links_set:
  "GetSize (SetNextLeaf p m) = GetSize m" "GetSize (SetPrevLeaf p m) = GetSize m" "IsLeafPage (SetNextLeaf p m) = IsLeafPage m"
  "IsLeafPage (SetPrevLeaf p m) = IsLeafPage m" "GetParentPageNo (SetNextLeaf p m) = GetParentPageNo m"
  "GetParentPageNo (SetPrevLeaf p m) = GetParentPageNo m" "GetNextLeaf (SetPrevLeaf p m) = GetNextLeaf m"
  "is_i32 p \<Longrightarrow> GetNextLeaf (SetNextLeaf p m) = p" "GetNextLeaf (SetParentPageNo p m) = GetNextLeaf m"
  by (auto simp: SetNextLeaf_def SetPrevLeaf_def SetParentPageNo_def GetSize_def IsLeafPage_def GetParentPageNo_def GetNextLeaf_def mem_simps
    intro!: get_i32_cong)

lemma node_lists_set:
  assumes "\<And>i. sizeof_IxPageHdr \<le> i \<Longrightarrow> m' i = m i" and "GetSize m' = GetSize m"
  shows "node_keys h m' = node_keys h m" and "node_rids h m' = node_rids h m" and "node_entries h m' = node_entries h m" and "node_ok h m' = node_ok h m"
    and "get_key h m' i = get_key h m i" and "get_rid h m' i = get_rid h m i"
proof -
  have "get_key h m' i = get_key h m i" "get_rid h m' i = get_rid h m i" for i
    using assms(1) by (auto simp: get_key_def get_rid_def key_off_def rid_off_def intro!: mread_cong get_i32_cong)
  then show "node_keys h m' = node_keys h m" "node_rids h m' = node_rids h m" "get_key h m' i = get_key h m i" "get_rid h m' i = get_rid h m i"
    by (simp_all add: node_keys_def node_rids_def assms(2))
  then show "node_entries h m' = node_entries h m" and "node_ok h m' = node_ok h m"
    by (simp_all add: node_entries_def node_ok_def node_size_ok_def assms(2))
qed

lemma header_bytes:
  "sizeof_IxPageHdr \<le> i \<Longrightarrow> SetNextLeaf p m i = m i" "sizeof_IxPageHdr \<le> i \<Longrightarrow> SetPrevLeaf p m i = m i"
  "sizeof_IxPageHdr \<le> i \<Longrightarrow> SetParentPageNo p m i = m i" "sizeof_IxPageHdr \<le> i \<Longrightarrow> SetSize n m i = m i" "sizeof_IxPageHdr \<le> i \<Longrightarrow> set_leaf b m i = m i"
  by (simp_all add: SetNextLeaf_def SetPrevLeaf_def SetParentPageNo_def SetSize_def set_leaf_def put_i32_def mwrite_def sizeof_IxPageHdr_def)

lemmas next_leaf_lists [simp] = node_lists_set [where m' = "SetNextLeaf p m" and m = m for p m, OF header_bytes(1) node_links_set(1)]
lemmas prev_leaf_lists [simp] = node_lists_set [where m' = "SetPrevLeaf p m" and m = m for p m, OF header_bytes(2) node_links_set(2)]
lemmas parent_lists [simp] = node_lists_set [where m' = "SetParentPageNo p m" and m = m for p m, OF header_bytes(3) set_leaf_links(2)]

lemmas node_fields_set [simp] = node_links_set set_leaf_links

section \<open>Splitting a leaf\<close>

text \<open>What \<open>Split\<close> leaves of a leaf \<open>m\<close>: the halves \<open>m'\<close> and \<open>new'\<close>.\<close>

definition halves :: "IxFileHdr \<Rightarrow> mem \<Rightarrow> mem \<Rightarrow> mem \<Rightarrow> bool" where
  "halves h m m' new' \<longleftrightarrow> node_ok h m' \<and> node_ok h new' \<and> node_entries h m' @ node_entries h new' = node_entries h m \<and>
     IsLeafPage m' = IsLeafPage m \<and> IsLeafPage new' = IsLeafPage m \<and> GetParentPageNo m' = GetParentPageNo m \<and>
     GetParentPageNo new' = GetParentPageNo m \<and> (is_full h m \<longrightarrow> GetMinSize h \<le> GetSize m' \<and> GetMinSize h \<le> GetSize new')"

lemma halves_links:
  "halves h m m' new' \<Longrightarrow> halves h m (SetNextLeaf p m') (SetPrevLeaf q (SetNextLeaf r new'))"
  by (simp add: halves_def)

lemma distribute_nodes_held:
  assumes inv: "ix_inv s" and own: "held s p g k m" "0 < k" and new: "held s n f j m0" "0 < j" "n \<noteq> p" and ok: "node_ok (ix_hdr s) m"
  obtains t m' new' where "distribute_nodes f g s = (Inr (), t)" and "calm {p, n} s t" and "ix_hdr t = ix_hdr s" and "held t p g k m'" and "held t n f j new'"
    and "halves (ix_hdr s) m m' new'" and "node_links m' = node_links m" and "pinned (ix_bpm t) = pinned (ix_bpm s)"
    and "\<forall>q. fresh_from s q \<longrightarrow> fresh_from t q"
proof -
  obtain new' m' where E: "evenlyDistributePairs (ix_hdr s) m0 m = (new', m')" by fastforce
  have hf: "hdr_fits (ix_hdr s)" using inv by (simp add: ix_inv_def)
  note H = evenlyDistributePairs_splits [OF hf ok E]
  obtain t where T: "on_node g (\<lambda>_ _. m') s = (Inr (), t)" "calm {p} s t" "ix_hdr t = ix_hdr s" "held t p g k m'"
    "pinned (ix_bpm t) = pinned (ix_bpm s)" "\<forall>q. fresh_from s q \<longrightarrow> fresh_from t q"
    by (rule on_node_held [OF inv own, of "\<lambda>_ _. m'"])
  have nt: "held t n f j m0" using calmD(2) [OF T(2)] new by simp
  obtain u where U: "on_node f (\<lambda>_ _. new') t = (Inr (), u)" "calm {n} t u" "ix_hdr u = ix_hdr t" "held u n f j new'"
    "pinned (ix_bpm u) = pinned (ix_bpm t)" "\<forall>q. fresh_from t q \<longrightarrow> fresh_from u q"
    by (rule on_node_held [OF calmD(1) [OF T(2)] nt new(2), of "\<lambda>_ _. new'"])
  have "distribute_nodes f g s = (Inr (), u)"
    using T(1) U(1) E heldD(5) [OF inv own(1)] heldD(5) [OF inv new(1)] by (simp add: distribute_nodes_def andthen_def)
  moreover have "held u p g k m'" using calmD(2) [OF U(2)] T(4) own(2) new(3) by simp
  moreover have "calm {p, n} s u" using calm_trans [OF T(2) U(2)] by (simp add: insert_commute)
  moreover have "halves (ix_hdr s) m m' new'" using H by (auto simp: halves_def node_links_def)
  ultimately show ?thesis using that [of u m' new'] H T(3,5,6) U(3-6) by simp
qed

lemma relink_next_held:
  assumes inv: "ix_inv s" and has: "p \<noteq> INVALID_PAGE_ID \<Longrightarrow> ix_has s p" and room: "pinned (ix_bpm s) < pool_size (ix_bpm s)"
  obtains t where "(if p \<noteq> INVALID_PAGE_ID then
       andthen (FetchNode p) (\<lambda>nextNode.
       andthen (\<lambda>t. on_node nextNode (\<lambda>_. SetPrevLeaf (GetPageNo f t)) t) (\<lambda>_.
       andthen (unpin_node nextNode True) (\<lambda>_. ret ()))) s
     else ret () s) = (Inr (), t)" and "calm {p} s t" and "ix_hdr t = ix_hdr s" and "pinned (ix_bpm t) \<le> pinned (ix_bpm s) + 1"
    and "\<forall>n. fresh_from s n \<and> p < n \<longrightarrow> fresh_from t n"
proof (cases "p = INVALID_PAGE_ID")
  case True
  then show ?thesis using that [of s] inv by (simp add: run_simps calm_def)
next
  case False
  obtain x m t where T: "FetchNode p s = (Inr x, t)" "calm {p} s t" "ix_hdr t = ix_hdr s" "held t p x 1 m" "trim m = ix_page s p"
    "pinned (ix_bpm t) \<le> pinned (ix_bpm s) + 1" "\<forall>g k m'. 0 < k \<and> held s p g k m' \<longrightarrow> x = g \<and> m = m' \<and> held t p g (k + 1) m'"
    "\<forall>n. fresh_from s n \<and> p < n \<longrightarrow> fresh_from t n"
    by (rule FetchNode_held [OF inv has [OF False] room])
  obtain u where U: "on_node x (\<lambda>_. SetPrevLeaf (GetPageNo f t)) t = (Inr (), u)" "calm {p} t u" "ix_hdr u = ix_hdr t"
    "held u p x 1 (SetPrevLeaf (GetPageNo f t) m)" "pinned (ix_bpm u) = pinned (ix_bpm t)" "\<forall>q. fresh_from t q \<longrightarrow> fresh_from u q"
    by (rule on_node_held [OF calmD(1) [OF T(2)] T(4) zero_less_one])
  obtain v where V: "unpin_node x True u = (Inr True, v)" "calm {p} u v" "ix_hdr v = ix_hdr u" "held v p x (1 - 1) (SetPrevLeaf (GetPageNo f t) m)" "pinned (ix_bpm v) \<le> pinned (ix_bpm u)"
    "\<forall>q. fresh_from u q \<longrightarrow> fresh_from v q"
    by (rule unpin_node_held [OF calmD(1) [OF U(2)] U(4) zero_less_one])
  have "calm {p} s v" using calm_trans [OF calm_trans [OF T(2) U(2)] V(2)] by simp
  then show ?thesis
    using that [of v] False T U V by (simp add: andthen_def run_simps)
qed

lemma Split_leaf_held:
  assumes inv: "ix_inv s" and own: "held s p g k m" "0 < k" and ok: "node_ok (ix_hdr s) m" and leaf: "IsLeafPage m"
    and fr: "fresh_from s n" and lt: "p < n" "n < 524288" "GetNextLeaf m < n" and nx: "GetNextLeaf m \<noteq> INVALID_PAGE_ID \<Longrightarrow> ix_has s (GetNextLeaf m)" "GetNextLeaf m \<noteq> p"
    and room: "pinned (ix_bpm s) + 1 < pool_size (ix_bpm s)"
  obtains f t m' new' where "Split g s = (Inr f, t)" and "calm {p, n, GetNextLeaf m} s t" and "ix_hdr t = ix_num_pages_update (\<lambda>k. to_i32 (k + 1)) (ix_hdr s)"
    and "held t p g k m'" and "held t n f 1 new'" and "halves (ix_hdr s) m m' new'" and "fresh_from t (n + 1)"
    and "pinned (ix_bpm t) \<le> pinned (ix_bpm s) + 2"
proof -
  have lt': "pinned (ix_bpm s) < pool_size (ix_bpm s)" using room by simp
  obtain f s1 where C: "CreateNode s = (Inr f, s1)" "calm {n} s s1" "ix_hdr s1 = ix_num_pages_update (\<lambda>k. to_i32 (k + 1)) (ix_hdr s)"
    "held s1 n f 1 zero_mem" "pinned (ix_bpm s1) \<le> pinned (ix_bpm s) + 1" "fresh_from s1 (n + 1)"
    by (rule CreateNode_held [OF inv fr lt(2) lt'])
  have own1: "held s1 p g k m" using calmD(2) [OF C(2)] own lt by simp
  obtain s2 m1 new1 where D: "distribute_nodes f g s1 = (Inr (), s2)" "calm {p, n} s1 s2" "ix_hdr s2 = ix_hdr s1" "held s2 p g k m1" "held s2 n f 1 new1"
    "halves (ix_hdr s1) m m1 new1" "node_links m1 = node_links m" "pinned (ix_bpm s2) = pinned (ix_bpm s1)" "\<forall>q. fresh_from s1 q \<longrightarrow> fresh_from s2 q"
    using distribute_nodes_held [OF calmD(1) [OF C(2)] own1 own(2) C(4)] lt(1) ok C(3) by auto
  have nx1: "GetNextLeaf m1 = GetNextLeaf m" using D(7) by (simp add: node_links_def)
  have inv2: "ix_inv s2" by (rule calmD(1) [OF D(2)])
  obtain s3 where N: "on_node f (\<lambda>_. SetNextLeaf (GetNextLeaf (node_data g s2))) s2 = (Inr (), s3)" "calm {n} s2 s3" "ix_hdr s3 = ix_hdr s2"
    "held s3 n f 1 (SetNextLeaf (GetNextLeaf m) new1)" "pinned (ix_bpm s3) = pinned (ix_bpm s2)" "\<forall>q. fresh_from s2 q \<longrightarrow> fresh_from s3 q"
    using on_node_held [OF inv2 D(5), of "\<lambda>_. SetNextLeaf (GetNextLeaf (node_data g s2))"] heldD(5) [OF inv2 D(4)] nx1 by auto
  have inv3: "ix_inv s3" and own3: "held s3 p g k m1" using calmD(1,2) [OF N(2)] D(4) own(2) lt(1) by auto
  obtain s4 where P: "on_node f (\<lambda>_. SetPrevLeaf (GetPageNo g s3)) s3 = (Inr (), s4)" "calm {n} s3 s4" "ix_hdr s4 = ix_hdr s3"
    "held s4 n f 1 (SetPrevLeaf p (SetNextLeaf (GetNextLeaf m) new1))" "pinned (ix_bpm s4) = pinned (ix_bpm s3)" "\<forall>q. fresh_from s3 q \<longrightarrow> fresh_from s4 q"
    using on_node_held [OF inv3 N(4), of "\<lambda>_. SetPrevLeaf (GetPageNo g s3)"] heldD(3) [OF inv3 own3] by auto
  have inv4: "ix_inv s4" and own4: "held s4 p g k m1" using calmD(1,2) [OF P(2)] own3 own(2) lt(1) by auto
  let ?new = "SetPrevLeaf p (SetNextLeaf (GetNextLeaf m) new1)" and ?m = "SetNextLeaf n m1"
  obtain s5 where O: "on_node g (\<lambda>_. SetNextLeaf (GetPageNo f s4)) s4 = (Inr (), s5)" "calm {p} s4 s5" "ix_hdr s5 = ix_hdr s4"
    "held s5 p g k ?m" "pinned (ix_bpm s5) = pinned (ix_bpm s4)" "\<forall>q. fresh_from s4 q \<longrightarrow> fresh_from s5 q"
    using on_node_held [OF inv4 own4 own(2), of "\<lambda>_. SetNextLeaf (GetPageNo f s4)"] heldD(3) [OF inv4 P(4)] by auto
  have inv5: "ix_inv s5" and new5: "held s5 n f 1 ?new" using calmD(1,2) [OF O(2)] P(4) lt(1) by auto
  have link: "GetNextLeaf (node_data f s5) = GetNextLeaf m" using heldD(5) [OF inv5 new5] by (simp add: GetNextLeaf_def SetNextLeaf_def SetPrevLeaf_def mem_simps)
  have c5: "calm {p, n} s s5"
    using calm_trans [OF calm_trans [OF calm_trans [OF calm_trans [OF C(2) D(2)] N(2)] P(2)] O(2)] by (simp add: insert_commute)
  have has5: "ix_has s5 (GetNextLeaf m)" if "GetNextLeaf m \<noteq> INVALID_PAGE_ID" using calmD(3) [OF c5] nx(1) [OF that] .
  have room5: "pinned (ix_bpm s5) < pool_size (ix_bpm s5)" using calmD(4) [OF c5] C(5) D(8) N(5) P(5) O(5) room by simp
  obtain s6 where R: "(if GetNextLeaf m \<noteq> INVALID_PAGE_ID then
       andthen (FetchNode (GetNextLeaf m)) (\<lambda>nextNode.
       andthen (\<lambda>t. on_node nextNode (\<lambda>_. SetPrevLeaf (GetPageNo f t)) t) (\<lambda>_.
       andthen (unpin_node nextNode True) (\<lambda>_. ret ()))) s5
     else ret () s5) = (Inr (), s6)" "calm {GetNextLeaf m} s5 s6" "ix_hdr s6 = ix_hdr s5" "pinned (ix_bpm s6) \<le> pinned (ix_bpm s5) + 1"
    "\<forall>q. fresh_from s5 q \<and> GetNextLeaf m < q \<longrightarrow> fresh_from s6 q"
    by (rule relink_next_held [OF inv5 has5 room5, where f = f])
  have first: "andthen (\<lambda>s. on_node f (\<lambda>_. SetNextLeaf (GetNextLeaf (node_data g s))) s) K s2 = K () s3" for K by (simp add: andthen_def N(1))
  have second: "andthen (andthen (\<lambda>s. on_node f (\<lambda>_. SetPrevLeaf (GetPageNo g s)) s) (\<lambda>_ s. on_node g (\<lambda>_. SetNextLeaf (GetPageNo f s)) s)) K s3 = K () s5" for K
    by (simp add: andthen_def P(1) O(1))
  have il: "insertLeaf g f True s2 = (Inr (), s6)"
    unfolding insertLeaf_def if_True first second link by (rule R(1))
  have "IsLeafPage (node_data f s2)" using heldD(5) [OF inv2 D(5)] D(6) leaf by (simp add: halves_def)
  then have run: "Split g s = (Inr f, s6)" using C(1) D(1) il by (simp add: Split_def andthen_def run_simps)
  have "held s6 p g k ?m" "held s6 n f 1 ?new" using calmD(2) [OF R(2)] O(4) new5 own(2) nx(2) lt(3) by auto
  moreover have "calm {p, n, GetNextLeaf m} s s6" using calm_trans [OF c5 R(2)] by (simp add: insert_commute)
  moreover have "fresh_from s6 (n + 1)" using R(5) O(6) P(6) N(6) D(9) C(6) lt(3) by simp
  moreover have "halves (ix_hdr s) m ?m ?new" using halves_links [OF D(6)] by (simp add: C(3) halves_def GetMinSize_def)
  ultimately show ?thesis
    using that [OF run] C(3,5) D(3,8) N(3,5) P(3,5) O(3,5) R(3,4) by simp
qed

section \<open>A new root\<close>

lemma hdr_update_calm:
  assumes "ix_inv s" and "hdr_fits (F (ix_hdr s)) = hdr_fits (ix_hdr s)"
  obtains t where "on_ix_hdr F s = (Inr (), t)" and "calm {} s t" and "ix_hdr t = F (ix_hdr s)" and "pinned (ix_bpm t) = pinned (ix_bpm s)"
    and "\<forall>n. fresh_from s n \<longrightarrow> fresh_from t n"
proof -
  let ?t = "s\<lparr>ix_hdr := F (ix_hdr s)\<rparr>"
  have pid: "ix_pid ?t = ix_pid s" by (simp add: ix_pid_def fun_eq_iff)
  show ?thesis
    by (rule that [of ?t]) (use assms in \<open>auto simp: on_ix_hdr_def run_simps calm_def ix_inv_def ix_has_def held_def node_data_def fresh_from_def pid\<close>)
qed

lemma maintain_child_held:
  assumes inv: "ix_inv s" and par: "held s no x k0 M" "\<not> IsLeafPage M" and c: "ValueAt (ix_hdr s) M i = c"
    and child: "held s c g k m" "0 < k" and ne: "c \<noteq> no" "0 < k0" and room: "pinned (ix_bpm s) < pool_size (ix_bpm s)"
  obtains t where "maintain_child x i s = (Inr (), t)" and "calm {c} s t" and "ix_hdr t = ix_hdr s" and "held t c g k (SetParentPageNo no m)"
    and "pinned (ix_bpm t) \<le> pinned (ix_bpm s) + 1" and "\<forall>n. fresh_from s n \<and> c < n \<longrightarrow> fresh_from t n"
proof -
  obtain f m' t where T: "FetchNode c s = (Inr f, t)" "calm {c} s t" "ix_hdr t = ix_hdr s" "held t c f 1 m'" "trim m' = ix_page s c"
    "pinned (ix_bpm t) \<le> pinned (ix_bpm s) + 1" "\<forall>g k m''. 0 < k \<and> held s c g k m'' \<longrightarrow> f = g \<and> m' = m'' \<and> held t c g (k + 1) m''"
    "\<forall>n. fresh_from s n \<and> c < n \<longrightarrow> fresh_from t n"
    by (rule FetchNode_held [OF inv heldD(2) [OF inv child(1)] room])
  have f: "f = g" "held t c g (k + 1) m" using T(7) child by auto
  have k1: "0 < k + 1" using child by simp
  have inv1: "ix_inv t" by (rule calmD(1) [OF T(2)])
  have "held t no x k0 M" using calmD(2) [OF T(2)] par(1) ne by simp
  then have no: "GetPageNo x t = no" by (rule heldD(3) [OF inv1])
  obtain u where U: "on_node g (\<lambda>_. SetParentPageNo (GetPageNo x t)) t = (Inr (), u)" "calm {c} t u" "ix_hdr u = ix_hdr t"
    "held u c g (k + 1) (SetParentPageNo (GetPageNo x t) m)" "pinned (ix_bpm u) = pinned (ix_bpm t)" "\<forall>q. fresh_from t q \<longrightarrow> fresh_from u q"
    by (rule on_node_held [OF inv1 f(2) k1])
  obtain v where V: "unpin_node g True u = (Inr True, v)" "calm {c} u v" "ix_hdr v = ix_hdr u"
    "held v c g (k + 1 - 1) (SetParentPageNo (GetPageNo x t) m)" "pinned (ix_bpm v) \<le> pinned (ix_bpm u)" "\<forall>q. fresh_from u q \<longrightarrow> fresh_from v q"
    by (rule unpin_node_held [OF calmD(1) [OF U(2)] U(4) k1])
  have run: "maintain_child x i s = (Inr (), v)"
    using T(1) U(1) V(1) par(2) c heldD(5) [OF inv par(1)] by (simp add: maintain_child_def f(1) andthen_def run_simps)
  have "calm {c} s v" using calm_trans [OF calm_trans [OF T(2) U(2)] V(2)] by simp
  then show ?thesis by (rule that [OF run]) (use T U V no in auto)
qed

definition root_over :: "IxFileHdr \<Rightarrow> int \<Rightarrow> mem \<Rightarrow> int \<Rightarrow> mem \<Rightarrow> mem \<Rightarrow> mem" where
  "root_over h p l n r m = set_rid h 1 \<lparr>rid_page = n, rid_slot = -1\<rparr> (set_key h 1 (get_key h r 0)
     (set_rid h 0 \<lparr>rid_page = p, rid_slot = -1\<rparr> (set_key h 0 (get_key h l 0) (SetParentPageNo INVALID_PAGE_ID (SetSize 2 (set_leaf False m))))))"

lemma root_over_fields:
  assumes h: "hdr_fits h" and b: "1 \<le> btree_order h" and i: "is_i32 p" "is_i32 n"
  shows "GetSize (root_over h p l n r m) = 2" and "\<not> IsLeafPage (root_over h p l n r m)"
    and "get_key h (root_over h p l n r m) 0 = get_key h l 0" and "get_key h (root_over h p l n r m) 1 = get_key h r 0"
    and "ValueAt h (root_over h p l n r m) 0 = p" and "ValueAt h (root_over h p l n r m) 1 = n"
proof -
  let ?M = "SetParentPageNo INVALID_PAGE_ID (SetSize 2 (set_leaf False m))"
  have low: "root_over h p l n r m j = ?M j" if "j < sizeof_IxPageHdr" for j
    using that by (simp add: root_over_def set_rid_def set_key_def mwrite_def rid_off_def key_off_def)
  have M: "GetSize (root_over h p l n r m) = GetSize ?M" "IsLeafPage (root_over h p l n r m) = IsLeafPage ?M"
    using node_header_cong(1) [OF low] leaf_links [OF node_header_cong(2) [OF low]] by simp_all
  show "GetSize (root_over h p l n r m) = 2" "\<not> IsLeafPage (root_over h p l n r m)"
    by (simp_all add: M SetSize_effect is_i32_def)
  show "get_key h (root_over h p l n r m) 0 = get_key h l 0" "get_key h (root_over h p l n r m) 1 = get_key h r 0"
    "ValueAt h (root_over h p l n r m) 0 = p" "ValueAt h (root_over h p l n r m) 1 = n"
    using h b i by (simp_all add: root_over_def ValueAt_def get_key_mwrite_rid get_key_set_key get_rid_set_key get_rid_set_rid rid_i32_def is_i32_def)
qed

lemma setNewRoot_held:
  assumes inv: "ix_inv s" and root: "held s no x 1 m0" and l: "held s p g k m" "0 < k" and r: "held s n f j new" "0 < j"
    and b: "1 \<le> btree_order (ix_hdr s)" and ne: "p \<noteq> n" "p \<noteq> no" "n \<noteq> no" and i32: "is_i32 p" "is_i32 n"
    and room: "pinned (ix_bpm s) + 1 < pool_size (ix_bpm s)"
  obtains t where "setNewRoot x g f s = (Inr (), t)" and "calm {no, p, n} s t" and "ix_hdr t = (ix_hdr s)\<lparr>root_page := no\<rparr>"
    and "held t no x 0 (root_over (ix_hdr s) p m n new m0)" and "held t p g k (SetParentPageNo no m)" and "held t n f j (SetParentPageNo no new)"
proof -
  let ?h = "ix_hdr s" and ?M1 = "SetParentPageNo INVALID_PAGE_ID (SetSize 2 (set_leaf False m0))" let ?M = "root_over ?h p m n new m0"
  obtain s1 where A: "on_node x (\<lambda>_ m. SetParentPageNo INVALID_PAGE_ID (SetSize 2 (set_leaf False m))) s = (Inr (), s1)" "calm {no} s s1"
    "ix_hdr s1 = ix_hdr s" "held s1 no x 1 ?M1" "pinned (ix_bpm s1) = pinned (ix_bpm s)" "\<forall>q. fresh_from s q \<longrightarrow> fresh_from s1 q"
    by (rule on_node_held [OF inv root zero_less_one, of "\<lambda>_ m. SetParentPageNo INVALID_PAGE_ID (SetSize 2 (set_leaf False m))"])
  obtain s2 where B: "on_ix_hdr (root_page_update (\<lambda>_. no)) s1 = (Inr (), s2)" "calm {} s1 s2" "ix_hdr s2 = (ix_hdr s1)\<lparr>root_page := no\<rparr>"
    "pinned (ix_bpm s2) = pinned (ix_bpm s1)" "\<forall>q. fresh_from s1 q \<longrightarrow> fresh_from s2 q"
    by (rule hdr_update_calm [OF calmD(1) [OF A(2)], of "root_page_update (\<lambda>_. no)"]) simp_all
  have inv1: "ix_inv s1" and inv2: "ix_inv s2" by (rule calmD(1) [OF A(2)], rule calmD(1) [OF B(2)])
  have h2: "held s2 no x 1 ?M1" "held s2 p g k m" "held s2 n f j new"
    using calmD(2) [OF A(2)] calmD(2) [OF B(2)] A(4) l r ne by auto
  let ?W = "\<lambda>s h m. set_rid h 1 \<lparr>rid_page = GetPageNo f s, rid_slot = -1\<rparr> (set_key h 1 (get_key h (node_data f s) 0)
           (set_rid h 0 \<lparr>rid_page = GetPageNo g s, rid_slot = -1\<rparr> (set_key h 0 (get_key h (node_data g s) 0) m)))"
  obtain s3 where C: "on_node x (?W s2) s2 = (Inr (), s3)" "calm {no} s2 s3" "ix_hdr s3 = ix_hdr s2" "held s3 no x 1 (?W s2 (ix_hdr s2) ?M1)"
    "pinned (ix_bpm s3) = pinned (ix_bpm s2)" "\<forall>q. fresh_from s2 q \<longrightarrow> fresh_from s3 q"
    by (rule on_node_held [OF inv2 h2(1) zero_less_one, of "?W s2"])
  have M: "?W s2 (ix_hdr s2) ?M1 = ?M"
    using heldD(3,5) [OF inv2 h2(2)] heldD(3,5) [OF inv2 h2(3)] by (simp add: root_over_def B(3) A(3))
  have inv3: "ix_inv s3" by (rule calmD(1) [OF C(2)])
  have hs: "hdr_fits ?h" using inv by (simp add: ix_inv_def)
  note RF = root_over_fields [OF hs b i32, of m new m0]
  have h3: "held s3 no x 1 ?M" "held s3 p g k m" "held s3 n f j new" using C(4) M calmD(2) [OF C(2)] h2 l r ne by auto
  have hd3: "ix_hdr s3 = ?h\<lparr>root_page := no\<rparr>" using A(3) B(3) C(3) by simp
  have ps: "pool_size (ix_bpm s3) = pool_size (ix_bpm s)" using calmD(4) [OF A(2)] calmD(4) [OF B(2)] calmD(4) [OF C(2)] by simp
  have pn: "pinned (ix_bpm s3) = pinned (ix_bpm s)" using A(5) B(4) C(5) by simp
  obtain s4 where D: "maintain_child x 0 s3 = (Inr (), s4)" "calm {p} s3 s4" "ix_hdr s4 = ix_hdr s3" "held s4 p g k (SetParentPageNo no m)"
    "pinned (ix_bpm s4) \<le> pinned (ix_bpm s3) + 1" "\<forall>q. fresh_from s3 q \<and> p < q \<longrightarrow> fresh_from s4 q"
    by (rule maintain_child_held [OF inv3 h3(1) RF(2) _ h3(2) l(2) ne(2) zero_less_one]) (use RF(5) room ps pn in \<open>simp_all add: hd3\<close>)
  have inv4: "ix_inv s4" by (rule calmD(1) [OF D(2)])
  have h4: "held s4 no x 1 ?M" "held s4 n f j new" using calmD(2) [OF D(2)] h3 r ne by auto
  obtain s5 where E: "maintain_child x 1 s4 = (Inr (), s5)" "calm {n} s4 s5" "ix_hdr s5 = ix_hdr s4" "held s5 n f j (SetParentPageNo no new)"
    "pinned (ix_bpm s5) \<le> pinned (ix_bpm s4) + 1" "\<forall>q. fresh_from s4 q \<and> n < q \<longrightarrow> fresh_from s5 q"
    by (rule maintain_child_held [OF inv4 h4(1) RF(2) _ h4(2) r(2) ne(3) zero_less_one])
      (use RF(6) room ps pn D(3,5) calmD(4) [OF D(2)] in \<open>simp_all add: hd3\<close>)
  have inv5: "ix_inv s5" by (rule calmD(1) [OF E(2)])
  have h5: "held s5 no x 1 ?M" "held s5 p g k (SetParentPageNo no m)" using calmD(2) [OF E(2)] h4 D(4) l ne by auto
  obtain s6 where F: "unpin_node x True s5 = (Inr True, s6)" "calm {no} s5 s6" "ix_hdr s6 = ix_hdr s5" "held s6 no x (1 - 1) ?M"
    "pinned (ix_bpm s6) \<le> pinned (ix_bpm s5)" "\<forall>q. fresh_from s5 q \<longrightarrow> fresh_from s6 q"
    by (rule unpin_node_held [OF inv5 h5(1) zero_less_one])
  have two: "[0..<nat (GetSize (node_data x s3))] = [0, 1]" using heldD(5) [OF inv3 h3(1)] RF(1) by (simp add: upt_rec numeral_2_eq_2)
  have run: "setNewRoot x g f s = (Inr (), s6)"
    using A(1) B(1) C(1) D(1) E(1) F(1) heldD(3) [OF inv1 A(4)] two
    by (simp add: setNewRoot_def UpdateRootPageNo_def andthen_def run_simps del: upt_rec_numeral)
  have "calm {no, p, n} s s6"
    using calm_trans [OF calm_trans [OF calm_trans [OF calm_trans [OF calm_trans [OF A(2) B(2)] C(2)] D(2)] E(2)] F(2)] by (simp add: insert_commute)
  then show ?thesis
    by (rule that [OF run]) (use F(3,4) calmD(2) [OF F(2)] h5(2) E(3,4) D(3) hd3 l r ne in auto)
qed

section \<open>Inserting into a full root leaf\<close>

lemma InsertIntoParent_root:
  assumes inv: "ix_inv s" and l: "held s p g k m" "0 < k" and root: "GetParentPageNo m = INVALID_PAGE_ID" and r: "held s n f j new" "0 < j"
    and fr: "fresh_from s no" and lt: "p < no" "n < no" "no < 524288" and b: "1 \<le> btree_order (ix_hdr s)" and ne: "p \<noteq> n" and i32: "is_i32 p" "is_i32 n"
    and room: "pinned (ix_bpm s) + 2 < pool_size (ix_bpm s)"
  obtains x t where "InsertIntoParent (Suc fuel) g (f, 0) f s = (Inr (), t)" and "calm {no, p, n} s t"
    and "ix_hdr t = (ix_num_pages_update (\<lambda>k. to_i32 (k + 1)) (ix_hdr s))\<lparr>root_page := no\<rparr>"
    and "held t no x 0 (root_over (ix_hdr s) p m n new zero_mem)" and "held t p g k (SetParentPageNo no m)" and "held t n f j (SetParentPageNo no new)"
proof -
  have lt': "pinned (ix_bpm s) < pool_size (ix_bpm s)" using room by simp
  obtain x s1 where C: "CreateNode s = (Inr x, s1)" "calm {no} s s1" "ix_hdr s1 = ix_num_pages_update (\<lambda>k. to_i32 (k + 1)) (ix_hdr s)"
    "held s1 no x 1 zero_mem" "pinned (ix_bpm s1) \<le> pinned (ix_bpm s) + 1" "fresh_from s1 (no + 1)"
    by (rule CreateNode_held [OF inv fr lt(3) lt'])
  have h1: "held s1 p g k m" "held s1 n f j new" using calmD(2) [OF C(2)] l r lt by auto
  have b1: "1 \<le> btree_order (ix_hdr s1)" using b C(3) by simp
  obtain t where T: "setNewRoot x g f s1 = (Inr (), t)" "calm {no, p, n} s1 t" "ix_hdr t = (ix_hdr s1)\<lparr>root_page := no\<rparr>"
    "held t no x 0 (root_over (ix_hdr s1) p m n new zero_mem)" "held t p g k (SetParentPageNo no m)" "held t n f j (SetParentPageNo no new)"
    by (rule setNewRoot_held [OF calmD(1) [OF C(2)] C(4) h1(1) l(2) h1(2) r(2) b1 ne]) (use lt i32 C(5) room calmD(4) [OF C(2)] in simp_all)
  have "IsRootPage (node_data g s)" using root heldD(5) [OF inv l(1)] by (simp add: IsRootPage_def)
  then have run: "InsertIntoParent (Suc fuel) g (f, 0) f s = (Inr (), t)" using C(1) T(1) by (simp add: andthen_def)
  have "calm {no, p, n} s t" using calm_trans [OF C(2) T(2)] by (simp add: insert_commute)
  then show ?thesis by (rule that [OF run]) (use T(3-6) C(3) in \<open>simp_all add: root_over_def\<close>)
qed

lemma stored_half:
  assumes "hdr_fits h" and "node_ok h m"
  shows "IsLeafPage (trim (SetParentPageNo no m)) = IsLeafPage m" and "node_ok h (trim (SetParentPageNo no m))"
    and "node_entries h (trim (SetParentPageNo no m)) = node_entries h m"
proof -
  have "node_ok h (SetParentPageNo no m)" using assms(2) by simp
  then have sz: "node_size_ok h (SetParentPageNo no m)" by (simp add: node_ok_def)
  note T = node_trim_lists(3,4) [OF assms(1) disjI1 [OF sz]]
  show "node_ok h (trim (SetParentPageNo no m))" and "node_entries h (trim (SetParentPageNo no m)) = node_entries h m"
    using T assms(2) by simp_all
  show "IsLeafPage (trim (SetParentPageNo no m)) = IsLeafPage m"
    using leaf_links [OF node_trim(2) [OF assms(1), of "SetParentPageNo no m"]] by simp
qed

text \<open>The index is a tree of height one over the two halves.\<close>

lemma two_leaf_tree:
  assumes inv: "ix_inv s" and hold: "held s no x 0 (root_over h p m1 n new1 z)" "held s p g j m'" "held s n f k new'" and rt: "root_page (ix_hdr s) = no"
    and hd: "col_type (ix_hdr s) = col_type h" "col_len (ix_hdr s) = col_len h" "btree_order (ix_hdr s) = btree_order h" "keys_size (ix_hdr s) = keys_size h"
    and hv: "halves h m m1 new1" and m': "m' = SetParentPageNo no m1" and new': "new' = SetParentPageNo no new1"
    and full: "is_full h m" and leaf: "IsLeafPage m" and okm: "node_ok h m" and ne: "p \<noteq> n" "p \<noteq> no" "n \<noteq> no"
    and b: "1 \<le> btree_order h" and i32: "is_i32 p" "is_i32 n"
  shows "ix_tree s 1" and "ix_entries s 1 = node_entries h m"
proof -
  note L = layout_cong [OF hd]
  have hf: "hdr_fits h" using inv L(8) by (simp add: ix_inv_def)
  note RF = root_over_fields [OF hf b i32, of m1 new1 z]
  let ?R = "root_over h p m1 n new1 z" and ?pg = "ix_page s" and ?h = "ix_hdr s"
  have pages: "?pg no = trim ?R" "?pg p = trim m'" "?pg n = trim new'" using heldD(1) [OF inv] hold by auto
  have hfs: "hdr_fits ?h" using hf L(8) by simp
  note tr = node_trim [OF hf]
  have mn: "1 \<le> GetMinSize h" using b by (simp add: GetMinSize_def GetMaxSize_def)
  have sz: "1 \<le> GetSize m1" "1 \<le> GetSize new1" using hv full mn by (auto simp: halves_def)
  have oks: "node_ok h m1" "node_ok h new1" using hv by (auto simp: halves_def)
  have leaves: "IsLeafPage (?pg p)" "node_ok h (?pg p)" "node_entries h (?pg p) = node_entries h m1"
    "IsLeafPage (?pg n)" "node_ok h (?pg n)" "node_entries h (?pg n) = node_entries h new1"
    using stored_half [OF hf oks(1), of no] stored_half [OF hf oks(2), of no] hv leaf unfolding pages m' new' halves_def by simp_all
  have szR: "GetSize (?pg no) = 2" "nat (GetSize (?pg no)) = 2" using RF(1) tr(1) by (simp_all add: pages)
  have ch: "child_no ?h ?pg no 0 = p" "child_no ?h ?pg no 1 = n"
    using RF(5,6) tr(4) b by (simp_all add: pages L(5) ValueAt_def)
  have kR: "get_key h (?pg no) 0 = get_key h m1 0" "get_key h (?pg no) 1 = get_key h new1 0" using RF(3,4) tr(3) b by (simp_all add: pages)
  have keys: "node_keys h m1 @ node_keys h new1 = node_keys h m"
    using arg_cong [of _ _ "map fst", OF hv [unfolded halves_def, THEN conjunct2, THEN conjunct2, THEN conjunct1]]
    by (simp add: node_entries_def)
  have below: "hdr_cmp h a c < 0" if "a \<in> set (node_keys h m1)" "c \<in> set (node_keys h new1)" for a c
    using okm that unfolding node_ok_def ixk.increasing_def keys [symmetric] by (auto simp: sorted_wrt_append)
  have first: "get_key h m1 0 \<in> set (node_keys h m1)" "get_key h new1 0 \<in> set (node_keys h new1)"
    using sz by (auto simp: node_keys_def)
  have "node_keys h (?pg no) = [get_key h m1 0, get_key h new1 0]"
    unfolding node_keys_def szR(2) using kR by (simp add: numeral_2_eq_2)
  then have rootok: "node_ok h (?pg no)"
    using below [OF first] first oks b unfolding node_ok_def ixk.increasing_def by (auto simp: node_size_ok_def szR GetMaxSize_def)
  have le: "hdr_cmp h (get_key h new1 0) c \<le> 0" if c: "c \<in> set (node_keys h new1)" for c
  proof -
    obtain i where i: "c = node_keys h new1 ! i" "i < length (node_keys h new1)" using c by (metis in_set_conv_nth)
    show ?thesis
    proof (cases "i = 0")
      case True
      then have "c = get_key h new1 0" using i sz(2) by simp
      then show ?thesis using ixk.cmp_self key_at_valid [OF oks(2), of 0] sz(2) by simp
    next
      case False
      then have "hdr_cmp h (node_keys h new1 ! 0) (node_keys h new1 ! i) < 0"
        using oks(2) i unfolding node_ok_def ixk.increasing_def sorted_wrt_iff_nth_less by simp
      then show ?thesis using i sz(2) by simp
    qed
  qed
  have rng: "in_range ?h (?pg no) 0 (fst e)" if "e \<in> set (node_entries h m1)" for e
  proof -
    have "fst e \<in> set (node_keys h m1)" using that set_zip_leftD [of "fst e" "snd e"] unfolding node_entries_def by simp
    then show ?thesis using below first(2) kR by (simp add: in_range_def hd L(1))
  qed
  have rng1: "in_range ?h (?pg no) 1 (fst e)" if "e \<in> set (node_entries h new1)" for e
  proof -
    have "fst e \<in> set (node_keys h new1)" using that set_zip_leftD [of "fst e" "snd e"] unfolding node_entries_def by simp
    then show ?thesis using le kR szR by (simp add: in_range_def hd L(1))
  qed
  have two: "[0..<nat (GetSize (?pg no))] = [0, 1]" unfolding szR(2) by (simp add: upt_rec numeral_2_eq_2)
  have tp: "tree_pages ?h ?pg 1 no = [no, p, n]" using two ch by simp
  have "tree_ok ?h ?pg 1 no"
  proof -
    have nl: "\<not> IsLeafPage (?pg no)" using RF(2) leaf_links [OF tr(2)] by (simp add: pages)
    have "tree_ok ?h ?pg 0 (child_no ?h ?pg no i) \<and> (\<forall>e \<in> set (tree_entries ?h ?pg 0 (child_no ?h ?pg no i)). in_range ?h (?pg no) i (fst e))"
      if "i < nat (GetSize (?pg no))" for i
    proof (cases "i = 0")
      case True
      then show ?thesis using ch(1) leaves rng by (simp add: L(11,12))
    next
      case False
      then have "i = 1" using that szR by simp
      then show ?thesis using ch(2) leaves rng1 by (simp add: L(11,12))
    qed
    then show ?thesis using nl rootok szR by (simp add: L(12))
  qed
  moreover have "ix_has s q" if "q \<in> {no, p, n}" for q using that heldD(2) [OF inv] hold by auto
  ultimately show "ix_tree s 1" using inv tp ne rt by (auto simp: ix_tree_def simp del: tree_ok.simps tree_pages.simps)
  have "ix_entries s 1 = node_entries h m1 @ node_entries h new1"
    unfolding ix_entries_def rt using two ch leaves by (simp add: L(11))
  then show "ix_entries s 1 = node_entries h m" using hv by (simp add: halves_def)
qed

lemma updateLastLeaf_calm:
  assumes "ix_inv s"
  obtains t q where "updateLastLeaf g f s = (Inr (), t)" and "calm {} s t" and "ix_hdr t = last_leaf_update (\<lambda>_. q) (ix_hdr s)"
    and "\<forall>no x k m. held s no x k m \<longrightarrow> held t no x k m"
proof (cases "GetPageNo g s = last_leaf (ix_hdr s)")
  case True
  obtain t where "on_ix_hdr (last_leaf_update (\<lambda>_. GetPageNo f s)) s = (Inr (), t)" "calm {} s t"
    "ix_hdr t = last_leaf_update (\<lambda>_. GetPageNo f s) (ix_hdr s)" "pinned (ix_bpm t) = pinned (ix_bpm s)" "\<forall>n. fresh_from s n \<longrightarrow> fresh_from t n"
    by (rule hdr_update_calm [OF assms, of "last_leaf_update (\<lambda>_. GetPageNo f s)"]) simp
  moreover from this(1) have "\<forall>no x k m. held s no x k m \<longrightarrow> held t no x k m"
    by (auto simp: on_ix_hdr_def run_simps held_def ix_pid_def node_data_def)
  ultimately show ?thesis using that True by (auto simp: updateLastLeaf_def)
next
  case False
  then show ?thesis using that [of s "last_leaf (ix_hdr s)"] assms by (simp add: updateLastLeaf_def run_simps calm_def)
qed

lemma root_over_num_pages: "root_over (ix_num_pages_update f h) = root_over h"
  by (simp add: root_over_def fun_eq_iff)

text \<open>A leaf \<open>m\<close> whose page numbers leave room for the two new pages \<open>n\<close> and \<open>n + 1\<close>.\<close>

definition can_split :: "IxIndexHandle \<Rightarrow> int \<Rightarrow> int \<Rightarrow> mem \<Rightarrow> bool" where
  "can_split s p n m \<longleftrightarrow> fresh_from s n \<and> 0 \<le> p \<and> p < n \<and> n + 1 < 524288 \<and> GetNextLeaf m < n \<and> GetNextLeaf m \<noteq> p \<and>
     (GetNextLeaf m \<noteq> INVALID_PAGE_ID \<longrightarrow> ix_has s (GetNextLeaf m))"

lemma splitNodeIfFull_root:
  assumes inv: "ix_inv s" and own: "held s p g 1 m" and ok: "node_ok (ix_hdr s) m" and full: "is_full (ix_hdr s) m" and leaf: "IsLeafPage m"
    and root: "GetParentPageNo m = INVALID_PAGE_ID" and sp: "can_split s p n m" and b: "1 \<le> btree_order (ix_hdr s)"
    and room: "pinned (ix_bpm s) + 4 < pool_size (ix_bpm s)"
  obtains t where "splitNodeIfFull (Suc fuel) g s = (Inr (), t)" and "ix_tree t 1" and "ix_entries t 1 = node_entries (ix_hdr s) m"
proof -
  have S: "fresh_from s n" "0 \<le> p" "p < n" "n < 524288" "n + 1 < 524288" "GetNextLeaf m < n" "GetNextLeaf m \<noteq> p"
    "GetNextLeaf m \<noteq> INVALID_PAGE_ID \<Longrightarrow> ix_has s (GetNextLeaf m)" using sp by (auto simp: can_split_def)
  have room1: "pinned (ix_bpm s) + 1 < pool_size (ix_bpm s)" using room by simp
  obtain f s1 m1 new1 where A: "Split g s = (Inr f, s1)" "calm {p, n, GetNextLeaf m} s s1" "ix_hdr s1 = ix_num_pages_update (\<lambda>k. to_i32 (k + 1)) (ix_hdr s)"
    "held s1 p g 1 m1" "held s1 n f 1 new1" "halves (ix_hdr s) m m1 new1" "fresh_from s1 (n + 1)" "pinned (ix_bpm s1) \<le> pinned (ix_bpm s) + 2"
    by (rule Split_leaf_held [OF inv own zero_less_one ok leaf S(1,3,4,6,8,7) room1])
  have par: "GetParentPageNo m1 = INVALID_PAGE_ID" using A(6) root by (simp add: halves_def)
  have i32: "is_i32 p" "is_i32 n" using S by (simp_all add: is_i32_def)
  have inv1: "ix_inv s1" by (rule calmD(1) [OF A(2)])
  obtain x s2 where B: "InsertIntoParent (Suc fuel) g (f, 0) f s1 = (Inr (), s2)" "calm {n + 1, p, n} s1 s2"
    "ix_hdr s2 = (ix_num_pages_update (\<lambda>k. to_i32 (k + 1)) (ix_hdr s1))\<lparr>root_page := n + 1\<rparr>"
    "held s2 (n + 1) x 0 (root_over (ix_hdr s1) p m1 n new1 zero_mem)" "held s2 p g 1 (SetParentPageNo (n + 1) m1)" "held s2 n f 1 (SetParentPageNo (n + 1) new1)"
    by (rule InsertIntoParent_root [OF inv1 A(4) zero_less_one par A(5) zero_less_one A(7)])
      (use S i32 b A(3,8) room calmD(4) [OF A(2)] in simp_all)
  have inv2: "ix_inv s2" by (rule calmD(1) [OF B(2)])
  have inv2: "ix_inv s2" by (rule calmD(1) [OF B(2)])
  obtain s3 q where C: "updateLastLeaf g f s2 = (Inr (), s3)" "calm {} s2 s3" "ix_hdr s3 = last_leaf_update (\<lambda>_. q) (ix_hdr s2)"
    "\<forall>no x k m. held s2 no x k m \<longrightarrow> held s3 no x k m"
    by (rule updateLastLeaf_calm [OF inv2])
  have inv3: "ix_inv s3" by (rule calmD(1) [OF C(2)])
  let ?R = "root_over (ix_hdr s1) p m1 n new1 zero_mem" and ?m = "SetParentPageNo (n + 1) m1" and ?new = "SetParentPageNo (n + 1) new1"
  have h3: "held s3 (n + 1) x 0 ?R" "held s3 p g 1 ?m" "held s3 n f 1 ?new" using C(4) B(4-6) by auto
  obtain s4 where D: "unpin_node g True s3 = (Inr True, s4)" "calm {p} s3 s4" "ix_hdr s4 = ix_hdr s3" "held s4 p g (1 - 1) ?m"
    "pinned (ix_bpm s4) \<le> pinned (ix_bpm s3)" "\<forall>n. fresh_from s3 n \<longrightarrow> fresh_from s4 n"
    by (rule unpin_node_held [OF inv3 h3(2) zero_less_one])
  note keep4 = unpin_node_others [OF inv3 h3(2) D(1)]
  have inv4: "ix_inv s4" by (rule calmD(1) [OF D(2)])
  have h4: "held s4 (n + 1) x 0 ?R" "held s4 n f 1 ?new" using keep4 [OF h3(1)] keep4 [OF h3(3)] S by auto
  obtain t where E: "unpin_node f True s4 = (Inr True, t)" "calm {n} s4 t" "ix_hdr t = ix_hdr s4" "held t n f (1 - 1) ?new"
    "pinned (ix_bpm t) \<le> pinned (ix_bpm s4)" "\<forall>n. fresh_from s4 n \<longrightarrow> fresh_from t n"
    by (rule unpin_node_held [OF inv4 h4(2) zero_less_one])
  note keep = unpin_node_others [OF inv4 h4(2) E(1)]
  have ht: "held t (n + 1) x 0 (root_over (ix_hdr s) p m1 n new1 zero_mem)" "held t p g (1 - 1) ?m"
    using keep [OF h4(1)] keep [OF D(4)] S A(3) by (simp_all add: root_over_num_pages)
  have hdr: "ix_hdr t = last_leaf_update (\<lambda>_. q) ((ix_num_pages_update (\<lambda>k. to_i32 (k + 1)) (ix_hdr s1))\<lparr>root_page := n + 1\<rparr>)"
    using E(3) D(3) C(3) B(3) by simp
  have "IsLeafPage (node_data g s2)" using heldD(5) [OF inv2 B(5)] A(6) leaf by (simp add: halves_def)
  then have run: "splitNodeIfFull (Suc fuel) g s = (Inr (), t)"
    using A(1) B(1) C(1) D(1) E(1) full heldD(5) [OF inv own]
    by (simp add: splitNodeIfFull_def splitNodeIfFull_by_def andthen_def run_simps del: InsertIntoParent.simps)
  have same: "root_page (ix_hdr t) = n + 1" "col_type (ix_hdr t) = col_type (ix_hdr s)" "col_len (ix_hdr t) = col_len (ix_hdr s)"
    "btree_order (ix_hdr t) = btree_order (ix_hdr s)" "keys_size (ix_hdr t) = keys_size (ix_hdr s)" and ne: "p \<noteq> n" "p \<noteq> n + 1" "n \<noteq> n + 1"
    using S(3) by (simp_all add: hdr A(3))
  show ?thesis
    by (rule that [OF run two_leaf_tree [OF calmD(1) [OF E(2)] ht E(4) same A(6) refl refl full leaf ok ne b i32]])
qed

text \<open>
  C23. An insertion that fills the root leaf splits it: the index becomes a tree of height one whose root has the two halves as children, and it
  holds the old entries and the new one. The root is a leaf with room for exactly one entry below the maximum, its parent is the invalid page, the
  file hands out the pages \<open>n\<close> and \<open>n + 1\<close> next, and at least six frames of the pool are not pinned.
\<close>

theorem insert_entry_splits_root:
  assumes tr: "ix_tree s 0" and x: "hdr_key (ix_hdr s) x" and r: "rid_i32 r"
    and new: "\<forall>e \<in> set (ix_entries s 0). hdr_cmp (ix_hdr s) x (fst e) \<noteq> 0"
    and fits: "GetSize (ix_page s (root_page (ix_hdr s))) + 1 = GetMaxSize (ix_hdr s)"
    and st: "\<not> stale_match (ix_hdr s) (ix_page s (root_page (ix_hdr s))) x"
    and root: "GetParentPageNo (ix_page s (root_page (ix_hdr s))) = INVALID_PAGE_ID"
    and sp: "can_split s (root_page (ix_hdr s)) n (ix_page s (root_page (ix_hdr s)))" and b: "1 \<le> btree_order (ix_hdr s)"
    and room: "pinned (ix_bpm s) + 5 < pool_size (ix_bpm s)"
  shows "\<exists>t. insert_entry (Suc fuel) x r s = (Inr True, t) \<and> ix_tree t 1 \<and> set (ix_entries t 1) = insert (x, r) (set (ix_entries s 0))"
proof -
  let ?h = "ix_hdr s" let ?p = "root_page ?h"
  have T: "ix_inv s" "tree_ok ?h (ix_page s) 0 ?p" "ix_has s ?p" using tr by (simp_all add: ix_tree_def)
  have hf: "hdr_fits ?h" using T(1) by (simp add: ix_inv_def)
  have lt: "pinned (ix_bpm s) < pool_size (ix_bpm s)" using room by simp
  obtain g m t where F: "FetchNode ?p s = (Inr g, t)" "calm {?p} s t" "ix_hdr t = ?h" "held t ?p g 1 m" "trim m = ix_page s ?p"
    "pinned (ix_bpm t) \<le> pinned (ix_bpm s) + 1" "\<forall>f k m'. 0 < k \<and> held s ?p f k m' \<longrightarrow> g = f \<and> m = m' \<and> held t ?p f (k + 1) m'"
    "\<forall>n. fresh_from s n \<and> ?p < n \<longrightarrow> fresh_from t n"
    by (rule FetchNode_held [OF T(1,3) lt])
  note tr_m = node_trim(1,2) [OF hf, of m, unfolded F(5)]
  have okp: "node_ok ?h (ix_page s ?p)" and lfp: "IsLeafPage (ix_page s ?p)" using T(2) by simp_all
  have ok: "node_ok ?h m" and ents: "node_entries ?h (ix_page s ?p) = node_entries ?h m"
    using node_trim_lists(3,4) [OF hf, of m] okp unfolding F(5) by (simp_all add: node_ok_def)
  have inv: "ix_inv t" by (rule calmD(1) [OF F(2)])
  have leaf: "IsLeafPage m" using leaf_links [OF tr_m(2)] lfp by simp
  have size: "GetSize m + 1 = GetMaxSize ?h" "GetSize m < GetMaxSize ?h" using fits tr_m(1) by simp_all
  have stm: "\<not> stale_match ?h m x" using st node_trim_lookup(4) [OF hf ok x size(2)] F(5) by simp
  have "LeafLookup ?h (ix_page s ?p) x = None"
    using leaf_of_entries(1) [OF T(2) x] new unfolding ix_entries_def leaf_of.simps by (metis fst_conv option.exhaust)
  then have look: "LeafLookup ?h m x = None" using node_trim_lookup(2) [OF hf ok x] F(5) by simp
  have nokey: "\<not> key_at ?h m x i" for i using LeafLookup_spec [OF ok x] look by fastforce
  let ?b = "lower_bound ?h m x"
  obtain m' where M: "Insert ?h x r m = (GetSize m + 1, m')" "node_ok ?h m'" "node_links m' = node_links m"
    "node_keys ?h m' = take ?b (node_keys ?h m) @ x # drop ?b (node_keys ?h m)"
    "node_rids ?h m' = take ?b (node_rids ?h m) @ r # drop ?b (node_rids ?h m)"
    by (rule Insert_absent [OF hf ok x r size(2) nokey stm])
  have gs: "GetSize m' = GetSize m + 1" by (rule grown_size [OF M(2) ok M(4)])
  obtain u where U: "on_node g (\<lambda>_ _. m') t = (Inr (), u)" "calm {?p} t u" "ix_hdr u = ix_hdr t" "held u ?p g 1 m'"
    "pinned (ix_bpm u) = pinned (ix_bpm t)" "\<forall>n. fresh_from t n \<longrightarrow> fresh_from u n"
    by (rule on_node_held [OF inv F(4) zero_less_one, of "\<lambda>_ _. m'"])
  have hu: "ix_hdr u = ?h" using U(3) F(3) by simp
  have links: "node_links m' = node_links (ix_page s ?p)" using M(3) tr_m(2) by simp
  have su: "can_split u ?p n m'"
    using sp links F(8) U(6) calmD(3) [OF F(2)] calmD(3) [OF U(2)] by (auto simp: can_split_def node_links_def)
  have root': "GetParentPageNo m' = INVALID_PAGE_ID" "IsLeafPage m'" "is_full (ix_hdr u) m'" "node_ok (ix_hdr u) m'"
    using links root lfp gs size M(2) by (simp_all add: node_links_def is_full_def hu)
  have room': "pinned (ix_bpm u) + 4 < pool_size (ix_bpm u)" using room F(6) U(5) calmD(4) [OF F(2)] calmD(4) [OF U(2)] by simp
  obtain v where V: "splitNodeIfFull (Suc fuel) g u = (Inr (), v)" "ix_tree v 1" "ix_entries v 1 = node_entries (ix_hdr u) m'"
    by (rule splitNodeIfFull_root [OF calmD(1) [OF U(2)] U(4) root'(4,3,2,1) su _ room']) (use b hu in simp)
  have "FindLeafPage (Suc fuel) x s = (Inr g, t)"
    using F(1) leaf heldD(5) [OF inv F(4)] by (simp add: FindLeafPage_def andthen_def descend.simps run_simps)
  then have "insert_entry (Suc fuel) x r s = (Inr True, v)"
    using M(1) U(1) V(1) F(3) heldD(5) [OF inv F(4)] by (simp add: insert_entry_def andthen_def run_simps)
  moreover have "set (ix_entries v 1) = insert (x, r) (set (ix_entries s 0))"
    unfolding V(3) hu entries_insert [OF M(4,5)] set_take_drop by (simp add: ix_entries_def ents)
  ultimately show ?thesis using V(2) by blast
qed

section \<open>An index whose root leaf is about to split\<close>

definition tight_ix :: IxFileHdr where
  "tight_ix = sample_ix\<lparr>btree_order := 1, keys_size := 8\<rparr>"

text \<open>The root leaf has the key 5; its next leaf is the leaf header on page 1.\<close>

definition tight_leaf :: mem where
  "tight_leaf = SetParentPageNo INVALID_PAGE_ID (SetNextLeaf 1 (set_leaf True (SetSize 1
     (set_key tight_ix 0 (i32_bytes 5) (set_rid tight_ix 0 \<lparr>rid_page = 7, rid_slot = 5\<rparr> zero_mem)))))"

definition tight_index :: IxIndexHandle where
  "tight_index = \<lparr>ix_bpm = \<lparr>pool_size = 6,
       pages = (\<lambda>f. if f < 2 then \<lparr>pg_id = sample_pid (int f + 1), pg_data = if f = 1 then tight_leaf else zero_mem, pg_dirty = True, pg_pin = 0\<rparr>
         else Page_new 0),
       page_table = [sample_pid 1 \<mapsto> 0, sample_pid 2 \<mapsto> 1], free_list = [2, 3, 4, 5], disk_manager = sample_disk\<lparr>fd2pageno := \<lambda>_. 3\<rparr>,
       replacer_of = \<lparr>LRUlist = [(0, 0), (1, 1)], LRUhash = [0 \<mapsto> 0, 1 \<mapsto> 1], LRUalloc = 2, LRUmax_size = 6\<rparr>\<rparr>,
     ix_fd = 0, ix_hdr = tight_ix\<rparr>"

lemma tight_ix_simps [simp]: "col_type tight_ix = TYPE_INT" "col_len tight_ix = 4" "btree_order tight_ix = 1" "GetMaxSize tight_ix = 2" "hdr_fits tight_ix"
  "root_page tight_ix = 2"
  by (simp_all add: tight_ix_def GetMaxSize_def hdr_fits_def sample_ix_def sizeof_IxPageHdr_def sizeof_Rid_def PAGE_SIZE_def)

lemma tight_leaf_fields:
  "GetSize tight_leaf = 1" "IsLeafPage tight_leaf" "GetParentPageNo tight_leaf = INVALID_PAGE_ID" "GetNextLeaf tight_leaf = 1"
  "get_key tight_ix tight_leaf 0 = i32_bytes 5" "bytes_i32 (get_key tight_ix tight_leaf (Suc 0)) = 0"
  "get_rid tight_ix tight_leaf 0 = \<lparr>rid_page = 7, rid_slot = 5\<rparr>"
proof -
  have "bytes_i32 (get_key tight_ix zero_mem (Suc 0)) = 0"
    unfolding get_key_def tight_ix_simps get_i32_def [symmetric] by (rule get_i32_zero)
  then show "bytes_i32 (get_key tight_ix tight_leaf (Suc 0)) = 0"
    by (simp add: tight_leaf_def get_key_set_key get_key_mwrite_rid)
qed (simp_all add: tight_leaf_def SetSize_effect get_key_set_key get_rid_set_key get_rid_set_rid rid_i32_def is_i32_def INVALID_PAGE_ID_def)

lemma fd_ino_pageno [simp]: "fd_ino (d\<lparr>fd2pageno := n\<rparr>) = fd_ino d"
  by (simp add: fd_ino_def fun_eq_iff)

lemma tight_bpm: "bpm_inv (ix_bpm tight_index)"
proof (rule pool_okI)
  fix f show "f < pool_size (ix_bpm tight_index) \<Longrightarrow> f \<in> {} \<or> f \<in> set (free_list (ix_bpm tight_index)) \<or>
      page_table (ix_bpm tight_index) (pg_id (pages (ix_bpm tight_index) f)) = Some f"
    by (auto simp: tight_index_def sample_pid_def eval_nat_numeral less_Suc_eq)
  show "f \<in> set (lru_frames (replacer_of (ix_bpm tight_index))) \<longleftrightarrow> f < pool_size (ix_bpm tight_index) \<and> f \<notin> {} \<and>
      f \<notin> set (free_list (ix_bpm tight_index)) \<and> pg_pin (pages (ix_bpm tight_index) f) = 0"
    by (auto simp: tight_index_def lru_frames_def Page_new_def)
  show "open_files_ok (disk_manager (ix_bpm tight_index))"
    using sample_disk_ok by (simp add: tight_index_def open_files_ok_def)
qed (auto simp: tight_index_def lru_inv_def lru_frames_def usable_def sample_pid_def addressable_def sample_disk_file
    Page_new_def split: if_splits)

lemma tight_page: "ix_page tight_index 2 = trim tight_leaf" "ix_hdr tight_index = tight_ix"
  by (simp_all add: ix_page_def page_view_def ix_pid_def tight_index_def sample_pid_def)

lemmas tight_trim = node_trim [OF tight_ix_simps(5)]

lemma tight_leaf_node: "node_ok tight_ix (trim tight_leaf)"
    "node_entries tight_ix (trim tight_leaf) = [(i32_bytes 5, \<lparr>rid_page = 7, rid_slot = 5\<rparr>)]"
  by (simp_all add: node_ok_def node_size_ok_def node_keys_def node_rids_def node_entries_def ixk.increasing_def tight_trim tight_leaf_fields is_i32_def)

lemma tight_has: "ix_has tight_index 1" "ix_has tight_index 2"
  by (simp_all add: ix_has_def usable_def stored_def ix_pid_def tight_index_def sample_pid_def addressable_def sample_disk_file)

lemma tight_tree: "ix_tree tight_index 0" "ix_entries tight_index 0 = [(i32_bytes 5, \<lparr>rid_page = 7, rid_slot = 5\<rparr>)]"
proof -
  have "IsLeafPage (trim tight_leaf)" using leaf_links [OF tight_trim(2) [of tight_leaf]] by (simp add: tight_leaf_fields)
  then show "ix_tree tight_index 0" and "ix_entries tight_index 0 = [(i32_bytes 5, \<lparr>rid_page = 7, rid_slot = 5\<rparr>)]"
    using tight_bpm tight_leaf_node tight_has by (simp_all add: ix_tree_def ix_inv_def ix_entries_def tight_page)
qed

lemma tight_room: "pinned (ix_bpm tight_index) + 5 < pool_size (ix_bpm tight_index)"
proof -
  have "{f. f < pool_size (ix_bpm tight_index) \<and> 0 < pg_pin (pages (ix_bpm tight_index) f)} = {}"
    by (auto simp: tight_index_def Page_new_def split: if_splits)
  then have "pinned (ix_bpm tight_index) = 0" unfolding pinned_def by simp
  then show ?thesis by (simp add: tight_index_def)
qed

lemma tight_can_split: "can_split tight_index 2 3 (trim tight_leaf)"
proof -
  have "GetNextLeaf (trim tight_leaf) = 1" using tight_trim(2) [of tight_leaf] tight_leaf_fields(4) by (simp add: node_links_def)
  moreover have "fresh_from tight_index 3"
    by (auto simp: fresh_from_def tight_index_def MAX_FD_def sample_disk_file ix_pid_def sample_pid_def)
  ultimately show ?thesis using tight_has by (simp add: can_split_def)
qed

theorem insert_entry_splits_root_witness:
  "\<exists>t. insert_entry 1 (i32_bytes 7) \<lparr>rid_page = 8, rid_slot = 0\<rparr> tight_index = (Inr True, t) \<and> ix_tree t 1 \<and>
    set (ix_entries t 1) = {(i32_bytes 7, \<lparr>rid_page = 8, rid_slot = 0\<rparr>), (i32_bytes 5, \<lparr>rid_page = 7, rid_slot = 5\<rparr>)}"
proof -
  have "GetParentPageNo (trim tight_leaf) = INVALID_PAGE_ID" using tight_trim(2) [of tight_leaf] tight_leaf_fields(3) by (simp add: node_links_def)
  moreover have "\<not> stale_match tight_ix (trim tight_leaf) (i32_bytes 7)"
    by (simp add: stale_match_def tight_trim tight_leaf_fields ix_compare_def is_i32_def)
  ultimately show ?thesis
    using insert_entry_splits_root [of tight_index "i32_bytes 7" "\<lparr>rid_page = 8, rid_slot = 0\<rparr>" 3 0] tight_tree tight_can_split tight_room
    by (simp add: tight_page tight_trim tight_leaf_fields rid_i32_def is_i32_def int_cmp)
qed

end
