(* ===== verification/Ix_Manager.thy ===== *)
theory Ix_Manager
  imports Ix_Split Record_Manager
begin

text \<open>
  \<open>index/ix_manager.h\<close> and the constructor of \<open>IxIndexHandle\<close>: creating, opening, closing and destroying index files. \<open>create_index\<close> takes a column length
  of any sign, as in the code; a header read back with a negative length, order or key size is outside this development (\<open>ix_hdr_of_mem\<close>). The
  page buffer of \<open>create_index\<close> is a local array that is not initialised: its content is the parameter \<open>junk\<close>.
\<close>

section \<open>The header page\<close>

definition sizeof_IxFileHdr :: nat where "sizeof_IxFileHdr = 36"

definition ix_hdr_bytes :: "IxFileHdr \<Rightarrow> byte list" where
  "ix_hdr_bytes h = i32_bytes (ix_first_free h) @ i32_bytes (ix_num_pages h) @ i32_bytes (root_page h) @
     i32_bytes (coltype_to_int (col_type h)) @ i32_bytes (int (col_len h)) @ i32_bytes (int (btree_order h)) @ i32_bytes (int (keys_size h)) @
     i32_bytes (first_leaf h) @ i32_bytes (last_leaf h)"

text \<open>Bytes that hold no column type or a negative length are not those of an index file.\<close>

definition ix_hdr_of_mem :: "mem \<Rightarrow> IxFileHdr option" where
  "ix_hdr_of_mem m =
     (if get_i32 m 16 < 0 \<or> get_i32 m 20 < 0 \<or> get_i32 m 24 < 0 then None
      else map_option (\<lambda>t. \<lparr>ix_first_free = get_i32 m 0, ix_num_pages = get_i32 m 4, root_page = get_i32 m 8, col_type = t,
             col_len = nat (get_i32 m 16), btree_order = nat (get_i32 m 20), keys_size = nat (get_i32 m 24),
             first_leaf = get_i32 m 28, last_leaf = get_i32 m 32\<rparr>) (int_to_coltype (get_i32 m 12)))"

text \<open>
  \<open>btree_order\<close> as \<open>create_index\<close> computes it from an \<open>int\<close> column length: the divisor is a \<open>size_t\<close>, so that a length below \<open>-8\<close> gives a huge
  one and the length \<open>-8\<close> a division by zero, which is \<open>None\<close> here.
\<close>

definition new_btree_order :: "int \<Rightarrow> int option" where
  "new_btree_order len =
     (let d = (len + int sizeof_Rid) mod 2 ^ 64
      in if d = 0 then None else Some (to_i32 (int (PAGE_SIZE - sizeof_IxPageHdr) div d - 1)))"

definition new_ix_hdr_bytes :: "ColType \<Rightarrow> int \<Rightarrow> int \<Rightarrow> byte list" where
  "new_ix_hdr_bytes t len order = i32_bytes IX_NO_PAGE @ i32_bytes IX_INIT_NUM_PAGES @ i32_bytes IX_INIT_ROOT_PAGE @
     i32_bytes (coltype_to_int t) @ i32_bytes len @ i32_bytes order @ i32_bytes ((order + 1) * len) @
     i32_bytes IX_INIT_ROOT_PAGE @ i32_bytes IX_INIT_ROOT_PAGE"

text \<open>The same header as a record, for a length that is not negative.\<close>

definition new_ix_hdr :: "ColType \<Rightarrow> nat \<Rightarrow> IxFileHdr" where
  "new_ix_hdr t len =
     (let order = (PAGE_SIZE - sizeof_IxPageHdr) div (len + sizeof_Rid) - 1
      in \<lparr>ix_first_free = IX_NO_PAGE, ix_num_pages = IX_INIT_NUM_PAGES, root_page = IX_INIT_ROOT_PAGE, col_type = t, col_len = len,
          btree_order = order, keys_size = (order + 1) * len, first_leaf = IX_INIT_ROOT_PAGE, last_leaf = IX_INIT_ROOT_PAGE\<rparr>)"

definition empty_leaf :: "int \<Rightarrow> mem \<Rightarrow> mem" where
  "empty_leaf link m = SetNextLeaf link (SetPrevLeaf link (set_leaf True (SetSize 0 (SetParentPageNo IX_NO_PAGE (put_i32 m 0 IX_NO_PAGE)))))"

section \<open>Operations\<close>

definition get_index_name :: "path \<Rightarrow> int \<Rightarrow> path" where
  "get_index_name filename index_no = filename @ ''.'' @ to_string index_no @ ''.idx''"

definition index_exists :: "path \<Rightarrow> int \<Rightarrow> BufferPoolManager \<Rightarrow> bool" where
  "index_exists filename index_no b = is_file (get_index_name filename index_no) (disk_manager b)"

definition write_ix_hdr :: "int \<Rightarrow> IxFileHdr \<Rightarrow> (rb_error, DiskManager, unit) op" where
  "write_ix_hdr fd h = write_page fd IX_FILE_HDR_PAGE (mwrite zero_mem 0 (ix_hdr_bytes h)) sizeof_IxFileHdr"

definition write_index_file :: "mem \<Rightarrow> int \<Rightarrow> byte list \<Rightarrow> (rb_error, DiskManager, unit) op" where
  "write_index_file junk fd fhdr =
     andthen (write_page fd IX_FILE_HDR_PAGE (mwrite zero_mem 0 fhdr) sizeof_IxFileHdr) (\<lambda>_.
     andthen (write_page fd IX_LEAF_HEADER_PAGE (empty_leaf IX_INIT_ROOT_PAGE junk) PAGE_SIZE) (\<lambda>_.
     andthen (write_page fd IX_INIT_ROOT_PAGE (empty_leaf IX_LEAF_HEADER_PAGE (empty_leaf IX_INIT_ROOT_PAGE junk)) PAGE_SIZE) (\<lambda>_.
     set_fd2pageno fd (IX_INIT_NUM_PAGES - 1))))"

definition create_index :: "mem \<Rightarrow> path \<Rightarrow> int \<Rightarrow> ColType \<Rightarrow> int \<Rightarrow> (rb_error, BufferPoolManager, unit) op" where
  "create_index junk filename index_no t len =
     (let ix_name = get_index_name filename index_no
      in if index_no < 0 then throw AssertionFailure
         else andthen (on_disk_manager (create_file ix_name)) (\<lambda>_.
              andthen (on_disk_manager (open_file ix_name)) (\<lambda>fd.
              if len > int IX_MAX_COL_LEN then throw (InvalidColLengthError len)
              else case new_btree_order len of
                  None \<Rightarrow> throw Indeterminate
                | Some order \<Rightarrow>
                    if \<not> 2 < order then throw AssertionFailure
                    else andthen (on_disk_manager (write_index_file junk fd (new_ix_hdr_bytes t len order))) (\<lambda>_.
                         modify_st (\<lambda>b. b\<lparr>disk_manager := close_file fd (disk_manager b)\<rparr>)))))"

definition destroy_index :: "path \<Rightarrow> int \<Rightarrow> (rb_error, BufferPoolManager, unit) op" where
  "destroy_index filename index_no = on_disk_manager (destroy_file (get_index_name filename index_no))"

definition IxIndexHandle_new :: "int \<Rightarrow> BufferPoolManager \<Rightarrow> (rb_error + IxIndexHandle) \<times> BufferPoolManager" where
  "IxIndexHandle_new fd b =
     (let (r, m, d) = read_page fd IX_FILE_HDR_PAGE zero_mem sizeof_IxFileHdr (disk_manager b)
      in case r of
           Inl e \<Rightarrow> (Inl e, b\<lparr>disk_manager := d\<rparr>)
         | Inr _ \<Rightarrow>
             (case andthen (get_fd2pageno fd) (\<lambda>n. set_fd2pageno fd (n + 1)) d of
                (Inl e, d2) \<Rightarrow> (Inl e, b\<lparr>disk_manager := d2\<rparr>)
              | (Inr _, d2) \<Rightarrow>
                  (case ix_hdr_of_mem m of
                     None \<Rightarrow> (Inl OutOfRange, b\<lparr>disk_manager := d2\<rparr>)
                   | Some h \<Rightarrow> let b2 = b\<lparr>disk_manager := d2\<rparr> in (Inr \<lparr>ix_bpm = b2, ix_fd = fd, ix_hdr = h\<rparr>, b2))))"

definition open_index :: "path \<Rightarrow> int \<Rightarrow> BufferPoolManager \<Rightarrow> (rb_error + IxIndexHandle) \<times> BufferPoolManager" where
  "open_index filename index_no b =
     (case on_disk_manager (open_file (get_index_name filename index_no)) b of
        (Inl e, b1) \<Rightarrow> (Inl e, b1)
      | (Inr fd, b1) \<Rightarrow> IxIndexHandle_new fd b1)"

definition close_index :: "IxIndexHandle \<Rightarrow> (rb_error, BufferPoolManager, unit) op" where
  "close_index ih =
     andthen (on_disk_manager (write_ix_hdr (ix_fd ih) (ix_hdr ih))) (\<lambda>_.
     andthen (FlushAllPages (ix_fd ih)) (\<lambda>_.
     modify_st (\<lambda>b. b\<lparr>disk_manager := close_file (ix_fd ih) (disk_manager b)\<rparr>)))"

section \<open>The header in bytes\<close>

definition ix_hdr_i32 :: "IxFileHdr \<Rightarrow> bool" where
  "ix_hdr_i32 h \<longleftrightarrow> is_i32 (ix_first_free h) \<and> is_i32 (ix_num_pages h) \<and> is_i32 (root_page h) \<and> is_i32 (int (col_len h)) \<and>
     is_i32 (int (btree_order h)) \<and> is_i32 (int (keys_size h)) \<and> is_i32 (first_leaf h) \<and> is_i32 (last_leaf h)"

lemma length_ix_hdr_bytes [simp]: "length (ix_hdr_bytes h) = 36"
  by (simp add: ix_hdr_bytes_def)

lemma ix_hdr_roundtrip:
  assumes h: "ix_hdr_i32 h" and m: "mread m 0 36 = ix_hdr_bytes h"
  shows "ix_hdr_of_mem m = Some h"
proof -
  have part: "mread m k 4 = take 4 (drop k (mread m 0 36))" if "k + 4 \<le> 36" for k
    by (rule nth_equalityI) (use that in \<open>simp_all\<close>)
  have f: "get_i32 m 0 = to_i32 (ix_first_free h)" "get_i32 m 4 = to_i32 (ix_num_pages h)" "get_i32 m 8 = to_i32 (root_page h)"
    "get_i32 m 12 = to_i32 (coltype_to_int (col_type h))" "get_i32 m 16 = to_i32 (int (col_len h))" "get_i32 m 20 = to_i32 (int (btree_order h))"
    "get_i32 m 24 = to_i32 (int (keys_size h))" "get_i32 m 28 = to_i32 (first_leaf h)" "get_i32 m 32 = to_i32 (last_leaf h)"
    by (simp_all add: get_i32_def part m ix_hdr_bytes_def)
  have "is_i32 (coltype_to_int (col_type h))" by (cases "col_type h") (simp_all add: is_i32_def)
  then show ?thesis using h unfolding ix_hdr_of_mem_def f by (simp add: ix_hdr_i32_def)
qed

section \<open>The layout of a node\<close>

lemma new_ix_hdr_fits:
  assumes "1 \<le> len" and "len \<le> IX_MAX_COL_LEN"
  shows "hdr_fits (new_ix_hdr t len)" and "6 \<le> btree_order (new_ix_hdr t len)" and "ix_hdr_i32 (new_ix_hdr t len)"
proof -
  let ?q = "4072 div (len + 8)"
  have len: "len + 8 \<le> 520" using assms by (simp add: IX_MAX_COL_LEN_def)
  have "7 * (len + 8) \<le> 4072" using len by simp
  then have q7: "7 \<le> ?q" by (simp add: less_eq_div_iff_mult_less_eq)
  have qs: "?q * (len + 8) \<le> 4072" by (rule div_times_less_eq_dividend)
  then have sum: "?q * len + ?q * 8 \<le> 4072" by (simp add: algebra_simps)
  let ?h = "new_ix_hdr t len"
  have o1: "btree_order ?h + 1 = ?q"
    using q7 by (simp add: new_ix_hdr_def Let_def PAGE_SIZE_def sizeof_IxPageHdr_def sizeof_Rid_def)
  have "keys_size ?h = (btree_order ?h + 1) * len" "col_len ?h = len" by (simp_all add: new_ix_hdr_def Let_def)
  note o = o1 this [unfolded o1]
  show "hdr_fits ?h"
    unfolding hdr_fits_def o using assms(1) sum by (simp add: sizeof_IxPageHdr_def sizeof_Rid_def PAGE_SIZE_def)
  show "6 \<le> btree_order ?h" using o(1) q7 by linarith
  have b: "btree_order ?h \<le> 4072" "keys_size ?h \<le> 4072" using o sum by linarith+
  show "ix_hdr_i32 ?h" unfolding ix_hdr_i32_def o(3) using b len
    by (simp add: is_i32_def) (simp add: new_ix_hdr_def Let_def IX_NO_PAGE_def IX_INIT_NUM_PAGES_def IX_INIT_ROOT_PAGE_def)
qed

lemma node_cells_fit:
  assumes "1 \<le> len" and "len \<le> IX_MAX_COL_LEN" and "i \<le> btree_order (new_ix_hdr t len)"
  shows "key_off (new_ix_hdr t len) i + len \<le> rid_off (new_ix_hdr t len) 0 \<and> rid_off (new_ix_hdr t len) i + sizeof_Rid \<le> PAGE_SIZE"
proof -
  note F = new_ix_hdr_fits(1,2) [OF assms(1,2), of t]
  have "i * sizeof_Rid + sizeof_Rid \<le> (btree_order (new_ix_hdr t len) + 1) * sizeof_Rid" by (rule cell_before) (use assms(3) in simp)
  then have "rid_off (new_ix_hdr t len) i + sizeof_Rid \<le> PAGE_SIZE" using F(1) unfolding hdr_fits_def rid_off_def by linarith
  moreover have "col_len (new_ix_hdr t len) = len" by (simp add: new_ix_hdr_def Let_def)
  ultimately show ?thesis using F key_rid_before [OF F(1) assms(3), of 0] by simp
qed

lemma new_ix_hdr_bytes_eq:
  assumes "1 \<le> len" and "len \<le> IX_MAX_COL_LEN"
  shows "new_btree_order (int len) = Some (int (btree_order (new_ix_hdr t len)))"
    and "new_ix_hdr_bytes t (int len) (int (btree_order (new_ix_hdr t len))) = ix_hdr_bytes (new_ix_hdr t len)"
proof -
  note F = new_ix_hdr_fits [OF assms, of t]
  let ?o = "4072 div (len + 8) - 1"
  have o: "btree_order (new_ix_hdr t len) = ?o"
    by (simp add: new_ix_hdr_def Let_def PAGE_SIZE_def sizeof_IxPageHdr_def sizeof_Rid_def)
  have d: "(int len + 8) mod 2 ^ 64 = int (len + 8)" using assms(2) by (simp add: IX_MAX_COL_LEN_def)
  have "int 4072 div int (len + 8) = int (4072 div (len + 8))" by (rule zdiv_int [symmetric])
  moreover have "1 \<le> 4072 div (len + 8)" using F(2) unfolding o by linarith
  ultimately have "int 4072 div int (len + 8) - 1 = int ?o" by (simp only: of_nat_diff of_nat_1)
  moreover have "is_i32 (int ?o)" using F(3) by (simp add: ix_hdr_i32_def o)
  ultimately have "to_i32 (4072 div int (len + 8) - 1) = int ?o" by simp
  then show "new_btree_order (int len) = Some (int (btree_order (new_ix_hdr t len)))"
    using d by (simp add: new_btree_order_def o Let_def PAGE_SIZE_def sizeof_IxPageHdr_def sizeof_Rid_def)
  show "new_ix_hdr_bytes t (int len) (int (btree_order (new_ix_hdr t len))) = ix_hdr_bytes (new_ix_hdr t len)"
    by (simp add: new_ix_hdr_bytes_def ix_hdr_bytes_def new_ix_hdr_def Let_def distrib_right add.commute)
qed

text \<open>The lengths that pass the two tests of \<open>create_index\<close>.\<close>

lemma new_btree_order_accepts:
  assumes i: "is_i32 len" and m: "len \<le> 512"
  shows "(\<exists>n. new_btree_order len = Some n \<and> 2 < n) \<longleftrightarrow> -7 \<le> len"
proof -
  consider "len \<le> -9" | "len = -8" | "-7 \<le> len" "len \<le> 0" | "1 \<le> len" by linarith
  then show ?thesis
  proof cases
    case 1
    have "(len + 8) mod 2 ^ 64 = len + 8 + 2 ^ 64"
    proof -
      have "(len + 8) mod 2 ^ 64 = (len + 8 + 2 ^ 64) mod 2 ^ 64" by (rule mod_add_self2 [symmetric])
      also have "\<dots> = len + 8 + 2 ^ 64" using 1 i by (intro mod_pos_pos_trivial) (simp_all add: is_i32_def)
      finally show ?thesis .
    qed
    moreover have "4072 div (len + 8 + 2 ^ 64) = 0" using i by (intro div_pos_pos_trivial) (simp_all add: is_i32_def)
    ultimately show ?thesis using 1
      by (simp add: new_btree_order_def PAGE_SIZE_def sizeof_IxPageHdr_def sizeof_Rid_def Let_def is_i32_def)
  next
    case 3
    then have "len \<in> {-7..0}" by simp
    then have "len \<in> set [-7, -6, -5, -4, -3, -2, -1, 0]" by (auto simp: atLeastAtMost_iff)
    then show ?thesis
      by (auto simp: new_btree_order_def PAGE_SIZE_def sizeof_IxPageHdr_def sizeof_Rid_def Let_def is_i32_def)
  next
    case 4
    then have len: "1 \<le> nat len" "nat len \<le> IX_MAX_COL_LEN" using m unfolding IX_MAX_COL_LEN_def by linarith+
    then show ?thesis
      using new_ix_hdr_bytes_eq(1) [OF len, of TYPE_INT] new_ix_hdr_fits(2) [OF len, of TYPE_INT] 4 by simp
  qed (simp add: new_btree_order_def sizeof_Rid_def)
qed

section \<open>Creating and opening\<close>

lemma same_files_trans: "same_files d d' \<Longrightarrow> same_files d' d'' \<Longrightarrow> same_files d d''"
  by (simp add: same_files_def)

definition ix_file_ok :: "mem \<Rightarrow> byte list \<Rightarrow> int \<Rightarrow> nat \<Rightarrow> DiskManager \<Rightarrow> bool" where
  "ix_file_ok root fhdr fd ino d \<longleftrightarrow> mread (file_byte d ino) 0 36 = fhdr \<and> 3 * 4096 \<le> os_size (dm_os d) ino \<and>
     (\<forall>i < 4096. file_byte d ino (2 * 4096 + i) = root i) \<and> fd2pageno d fd = 2"

lemma write_index_file_ok:
  assumes ino: "fd_ino u fd = Some ino" and fd: "0 \<le> fd" "fd < MAX_FD" and l: "length fhdr = 36"
  shows "\<exists>v. write_index_file junk fd fhdr u = (Inr (), v) \<and> same_files u v \<and> other_files ino u v \<and>
    ix_file_ok (empty_leaf IX_LEAF_HEADER_PAGE (empty_leaf IX_INIT_ROOT_PAGE junk)) fhdr fd ino v"
proof -
  let ?b0 = "mwrite zero_mem 0 fhdr" and ?b1 = "empty_leaf IX_INIT_ROOT_PAGE junk"
  let ?b2 = "empty_leaf IX_LEAF_HEADER_PAGE ?b1"
  have ad: "addressable 0" "addressable 1" "addressable 2" by (simp_all add: addressable_def)
  from write_page_run [OF ino ad(1), of ?b0 36]
  obtain d0 where W0: "write_page fd 0 ?b0 36 u = (Inr (), d0)" "same_tables u d0"
    "\<And>j i. file_byte d0 j i = (if j = ino \<and> nat 0 * 4096 \<le> i \<and> i < nat 0 * 4096 + 36 then ?b0 (i - nat 0 * 4096) else file_byte u j i)"
    "\<And>j. os_size (dm_os d0) j = (if j = ino \<and> (36 :: nat) \<noteq> 0 then max (os_size (dm_os u) ino) (nat 0 * 4096 + 36) else os_size (dm_os u) j)"
    by blast
  have i0: "fd_ino d0 fd = Some ino" using W0(2) ino by (simp add: same_tables_def)
  from write_page_run [OF i0 ad(2), of ?b1 4096]
  obtain d1 where W1: "write_page fd 1 ?b1 4096 d0 = (Inr (), d1)" "same_tables d0 d1"
    "\<And>j i. file_byte d1 j i = (if j = ino \<and> nat 1 * 4096 \<le> i \<and> i < nat 1 * 4096 + 4096 then ?b1 (i - nat 1 * 4096) else file_byte d0 j i)"
    "\<And>j. os_size (dm_os d1) j = (if j = ino \<and> (4096 :: nat) \<noteq> 0 then max (os_size (dm_os d0) ino) (nat 1 * 4096 + 4096) else os_size (dm_os d0) j)"
    by blast
  have i1: "fd_ino d1 fd = Some ino" using W1(2) i0 by (simp add: same_tables_def)
  from write_page_run [OF i1 ad(3), of ?b2 4096]
  obtain d2 where W2: "write_page fd 2 ?b2 4096 d1 = (Inr (), d2)" "same_tables d1 d2"
    "\<And>j i. file_byte d2 j i = (if j = ino \<and> nat 2 * 4096 \<le> i \<and> i < nat 2 * 4096 + 4096 then ?b2 (i - nat 2 * 4096) else file_byte d1 j i)"
    "\<And>j. os_size (dm_os d2) j = (if j = ino \<and> (4096 :: nat) \<noteq> 0 then max (os_size (dm_os d1) ino) (nat 2 * 4096 + 4096) else os_size (dm_os d1) j)"
    by blast
  let ?v = "d2\<lparr>fd2pageno := (fd2pageno d2)(fd := 2)\<rparr>"
  have run: "write_index_file junk fd fhdr u = (Inr (), ?v)"
    using W0(1) W1(1) W2(1) fd
    by (simp add: write_index_file_def andthen_def set_fd2pageno_def IX_FILE_HDR_PAGE_def IX_LEAF_HEADER_PAGE_def
      IX_INIT_ROOT_PAGE_def IX_INIT_NUM_PAGES_def sizeof_IxFileHdr_def PAGE_SIZE_def)
  have "same_files u d2" using W0(2) W1(2) W2(2) same_tables_files same_files_trans by metis
  then have sf: "same_files u ?v" by (simp add: same_files_def fd2pageno_keeps)
  have fb: "file_byte ?v = file_byte d2" by (rule file_byte_cong) simp_all
  have "mread (file_byte d2 ino) 0 36 = mread ?b0 0 36"
    by (rule mread_cong) (simp add: W2(3) W1(3) W0(3))
  then have "mread (file_byte ?v ino) 0 36 = fhdr" using l by (simp add: fb mem_simps)
  moreover have "other_files ino u ?v" by (simp add: other_files_def fb W2(3,4) W1(3,4) W0(3,4) fun_eq_iff)
  ultimately show ?thesis using run sf W2(3,4) by (auto simp: ix_file_ok_def fb)
qed

lemma ix_file_ok_tables:
  "ix_file_ok root fhdr fd ino d \<Longrightarrow> ix_file_ok root fhdr fd ino (d\<lparr>dm_os := (dm_os d)\<lparr>os_fds := x\<rparr>, path2fd := y, fd2path := z\<rparr>)"
  by (simp add: ix_file_ok_def file_byte_tables)

lemma length_new_ix_hdr_bytes: "length (new_ix_hdr_bytes t len order) = 36"
  by (simp add: new_ix_hdr_bytes_def)

lemma create_index_ok:
  fixes junk :: mem
  assumes no: "0 \<le> index_no" and len: "len \<le> int IX_MAX_COL_LEN" and order: "new_btree_order len = Some order" "2 < order"
    and new: "os_names (dm_os (disk_manager b)) (get_index_name f index_no) = None" "get_index_name f index_no \<notin> os_dirs (dm_os (disk_manager b))"
      "path2fd (disk_manager b) (get_index_name f index_no) = None" "free_fd (dm_os (disk_manager b)) = Some fd" and fd: "fd < MAX_FD"
  defines "root \<equiv> empty_leaf IX_LEAF_HEADER_PAGE (empty_leaf IX_INIT_ROOT_PAGE junk)"
  obtains d ino where "create_index junk f index_no t len b = (Inr (), b\<lparr>disk_manager := d\<rparr>)"
    and "os_names (dm_os d) (get_index_name f index_no) = Some ino" and "path2fd d (get_index_name f index_no) = None"
    and "free_fd (dm_os d) = Some fd" and "ix_file_ok root (new_ix_hdr_bytes t len order) fd ino d" and "open_files_ok (disk_manager b) \<longrightarrow> open_files_ok d"
    and "ino = os_next_ino (dm_os (disk_manager b))" and "other_files ino (disk_manager b) d" and "fd_ino d = fd_ino (disk_manager b)"
proof -
  let ?p = "get_index_name f index_no" let ?Q = "ix_file_ok root (new_ix_hdr_bytes t len order) fd"
  let ?hb = "new_ix_hdr_bytes t len order"
  have fd0: "0 \<le> fd" using free_fd_Some [OF new(4)] by simp
  have "\<exists>d1 d2 d3 ino. create_file ?p (disk_manager b) = (Inr (), d1) \<and> open_file ?p d1 = (Inr fd, d2) \<and>
    write_index_file junk fd ?hb d2 = (Inr (), d3) \<and> same_files d2 d3 \<and> os_names (dm_os (close_file fd d3)) ?p = Some ino \<and>
    path2fd (close_file fd d3) ?p = None \<and> free_fd (dm_os (close_file fd d3)) = Some fd \<and> ?Q ino (close_file fd d3) \<and>
    ino = os_next_ino (dm_os (disk_manager b)) \<and> other_files ino (disk_manager b) (close_file fd d3) \<and>
    fd_ino (close_file fd d3) = fd_ino (disk_manager b)"
    by (rule file_session [OF new, where body = "\<lambda>fd. write_index_file junk fd ?hb" and Q = ?Q])
      (simp_all add: write_index_file_ok fd0 fd root_def ix_file_ok_tables length_new_ix_hdr_bytes)
  then obtain d1 d2 d3 ino where S: "create_file ?p (disk_manager b) = (Inr (), d1)" "open_file ?p d1 = (Inr fd, d2)"
    "write_index_file junk fd ?hb d2 = (Inr (), d3)" "os_names (dm_os (close_file fd d3)) ?p = Some ino"
    "path2fd (close_file fd d3) ?p = None" "free_fd (dm_os (close_file fd d3)) = Some fd" "?Q ino (close_file fd d3)" "same_files d2 d3"
    "ino = os_next_ino (dm_os (disk_manager b))" "other_files ino (disk_manager b) (close_file fd d3)"
    "fd_ino (close_file fd d3) = fd_ino (disk_manager b)" by blast
  have run: "create_index junk f index_no t len b = (Inr (), b\<lparr>disk_manager := close_file fd d3\<rparr>)"
    using no len order S(1-3)
    by (simp add: create_index_def andthen_def on_disk_manager_def run_simps Let_def)
  have "open_files_ok (close_file fd d3)" if ok: "open_files_ok (disk_manager b)"
  proof -
    have "open_files_ok d2"
      using open_files_ok_history [OF ok, of "[CallCreate ?p, CallOpen ?p]"] S(1,2) by simp
    then have "open_files_ok d3" using S(8) by (simp add: open_files_ok_def same_files_def flip: fd_ino_None)
    then show ?thesis using open_files_ok_step [of d3 "CallClose fd"] by simp
  qed
  then show ?thesis using that [OF run S(4-7) _ S(9-11)] by blast
qed

lemma IxIndexHandle_new_ok:
  assumes ino: "os_fds (dm_os (disk_manager b)) fd = Some (ino, 0)" and fl: "ix_file_ok root (ix_hdr_bytes h) fd ino (disk_manager b)"
    and fd: "0 \<le> fd" "fd < MAX_FD" and h: "ix_hdr_i32 h"
  shows "IxIndexHandle_new fd b = (let b' = b\<lparr>disk_manager := (move_offset fd ino 36 (disk_manager b))\<lparr>fd2pageno := (fd2pageno (disk_manager b))(fd := 3)\<rparr>\<rparr>
    in (Inr \<lparr>ix_bpm = b', ix_fd = fd, ix_hdr = h\<rparr>, b'))"
proof -
  let ?d = "disk_manager b" let ?m = "mcopy zero_mem 0 (os_bytes (dm_os ?d) ino) 0 36"
  have F: "mread (file_byte ?d ino) 0 36 = ix_hdr_bytes h" "36 \<le> os_size (dm_os ?d) ino" "fd2pageno ?d fd = 2"
    using fl by (auto simp: ix_file_ok_def)
  have "mread ?m 0 36 = mread (file_byte ?d ino) 0 36"
    by (rule nth_equalityI) (use F(2) in \<open>simp_all add: file_byte_def mcopy_def\<close>)
  then have hdr: "ix_hdr_of_mem ?m = Some h" using ix_hdr_roundtrip [OF h] F(1) by simp
  have "min 36 (os_size (dm_os ?d) ino) = 36" using F(2) by simp
  then have "read_page fd IX_FILE_HDR_PAGE zero_mem sizeof_IxFileHdr ?d = (Inr (), ?m, move_offset fd ino 36 ?d)"
    using ino by (simp add: read_page_def IX_FILE_HDR_PAGE_def sys_lseek_def sys_read_def Let_def move_offset_def sizeof_IxFileHdr_def
        page_offset_def is_i32_def)
  then show ?thesis
    using fd hdr F(3) by (simp add: IxIndexHandle_new_def set_fd2pageno_def get_fd2pageno_def andthen_def Let_def move_offset_def)
qed

text \<open>
  A new file on a descriptor that no page in the pool belongs to: the pool stays consistent and the pages of all other files are
  what they were.
\<close>

lemma bpm_inv_new_file:
  assumes inv: "bpm_inv b" and none: "\<forall>pid. pid_fd pid = fd \<longrightarrow> page_table b pid = None" and ok: "open_files_ok d"
    and fds: "\<And>x. x \<noteq> fd \<Longrightarrow> fd_ino d x = fd_ino (disk_manager b) x" and oth: "other_files ino (disk_manager b) d"
    and fresh: "\<And>x. fd_ino (disk_manager b) x \<noteq> Some ino"
  shows "bpm_inv (b\<lparr>disk_manager := d\<rparr>)" and "pid_fd pid \<noteq> fd \<Longrightarrow> page_view (b\<lparr>disk_manager := d\<rparr>) pid = page_view b pid"
proof -
  note D = pool_okD [OF inv]
  have page: "disk_page d x q = disk_page (disk_manager b) x q" "on_disk d x q = on_disk (disk_manager b) x q" if "x \<noteq> fd" for x q
  proof -
    have same: "os_size (dm_os d) j = os_size (dm_os (disk_manager b)) j" "file_byte d j = file_byte (disk_manager b) j"
      if "fd_ino (disk_manager b) x = Some j" for j
    proof -
      have "j \<noteq> ino" using that fresh [of x] by auto
      then show "os_size (dm_os d) j = os_size (dm_os (disk_manager b)) j" "file_byte d j = file_byte (disk_manager b) j"
        using oth by (simp_all add: other_files_def)
    qed
    show "disk_page d x q = disk_page (disk_manager b) x q"
      by (rule ext) (use same fds [OF that] in \<open>simp add: disk_page_def split: option.splits\<close>)
    show "on_disk d x q = on_disk (disk_manager b) x q"
      using same fds [OF that] by (simp add: on_disk_def split: option.splits)
  qed
  have res: "pid_fd pid \<noteq> fd" if "page_table b pid = Some f" for pid f
  proof
    assume "pid_fd pid = fd"
    then have "page_table b pid = None" using none by blast
    then show False using that by simp
  qed
  show "bpm_inv (b\<lparr>disk_manager := d\<rparr>)"
  proof (rule pool_okI)
    fix pid f assume r: "page_table (b\<lparr>disk_manager := d\<rparr>) pid = Some f"
    then show "f < pool_size (b\<lparr>disk_manager := d\<rparr>) \<and> f \<notin> {} \<and> f \<notin> set (free_list (b\<lparr>disk_manager := d\<rparr>)) \<and>
        pg_id (pages (b\<lparr>disk_manager := d\<rparr>) f) = pid \<and> usable (b\<lparr>disk_manager := d\<rparr>) pid"
      using D(5) [of pid f] res [of pid f] fds by (simp add: usable_def)
    assume "pg_pin (pages (b\<lparr>disk_manager := d\<rparr>) f) = 0" "\<not> pg_dirty (pages (b\<lparr>disk_manager := d\<rparr>) f)"
    then show "synced (b\<lparr>disk_manager := d\<rparr>) f"
      using D(5,9) [of pid f] res [of pid f] page [of "pid_fd pid"] r by (simp add: synced_def Let_def)
  qed (use D ok in simp_all)
  show "page_view (b\<lparr>disk_manager := d\<rparr>) pid = page_view b pid" if "pid_fd pid \<noteq> fd"
    using page [OF that] by (simp add: page_view_def split: option.splits)
qed

lemma open_inode_old: "open_files_ok d \<Longrightarrow> fd_ino d x \<noteq> Some (os_next_ino (dm_os d))"
  using open_files_okD(4) [of d x _ "os_next_ino (dm_os d)"] open_files_okD(2) [of d x] fd_ino_None [of d x]
  by (cases "fd2path d x") auto

lemma empty_leaf_fields: "GetSize (empty_leaf l m) = 0" "IsLeafPage (empty_leaf l m)"
proof -
  have keep: "GetSize (SetNextLeaf x m) = GetSize m" "GetSize (SetPrevLeaf x m) = GetSize m" "IsLeafPage (SetNextLeaf x m) = IsLeafPage m"
    "IsLeafPage (SetPrevLeaf x m) = IsLeafPage m" for x m
    by (simp_all add: GetSize_def SetNextLeaf_def SetPrevLeaf_def IsLeafPage_def mem_simps)
  show "GetSize (empty_leaf l m) = 0" "IsLeafPage (empty_leaf l m)"
    by (simp_all add: empty_leaf_def keep SetSize_effect is_i32_def)
qed

lemma empty_leaf_node: "node_ok h m \<and> node_entries h m = []" if "GetSize m = 0"
  using that by (simp add: node_ok_def node_size_ok_def GetMaxSize_def node_keys_def node_entries_def ixk.increasing_def)

lemma open_index_run:
  assumes p: "os_names (dm_os d) (get_index_name f index_no) = Some ino" "path2fd d (get_index_name f index_no) = None"
      "free_fd (dm_os d) = Some fd" and fd: "fd < MAX_FD" and h: "ix_hdr_i32 h" and fl: "ix_file_ok root (ix_hdr_bytes h) fd ino d"
    and ok: "open_files_ok d"
  obtains e where "open_index f index_no (b\<lparr>disk_manager := d\<rparr>) = (Inr \<lparr>ix_bpm = b\<lparr>disk_manager := e\<rparr>, ix_fd = fd, ix_hdr = h\<rparr>, b\<lparr>disk_manager := e\<rparr>)"
    and "fd_ino e fd = Some ino" and "file_byte e = file_byte d" and "os_size (dm_os e) = os_size (dm_os d)" and "open_files_ok e"
    and "\<And>x. x \<noteq> fd \<Longrightarrow> fd_ino e x = fd_ino d x" and "fd2pageno e fd = 3" and "other_files i d e"
proof -
  let ?p = "get_index_name f index_no"
  define u where "u = d\<lparr>dm_os := (dm_os d)\<lparr>os_fds := (os_fds (dm_os d))(fd \<mapsto> (ino, 0))\<rparr>, path2fd := (path2fd d)(?p \<mapsto> fd), fd2path := (fd2path d)(fd \<mapsto> ?p)\<rparr>"
  have op: "open_file ?p d = (Inr fd, u)" unfolding u_def by (rule open_file_run [OF p])
  have oku: "open_files_ok u" using open_files_ok_step [OF ok, of "CallOpen ?p"] op by simp
  have fu: "ix_file_ok root (ix_hdr_bytes h) fd ino u" unfolding u_def by (rule ix_file_ok_tables [OF fl])
  have iu: "os_fds (dm_os u) fd = Some (ino, 0)" by (simp add: u_def)
  define e where "e = (move_offset fd ino 36 u)\<lparr>fd2pageno := (fd2pageno u)(fd := 3)\<rparr>"
  have fb: "file_byte e = file_byte d"
    using file_byte_cong [of e u] by (simp add: e_def move_offset_def) (simp add: u_def file_byte_tables)
  have run: "open_index f index_no (b\<lparr>disk_manager := d\<rparr>) = (Inr \<lparr>ix_bpm = b\<lparr>disk_manager := e\<rparr>, ix_fd = fd, ix_hdr = h\<rparr>, b\<lparr>disk_manager := e\<rparr>)"
    using op IxIndexHandle_new_ok [of "b\<lparr>disk_manager := u\<rparr>" fd ino root h] iu fu free_fd_Some [OF p(3)] fd h
    by (simp add: open_index_def on_disk_manager_def e_def Let_def)
  have "same_files u e" using iu by (auto simp: same_files_def e_def move_offset_def fd_ino_def fun_eq_iff)
  then have "open_files_ok e" using oku by (simp add: open_files_ok_def same_files_def flip: fd_ino_None)
  moreover have "other_files i d e" using fb by (simp add: other_files_def, simp add: e_def u_def move_offset_def)
  moreover have "fd_ino e x = fd_ino d x" if "x \<noteq> fd" for x using that by (simp add: e_def u_def move_offset_def fd_ino_def)
  ultimately show ?thesis using run fb by (intro that) (simp_all add: e_def u_def move_offset_def fd_ino_def)
qed

text \<open>
  C28. An index that \<open>IxManager::create_index\<close> has created on a column of length 1 to 512 is opened by \<open>IxManager::open_index\<close> as an empty search tree of height 0, whatever
  the uninitialised buffer held, with the header computed at creation; the next new node gets page number 3. The pool may hold pages of other
  files, which keep their content, but none left under the descriptor the file gets.
\<close>

theorem create_index_open_index:
  assumes inv: "bpm_inv b" and none: "\<forall>pid. pid_fd pid = fd \<longrightarrow> page_table b pid = None"
    and no: "0 \<le> index_no" and len: "1 \<le> len" "len \<le> IX_MAX_COL_LEN"
    and new: "os_names (dm_os (disk_manager b)) (get_index_name f index_no) = None" "get_index_name f index_no \<notin> os_dirs (dm_os (disk_manager b))"
      "path2fd (disk_manager b) (get_index_name f index_no) = None" "free_fd (dm_os (disk_manager b)) = Some fd" and fd: "fd < MAX_FD"
  shows "\<exists>b1 ih b2. create_index junk f index_no t (int len) b = (Inr (), b1) \<and> open_index f index_no b1 = (Inr ih, b2) \<and>
    ix_hdr ih = new_ix_hdr t len \<and> ix_tree ih 0 \<and> ix_entries ih 0 = [] \<and> fd2pageno (disk_manager b2) fd = 3 \<and>
    (\<forall>pid. pid_fd pid \<noteq> fd \<longrightarrow> page_view b2 pid = page_view b pid)"
proof -
  let ?p = "get_index_name f index_no" let ?h = "new_ix_hdr t len"
  let ?root = "empty_leaf IX_LEAF_HEADER_PAGE (empty_leaf IX_INIT_ROOT_PAGE junk)"
  have l: "int len \<le> int IX_MAX_COL_LEN" and order: "2 < int (btree_order ?h)" using len new_ix_hdr_fits(2) [OF len, of t] by simp_all
  obtain d ino where C: "create_index junk f index_no t (int len) b = (Inr (), b\<lparr>disk_manager := d\<rparr>)" "os_names (dm_os d) ?p = Some ino"
    "path2fd d ?p = None" "free_fd (dm_os d) = Some fd" "ix_file_ok ?root (ix_hdr_bytes ?h) fd ino d" "open_files_ok (disk_manager b) \<longrightarrow> open_files_ok d"
    "ino = os_next_ino (dm_os (disk_manager b))" "other_files ino (disk_manager b) d" "fd_ino d = fd_ino (disk_manager b)"
    by (rule create_index_ok [where junk = junk and t = t, OF no l new_ix_hdr_bytes_eq(1) [OF len, of t] order new fd])
      (simp add: new_ix_hdr_bytes_eq(2) [OF len])
  note okd = C(6) [rule_format, OF pool_okD(1) [OF inv]]
  obtain e where E: "open_index f index_no (b\<lparr>disk_manager := d\<rparr>) = (Inr \<lparr>ix_bpm = b\<lparr>disk_manager := e\<rparr>, ix_fd = fd, ix_hdr = ?h\<rparr>, b\<lparr>disk_manager := e\<rparr>)"
    "fd_ino e fd = Some ino" "file_byte e = file_byte d" "os_size (dm_os e) = os_size (dm_os d)" "open_files_ok e"
    "\<And>x. x \<noteq> fd \<Longrightarrow> fd_ino e x = fd_ino d x" "fd2pageno e fd = 3" "other_files ino d e"
    using open_index_run [OF C(2-4) fd new_ix_hdr_fits(3) [OF len, of t] C(5) okd] by metis
  let ?b2 = "b\<lparr>disk_manager := e\<rparr>" let ?ih = "\<lparr>ix_bpm = ?b2, ix_fd = fd, ix_hdr = ?h\<rparr>"
  have fds: "fd_ino e x = fd_ino (disk_manager b) x" if "x \<noteq> fd" for x using E(6) [OF that] C(9) by simp
  have fresh: "fd_ino (disk_manager b) x \<noteq> Some ino" for x using open_inode_old [OF pool_okD(1) [OF inv]] C(7) by simp
  note oth = other_files_trans [OF C(8) E(8)]
  note inv2 = bpm_inv_new_file(1) [OF inv none E(5) fds oth fresh] and views = bpm_inv_new_file(2) [OF inv none E(5) fds oth fresh]
  have pid: "ix_pid ?ih 2 = \<lparr>pid_fd = fd, pid_no = 2\<rparr>" by (simp add: ix_pid_def)
  have rp: "root_page ?h = 2" by (simp add: new_ix_hdr_def Let_def IX_INIT_ROOT_PAGE_def)
  have pg: "ix_page ?ih 2 = trim ?root"
    using none C(5) by (auto simp: ix_page_def pid page_view_def disk_page_def E(2,3) trim_def PAGE_SIZE_def ix_file_ok_def fun_eq_iff)
  have has: "ix_has ?ih 2"
    using C(5) by (simp add: ix_has_def pid usable_def stored_def addressable_def E(2,4) on_disk_def PAGE_SIZE_def ix_file_ok_def)
  have hf: "hdr_fits ?h" using new_ix_hdr_fits(1) [OF len] by blast
  have "GetSize (trim ?root) = 0" "IsLeafPage (trim ?root)"
    using node_trim(1) [OF hf, of ?root] leaf_links [OF node_trim(2) [OF hf, of ?root]] empty_leaf_fields by auto
  then have "ix_tree ?ih 0 \<and> ix_entries ?ih 0 = []"
    using inv2 hf has empty_leaf_node [of "trim ?root" ?h] by (simp add: ix_tree_def ix_entries_def ix_inv_def rp pg)
  then show ?thesis using C(1) E(1,7) views by (intro exI conjI) auto
qed

theorem create_index_open_index_witness:
  "\<exists>b1 ih b2. create_index zero_mem ''u'' 0 TYPE_INT 4 dirty_pool = (Inr (), b1) \<and> open_index ''u'' 0 b1 = (Inr ih, b2) \<and>
    ix_hdr ih = new_ix_hdr TYPE_INT 4 \<and> ix_tree ih 0 \<and> ix_entries ih 0 = [] \<and> fd2pageno (disk_manager b2) 1 = 3 \<and>
    (\<forall>pid. pid_fd pid \<noteq> 1 \<longrightarrow> page_view b2 pid = page_view dirty_pool pid)"
proof -
  have "disk_manager dirty_pool = sample_disk" "\<forall>pid. pid_fd pid = 1 \<longrightarrow> page_table dirty_pool pid = None"
    by (auto simp: dirty_pool_def sample_pid_def)
  then show ?thesis
    using create_index_open_index [of dirty_pool 1 0 4 "''u''" zero_mem TYPE_INT]
    by (simp add: IX_MAX_COL_LEN_def dirty_pool_ok sample_disk_eq sample_os_def MAX_FD_def free_fd_def upt_rec get_index_name_def)
qed

lemma new_ix_hdr_in_file:
  assumes m: "mread m 0 36 = new_ix_hdr_bytes t len order"
  shows "get_i32 m 24 = to_i32 ((order + 1) * len)"
    and "1 \<le> len \<Longrightarrow> len \<le> 512 \<Longrightarrow> new_btree_order len = Some order \<Longrightarrow> ix_hdr_of_mem m = Some (new_ix_hdr t (nat len))"
proof -
  have "mread m 24 4 = take 4 (drop 24 (mread m 0 36))" by (rule nth_equalityI) simp_all
  then show "get_i32 m 24 = to_i32 ((order + 1) * len)" by (simp add: get_i32_def m new_ix_hdr_bytes_def)
  assume l: "1 \<le> len" "len \<le> 512" and o: "new_btree_order len = Some order"
  then have len: "1 \<le> nat len" "nat len \<le> IX_MAX_COL_LEN" unfolding IX_MAX_COL_LEN_def by linarith+
  show "ix_hdr_of_mem m = Some (new_ix_hdr t (nat len))"
    using ix_hdr_roundtrip [OF new_ix_hdr_fits(3) [OF len], of m t] new_ix_hdr_bytes_eq [OF len, of t] m o l by simp
qed

lemma create_index_refuses:
  assumes "is_i32 len" and "len < -7 \<or> 512 < len"
  shows "\<exists>e b'. create_index junk f index_no t len b = (Inl e, b')"
proof -
  have low: "\<not> 2 < order" if "new_btree_order len = Some order" "len \<le> 512" for order
    using new_btree_order_accepts [OF assms(1) that(2)] that assms(2) by auto
  show ?thesis
    unfolding create_index_def Let_def andthen_def
    by (cases "new_btree_order len") (use low in \<open>auto simp: throw_def IX_MAX_COL_LEN_def split: sum.splits prod.splits\<close>)
qed

text \<open>
  C29. Column lengths and the layout of index nodes. \<open>create_index\<close> of a new file succeeds exactly for the lengths from \<open>-7\<close> to 512. For a
  length from 1 on the header in the file gives nodes whose keys and record ids, with one entry more than \<open>btree_order\<close>, fit in the page, where the keys
  end before the first record id, and the order is at least 6. For the lengths from \<open>-7\<close> to 0, which are accepted too, the size of the key area
  in the file header (\<open>keys_size\<close>, at byte 24) is not positive, so that the record ids have no place behind the keys.
\<close>

theorem index_nodes_fit_page:
  assumes "is_i32 len" and "0 \<le> index_no" and "os_names (dm_os (disk_manager b)) (get_index_name f index_no) = None"
    and "get_index_name f index_no \<notin> os_dirs (dm_os (disk_manager b))" and "path2fd (disk_manager b) (get_index_name f index_no) = None"
    and "free_fd (dm_os (disk_manager b)) = Some fd" and "fd < MAX_FD"
  shows "((\<exists>b'. create_index junk f index_no t len b = (Inr (), b')) \<longleftrightarrow> -7 \<le> len \<and> len \<le> 512) \<and>
    (\<forall>b'. create_index junk f index_no t len b = (Inr (), b') \<longrightarrow>
      (\<exists>ino m. os_names (dm_os (disk_manager b')) (get_index_name f index_no) = Some ino \<and> m = file_byte (disk_manager b') ino \<and>
        (if 1 \<le> len then
           (\<exists>h. ix_hdr_of_mem m = Some h \<and> h = new_ix_hdr t (nat len) \<and> 6 \<le> btree_order h \<and>
              (\<forall>i \<le> btree_order h. key_off h i + nat len \<le> rid_off h 0 \<and> rid_off h i + sizeof_Rid \<le> PAGE_SIZE))
         else get_i32 m 24 \<le> 0)))"
proof (cases "-7 \<le> len \<and> len \<le> 512")
  case False
  then show ?thesis using create_index_refuses [OF assms(1), of junk f index_no t b] by auto
next
  case True
  then obtain n where n: "new_btree_order len = Some n" "2 < n" using new_btree_order_accepts [OF assms(1)] by auto
  have l: "len \<le> int IX_MAX_COL_LEN" using True by (simp add: IX_MAX_COL_LEN_def)
  obtain d ino where C: "create_index junk f index_no t len b = (Inr (), b\<lparr>disk_manager := d\<rparr>)"
    "os_names (dm_os d) (get_index_name f index_no) = Some ino" "mread (file_byte d ino) 0 36 = new_ix_hdr_bytes t len n"
    by (rule create_index_ok [where junk = junk and t = t, OF assms(2) l n assms(3-7)]) (auto simp: ix_file_ok_def)
  note H = new_ix_hdr_in_file [OF C(3)]
  have "if 1 \<le> len then ix_hdr_of_mem (file_byte d ino) = Some (new_ix_hdr t (nat len)) \<and> 6 \<le> btree_order (new_ix_hdr t (nat len)) \<and>
      (\<forall>i \<le> btree_order (new_ix_hdr t (nat len)). key_off (new_ix_hdr t (nat len)) i + nat len \<le> rid_off (new_ix_hdr t (nat len)) 0 \<and>
         rid_off (new_ix_hdr t (nat len)) i + sizeof_Rid \<le> PAGE_SIZE)
    else get_i32 (file_byte d ino) 24 \<le> 0"
  proof (cases "1 \<le> len")
    case l1: True
    then have len: "1 \<le> nat len" "nat len \<le> IX_MAX_COL_LEN" using True unfolding IX_MAX_COL_LEN_def by linarith+
    show ?thesis using l1 True H(2) [OF _ _ n(1)] new_ix_hdr_fits(2) [OF len] node_cells_fit [OF len] by auto
  next
    case False
    then have "len \<in> set [-7, -6, -5, -4, -3, -2, -1, 0]" using True by (auto simp: atLeastAtMost_iff)
    then have "to_i32 ((n + 1) * len) \<le> 0"
      using n(1) by (auto simp: new_btree_order_def PAGE_SIZE_def sizeof_IxPageHdr_def sizeof_Rid_def Let_def is_i32_def)
    then show ?thesis using False H(1) by simp
  qed
  then show ?thesis using C(1,2) True by (auto split: if_splits)
qed

theorem index_nodes_fit_page_witness:
  "\<exists>b' ino. create_index zero_mem ''u'' 0 TYPE_STRING (-4) dirty_pool = (Inr (), b') \<and>
    os_names (dm_os (disk_manager b')) (get_index_name ''u'' 0) = Some ino \<and> get_i32 (file_byte (disk_manager b') ino) 24 \<le> 0"
proof -
  have "disk_manager dirty_pool = sample_disk" by (simp add: dirty_pool_def)
  then show ?thesis
    using index_nodes_fit_page [of "-4" 0 dirty_pool "''u''" 1 zero_mem TYPE_STRING]
    by (auto simp: is_i32_def sample_disk_eq sample_os_def MAX_FD_def free_fd_def upt_rec get_index_name_def)
qed

end
