(* ===== verification/Sm_Meta.thy ===== *)
theory Sm_Meta
  imports Rb_Defs "HOL-Library.List_Lexorder" "HOL-Library.Char_ord"
begin

text \<open>
  The catalogue of a database, \<open>system/sm_meta.h\<close>: columns, tables and the database with its tables, and the stream operators
  that write the catalogue to \<open>db.meta\<close> and read it back. A \<open>std::map\<close> is an association list in key order (the order its iterator
  has). An input stream is the text still to be read; a reader returns \<open>None\<close> once the stream has failed, after which the
  variables of the source keep whatever they held.
\<close>

section \<open>Ordered maps\<close>

text \<open>\<open>m[k] = v\<close> on a \<open>std::map\<close>; a lookup is \<open>map_of\<close>.\<close>

fun map_assign :: "'k::linorder \<Rightarrow> 'v \<Rightarrow> ('k \<times> 'v) list \<Rightarrow> ('k \<times> 'v) list" where
  "map_assign k v [] = [(k, v)]"
| "map_assign k v ((k', v') # xs) =
     (if k = k' then (k, v) # xs else if k < k' then (k, v) # (k', v') # xs else (k', v') # map_assign k v xs)"

definition map_ok :: "('k::linorder \<times> 'v) list \<Rightarrow> bool" where
  "map_ok xs \<longleftrightarrow> sorted_wrt (<) (map fst xs)"

lemma fst_map_assign: "fst ` set (map_assign k v xs) = insert k (fst ` set xs)"
  by (induction k v xs rule: map_assign.induct) auto

lemma map_ok_assign: "map_ok xs \<Longrightarrow> map_ok (map_assign k v xs)"
proof (induction k v xs rule: map_assign.induct)
  case (2 k v k' v' xs)
  then have "\<forall>x \<in> fst ` set xs. k' < x" and IH: "k' < k \<Longrightarrow> map_ok (map_assign k v xs)" by (auto simp: map_ok_def)
  moreover have "fst ` set (map_assign k v xs) = insert k (fst ` set xs)" by (rule fst_map_assign)
  ultimately have "\<forall>x \<in> fst ` set (map_assign k v xs). k' < x" if "k' < k" using that by auto
  then have "map_ok ((k', v') # map_assign k v xs)" if "k' < k" using that IH by (auto simp: map_ok_def)
  then show ?case using 2(2) by (cases k k' rule: linorder_cases) (auto simp: map_ok_def)
qed (simp add: map_ok_def)

lemma map_of_assign: "map_ok xs \<Longrightarrow> map_of (map_assign k v xs) = (map_of xs)(k \<mapsto> v)"
  by (induction k v xs rule: map_assign.induct) (auto simp: map_ok_def fun_eq_iff)

lemma map_assign_snoc: "\<forall>x \<in> fst ` set xs. x < k \<Longrightarrow> map_assign k v xs = xs @ [(k, v)]"
  by (induction k v xs rule: map_assign.induct) auto

lemma map_ok_build: "map_ok xs \<Longrightarrow> fold (\<lambda>(k, v). map_assign k v) xs [] = xs"
proof (induction xs rule: rev_induct)
  case (snoc x xs)
  then show ?case by (cases x) (auto simp: map_ok_def sorted_wrt_append intro!: map_assign_snoc)
qed simp

section \<open>The catalogue\<close>

record ColMeta =
  cm_tab_name :: string
  cm_name :: string
  cm_type :: ColType
  cm_len :: int
  cm_offset :: int
  cm_index :: bool

record TabMeta =
  tm_name :: string
  tm_cols :: "ColMeta list"

record DbMeta =
  db_name :: string
  db_tabs :: "(string \<times> TabMeta) list"

text \<open>
  \<open>TabMeta::is_col\<close> and \<open>TabMeta::get_col\<close> are placeholders in the source: the first always answers no, the second returns an
  iterator that was default-constructed and points nowhere (\<open>None\<close>). An iterator into \<open>cols\<close> is otherwise the position of the column.
\<close>

definition is_col :: "string \<Rightarrow> TabMeta \<Rightarrow> bool" where
  "is_col col_name tab = False"

definition TabMeta_get_col :: "string \<Rightarrow> TabMeta \<Rightarrow> nat option" where
  "TabMeta_get_col col_name tab = None"

definition deref_col :: "TabMeta \<Rightarrow> nat option \<Rightarrow> rb_error + ColMeta" where
  "deref_col tab it = (case it of None \<Rightarrow> Inl NullDereference | Some i \<Rightarrow> Inr (tm_cols tab ! i))"

definition is_table :: "string \<Rightarrow> DbMeta \<Rightarrow> bool" where
  "is_table tab_name db \<longleftrightarrow> map_of (db_tabs db) tab_name \<noteq> None"

definition get_table :: "string \<Rightarrow> DbMeta \<Rightarrow> rb_error + TabMeta" where
  "get_table tab_name db =
     (case map_of (db_tabs db) tab_name of None \<Rightarrow> Inl (TableNotFoundError tab_name) | Some tab \<Rightarrow> Inr tab)"

section \<open>Writing\<close>

definition newline :: string where "newline = [CHR 0x0A]"

definition bool_text :: "bool \<Rightarrow> string" where
  "bool_text b = (if b then ''1'' else ''0'')"

definition ColMeta_out :: "ColMeta \<Rightarrow> string" where
  "ColMeta_out col = cm_tab_name col @ '' '' @ cm_name col @ '' '' @ to_string (coltype_to_int (cm_type col)) @ '' '' @
     to_string (cm_len col) @ '' '' @ to_string (cm_offset col) @ '' '' @ bool_text (cm_index col)"

definition TabMeta_out :: "TabMeta \<Rightarrow> string" where
  "TabMeta_out tab = tm_name tab @ newline @ to_string (int (length (tm_cols tab))) @ newline @
     concat (map (\<lambda>col. ColMeta_out col @ newline) (tm_cols tab))"

definition DbMeta_out :: "DbMeta \<Rightarrow> string" where
  "DbMeta_out db = db_name db @ newline @ to_string (int (length (db_tabs db))) @ newline @
     concat (map (\<lambda>(_, tab). TabMeta_out tab @ newline) (db_tabs db))"

section \<open>Reading\<close>

type_synonym 'a reader = "string \<Rightarrow> ('a \<times> string) option"

definition rret :: "'a \<Rightarrow> 'a reader" where
  "rret x s = Some (x, s)"

definition rbind :: "'a reader \<Rightarrow> ('a \<Rightarrow> 'b reader) \<Rightarrow> 'b reader" where
  "rbind r f s = (case r s of None \<Rightarrow> None | Some (x, t) \<Rightarrow> f x t)"

text \<open>\<open>std::isspace\<close> in the C locale.\<close>

definition is_space :: "char \<Rightarrow> bool" where
  "is_space c \<longleftrightarrow> (let k = of_char c :: nat in k = 32 \<or> (9 \<le> k \<and> k \<le> 13))"

definition read_string :: "string reader" where
  "read_string s =
     (let t = dropWhile is_space s; w = takeWhile (\<lambda>c. \<not> is_space c) t
      in if w = [] then None else Some (w, drop (length w) t))"

text \<open>
  The integer extractions skip white space, take a sign and the longest run of decimal digits, and fail when there is no digit or
  when the value does not fit the variable. A minus sign before an unsigned value negates it modulo \<open>2^64\<close>.
\<close>

definition split_sign :: "string \<Rightarrow> bool \<times> string" where
  "split_sign t = (case t of [] \<Rightarrow> (False, []) | c # cs \<Rightarrow>
     if c = CHR ''-'' then (True, cs) else if c = CHR ''+'' then (False, cs) else (False, t))"

definition read_number :: "int reader" where
  "read_number s =
     (let (neg, u) = split_sign (dropWhile is_space s); ds = takeWhile (\<lambda>c. digit_val c \<noteq> None) u
      in if ds = [] then None
         else Some (if neg then - int (digits_val ds) else int (digits_val ds), drop (length ds) u))"

definition read_int :: "int reader" where
  "read_int = rbind read_number (\<lambda>v. if is_i32 v then rret v else (\<lambda>_. None))"

definition read_size :: "nat reader" where
  "read_size = rbind read_number (\<lambda>v. if \<bar>v\<bar> < 2 ^ 64 then rret (nat (v mod 2 ^ 64)) else (\<lambda>_. None))"

definition read_bool :: "bool reader" where
  "read_bool = rbind read_number (\<lambda>v. if v = 0 then rret False else if v = 1 then rret True else (\<lambda>_. None))"

definition read_coltype :: "ColType reader" where
  "read_coltype = rbind read_int (\<lambda>v. case int_to_coltype v of None \<Rightarrow> (\<lambda>_. None) | Some t \<Rightarrow> rret t)"

fun read_many :: "nat \<Rightarrow> 'a reader \<Rightarrow> 'a list reader" where
  "read_many 0 r = rret []"
| "read_many (Suc n) r = rbind r (\<lambda>x. rbind (read_many n r) (\<lambda>xs. rret (x # xs)))"

definition ColMeta_in :: "ColMeta reader" where
  "ColMeta_in = rbind read_string (\<lambda>tab. rbind read_string (\<lambda>name. rbind read_coltype (\<lambda>t. rbind read_int (\<lambda>len.
     rbind read_int (\<lambda>offset. rbind read_bool (\<lambda>ix.
       rret \<lparr>cm_tab_name = tab, cm_name = name, cm_type = t, cm_len = len, cm_offset = offset, cm_index = ix\<rparr>))))))"

definition TabMeta_in :: "TabMeta reader" where
  "TabMeta_in = rbind read_string (\<lambda>name. rbind read_size (\<lambda>n. rbind (read_many n ColMeta_in) (\<lambda>cols.
     rret \<lparr>tm_name = name, tm_cols = cols\<rparr>)))"

definition DbMeta_in :: "DbMeta \<Rightarrow> DbMeta reader" where
  "DbMeta_in db = rbind read_string (\<lambda>name. rbind read_size (\<lambda>n. rbind (read_many n TabMeta_in) (\<lambda>tabs.
     rret \<lparr>db_name = name, db_tabs = fold (\<lambda>tab. map_assign (tm_name tab) tab) tabs (db_tabs db)\<rparr>)))"

section \<open>A reader reads a text\<close>

text \<open>
  \<open>reads r w v\<close>: wherever the text \<open>w\<close> stands in the stream, after white space and before white space or the end, \<open>r\<close> reads it
  as \<open>v\<close> and leaves what follows it, up to white space.
\<close>

definition ends :: "string \<Rightarrow> bool" where
  "ends s \<longleftrightarrow> (case s of [] \<Rightarrow> True | c # _ \<Rightarrow> is_space c)"

definition reads :: "'a reader \<Rightarrow> string \<Rightarrow> 'a \<Rightarrow> bool" where
  "reads r w v \<longleftrightarrow> (\<forall>pre rest. list_all is_space pre \<and> ends rest \<longrightarrow>
     (\<exists>ws. list_all is_space ws \<and> r (pre @ w @ rest) = Some (v, ws @ rest)))"

lemma is_space_chars [simp]: "is_space CHR '' ''" "is_space CHR 0x0A"
  by (simp_all add: is_space_def Let_def)

lemma ends_append: "list_all is_space ws \<Longrightarrow> ws \<noteq> [] \<Longrightarrow> ends (ws @ s)"
  by (cases ws) (simp_all add: ends_def)

lemma readsI:
  assumes "\<And>pre rest. list_all is_space pre \<Longrightarrow> ends rest \<Longrightarrow> r (pre @ w @ rest) = Some (v, rest)"
  shows "reads r w v"
  unfolding reads_def using assms by (metis append_Nil list.pred_inject(1))

lemma reads_at:
  assumes "reads r w v" and "list_all is_space pre" and "ends rest"
  obtains ws where "list_all is_space ws" and "r (pre @ w @ rest) = Some (v, ws @ rest)"
  using assms unfolding reads_def by blast

lemma reads_then:
  assumes r: "reads r w v" and f: "reads (f v) w' v'" and sep: "list_all is_space sep" "sep \<noteq> []"
  shows "reads (rbind r f) (w @ sep @ w') v'"
  unfolding reads_def
proof (intro allI impI)
  fix pre rest assume a: "list_all is_space pre \<and> ends rest"
  obtain ws where ws: "list_all is_space ws" "r (pre @ w @ (sep @ w' @ rest)) = Some (v, ws @ (sep @ w' @ rest))"
    using r a ends_append [OF sep] by (metis reads_at)
  have "list_all is_space (ws @ sep)" using ws(1) sep by simp
  then obtain ws' where "list_all is_space ws'" "f v ((ws @ sep) @ w' @ rest) = Some (v', ws' @ rest)"
    using f a by (metis reads_at)
  then show "\<exists>ws. list_all is_space ws \<and> rbind r f (pre @ (w @ sep @ w') @ rest) = Some (v', ws @ rest)"
    using ws(2) by (auto simp: rbind_def)
qed

lemma reads_ret: "reads (rret v) [] v"
  by (auto simp: reads_def rret_def)

lemma reads_last:
  assumes "reads r w v"
  shows "reads (rbind r (\<lambda>x. rret (g x))) w (g v)"
  using assms unfolding reads_def rbind_def rret_def by fastforce

lemma reads_many:
  assumes "\<forall>x \<in> set xs. reads r (text_of x) x" and sep: "list_all is_space sep" "sep \<noteq> []"
  shows "reads (read_many (length xs) r) (concat (map (\<lambda>x. text_of x @ sep) xs)) xs"
  using assms(1)
proof (induction xs)
  case (Cons x xs)
  then have "reads (rbind r (\<lambda>x. rbind (read_many (length xs) r) (\<lambda>xs. rret (x # xs)))) (text_of x @ sep @ concat (map (\<lambda>x. text_of x @ sep) xs)) (x # xs)"
    using sep by (intro reads_then [where v = x] reads_last) simp_all
  then show ?case by simp
qed (simp add: reads_ret)

lemma dropWhile_spaces:
  assumes "list_all is_space pre" and "w \<noteq> []" and "\<not> is_space (hd w)"
  shows "dropWhile is_space (pre @ w @ rest) = w @ rest"
  using assms by (cases w) (auto simp: list_all_iff dropWhile_append3)

definition name_ok :: "string \<Rightarrow> bool" where
  "name_ok s \<longleftrightarrow> s \<noteq> [] \<and> list_all (\<lambda>c. \<not> is_space c) s"

lemma reads_string:
  assumes "name_ok w"
  shows "reads read_string w w"
proof (rule readsI)
  fix pre rest assume a: "list_all is_space pre" "ends rest"
  have n: "w \<noteq> []" "\<forall>c \<in> set w. \<not> is_space c" using assms by (simp_all add: name_ok_def list_all_iff)
  have "dropWhile is_space (pre @ w @ rest) = w @ rest" using a n by (intro dropWhile_spaces) simp_all
  moreover have "takeWhile (\<lambda>c. \<not> is_space c) (w @ rest) = w"
    using n a(2) by (cases rest) (auto simp: ends_def takeWhile_append)
  ultimately show "read_string (pre @ w @ rest) = Some (w, rest)" using n by (simp add: read_string_def Let_def)
qed

lemma digit_not_space: "digit_val c \<noteq> None \<Longrightarrow> \<not> is_space c"
  by (auto simp: digit_val_def is_space_def Let_def split: if_splits)

lemma digit_not_sign: "digit_val c \<noteq> None \<Longrightarrow> c \<noteq> CHR ''-'' \<and> c \<noteq> CHR ''+''"
  by (auto simp: digit_val_def)

lemma reads_number: "reads read_number (to_string i) i"
proof (rule readsI)
  fix pre rest assume a: "list_all is_space pre" "ends rest"
  define ds where "ds = nat_digits (nat \<bar>i\<bar>)"
  have ds: "ds \<noteq> []" "\<forall>c \<in> set ds. digit_val c \<noteq> None" "digits_val ds = nat \<bar>i\<bar>"
    using nat_digits_all_digits by (simp_all add: ds_def list_all_iff)
  have hd: "digit_val (hd ds) \<noteq> None" using ds by simp
  have w: "to_string i = (if i < 0 then CHR ''-'' # ds else ds)" by (simp add: to_string_def ds_def)
  have "dropWhile is_space (pre @ to_string i @ rest) = to_string i @ rest"
    using a(1) ds(1) digit_not_space [OF hd] by (intro dropWhile_spaces) (simp_all add: w is_space_def Let_def)
  moreover have "split_sign (to_string i @ rest) = (i < 0, ds @ rest)"
    using ds(1) digit_not_sign [OF hd] by (cases ds) (simp_all add: w split_sign_def)
  moreover have "takeWhile (\<lambda>c. digit_val c \<noteq> None) (ds @ rest) = ds"
    using ds(2) a(2) digit_not_space by (cases rest) (force simp: ends_def takeWhile_append)+
  ultimately show "read_number (pre @ to_string i @ rest) = Some (i, rest)"
    using ds(1,3) by (simp add: read_number_def Let_def)
qed

lemma reads_checked:
  assumes "reads r w v" and "f v = rret u"
  shows "reads (rbind r f) w u"
  using assms unfolding reads_def rbind_def rret_def by fastforce

lemma reads_int: "is_i32 i \<Longrightarrow> reads read_int (to_string i) i"
  unfolding read_int_def by (rule reads_checked [OF reads_number]) simp

lemma reads_size: "n < 2 ^ 64 \<Longrightarrow> reads read_size (to_string (int n)) n"
  unfolding read_size_def by (rule reads_checked [OF reads_number]) (simp add: nat_mod_as_int [symmetric] flip: of_nat_less_iff)

lemma reads_coltype: "reads read_coltype (to_string (coltype_to_int t)) t"
  unfolding read_coltype_def by (rule reads_checked [OF reads_int]) (cases t, simp_all add: is_i32_def)

lemma bool_text_number: "bool_text b = to_string (if b then 1 else 0)"
  by (cases b) (simp_all add: bool_text_def to_string_def nat_digits.simps digit_char_def char_of_def bit_iff_odd drop_bit_eq_div)

lemma reads_bool: "reads read_bool (bool_text b) b"
  unfolding read_bool_def bool_text_number by (rule reads_checked [OF reads_number]) simp

section \<open>The catalogue survives a round trip through its file\<close>

definition col_ok :: "ColMeta \<Rightarrow> bool" where
  "col_ok col \<longleftrightarrow> name_ok (cm_tab_name col) \<and> name_ok (cm_name col) \<and> is_i32 (cm_len col) \<and> is_i32 (cm_offset col)"

definition tab_ok :: "TabMeta \<Rightarrow> bool" where
  "tab_ok tab \<longleftrightarrow> name_ok (tm_name tab) \<and> list_all col_ok (tm_cols tab) \<and> length (tm_cols tab) < 2 ^ 64"

definition db_ok :: "DbMeta \<Rightarrow> bool" where
  "db_ok db \<longleftrightarrow> name_ok (db_name db) \<and> map_ok (db_tabs db) \<and> length (db_tabs db) < 2 ^ 64 \<and>
     list_all (\<lambda>(k, tab). tm_name tab = k \<and> tab_ok tab) (db_tabs db)"

lemma seps [simp]: "list_all is_space newline" "newline \<noteq> []"
  by (simp_all add: newline_def)

lemma meta_eta [simp]:
  "\<lparr>cm_tab_name = cm_tab_name c, cm_name = cm_name c, cm_type = cm_type c, cm_len = cm_len c, cm_offset = cm_offset c, cm_index = cm_index c\<rparr> = c"
  "\<lparr>tm_name = tm_name t, tm_cols = tm_cols t\<rparr> = t" "\<lparr>db_name = db_name d, db_tabs = db_tabs d\<rparr> = d"
  by (cases c, simp) (cases t, simp, cases d, simp)

lemma reads_ColMeta:
  assumes "col_ok col"
  shows "reads ColMeta_in (ColMeta_out col) col"
  unfolding ColMeta_in_def ColMeta_out_def
  by (intro reads_then [OF reads_string] reads_then [OF reads_int] reads_then [OF reads_coltype] reads_checked [OF reads_bool])
    (use assms in \<open>simp_all add: col_ok_def\<close>)

lemma reads_TabMeta:
  assumes "tab_ok tab"
  shows "reads TabMeta_in (TabMeta_out tab) tab"
  unfolding TabMeta_in_def TabMeta_out_def
  by (intro reads_then [OF reads_string] reads_then [OF reads_size] reads_checked [OF reads_many])
    (use assms in \<open>simp_all add: tab_ok_def list_all_iff [of col_ok] reads_ColMeta\<close>)

lemma rebuild_tabs:
  assumes "db_ok db"
  shows "fold (\<lambda>tab. map_assign (tm_name tab) tab) (map snd (db_tabs db)) [] = db_tabs db"
proof -
  have "fold (\<lambda>tab. map_assign (tm_name tab) tab) (map snd xs) ys = fold (\<lambda>(k, v). map_assign k v) xs ys"
    if "list_all (\<lambda>(k, tab). tm_name tab = k \<and> tab_ok tab) xs" for xs ys
    using that by (induction xs arbitrary: ys) auto
  from this [of "db_tabs db" "[]"] show ?thesis using assms map_ok_build [of "db_tabs db"] by (simp add: db_ok_def)
qed

lemma reads_DbMeta:
  assumes ok: "db_ok db" and empty: "db_tabs db0 = []"
  shows "reads (DbMeta_in db0) (DbMeta_out db) db"
proof -
  have many: "reads (read_many (length (map snd (db_tabs db))) TabMeta_in)
      (concat (map (\<lambda>tab. TabMeta_out tab @ newline) (map snd (db_tabs db)))) (map snd (db_tabs db))"
    using ok by (intro reads_many ballI reads_TabMeta) (auto simp: db_ok_def list_all_iff [of "\<lambda>(k, tab). tm_name tab = k \<and> tab_ok tab"])
  have out: "concat (map (\<lambda>tab. TabMeta_out tab @ newline) (map snd (db_tabs db))) =
      concat (map (\<lambda>(_, tab). TabMeta_out tab @ newline) (db_tabs db))"
    by (auto intro!: arg_cong [where f = concat])
  show ?thesis
    unfolding DbMeta_in_def DbMeta_out_def
    by (intro reads_then [OF reads_string] reads_then [OF reads_size] reads_checked [where v = "map snd (db_tabs db)"])
      (use ok many [unfolded out] rebuild_tabs [OF ok] in \<open>simp_all add: db_ok_def empty\<close>)
qed

text \<open>
  C31. A catalogue written by \<open>operator<<\<close> is read back unchanged by \<open>operator>>\<close> into an empty catalogue: database name, every table
  with its name, every column with its type, length, offset and index flag, in order. This holds for every catalogue whose
  names are non-empty and free of white space, whose tables are stored under their own names and whose numbers fit their C++ types.
\<close>

theorem DbMeta_roundtrip:
  assumes "db_ok db" and "db_tabs db0 = []"
  shows "\<exists>ws. DbMeta_in db0 (DbMeta_out db) = Some (db, ws) \<and> list_all is_space ws"
proof -
  have "list_all is_space []" "ends []" by (simp_all add: ends_def)
  then obtain ws where "list_all is_space ws" "DbMeta_in db0 ([] @ DbMeta_out db @ []) = Some (db, ws @ [])"
    using reads_DbMeta [OF assms] by (metis reads_at)
  then show ?thesis by auto
qed

definition sample_db :: DbMeta where
  "sample_db = \<lparr>db_name = ''d'', db_tabs = [(''t'', \<lparr>tm_name = ''t'', tm_cols =
     [\<lparr>cm_tab_name = ''t'', cm_name = ''a'', cm_type = TYPE_INT, cm_len = 4, cm_offset = 0, cm_index = True\<rparr>,
      \<lparr>cm_tab_name = ''t'', cm_name = ''b'', cm_type = TYPE_STRING, cm_len = 16, cm_offset = 4, cm_index = False\<rparr>]\<rparr>)]\<rparr>"

theorem DbMeta_roundtrip_witness:
  "\<exists>ws. DbMeta_in \<lparr>db_name = [], db_tabs = []\<rparr> (DbMeta_out sample_db) = Some (sample_db, ws) \<and> list_all is_space ws"
  by (rule DbMeta_roundtrip)
    (simp_all add: db_ok_def sample_db_def map_ok_def name_ok_def tab_ok_def col_ok_def is_space_def is_i32_def)

end
