(* ===== verification/Rw_Latch.thy ===== *)
theory Rw_Latch
  imports Rb_Defs
begin

text \<open>
  The reader-writer latch, \<open>common/rwlatch.h\<close> and \<open>common/rwlatch.cpp\<close>, under interleaving. Its operations hold \<open>mutex_\<close>
  from entry to return except inside a wait, so the code between two such points is one atomic step of the thread that runs it. A
  thread is described by where it stands: about to run the first loop of an operation, asleep on a condition variable, or holding
  the latch. Any number of threads may wake up spuriously at any time.
\<close>

section \<open>State\<close>

record ReaderWriterLatch =
  reader_count :: "32 word"
  writer_entered :: bool

definition MAX_READERS :: "32 word" where "MAX_READERS = - 1"

definition ReaderWriterLatch_new :: ReaderWriterLatch where
  "ReaderWriterLatch_new = \<lparr>reader_count = 0, writer_entered = False\<rparr>"

text \<open>
  \<open>SleepW\<close> and \<open>SleepR\<close> wait on \<open>reader_\<close>, in the first loop of \<open>WLock\<close> and in \<open>RLock\<close>; \<open>SleepDrain\<close> waits on \<open>writer_\<close>,
  in the second loop of \<open>WLock\<close>. \<open>WantW\<close>, \<open>WantR\<close> and \<open>Drain\<close> are about to test the condition of these loops.
\<close>

datatype pc = Idle | WantW | SleepW | Drain | SleepDrain | Writing | WantR | SleepR | Reading

record latch_state =
  latch :: ReaderWriterLatch
  thr :: "nat \<Rightarrow> pc"

datatype notification = NoNotify | NotifyOneWriter | NotifyOneReader

section \<open>Operations\<close>

definition WLock_drain :: "ReaderWriterLatch \<Rightarrow> pc \<times> ReaderWriterLatch" where
  "WLock_drain l = (if reader_count l > 0 then (SleepDrain, l) else (Writing, l))"

definition WLock :: "ReaderWriterLatch \<Rightarrow> pc \<times> ReaderWriterLatch" where
  "WLock l = (if writer_entered l then (SleepW, l) else WLock_drain (l\<lparr>writer_entered := True\<rparr>))"

definition WUnlock :: "ReaderWriterLatch \<Rightarrow> ReaderWriterLatch" where
  "WUnlock l = l\<lparr>writer_entered := False\<rparr>"

definition RLock :: "ReaderWriterLatch \<Rightarrow> pc \<times> ReaderWriterLatch" where
  "RLock l = (if writer_entered l \<or> reader_count l = MAX_READERS then (SleepR, l)
     else (Reading, l\<lparr>reader_count := reader_count l + 1\<rparr>))"

definition RUnlock :: "ReaderWriterLatch \<Rightarrow> notification \<times> ReaderWriterLatch" where
  "RUnlock l =
     (let l' = l\<lparr>reader_count := reader_count l - 1\<rparr>
      in (if writer_entered l' then (if reader_count l' = 0 then NotifyOneWriter else NoNotify)
          else (if reader_count l' = MAX_READERS - 1 then NotifyOneReader else NoNotify), l'))"

section \<open>Interleaving\<close>

fun on_reader_cv :: "pc \<Rightarrow> bool" where
  "on_reader_cv p \<longleftrightarrow> p = SleepW \<or> p = SleepR"

fun wake :: "pc \<Rightarrow> pc" where
  "wake SleepW = WantW"
| "wake SleepR = WantR"
| "wake SleepDrain = Drain"
| "wake p = p"

definition notify_all_readers :: "(nat \<Rightarrow> pc) \<Rightarrow> nat \<Rightarrow> pc" where
  "notify_all_readers th = (\<lambda>t. if on_reader_cv (th t) then wake (th t) else th t)"

text \<open>\<open>notify_one\<close> wakes one of the threads asleep on the condition variable, if there is any.\<close>

definition notify_one :: "(pc \<Rightarrow> bool) \<Rightarrow> (nat \<Rightarrow> pc) \<Rightarrow> (nat \<Rightarrow> pc) \<Rightarrow> bool" where
  "notify_one asleep th th' \<longleftrightarrow>
     (if \<exists>u. asleep (th u) then \<exists>u. asleep (th u) \<and> th' = th(u := wake (th u)) else th' = th)"

fun delivers :: "notification \<Rightarrow> (nat \<Rightarrow> pc) \<Rightarrow> (nat \<Rightarrow> pc) \<Rightarrow> bool" where
  "delivers NoNotify th th' \<longleftrightarrow> th' = th"
| "delivers NotifyOneWriter th th' \<longleftrightarrow> notify_one (\<lambda>p. p = SleepDrain) th th'"
| "delivers NotifyOneReader th th' \<longleftrightarrow> notify_one on_reader_cv th th'"

text \<open>The steps that serve the calls already made: a thread continues in the code of the latch, or gives up what it holds.\<close>

inductive serve :: "nat \<Rightarrow> latch_state \<Rightarrow> latch_state \<Rightarrow> bool" for n where
  run_WLock: "t < n \<Longrightarrow> thr s t = WantW \<Longrightarrow> WLock (latch s) = (p, l) \<Longrightarrow> serve n s \<lparr>latch = l, thr = (thr s)(t := p)\<rparr>"
| run_drain: "t < n \<Longrightarrow> thr s t = Drain \<Longrightarrow> WLock_drain (latch s) = (p, l) \<Longrightarrow> serve n s \<lparr>latch = l, thr = (thr s)(t := p)\<rparr>"
| run_RLock: "t < n \<Longrightarrow> thr s t = WantR \<Longrightarrow> RLock (latch s) = (p, l) \<Longrightarrow> serve n s \<lparr>latch = l, thr = (thr s)(t := p)\<rparr>"
| run_WUnlock: "t < n \<Longrightarrow> thr s t = Writing \<Longrightarrow>
    serve n s \<lparr>latch = WUnlock (latch s), thr = notify_all_readers ((thr s)(t := Idle))\<rparr>"
| run_RUnlock: "t < n \<Longrightarrow> thr s t = Reading \<Longrightarrow> RUnlock (latch s) = (m, l) \<Longrightarrow> delivers m ((thr s)(t := Idle)) th \<Longrightarrow>
    serve n s \<lparr>latch = l, thr = th\<rparr>"

inductive latch_step :: "nat \<Rightarrow> latch_state \<Rightarrow> latch_state \<Rightarrow> bool" for n where
  call_WLock: "t < n \<Longrightarrow> thr s t = Idle \<Longrightarrow> latch_step n s (s\<lparr>thr := (thr s)(t := WantW)\<rparr>)"
| call_RLock: "t < n \<Longrightarrow> thr s t = Idle \<Longrightarrow> latch_step n s (s\<lparr>thr := (thr s)(t := WantR)\<rparr>)"
| spurious: "t < n \<Longrightarrow> latch_step n s (s\<lparr>thr := (thr s)(t := wake (thr s t))\<rparr>)"
| served: "serve n s s' \<Longrightarrow> latch_step n s s'"

definition latch_start :: latch_state where
  "latch_start = \<lparr>latch = ReaderWriterLatch_new, thr = \<lambda>_. Idle\<rparr>"

definition latch_reachable :: "nat \<Rightarrow> latch_state \<Rightarrow> bool" where
  "latch_reachable n s \<longleftrightarrow> (latch_step n)\<^sup>*\<^sup>* latch_start s"

inductive_cases serveE: "serve n s s'"
inductive_cases latch_stepE: "latch_step n s s'"

section \<open>Invariant\<close>

definition count_pc :: "nat \<Rightarrow> (pc \<Rightarrow> bool) \<Rightarrow> (nat \<Rightarrow> pc) \<Rightarrow> nat" where
  "count_pc n P th = card {t. t < n \<and> P (th t)}"

fun owner :: "pc \<Rightarrow> bool" where
  "owner p \<longleftrightarrow> p = Drain \<or> p = SleepDrain \<or> p = Writing"

text \<open>
  The count is the number of readers; the flag is set exactly when there is a writer past the first loop, and then there is
  one; a writer that has entered sees no reader; and nobody sleeps without a reason to: a sleeper on \<open>reader_\<close> has a writer to
  wait for, a sleeper on \<open>writer_\<close> a reader.
\<close>

definition latch_inv :: "nat \<Rightarrow> latch_state \<Rightarrow> bool" where
  "latch_inv n s \<longleftrightarrow>
     unat (reader_count (latch s)) = count_pc n (\<lambda>p. p = Reading) (thr s) \<and>
     count_pc n owner (thr s) = (if writer_entered (latch s) then 1 else 0) \<and>
     (\<forall>t. n \<le> t \<longrightarrow> thr s t = Idle) \<and>
     (\<forall>t. thr s t = Writing \<longrightarrow> reader_count (latch s) = 0) \<and>
     (\<forall>t. on_reader_cv (thr s t) \<longrightarrow> writer_entered (latch s)) \<and>
     (\<forall>t. thr s t = SleepDrain \<longrightarrow> reader_count (latch s) \<noteq> 0)"

lemma count_pc_upd:
  assumes "t < n"
  shows "count_pc n P (th(t := p)) + (if P (th t) then 1 else 0) = count_pc n P th + (if P p then 1 else 0)"
proof -
  let ?A = "{u. u < n \<and> u \<noteq> t \<and> P (th u)}"
  have fin: "finite ?A" by simp
  have split: "{u. u < n \<and> P (f u)} = (if P (f t) then insert t {u. u < n \<and> u \<noteq> t \<and> P (f u)} else {u. u < n \<and> u \<noteq> t \<and> P (f u)})" for f :: "nat \<Rightarrow> pc"
    using assms by auto
  have card: "card {u. u < n \<and> P (f u)} = card {u. u < n \<and> u \<noteq> t \<and> P (f u)} + (if P (f t) then 1 else 0)" for f :: "nat \<Rightarrow> pc"
    by (subst split) simp
  have "{u. u < n \<and> u \<noteq> t \<and> P ((th(t := p)) u)} = ?A" by auto
  then show ?thesis using card [of th] card [of "th(t := p)"] by (simp add: count_pc_def)
qed

lemma count_pc_cong: "(\<And>t. P (th' t) = P (th t)) \<Longrightarrow> count_pc n P th' = count_pc n P th"
  by (simp add: count_pc_def)

lemma count_pc_same: "P p = P (th t) \<Longrightarrow> count_pc n P (th(t := p)) = count_pc n P th"
  by (rule count_pc_cong) simp

lemma count_pc_pos: "t < n \<Longrightarrow> P (th t) \<Longrightarrow> 0 < count_pc n P th"
  by (auto simp: count_pc_def card_gt_0_iff)

lemma count_pc_le: "count_pc n P th \<le> n"
  unfolding count_pc_def by (rule order_trans [OF card_mono [of "{..<n}"]]) auto

lemma count_pc_one:
  assumes "count_pc n P th \<le> 1" and "t < n" and "u < n" and "P (th t)" and "P (th u)"
  shows "t = u"
  using assms unfolding count_pc_def by (auto simp: card_le_Suc0_iff_eq)

lemma delivered:
  assumes "delivers m th th'"
  shows "th' t = th t \<or> th' t = wake (th t)"
  using assms by (cases m) (auto simp: notify_one_def split: if_splits)

lemma wake_simps [simp]: "wake p = Reading \<longleftrightarrow> p = Reading" "wake p = Writing \<longleftrightarrow> p = Writing" "wake p = Idle \<longleftrightarrow> p = Idle"
  "owner (wake p) = owner p" "\<not> on_reader_cv (wake p)" "wake p \<noteq> SleepDrain"
  by (cases p; simp)+

lemma latch_inv_start: "latch_inv n latch_start"
  by (simp add: latch_inv_def latch_start_def ReaderWriterLatch_new_def count_pc_def)

lemma latch_invD:
  assumes "latch_inv n \<lparr>latch = l, thr = th\<rparr>"
  shows "unat (reader_count l) = count_pc n (\<lambda>p. p = Reading) th" and "count_pc n owner th = (if writer_entered l then 1 else 0)"
    and "n \<le> t \<Longrightarrow> th t = Idle" and "th t = Writing \<Longrightarrow> reader_count l = 0" and "on_reader_cv (th t) \<Longrightarrow> writer_entered l"
    and "th t = SleepDrain \<Longrightarrow> reader_count l \<noteq> 0"
  using assms unfolding latch_inv_def latch_state.simps by blast+

lemma latch_invI:
  assumes "unat (reader_count l) = count_pc n (\<lambda>p. p = Reading) th" and "count_pc n owner th = (if writer_entered l then 1 else 0)"
    and "\<And>t. n \<le> t \<Longrightarrow> th t = Idle" and "\<And>t. th t = Writing \<Longrightarrow> reader_count l = 0" and "\<And>t. on_reader_cv (th t) \<Longrightarrow> writer_entered l"
    and "\<And>t. th t = SleepDrain \<Longrightarrow> reader_count l \<noteq> 0"
  shows "latch_inv n \<lparr>latch = l, thr = th\<rparr>"
  using assms unfolding latch_inv_def latch_state.simps by blast

text \<open>One thread moves; what the others do is judged by the new state of the latch.\<close>

lemma latch_inv_moved:
  assumes "t < n"
    and "unat (reader_count l) = count_pc n (\<lambda>p. p = Reading) (th(t := p))" and "count_pc n owner (th(t := p)) = (if writer_entered l then 1 else 0)"
    and "\<And>u. n \<le> u \<Longrightarrow> th u = Idle" and "p = Writing \<Longrightarrow> reader_count l = 0" and "on_reader_cv p \<Longrightarrow> writer_entered l"
    and "p = SleepDrain \<Longrightarrow> reader_count l \<noteq> 0"
    and "\<And>u. u \<noteq> t \<Longrightarrow> th u = Writing \<Longrightarrow> reader_count l = 0" and "\<And>u. u \<noteq> t \<Longrightarrow> on_reader_cv (th u) \<Longrightarrow> writer_entered l"
    and "\<And>u. u \<noteq> t \<Longrightarrow> th u = SleepDrain \<Longrightarrow> reader_count l \<noteq> 0"
  shows "latch_inv n \<lparr>latch = l, thr = th(t := p)\<rparr>"
proof (rule latch_invI)
  fix u
  show "(th(t := p)) u = Idle" if "n \<le> u" using that assms(1) assms(4) [of u] by simp
  show "reader_count l = 0" if "(th(t := p)) u = Writing" using that assms(5) assms(8) [of u] by (cases "u = t") simp_all
  show "writer_entered l" if "on_reader_cv ((th(t := p)) u)" using that assms(6) assms(9) [of u] by (cases "u = t") (simp_all del: on_reader_cv.simps)
  show "reader_count l \<noteq> 0" if "(th(t := p)) u = SleepDrain" using that assms(7) assms(10) [of u] by (cases "u = t") simp_all
qed (rule assms(2,3))+

lemma latch_inv_owner:
  assumes "latch_inv n \<lparr>latch = l, thr = th\<rparr>" and "owner (th t)"
  shows "t < n" and "writer_entered l" and "\<And>u. owner (th u) \<Longrightarrow> u = t"
proof -
  have lt: "u < n" if "owner (th u)" for u using that latch_invD(3) [OF assms(1), of u] by (cases "u < n") auto
  then show "t < n" using assms(2) by blast
  then show "writer_entered l" using count_pc_pos [of t n owner th] assms(2) latch_invD(2) [OF assms(1)] by (simp split: if_splits)
  then show "u = t" if "owner (th u)" for u
    using that lt assms(2) latch_invD(2) [OF assms(1)] count_pc_one [of n owner th u t] by simp
qed

text \<open>Threads that are only woken keep the invariant.\<close>

lemma latch_inv_woken:
  assumes inv: "latch_inv n \<lparr>latch = l, thr = th\<rparr>" and w: "\<And>t. th' t = th t \<or> th' t = wake (th t)"
  shows "latch_inv n \<lparr>latch = l, thr = th'\<rparr>"
proof -
  have "count_pc n (\<lambda>p. p = Reading) th' = count_pc n (\<lambda>p. p = Reading) th" "count_pc n owner th' = count_pc n owner th"
    using w wake_simps(1,4) by (intro count_pc_cong; metis)+
  then show ?thesis
    using latch_invD [OF inv] by (intro latch_invI) (metis w wake_simps)+
qed

lemma latch_inv_WLock_drain:
  assumes inv: "latch_inv n \<lparr>latch = l, thr = th(t := Drain)\<rparr>" and t: "t < n" and r: "WLock_drain l = (p, l')"
  shows "latch_inv n \<lparr>latch = l', thr = th(t := p)\<rparr>"
proof -
  note D = latch_invD [OF inv]
  have p: "l' = l" "p = SleepDrain \<and> reader_count l \<noteq> 0 \<or> p = Writing \<and> reader_count l = 0"
    using r by (auto simp: WLock_drain_def word_gt_0 split: if_splits)
  show ?thesis unfolding p(1)
  proof (rule latch_inv_moved [OF t])
    show "unat (reader_count l) = count_pc n (\<lambda>p. p = Reading) (th(t := p))"
      using p(2) D(1) count_pc_same [of "\<lambda>p. p = Reading" p "th(t := Drain)" t n] by auto
    show "count_pc n owner (th(t := p)) = (if writer_entered l then 1 else 0)"
      using p(2) D(2) count_pc_same [of owner p "th(t := Drain)" t n] by auto
    fix u
    show "th u = Idle" if "n \<le> u" using D(3) [of u] that t by simp
    show "reader_count l = 0" if "u \<noteq> t" "th u = Writing" using D(4) [of u] that by simp
    show "writer_entered l" if "u \<noteq> t" "on_reader_cv (th u)" using D(5) [of u] that by simp
    show "reader_count l \<noteq> 0" if "u \<noteq> t" "th u = SleepDrain" using D(6) [of u] that by simp
  qed (use p(2) in auto)
qed

lemma latch_inv_WLock:
  assumes inv: "latch_inv n \<lparr>latch = l, thr = th\<rparr>" and t: "t < n" "th t = WantW" and r: "WLock l = (p, l')"
  shows "latch_inv n \<lparr>latch = l', thr = th(t := p)\<rparr>"
proof -
  note D = latch_invD [OF inv]
  have readers: "count_pc n (\<lambda>p. p = Reading) (th(t := q)) = count_pc n (\<lambda>p. p = Reading) th" if "q \<noteq> Reading" for q
    using t(2) that by (intro count_pc_same) simp
  show ?thesis
  proof (cases "writer_entered l")
    case True
    then have p: "p = SleepW" "l' = l" using r by (simp_all add: WLock_def)
    have "count_pc n owner (th(t := SleepW)) = count_pc n owner th" using t(2) by (intro count_pc_same) simp
    then show ?thesis unfolding p using D(1,2) True readers [of SleepW] by (intro latch_inv_moved [OF t(1)]) (simp_all add: D(3,4,6))
  next
    case False
    have "count_pc n owner (th(t := Drain)) = 1"
      using count_pc_upd [OF t(1), of owner th Drain] t(2) D(2) False by simp
    then have "latch_inv n \<lparr>latch = l\<lparr>writer_entered := True\<rparr>, thr = th(t := Drain)\<rparr>"
    proof (intro latch_inv_moved [OF t(1)])
      fix u
      show "th u = Idle" if "n \<le> u" by (rule D(3) [OF that])
      show "reader_count (l\<lparr>writer_entered := True\<rparr>) = 0" if "th u = Writing" using D(4) [OF that] by simp
      show "reader_count (l\<lparr>writer_entered := True\<rparr>) \<noteq> 0" if "th u = SleepDrain" using D(6) [OF that] by simp
    qed (use D(1) readers [of Drain] in simp_all)
    then show ?thesis using r False t(1) by (auto simp: WLock_def intro: latch_inv_WLock_drain)
  qed
qed

lemma unat_minus_one_word_32: "unat (- 1 :: 32 word) = 4294967295"
  by (simp add: unat_eq_nat_uint uint_word_ariths)

lemma latch_inv_RLock:
  assumes inv: "latch_inv n \<lparr>latch = l, thr = th\<rparr>" and t: "t < n" "th t = WantR" and r: "RLock l = (p, l')"
    and n: "n < 2 ^ 32"
  shows "latch_inv n \<lparr>latch = l', thr = th(t := p)\<rparr>"
proof -
  have owners: "count_pc n owner (th(t := q)) = count_pc n owner th" if "\<not> owner q" for q
    using that t(2) by (intro count_pc_same) simp
  have "count_pc n (\<lambda>p. p = Reading) (th(t := Reading)) = Suc (count_pc n (\<lambda>p. p = Reading) th)"
    using count_pc_upd [OF t(1), of "\<lambda>p. p = Reading" th Reading] t(2) by simp
  moreover have "count_pc n (\<lambda>p. p = Reading) (th(t := Reading)) \<le> n" by (rule count_pc_le)
  moreover have cnt: "unat (reader_count l) = count_pc n (\<lambda>p. p = Reading) th" using inv by (simp add: latch_inv_def)
  ultimately have lt: "unat (reader_count l) + 1 < 2 ^ 32" and new: "count_pc n (\<lambda>p. p = Reading) (th(t := Reading)) = unat (reader_count l) + 1"
    using n by simp_all
  have "reader_count l \<noteq> MAX_READERS"
  proof
    assume "reader_count l = MAX_READERS"
    then have "unat (reader_count l) = 2 ^ 32 - 1" by (simp add: MAX_READERS_def unat_minus_one_word_32)
    then show False using lt by simp
  qed
  then have p: "writer_entered l \<and> p = SleepR \<and> l' = l \<or> \<not> writer_entered l \<and> p = Reading \<and> l' = l\<lparr>reader_count := reader_count l + 1\<rparr>"
    using r by (auto simp: RLock_def split: if_splits)
  have inc: "unat (reader_count l + 1) = unat (reader_count l) + 1" using lt by (simp add: unat_word_ariths)
  have sl: "count_pc n (\<lambda>p. p = Reading) (th(t := SleepR)) = count_pc n (\<lambda>p. p = Reading) th"
    using t(2) by (intro count_pc_same) simp
  have own: "writer_entered l" if "owner (th u)" for u by (rule latch_inv_owner(2) [OF inv that])
  show ?thesis using p
  proof
    assume a: "writer_entered l \<and> p = SleepR \<and> l' = l"
    then show ?thesis using latch_invD(1,2) [OF inv] owners [of SleepR] sl
      by (intro latch_inv_moved [OF t(1)] latch_invD [OF inv]) (simp_all add: latch_invD(4,6) [OF inv])
  next
    assume a: "\<not> writer_entered l \<and> p = Reading \<and> l' = l\<lparr>reader_count := reader_count l + 1\<rparr>"
    show ?thesis
    proof (rule latch_inv_moved [OF t(1)])
      show "unat (reader_count l') = count_pc n (\<lambda>p. p = Reading) (th(t := p))" using a inc new by simp
      show "count_pc n owner (th(t := p)) = (if writer_entered l' then 1 else 0)" using a owners [of Reading] latch_invD(2) [OF inv] by simp
      fix u
      show "th u = Idle" if "n \<le> u" using latch_invD(3) [OF inv that] .
      show "reader_count l' = 0" if "th u = Writing" using own [of u] that a by simp
      show "writer_entered l'" if "on_reader_cv (th u)" using latch_invD(5) [OF inv that] a by simp
      show "reader_count l' \<noteq> 0" if "th u = SleepDrain" using own [of u] that a by simp
    qed (use a in simp_all)
  qed
qed

lemma latch_inv_WUnlock:
  assumes inv: "latch_inv n \<lparr>latch = l, thr = th\<rparr>" and t: "t < n" "th t = Writing"
  shows "latch_inv n \<lparr>latch = WUnlock l, thr = notify_all_readers (th(t := Idle))\<rparr>"
proof -
  note D = latch_invD [OF inv] and O = latch_inv_owner [OF inv, of t]
  let ?th = "notify_all_readers (th(t := Idle))"
  have same: "owner (?th u) = owner ((th(t := Idle)) u)" "?th u = Reading \<longleftrightarrow> (th(t := Idle)) u = Reading" for u
    by (cases "th u"; simp add: notify_all_readers_def)+
  have "count_pc n owner (th(t := Idle)) = 0"
    using count_pc_upd [OF t(1), of owner th Idle] t(2) D(2) O(2) by simp
  then have own: "count_pc n owner ?th = 0" using count_pc_cong [of owner ?th "th(t := Idle)"] same(1) by simp
  have cnt: "count_pc n (\<lambda>p. p = Reading) ?th = count_pc n (\<lambda>p. p = Reading) th"
    using count_pc_cong [of "\<lambda>p. p = Reading" ?th "th(t := Idle)"] same(2) count_pc_same [of "\<lambda>p. p = Reading" Idle th t n] t(2) by simp
  have no: "\<not> owner (?th u)" for u
    using same(1) [of u] latch_inv_owner(3) [OF inv, of t u] t(2) by (cases "u = t") auto
  show ?thesis
  proof (rule latch_invI)
    fix u
    show "?th u = Idle" if "n \<le> u" using D(3) [OF that] by (simp add: notify_all_readers_def)
    show "writer_entered (WUnlock l)" if "on_reader_cv (?th u)"
      using that wake_simps(5) by (simp add: notify_all_readers_def del: on_reader_cv.simps split: if_splits)
    show "reader_count (WUnlock l) = 0" if "?th u = Writing" using no [of u] that by simp
    show "reader_count (WUnlock l) \<noteq> 0" if "?th u = SleepDrain" using no [of u] that by simp
  qed (use D(1) own cnt in \<open>simp_all add: WUnlock_def\<close>)
qed

lemma latch_inv_RUnlock:
  assumes inv: "latch_inv n \<lparr>latch = l, thr = th\<rparr>" and t: "t < n" "th t = Reading"
    and r: "RUnlock l = (m, l')" and d: "delivers m (th(t := Idle)) th'"
  shows "latch_inv n \<lparr>latch = l', thr = th'\<rparr>"
proof -
  note D = latch_invD [OF inv]
  let ?th = "th(t := Idle)"
  have l': "l' = l\<lparr>reader_count := reader_count l - 1\<rparr>" using r by (simp add: RUnlock_def Let_def)
  have pos: "0 < unat (reader_count l)" using count_pc_pos [of t n "\<lambda>p. p = Reading" th] t D(1) by simp
  then have dec: "unat (reader_count l - 1) = unat (reader_count l) - 1" by (simp add: unat_minus_one unat_gt_0)
  have readers: "count_pc n (\<lambda>p. p = Reading) ?th = unat (reader_count l) - 1"
    using count_pc_upd [OF t(1), of "\<lambda>p. p = Reading" th Idle] t(2) D(1) by simp
  have owners: "count_pc n owner ?th = count_pc n owner th" using t(2) by (intro count_pc_same) simp
  have noW: "th u \<noteq> Writing" for u using D(4) [of u] pos by auto
  show ?thesis
  proof (cases "\<exists>u. th u = SleepDrain \<and> reader_count l' = 0")
    case True
    then obtain u where u: "th u = SleepDrain" "reader_count l' = 0" by blast
    then have ow: "owner (th u)" by simp
    note O = latch_inv_owner [OF inv ow]
    have "u \<noteq> t" using u(1) t(2) by auto
    have one: "v = u" if "?th v = SleepDrain" for v using that O(3) [of v] by (cases "v = t") simp_all
    have "m = NotifyOneWriter" using r u(2) O(2) by (auto simp: RUnlock_def Let_def split: if_splits)
    moreover have up: "?th u = SleepDrain" using u(1) \<open>u \<noteq> t\<close> by simp
    ultimately obtain v where "?th v = SleepDrain" "th' = ?th(v := wake (?th v))" using d by (auto simp: notify_one_def split: if_splits)
    then have th': "th' = ?th(u := Drain)" using one [of v] up by simp
    show ?thesis unfolding th'
    proof (rule latch_inv_moved [OF O(1)])
      show "unat (reader_count l') = count_pc n (\<lambda>p. p = Reading) (?th(u := Drain))"
        using readers dec l' u(1) \<open>u \<noteq> t\<close> count_pc_same [of "\<lambda>p. p = Reading" Drain ?th u n] by simp
      show "count_pc n owner (?th(u := Drain)) = (if writer_entered l' then 1 else 0)"
        using owners D(2) l' u(1) \<open>u \<noteq> t\<close> count_pc_same [of owner Drain ?th u n] by simp
      fix v
      show "?th v = Idle" if "n \<le> v" using D(3) [OF that] by simp
      show "reader_count l' = 0" if "v \<noteq> u" "?th v = Writing" using u(2) .
      show "writer_entered l'" if "v \<noteq> u" "on_reader_cv (?th v)" using O(2) l' by simp
      show "reader_count l' \<noteq> 0" if "v \<noteq> u" "?th v = SleepDrain" using one [OF that(2)] that(1) by simp
    qed simp_all
  next
    case False
    have "latch_inv n \<lparr>latch = l', thr = ?th\<rparr>"
    proof (rule latch_inv_moved [OF t(1)])
      fix u
      show "th u = Idle" if "n \<le> u" by (rule D(3) [OF that])
      show "reader_count l' = 0" if "th u = Writing" using noW that by simp
      show "writer_entered l'" if "on_reader_cv (th u)" using D(5) [OF that] l' by simp
      show "reader_count l' \<noteq> 0" if "th u = SleepDrain" using False that by blast
    qed (use readers dec owners l' D(2) in simp_all)
    then show ?thesis by (rule latch_inv_woken) (rule delivered [OF d])
  qed
qed

lemma latch_inv_serve:
  assumes "latch_inv n s" and "serve n s s'" and "n < 2 ^ 32"
  shows "latch_inv n s'"
proof -
  have inv: "latch_inv n \<lparr>latch = latch s, thr = thr s\<rparr>" using assms(1) by (cases s) simp
  show ?thesis using assms(2)
  proof cases
    case (run_drain t p l)
    then have "latch_inv n \<lparr>latch = latch s, thr = (thr s)(t := Drain)\<rparr>" using inv by (simp add: fun_upd_idem)
    then show ?thesis using run_drain latch_inv_WLock_drain by simp
  qed (use assms(3) inv in \<open>simp_all add: latch_inv_WLock latch_inv_RLock latch_inv_WUnlock latch_inv_RUnlock\<close>)
qed

lemma latch_inv_step:
  assumes inv: "latch_inv n s" and "latch_step n s s'" and n: "n < 2 ^ 32"
  shows "latch_inv n s'"
  using assms(2)
proof cases
  case (spurious t)
  have "latch_inv n \<lparr>latch = latch s, thr = thr s\<rparr>" using inv by (cases s) simp
  then have "latch_inv n \<lparr>latch = latch s, thr = (thr s)(t := wake (thr s t))\<rparr>" by (rule latch_inv_woken) simp
  moreover have "s' = \<lparr>latch = latch s, thr = (thr s)(t := wake (thr s t))\<rparr>" using spurious by (cases s) simp
  ultimately show ?thesis by simp
next
  case served
  then show ?thesis using latch_inv_serve [OF inv _ n] by blast
qed (use inv in \<open>auto simp: latch_inv_def count_pc_same split: if_splits\<close>)

lemma latch_inv_reachable:
  assumes "latch_reachable n s" and "n < 2 ^ 32"
  shows "latch_inv n s"
  using assms(1) unfolding latch_reachable_def
  by (induction rule: rtranclp_induct) (simp_all add: latch_inv_start latch_inv_step [OF _ _ assms(2)])

section \<open>Progress\<close>

text \<open>
  Serving a call ends: an unlock makes one thread idle, and every other step takes a thread that is about to test a condition to a
  place where it waits or holds the latch.
\<close>

definition serve_measure :: "nat \<Rightarrow> latch_state \<Rightarrow> nat \<times> nat" where
  "serve_measure n s = (count_pc n (\<lambda>p. p \<noteq> Idle) (thr s), count_pc n (\<lambda>p. p = WantW \<or> p = WantR \<or> p = Drain) (thr s))"

lemma lock_outcomes:
  "WLock l = (p, l') \<Longrightarrow> p = SleepW \<or> p = SleepDrain \<or> p = Writing" "WLock_drain l = (p, l') \<Longrightarrow> p = SleepDrain \<or> p = Writing"
  "RLock l = (p, l') \<Longrightarrow> p = SleepR \<or> p = Reading"
  by (auto simp: WLock_def WLock_drain_def RLock_def split: if_splits)

lemma measure_run:
  assumes "t < n" and "th t = WantW \<or> th t = WantR \<or> th t = Drain" and "p \<in> {SleepW, SleepDrain, Writing, SleepR, Reading}"
  shows "(serve_measure n \<lparr>latch = l', thr = th(t := p)\<rparr>, serve_measure n \<lparr>latch = l, thr = th\<rparr>) \<in> less_than <*lex*> less_than"
proof -
  have "count_pc n (\<lambda>p. p \<noteq> Idle) (th(t := p)) = count_pc n (\<lambda>p. p \<noteq> Idle) th" using assms(2,3) by (intro count_pc_same) auto
  moreover have "count_pc n (\<lambda>p. p = WantW \<or> p = WantR \<or> p = Drain) (th(t := p)) < count_pc n (\<lambda>p. p = WantW \<or> p = WantR \<or> p = Drain) th"
    using count_pc_upd [OF assms(1), of "\<lambda>p. p = WantW \<or> p = WantR \<or> p = Drain" th p] assms(2,3) by auto
  ultimately show ?thesis by (simp add: serve_measure_def)
qed

lemma measure_unlock:
  assumes "t < n" and "th t \<noteq> Idle" and "\<And>u. th' u = (th(t := Idle)) u \<or> th' u = wake ((th(t := Idle)) u)"
  shows "(serve_measure n \<lparr>latch = l', thr = th'\<rparr>, serve_measure n \<lparr>latch = l, thr = th\<rparr>) \<in> less_than <*lex*> less_than"
proof -
  have "count_pc n (\<lambda>p. p \<noteq> Idle) th' = count_pc n (\<lambda>p. p \<noteq> Idle) (th(t := Idle))"
    by (intro count_pc_cong) (metis assms(3) wake_simps(3))
  then have "count_pc n (\<lambda>p. p \<noteq> Idle) th' < count_pc n (\<lambda>p. p \<noteq> Idle) th"
    using count_pc_upd [OF assms(1), of "\<lambda>p. p \<noteq> Idle" th Idle] assms(2) by simp
  then show ?thesis by (simp add: serve_measure_def)
qed

lemma serve_measure_decreases:
  assumes "serve n s s'"
  shows "(serve_measure n s', serve_measure n s) \<in> less_than <*lex*> less_than"
proof -
  have s: "\<lparr>latch = latch s, thr = thr s\<rparr> = s" by (cases s) simp
  show ?thesis using assms
  proof cases
    case (run_WLock t p l)
    then show ?thesis using measure_run [of t n "thr s" p l "latch s"] lock_outcomes(1) s by auto
  next
    case (run_drain t p l)
    then show ?thesis using measure_run [of t n "thr s" p l "latch s"] lock_outcomes(2) s by auto
  next
    case (run_RLock t p l)
    then show ?thesis using measure_run [of t n "thr s" p l "latch s"] lock_outcomes(3) s by auto
  next
    case (run_WUnlock t)
    then show ?thesis using measure_unlock [of t n "thr s" "notify_all_readers ((thr s)(t := Idle))" "WUnlock (latch s)" "latch s"] s
      by (simp add: notify_all_readers_def)
  next
    case (run_RUnlock t m l th)
    then show ?thesis using measure_unlock [of t n "thr s" th l "latch s"] delivered [OF run_RUnlock(5)] s by simp
  qed
qed

lemma delivers_total: "\<exists>th'. delivers m th th'"
  by (cases m) (auto simp: notify_one_def)

lemma stuck_idle:
  assumes inv: "latch_inv n s" and stuck: "\<not> (\<exists>s'. serve n s s')"
  shows "thr s t = Idle"
proof -
  have D: "latch_inv n \<lparr>latch = latch s, thr = thr s\<rparr>" using inv by (cases s) simp
  have no: "thr s t \<notin> {WantW, WantR, Drain, Writing, Reading}" for t
  proof (cases "t < n")
    case True
    obtain p1 l1 p2 l2 p3 l3 m4 l4 th4 where "WLock (latch s) = (p1, l1)" "WLock_drain (latch s) = (p2, l2)" "RLock (latch s) = (p3, l3)"
      "RUnlock (latch s) = (m4, l4)" "delivers m4 ((thr s)(t := Idle)) th4"
      using delivers_total by (metis surj_pair)
    then show ?thesis using stuck True serve.intros [of t n s] by blast
  qed (use latch_invD(3) [OF D] in simp)
  have "reader_count (latch s) = 0"
    using no latch_invD(1) [OF D] by (simp add: count_pc_def unat_eq_zero)
  then have sd: "thr s t \<noteq> SleepDrain" for t using latch_invD(6) [OF D] by blast
  then have "\<not> owner (thr s t)" for t using no [of t] by simp
  then have "\<not> writer_entered (latch s)" using latch_invD(2) [OF D] by (simp add: count_pc_def del: owner.simps split: if_splits)
  then have "\<not> on_reader_cv (thr s t)" using latch_invD(5) [OF D] by blast
  then show ?thesis using no [of t] sd [of t] by (cases "thr s t") simp_all
qed

section \<open>Properties\<close>

text \<open>
  C32. The latch excludes: in every reachable state of fewer than \<open>2^32\<close> threads, under any interleaving and any spurious
  wake-ups, a thread that holds the write latch is the only one that holds the latch, and \<open>reader_count_\<close> is the number of readers.
\<close>

theorem latch_excludes:
  assumes "latch_reachable n s" and "n < 2 ^ 32"
  shows "(\<forall>t u. thr s t = Writing \<longrightarrow> thr s u \<noteq> Reading \<and> (thr s u = Writing \<longrightarrow> u = t)) \<and>
    unat (reader_count (latch s)) = card {u. thr s u = Reading}"
proof -
  have inv: "latch_inv n \<lparr>latch = latch s, thr = thr s\<rparr>" using latch_inv_reachable [OF assms] by (cases s) simp
  note D = latch_invD [OF inv]
  have "{u. thr s u = Reading} = {u. u < n \<and> thr s u = Reading}" using D(3) by (metis (no_types, lifting) leI pc.distinct(15))
  then have cnt: "unat (reader_count (latch s)) = card {u. thr s u = Reading}" using D(1) by (simp add: count_pc_def)
  have "thr s u \<noteq> Reading" if "thr s t = Writing" for t u
  proof
    assume "thr s u = Reading"
    then have "0 < count_pc n (\<lambda>p. p = Reading) (thr s)" using D(3) [of u] by (intro count_pc_pos [of u]) (auto intro: leI)
    then show False using D(1) D(4) [OF that] by simp
  qed
  moreover have "u = t" if "thr s t = Writing" "thr s u = Writing" for t u
    using that latch_inv_owner(3) [OF inv, of t u] by simp
  ultimately show ?thesis using cnt by blast
qed

definition one_writer :: latch_state where
  "one_writer = \<lparr>latch = \<lparr>reader_count = 0, writer_entered = True\<rparr>, thr = (\<lambda>_. Idle)(1 := Writing)\<rparr>"

lemma latch_one_writer: "latch_reachable 3 one_writer" "thr one_writer 1 = Writing" "(3::nat) < 2 ^ 32"
proof -
  let ?s = "latch_start\<lparr>thr := (thr latch_start)(1 := WantW)\<rparr>"
  have "latch_step 3 latch_start ?s" by (rule call_WLock) (simp_all add: latch_start_def)
  moreover have "serve 3 ?s \<lparr>latch = \<lparr>reader_count = 0, writer_entered = True\<rparr>, thr = (thr ?s)(1 := Writing)\<rparr>"
    by (rule run_WLock) (simp_all add: latch_start_def ReaderWriterLatch_new_def WLock_def WLock_drain_def)
  moreover have "\<lparr>latch = \<lparr>reader_count = 0, writer_entered = True\<rparr>, thr = (thr ?s)(1 := Writing)\<rparr> = one_writer"
    by (simp add: one_writer_def latch_start_def)
  ultimately show "latch_reachable 3 one_writer"
    unfolding latch_reachable_def by (metis rtranclp.simps served)
qed (simp_all add: one_writer_def)

theorem latch_excludes_witness:
  "\<exists>s. latch_reachable 3 s \<and> thr s 1 = Writing \<and>
    (\<forall>t u. thr s t = Writing \<longrightarrow> thr s u \<noteq> Reading \<and> (thr s u = Writing \<longrightarrow> u = t)) \<and>
    unat (reader_count (latch s)) = card {u. thr s u = Reading}"
  using latch_excludes [OF latch_one_writer(1,3)] latch_one_writer(1,2) by blast

text \<open>
  C33. No call waits for ever: from every reachable state of fewer than \<open>2^32\<close> threads, when no new call is made and every holder
  eventually unlocks, the steps of the latch come to an end without relying on spurious wake-ups, and when they have ended every
  thread has got the latch and given it back. No wake-up is lost and no threads block each other.
\<close>

theorem latch_serves_all_calls:
  assumes "latch_reachable n s" and "n < 2 ^ 32"
  shows "\<not> (\<exists>f. f 0 = s \<and> (\<forall>i. serve n (f i) (f (Suc i)))) \<and>
    (\<forall>s'. (serve n)\<^sup>*\<^sup>* s s' \<and> \<not> (\<exists>s''. serve n s' s'') \<longrightarrow> (\<forall>t. thr s' t = Idle))"
proof (intro conjI allI impI)
  show "\<not> (\<exists>f. f 0 = s \<and> (\<forall>i. serve n (f i) (f (Suc i))))"
  proof
    assume "\<exists>f. f 0 = s \<and> (\<forall>i. serve n (f i) (f (Suc i)))"
    then obtain f where "\<And>i. serve n (f i) (f (Suc i))" by blast
    then have "(serve_measure n (f (Suc i)), serve_measure n (f i)) \<in> less_than <*lex*> less_than" for i
      using serve_measure_decreases by blast
    then have "\<exists>g. \<forall>i. (g (Suc i), g i) \<in> less_than <*lex*> less_than" by (intro exI [of _ "\<lambda>i. serve_measure n (f i)"]) blast
    then show False using wf_lex_prod [OF wf_less_than wf_less_than] unfolding wf_iff_no_infinite_down_chain by blast
  qed
next
  fix s' t assume a: "(serve n)\<^sup>*\<^sup>* s s' \<and> \<not> (\<exists>s''. serve n s' s'')"
  have "(serve n)\<^sup>*\<^sup>* s s'" using a by blast
  then have "latch_inv n s'"
    by (induction rule: rtranclp_induct) (simp_all add: latch_inv_reachable [OF assms] latch_inv_serve [OF _ _ assms(2)])
  then show "thr s' t = Idle" using stuck_idle a by blast
qed

theorem latch_serves_all_calls_witness:
  "\<exists>s. latch_reachable 3 s \<and> thr s 1 = Writing \<and> \<not> (\<exists>f. f 0 = s \<and> (\<forall>i. serve 3 (f i) (f (Suc i)))) \<and>
    (\<forall>s'. (serve 3)\<^sup>*\<^sup>* s s' \<and> \<not> (\<exists>s''. serve 3 s' s'') \<longrightarrow> (\<forall>t. thr s' t = Idle))"
  using latch_serves_all_calls [OF latch_one_writer(1,3)] latch_one_writer(1,2) by blast

end
