(* ===== verification/Txn_Manager.thy ===== *)
theory Txn_Manager
  imports Record_File
begin

text \<open>
  Transactions and locks: \<open>transaction/txn_defs.h\<close>, \<open>transaction/transaction.h\<close>, \<open>transaction/transaction_manager\<close> and
  \<open>transaction/concurrency/lock_manager\<close>. A \<open>Transaction *\<close> is an address in a heap of transactions, \<open>None\<close> the null pointer; a
  member that a constructor leaves unset is \<open>None\<close>. \<open>Begin\<close>, \<open>Commit\<close>, \<open>Abort\<close> and the lock
  operations have no body in the source beyond what is written here: they return their argument, nothing, or true.
\<close>

section \<open>Definitions\<close>

definition INVALID_TXN_ID :: int where "INVALID_TXN_ID = -1"
definition INVALID_LSN :: int where "INVALID_LSN = -1"

datatype TransactionState = DEFAULT | GROWING | SHRINKING | COMMITTED | ABORTED

datatype IsolationLevel = READ_UNCOMMITTED | REPEATABLE_READ | READ_COMMITTED | SERIALIZABLE

datatype WType = INSERT_TUPLE | DELETE_TUPLE | UPDATE_TUPLE

record WriteRecord =
  wr_type :: WType
  wr_tab_name :: string
  wr_rid :: "Rid option"
  wr_record :: "RmRecord option"

definition WriteRecord_insert :: "WType \<Rightarrow> string \<Rightarrow> Rid \<Rightarrow> WriteRecord" where
  "WriteRecord_insert w tab_name rid = \<lparr>wr_type = w, wr_tab_name = tab_name, wr_rid = Some rid, wr_record = None\<rparr>"

definition WriteRecord_delete :: "WType \<Rightarrow> string \<Rightarrow> RmRecord \<Rightarrow> WriteRecord" where
  "WriteRecord_delete w tab_name rec = \<lparr>wr_type = w, wr_tab_name = tab_name, wr_rid = None, wr_record = Some rec\<rparr>"

definition WriteRecord_update :: "WType \<Rightarrow> string \<Rightarrow> Rid \<Rightarrow> RmRecord \<Rightarrow> WriteRecord" where
  "WriteRecord_update w tab_name rid rec = \<lparr>wr_type = w, wr_tab_name = tab_name, wr_rid = Some rid, wr_record = Some rec\<rparr>"

datatype LockDataType = LOCK_TABLE | LOCK_RECORD

record LockDataId =
  ld_fd :: int
  ld_rid :: Rid
  ld_type :: LockDataType

definition LockDataId_table :: "int \<Rightarrow> LockDataType \<Rightarrow> rb_error + LockDataId" where
  "LockDataId_table fd t = (if t = LOCK_TABLE then Inr \<lparr>ld_fd = fd, ld_rid = \<lparr>rid_page = -1, rid_slot = -1\<rparr>, ld_type = t\<rparr>
     else Inl AssertionFailure)"

definition LockDataId_record :: "int \<Rightarrow> Rid \<Rightarrow> LockDataType \<Rightarrow> rb_error + LockDataId" where
  "LockDataId_record fd rid t = (if t = LOCK_RECORD then Inr \<lparr>ld_fd = fd, ld_rid = rid, ld_type = t\<rparr> else Inl AssertionFailure)"

unbundle bit_operations_syntax

text \<open>
  \<open>LockDataId::Get\<close>. The operands are \<open>int64_t\<close> values of \<open>int\<close> fields, so no shift leaves 64 bits; \<open>1 << 63\<close> is \<open>-2^63\<close>.
\<close>

definition LockDataId_Get :: "LockDataId \<Rightarrow> int" where
  "LockDataId_Get ld = (case ld_type ld of
       LOCK_TABLE \<Rightarrow> ld_fd ld
     | LOCK_RECORD \<Rightarrow> (- (2 ^ 63)) OR push_bit 31 (ld_fd ld) OR push_bit 16 (rid_page (ld_rid ld)) OR rid_slot (ld_rid ld))"

definition LockDataId_eq :: "LockDataId \<Rightarrow> LockDataId \<Rightarrow> bool" where
  "LockDataId_eq a b \<longleftrightarrow> (if ld_type a \<noteq> ld_type b then False else if ld_fd a \<noteq> ld_fd b then False
     else rid_page (ld_rid a) = rid_page (ld_rid b) \<and> rid_slot (ld_rid a) = rid_slot (ld_rid b))"

datatype AbortReason = LOCK_ON_SHIRINKING | UPGRADE_CONFLICT | DEADLOCK_PREVENTION

fun GetInfo :: "int \<Rightarrow> AbortReason \<Rightarrow> string" where
  "GetInfo txn_id LOCK_ON_SHIRINKING = ''Transaction '' @ to_string txn_id @ '' aborted because it cannot request locks on SHRINKING phase'' @ [CHR 0x0A]"
| "GetInfo txn_id UPGRADE_CONFLICT = ''Transaction '' @ to_string txn_id @ '' aborted because another transaction is waiting for upgrading'' @ [CHR 0x0A]"
| "GetInfo txn_id DEADLOCK_PREVENTION = ''Transaction '' @ to_string txn_id @ '' aborted for deadlock prevention'' @ [CHR 0x0A]"

section \<open>Transaction\<close>

record Transaction =
  txn_mode :: "bool option"
  txn_state :: TransactionState
  isolation_level :: IsolationLevel
  thread_id :: nat
  txn_prev_lsn :: int
  txn_id :: int
  start_ts :: "int option"
  write_set :: "WriteRecord list"
  lock_set :: "LockDataId list"
  page_set :: "frame_id list"
  deleted_page_set :: "frame_id list"
  index_deleted_page_set :: "frame_id list option"

definition Transaction_new :: "int \<Rightarrow> IsolationLevel \<Rightarrow> nat \<Rightarrow> Transaction" where
  "Transaction_new i level this_thread =
     \<lparr>txn_mode = None, txn_state = DEFAULT, isolation_level = level, thread_id = this_thread, txn_prev_lsn = INVALID_LSN, txn_id = i,
      start_ts = None, write_set = [], lock_set = [], page_set = [], deleted_page_set = [], index_deleted_page_set = None\<rparr>"

definition SetTxnMode :: "bool \<Rightarrow> Transaction \<Rightarrow> Transaction" where
  "SetTxnMode m t = t\<lparr>txn_mode := Some m\<rparr>"

definition SetStartTs :: "int \<Rightarrow> Transaction \<Rightarrow> Transaction" where
  "SetStartTs ts t = t\<lparr>start_ts := Some ts\<rparr>"

definition SetState :: "TransactionState \<Rightarrow> Transaction \<Rightarrow> Transaction" where
  "SetState st t = t\<lparr>txn_state := st\<rparr>"

definition SetPrevLsn :: "int \<Rightarrow> Transaction \<Rightarrow> Transaction" where
  "SetPrevLsn lsn t = t\<lparr>txn_prev_lsn := lsn\<rparr>"

definition append_index_deleted_page :: "frame_id \<Rightarrow> Transaction \<Rightarrow> rb_error + Transaction" where
  "append_index_deleted_page page t = (case index_deleted_page_set t of None \<Rightarrow> Inl NullDereference
     | Some ps \<Rightarrow> Inr (t\<lparr>index_deleted_page_set := Some (ps @ [page])\<rparr>))"

definition AppendWriteRecord :: "WriteRecord \<Rightarrow> Transaction \<Rightarrow> Transaction" where
  "AppendWriteRecord w t = t\<lparr>write_set := write_set t @ [w]\<rparr>"

definition AddIntoPageSet :: "frame_id \<Rightarrow> Transaction \<Rightarrow> Transaction" where
  "AddIntoPageSet page t = t\<lparr>page_set := page_set t @ [page]\<rparr>"

definition AddIntoDeletedPageSet :: "frame_id \<Rightarrow> Transaction \<Rightarrow> Transaction" where
  "AddIntoDeletedPageSet page t = t\<lparr>deleted_page_set := deleted_page_set t @ [page]\<rparr>"

section \<open>Lock manager\<close>

datatype LockMode = SHARED | EXLUCSIVE | INTENTION_SHARED | INTENTION_EXCLUSIVE | S_IX

datatype GroupLockMode = NON_LOCK | IS | IX | S | X | SIX

record LockRequest =
  lrq_txn_id :: int
  lrq_lock_mode :: LockMode
  lrq_granted :: bool

definition LockRequest_new :: "int \<Rightarrow> LockMode \<Rightarrow> LockRequest" where
  "LockRequest_new i m = \<lparr>lrq_txn_id = i, lrq_lock_mode = m, lrq_granted = False\<rparr>"

record LockRequestQueue =
  request_queue :: "LockRequest list"
  group_lock_mode :: GroupLockMode
  is_waiting :: bool
  upgrading :: bool
  shared_lock_num :: int
  IX_lock_num :: int

definition LockRequestQueue_new :: LockRequestQueue where
  "LockRequestQueue_new = \<lparr>request_queue = [], group_lock_mode = NON_LOCK, is_waiting = False, upgrading = False, shared_lock_num = 0, IX_lock_num = 0\<rparr>"

type_synonym lock_table = "LockDataId \<rightharpoonup> LockRequestQueue"

definition LockSharedOnRecord :: "nat option \<Rightarrow> Rid \<Rightarrow> int \<Rightarrow> lock_table \<Rightarrow> bool \<times> lock_table" where
  "LockSharedOnRecord txn rid tab_fd lt = (True, lt)"

definition LockExclusiveOnRecord :: "nat option \<Rightarrow> Rid \<Rightarrow> int \<Rightarrow> lock_table \<Rightarrow> bool \<times> lock_table" where
  "LockExclusiveOnRecord txn rid tab_fd lt = (True, lt)"

definition LockSharedOnTable :: "nat option \<Rightarrow> int \<Rightarrow> lock_table \<Rightarrow> bool \<times> lock_table" where
  "LockSharedOnTable txn tab_fd lt = (True, lt)"

definition LockExclusiveOnTable :: "nat option \<Rightarrow> int \<Rightarrow> lock_table \<Rightarrow> bool \<times> lock_table" where
  "LockExclusiveOnTable txn tab_fd lt = (True, lt)"

definition LockISOnTable :: "nat option \<Rightarrow> int \<Rightarrow> lock_table \<Rightarrow> bool \<times> lock_table" where
  "LockISOnTable txn tab_fd lt = (True, lt)"

definition LockIXOnTable :: "nat option \<Rightarrow> int \<Rightarrow> lock_table \<Rightarrow> bool \<times> lock_table" where
  "LockIXOnTable txn tab_fd lt = (True, lt)"

definition Unlock :: "nat option \<Rightarrow> LockDataId \<Rightarrow> lock_table \<Rightarrow> bool \<times> lock_table" where
  "Unlock txn lock_data_id lt = (True, lt)"

section \<open>Transaction manager\<close>

datatype ConcurrencyMode = TWO_PHASE_LOCKING | BASIC_TO

record TransactionManager =
  concurrency_mode :: ConcurrencyMode
  next_txn_id :: int
  next_timestamp :: int
  txn_map :: "int \<rightharpoonup> nat option"
  txn_heap :: "nat \<rightharpoonup> Transaction"

definition TransactionManager_new :: "ConcurrencyMode \<Rightarrow> TransactionManager" where
  "TransactionManager_new m = \<lparr>concurrency_mode = m, next_txn_id = 0, next_timestamp = 0, txn_map = Map.empty, txn_heap = Map.empty\<rparr>"

definition SetConcurrencyMode :: "ConcurrencyMode \<Rightarrow> TransactionManager \<Rightarrow> TransactionManager" where
  "SetConcurrencyMode m tm = tm\<lparr>concurrency_mode := m\<rparr>"

definition Begin :: "nat option \<Rightarrow> TransactionManager \<Rightarrow> nat option \<times> TransactionManager" where
  "Begin txn tm = (txn, tm)"

definition Commit :: "nat option \<Rightarrow> TransactionManager \<Rightarrow> TransactionManager" where
  "Commit txn tm = tm"

definition Abort :: "nat option \<Rightarrow> TransactionManager \<Rightarrow> TransactionManager" where
  "Abort txn tm = tm"

definition deref_txn :: "nat option \<Rightarrow> TransactionManager \<Rightarrow> rb_error + Transaction" where
  "deref_txn p tm = (case p of None \<Rightarrow> Inl NullDereference
     | Some a \<Rightarrow> (case txn_heap tm a of None \<Rightarrow> Inl NullDereference | Some t \<Rightarrow> Inr t))"

definition GetTransaction :: "nat \<Rightarrow> int \<Rightarrow> TransactionManager \<Rightarrow> rb_error + nat option" where
  "GetTransaction this_thread i tm =
     (if i = INVALID_TXN_ID then Inr None
      else case txn_map tm i of
          None \<Rightarrow> Inl AssertionFailure
        | Some None \<Rightarrow> Inl AssertionFailure
        | Some (Some a) \<Rightarrow>
            (case deref_txn (Some a) tm of Inl e \<Rightarrow> Inl e
             | Inr t \<Rightarrow> if thread_id t = this_thread then Inr (Some a) else Inl AssertionFailure))"

definition BlockAllTransactions :: "TransactionManager \<Rightarrow> TransactionManager" where
  "BlockAllTransactions tm = tm"

definition ResumeAllTransactions :: "TransactionManager \<Rightarrow> TransactionManager" where
  "ResumeAllTransactions tm = tm"

section \<open>Lock identifiers\<close>

definition lock_id_ok :: "LockDataId \<Rightarrow> bool" where
  "lock_id_ok ld \<longleftrightarrow> 0 \<le> ld_fd ld \<and> ld_fd ld < 2 ^ 31 \<and>
     (case ld_type ld of LOCK_TABLE \<Rightarrow> ld_rid ld = \<lparr>rid_page = -1, rid_slot = -1\<rparr>
      | LOCK_RECORD \<Rightarrow> 0 \<le> rid_page (ld_rid ld) \<and> rid_page (ld_rid ld) < 2 ^ 15 \<and> 0 \<le> rid_slot (ld_rid ld) \<and> rid_slot (ld_rid ld) < 2 ^ 16)"

lemma bit_above:
  fixes x :: int
  assumes "0 \<le> x" and "x < 2 ^ n" and "bit x m"
  shows "m < n"
proof -
  have "take_bit n x = x" using assms by (simp add: take_bit_int_eq_self)
  then show ?thesis using assms(3) by (metis bit_take_bit_iff)
qed

lemma bit_minus_two_power: "bit (- (2 ^ n) :: int) m \<longleftrightarrow> n \<le> m"
  by (simp add: bit_minus_exp_iff)

lemma LockDataId_Get_record_fields:
  assumes "lock_id_ok ld" and "ld_type ld = LOCK_RECORD"
  shows "take_bit 16 (LockDataId_Get ld) = rid_slot (ld_rid ld)"
    and "take_bit 15 (drop_bit 16 (LockDataId_Get ld)) = rid_page (ld_rid ld)"
    and "take_bit 31 (drop_bit 31 (LockDataId_Get ld)) = ld_fd ld"
    and "bit (LockDataId_Get ld) 63"
proof -
  let ?fd = "ld_fd ld" and ?p = "rid_page (ld_rid ld)" and ?s = "rid_slot (ld_rid ld)"
  have r: "0 \<le> ?fd" "?fd < 2 ^ 31" "0 \<le> ?p" "?p < 2 ^ 15" "0 \<le> ?s" "?s < 2 ^ 16" using assms by (simp_all add: lock_id_ok_def)
  note hi = bit_above [OF r(1,2)] bit_above [OF r(3,4)] bit_above [OF r(5,6)]
  have b: "bit (LockDataId_Get ld) m \<longleftrightarrow> 63 \<le> m \<or> 31 \<le> m \<and> bit ?fd (m - 31) \<or> 16 \<le> m \<and> bit ?p (m - 16) \<or> bit ?s m" for m
    using assms(2) bit_minus_two_power [of 63 m] by (simp add: LockDataId_Get_def bit_or_iff bit_push_bit_iff)
  show "take_bit 16 (LockDataId_Get ld) = ?s"
    by (intro bit_eqI) (auto simp: bit_take_bit_iff b dest: hi)
  show "take_bit 15 (drop_bit 16 (LockDataId_Get ld)) = ?p"
    by (intro bit_eqI) (auto simp: bit_take_bit_iff bit_drop_bit_eq b dest: hi)
  show "take_bit 31 (drop_bit 31 (LockDataId_Get ld)) = ?fd"
    by (intro bit_eqI) (auto simp: bit_take_bit_iff bit_drop_bit_eq b dest: hi)
  show "bit (LockDataId_Get ld) 63" by (simp add: b)
qed

lemma LockDataId_Get_determines:
  assumes "lock_id_ok a" and "lock_id_ok b" and "LockDataId_Get a = LockDataId_Get b"
  shows "LockDataId_eq a b"
proof -
  have table: "\<not> bit (LockDataId_Get ld) 63" if "lock_id_ok ld" "ld_type ld = LOCK_TABLE" for ld :: LockDataId
    using that bit_above [of "ld_fd ld" 31 63] by (auto simp: lock_id_ok_def LockDataId_Get_def)
  show ?thesis
  proof (cases "ld_type a")
    case LOCK_TABLE
    then have "ld_type b = LOCK_TABLE"
      using table [OF assms(1)] LockDataId_Get_record_fields(4) [OF assms(2)] assms(3) by (cases "ld_type b") simp_all
    then show ?thesis using LOCK_TABLE assms by (simp add: LockDataId_eq_def LockDataId_Get_def lock_id_ok_def)
  next
    case LOCK_RECORD
    then have "ld_type b = LOCK_RECORD"
      using table [OF assms(2)] LockDataId_Get_record_fields(4) [OF assms(1)] assms(3) by (cases "ld_type b") simp_all
    then show ?thesis
      using LOCK_RECORD LockDataId_Get_record_fields(1-3) [OF assms(1)] LockDataId_Get_record_fields(1-3) [OF assms(2)] assms(3)
      by (simp add: LockDataId_eq_def)
  qed
qed

text \<open>
  C38. The 64-bit value under which a lock is hashed identifies the table or record, as long as descriptors are non-negative and a
  record lies in a page below \<open>2^15\<close> and a slot below \<open>2^16\<close>: two such identifiers have the same value exactly when \<open>operator==\<close> holds of
  them. In particular a table and a record never share a value.
\<close>

theorem LockDataId_Get_injective:
  assumes "lock_id_ok a" and "lock_id_ok b"
  shows "LockDataId_Get a = LockDataId_Get b \<longleftrightarrow> LockDataId_eq a b"
proof
  assume "LockDataId_Get a = LockDataId_Get b"
  then show "LockDataId_eq a b" by (rule LockDataId_Get_determines [OF assms])
next
  assume "LockDataId_eq a b"
  then show "LockDataId_Get a = LockDataId_Get b" by (cases "ld_type b") (auto simp: LockDataId_eq_def LockDataId_Get_def split: if_splits)
qed

theorem LockDataId_Get_injective_witness:
  "LockDataId_Get \<lparr>ld_fd = 3, ld_rid = \<lparr>rid_page = 7, rid_slot = 2\<rparr>, ld_type = LOCK_RECORD\<rparr> \<noteq>
     LockDataId_Get \<lparr>ld_fd = 3, ld_rid = \<lparr>rid_page = 7, rid_slot = 5\<rparr>, ld_type = LOCK_RECORD\<rparr>"
  by (subst LockDataId_Get_injective) (simp_all add: lock_id_ok_def LockDataId_eq_def)

end
