(* ===== verification/Log_Manager.thy ===== *)
theory Log_Manager
  imports Txn_Manager Sm_Meta
begin

text \<open>
  The log: \<open>recovery/log_record.h\<close>, \<open>recovery/log_manager\<close>, \<open>recovery/log_recovery\<close> and \<open>recovery/checkpoint\<close>. A
  member that a constructor leaves unset is \<open>None\<close>. Flushing, appending, redo, undo and checkpoints have no body in the source; what
  is there is the construction of log records, the table name in a log buffer, and the exchange of the two log buffers.
\<close>

section \<open>Log records\<close>

datatype LogRecordType = LOG_INVALID | CREATE_TABLE | MARK_DROP_TABLE | APPLY_DROP_TABLE | CREATE_INDEX | MARK_DROP_INDEX
  | APPLY_DROP_INDEX | LOG_INSERT | LOG_UPDATE | LOG_DELETE | LOG_BEGIN | LOG_COMMIT | LOG_ABORT | NEW_PAGE

fun log_record_type :: "LogRecordType \<Rightarrow> string" where
  "log_record_type LOG_INVALID = ''INVALID''"
| "log_record_type CREATE_TABLE = ''CREATE_TABLE''"
| "log_record_type MARK_DROP_TABLE = ''MARK_DROP_TABLE''"
| "log_record_type APPLY_DROP_TABLE = ''APPLY_DROP_TABLE''"
| "log_record_type CREATE_INDEX = ''CREATE_INDEX''"
| "log_record_type MARK_DROP_INDEX = ''MARK_DROP_INDEX''"
| "log_record_type APPLY_DROP_INDEX = ''APPLY_DROP_INDEX''"
| "log_record_type LOG_INSERT = ''INSERT''"
| "log_record_type LOG_UPDATE = ''UPDATE''"
| "log_record_type LOG_DELETE = ''DELETE''"
| "log_record_type LOG_BEGIN = ''BEGIN''"
| "log_record_type LOG_COMMIT = ''COMMIT''"
| "log_record_type LOG_ABORT = ''ABORT''"
| "log_record_type NEW_PAGE = ''NEW_PAGE''"

record LogRecord =
  log_size :: int
  log_lsn :: int
  log_txn_id :: int
  log_prev_lsn :: int
  log_type :: LogRecordType
  tab_name_size :: "int option"
  log_tab_name :: "byte list option"
  log_tab_meta :: TabMeta
  update_rid :: "Rid option"
  old_tuple :: "RmRecord option"
  new_tuple :: "RmRecord option"
  insert_rid :: "Rid option"
  insert_tuple :: "RmRecord option"
  delete_rid :: "Rid option"
  delete_tuple :: "RmRecord option"
  new_page_no :: "int option"

definition HEADER_SIZE :: int where "HEADER_SIZE = 20"

definition LogRecord_default :: LogRecord where
  "LogRecord_default = \<lparr>log_size = 0, log_lsn = INVALID_LSN, log_txn_id = INVALID_TXN_ID, log_prev_lsn = INVALID_LSN,
     log_type = LOG_INVALID, tab_name_size = None, log_tab_name = None, log_tab_meta = \<lparr>tm_name = [], tm_cols = []\<rparr>,
     update_rid = None, old_tuple = None, new_tuple = None, insert_rid = None, insert_tuple = None, delete_rid = None,
     delete_tuple = None, new_page_no = None\<rparr>"

definition string_bytes :: "string \<Rightarrow> byte list" where
  "string_bytes s = map (\<lambda>c. word_of_nat (of_char c)) s"

definition set_table_name :: "string \<Rightarrow> LogRecord \<Rightarrow> LogRecord" where
  "set_table_name table_name r = r\<lparr>tab_name_size := Some (int (length table_name)), log_tab_name := Some (string_bytes table_name)\<rparr>"

definition LogRecord_txn :: "int \<Rightarrow> int \<Rightarrow> LogRecordType \<Rightarrow> rb_error + LogRecord" where
  "LogRecord_txn i prev t =
     (if t = LOG_BEGIN \<or> t = LOG_COMMIT \<or> t = LOG_ABORT
      then Inr (LogRecord_default\<lparr>log_size := HEADER_SIZE, log_txn_id := i, log_prev_lsn := prev, log_type := t\<rparr>)
      else Inl AssertionFailure)"

definition LogRecord_table :: "int \<Rightarrow> int \<Rightarrow> LogRecordType \<Rightarrow> string \<Rightarrow> LogRecord" where
  "LogRecord_table i prev t table_name =
     set_table_name table_name (LogRecord_default\<lparr>log_txn_id := i, log_prev_lsn := prev, log_type := t\<rparr>)
       \<lparr>log_size := to_i32 (HEADER_SIZE + 4 + int (length table_name))\<rparr>"

definition LogRecord_update :: "int \<Rightarrow> int \<Rightarrow> LogRecordType \<Rightarrow> Rid \<Rightarrow> RmRecord \<Rightarrow> RmRecord \<Rightarrow> string \<Rightarrow> LogRecord" where
  "LogRecord_update i prev t rid old_rec new_rec table_name =
     set_table_name table_name (LogRecord_default\<lparr>log_txn_id := i, log_prev_lsn := prev, log_type := t,
       update_rid := Some rid, old_tuple := Some old_rec, new_tuple := Some new_rec\<rparr>)
       \<lparr>log_size := to_i32 (HEADER_SIZE + 8 + 4 * 3 + int (length old_rec) + int (length new_rec) + int (length table_name))\<rparr>"

definition LogRecord_tuple :: "int \<Rightarrow> int \<Rightarrow> LogRecordType \<Rightarrow> Rid \<Rightarrow> RmRecord \<Rightarrow> string \<Rightarrow> rb_error + LogRecord" where
  "LogRecord_tuple i prev t rid rec table_name =
     (let r = LogRecord_default\<lparr>log_txn_id := i, log_prev_lsn := prev, log_type := t\<rparr>;
          finish = (\<lambda>r. (set_table_name table_name r)
            \<lparr>log_size := to_i32 (HEADER_SIZE + 8 + 4 * 2 + int (length rec) + int (length table_name))\<rparr>)
      in if t = LOG_INSERT then Inr (finish (r\<lparr>insert_rid := Some rid, insert_tuple := Some rec\<rparr>))
         else if t = LOG_DELETE then Inr (finish (r\<lparr>delete_rid := Some rid, delete_tuple := Some rec\<rparr>))
         else Inl AssertionFailure)"

definition LogRecord_new_page :: "int \<Rightarrow> int \<Rightarrow> LogRecordType \<Rightarrow> int \<Rightarrow> string \<Rightarrow> LogRecord" where
  "LogRecord_new_page i prev t page_no table_name =
     set_table_name table_name (LogRecord_default\<lparr>log_txn_id := i, log_prev_lsn := prev, log_type := t, new_page_no := Some page_no\<rparr>)
       \<lparr>log_size := to_i32 (HEADER_SIZE + 4 * 2 + int (length table_name))\<rparr>"

definition GetTableName :: "LogRecord \<Rightarrow> string option" where
  "GetTableName r = (case (tab_name_size r, log_tab_name r) of
       (Some n, Some bs) \<Rightarrow> Some (map (\<lambda>b. char_of (unat b)) (take (nat n) bs))
     | _ \<Rightarrow> None)"

text \<open>
  \<open>DeserializeTableName\<close> and \<open>SerializeTableName\<close> work on the bytes behind a pointer, here an offset into a buffer. The position after
  serializing is advanced by \<open>sizeof(tab_name_size_)\<close>, the size of the length field, where the length of the name was written.
\<close>

definition DeserializeTableName :: "mem \<Rightarrow> nat \<Rightarrow> LogRecord \<Rightarrow> LogRecord" where
  "DeserializeTableName buf off r =
     (let n = get_i32 buf off in r\<lparr>tab_name_size := Some n, log_tab_name := Some (mread buf (off + 4) (nat n))\<rparr>)"

definition SerializeTableName :: "mem \<Rightarrow> nat \<Rightarrow> LogRecord \<Rightarrow> (mem \<times> nat) option" where
  "SerializeTableName buf p r = (case (tab_name_size r, log_tab_name r) of
       (Some n, Some bs) \<Rightarrow> Some (mwrite (put_i32 buf p n) (p + 4) (take (nat n) bs), p + 4 + 4)
     | _ \<Rightarrow> None)"

section \<open>Log manager\<close>

record LogManager =
  log_mode :: bool
  log_buffer :: mem
  flush_buffer :: mem
  next_lsn :: int
  persistent_lsn :: int
  flush_lsn :: int
  log_buffer_write_offset :: nat
  flush_buffer_write_offset :: nat
  log_promise :: "bool option"

definition LogManager_new :: LogManager where
  "LogManager_new = \<lparr>log_mode = False, log_buffer = zero_mem, flush_buffer = zero_mem, next_lsn = 0, persistent_lsn = INVALID_LSN,
     flush_lsn = INVALID_LSN, log_buffer_write_offset = 0, flush_buffer_write_offset = 0, log_promise = None\<rparr>"

definition RunFlushThread :: "LogManager \<Rightarrow> LogManager" where
  "RunFlushThread lm = lm"

definition SwapBuffer :: "LogManager \<Rightarrow> LogManager" where
  "SwapBuffer lm = lm\<lparr>log_buffer := flush_buffer lm, flush_buffer := log_buffer lm,
     log_buffer_write_offset := flush_buffer_write_offset lm, flush_buffer_write_offset := log_buffer_write_offset lm,
     flush_lsn := to_i32 (next_lsn lm - 1)\<rparr>"

definition SetPromise :: "bool \<Rightarrow> LogManager \<Rightarrow> LogManager" where
  "SetPromise given lm = lm\<lparr>log_promise := Some given\<rparr>"

text \<open>
  \<open>WakeUpFlushThread\<close> with a promise waits until the promise is fulfilled. \<open>RunFlushThread\<close> starts no thread that could do so:
  the call does not return, which is \<open>None\<close>.
\<close>

definition WakeUpFlushThread :: "bool \<Rightarrow> LogManager \<Rightarrow> LogManager option" where
  "WakeUpFlushThread given lm =
     (let lm1 = SetPromise given (SwapBuffer lm)
      in if log_promise lm1 = Some True then None else Some (SetPromise False lm1))"

definition AppendLogRecord :: "LogRecord \<Rightarrow> LogManager \<Rightarrow> int \<times> LogManager" where
  "AppendLogRecord r lm = (log_lsn r, lm)"

definition SetLogMode :: "bool \<Rightarrow> LogManager \<Rightarrow> LogManager" where
  "SetLogMode m lm = lm\<lparr>log_mode := m\<rparr>"

text \<open>The thread that \<open>StopFlushThread\<close> joins was never created and its pointer never set.\<close>

definition StopFlushThread :: "(rb_error, LogManager, unit) op" where
  "StopFlushThread lm = (Inl Indeterminate, SetLogMode False lm)"

section \<open>Recovery and checkpoints\<close>

record LogRecovery =
  active_txns :: "int \<rightharpoonup> int"
  lsn_mapping :: "int \<rightharpoonup> int"
  log_offset :: int
  recovery_mode :: bool

definition LogRecovery_new :: LogRecovery where
  "LogRecovery_new = \<lparr>active_txns = Map.empty, lsn_mapping = Map.empty, log_offset = 0, recovery_mode = False\<rparr>"

definition Redo :: "LogRecovery \<Rightarrow> LogRecovery" where
  "Redo lr = lr"

definition Undo :: "LogRecovery \<Rightarrow> LogRecovery" where
  "Undo lr = lr"

definition BeginCheckpoint :: "TransactionManager \<Rightarrow> TransactionManager" where
  "BeginCheckpoint tm = tm"

definition EndCheckpoint :: "TransactionManager \<Rightarrow> TransactionManager" where
  "EndCheckpoint tm = tm"

section \<open>The table name in a log buffer\<close>

definition named :: "LogRecord \<Rightarrow> byte list \<Rightarrow> bool" where
  "named r bs \<longleftrightarrow> tab_name_size r = Some (int (length bs)) \<and> log_tab_name r = Some bs \<and> length bs < 2 ^ 31"

lemma named_constructed: "length s < 2 ^ 31 \<Longrightarrow> named (set_table_name s r) (string_bytes s)"
  by (simp add: named_def set_table_name_def string_bytes_def)

lemma i32_of_length: "n < 2 ^ 31 \<Longrightarrow> to_i32 (int n) = int n"
  by (rule to_i32_id) (simp add: is_i32_def)

lemma Serialize_run:
  assumes "named r bs"
  shows "SerializeTableName buf p r = Some (mwrite (put_i32 buf p (int (length bs))) (p + 4) bs, p + 8)"
  using assms by (simp add: SerializeTableName_def named_def)

lemma Deserialize_run:
  assumes "get_i32 buf p = int (length bs)" and "mread buf (p + 4) (length bs) = bs"
  shows "DeserializeTableName buf p r = r\<lparr>tab_name_size := Some (int (length bs)), log_tab_name := Some bs\<rparr>"
  using assms by (simp add: DeserializeTableName_def Let_def)

lemma bytes_of_string: "map (\<lambda>b. char_of (unat b)) (string_bytes s) = s"
proof -
  have "char_of (unat (word_of_nat (of_char c) :: byte)) = c" for c
    by (simp add: unat_of_nat)
  then show ?thesis by (simp add: string_bytes_def comp_def)
qed

text \<open>
  The table name of a log record survives the log buffer: a record constructed with a name, serialized at any position and
  deserialized from there into any record, gives back the name.
\<close>

theorem table_name_roundtrip:
  assumes "length table_name < 2 ^ 31"
  shows "\<exists>buf' p'. SerializeTableName buf p (LogRecord_table i prev t table_name) = Some (buf', p') \<and>
    GetTableName (DeserializeTableName buf' p r) = Some table_name"
proof -
  let ?bs = "string_bytes table_name"
  have n: "named (LogRecord_table i prev t table_name) ?bs"
    using assms by (simp add: LogRecord_table_def named_def set_table_name_def string_bytes_def)
  have len: "length ?bs = length table_name" by (simp add: string_bytes_def)
  let ?buf = "mwrite (put_i32 buf p (int (length ?bs))) (p + 4) ?bs"
  have "get_i32 ?buf p = int (length ?bs)" using assms i32_of_length by (simp add: mem_simps len)
  moreover have "mread ?buf (p + 4) (length ?bs) = ?bs" by (simp add: mem_simps)
  ultimately have "GetTableName (DeserializeTableName ?buf p r) = Some table_name"
    by (simp add: Deserialize_run GetTableName_def bytes_of_string)
  then show ?thesis using Serialize_run [OF n] by blast
qed

theorem table_name_roundtrip_witness:
  "\<exists>buf' p'. SerializeTableName zero_mem 20 (LogRecord_table 1 0 CREATE_TABLE ''orders'') = Some (buf', p') \<and>
    GetTableName (DeserializeTableName buf' 20 LogRecord_default) = Some ''orders''"
  by (rule table_name_roundtrip) simp

text \<open>
  The position that serializing a table name returns is 8 bytes behind the start whatever the length of the name. When the
  next name is serialized there, its length overwrites bytes 4 to 7 of a first name of at least 8 bytes, which is then read back damaged.
\<close>

lemma next_table_name_overwrites:
  assumes a: "named r1 bs1" "8 \<le> length bs1" and b: "named r2 bs2"
    and s1: "SerializeTableName buf p r1 = Some (buf1, p1)" and s2: "SerializeTableName buf1 p1 r2 = Some (buf2, p2)"
  shows "\<exists>bs. log_tab_name (DeserializeTableName buf2 p r) = Some bs \<and> length bs = length bs1 \<and>
    take 4 (drop 4 bs) = i32_bytes (int (length bs2))"
proof -
  have b1: "buf1 = mwrite (put_i32 buf p (int (length bs1))) (p + 4) bs1" "p1 = p + 8" using s1 Serialize_run [OF a(1)] by simp_all
  have b2: "buf2 = mwrite (put_i32 buf1 (p + 8) (int (length bs2))) (p + 12) bs2" using s2 Serialize_run [OF b] b1(2) by (auto simp: add.commute)
  have n: "get_i32 buf2 p = int (length bs1)" using a(1) i32_of_length by (simp add: b2 b1 mem_simps named_def)
  let ?bs = "mread buf2 (p + 4) (length bs1)"
  have "take 4 (drop 4 ?bs) = mread buf2 (p + 8) 4"
    using a(2) by (intro nth_equalityI) (simp_all add: algebra_simps)
  also have "\<dots> = i32_bytes (int (length bs2))" by (simp add: b2 put_i32_def mem_simps)
  finally show ?thesis using n by (simp add: DeserializeTableName_def Let_def)
qed

lemma next_table_name_overwrites_witness:
  "\<exists>bs. log_tab_name (DeserializeTableName (fst (the (SerializeTableName (fst (the (SerializeTableName zero_mem 20 (LogRecord_table 1 0 CREATE_TABLE ''customers''))))
      28 (LogRecord_table 1 0 CREATE_TABLE ''orders'')))) 20 LogRecord_default) = Some bs \<and> length bs = 9 \<and> take 4 (drop 4 bs) = [6, 0, 0, 0]"
proof -
  have n: "named (LogRecord_table 1 0 CREATE_TABLE ''customers'') (string_bytes ''customers'')"
    "named (LogRecord_table 1 0 CREATE_TABLE ''orders'') (string_bytes ''orders'')"
    by (simp_all add: LogRecord_table_def named_def set_table_name_def string_bytes_def)
  have l: "length (string_bytes ''customers'') = 9" "length (string_bytes ''orders'') = 6" "i32_bytes 6 = [6, 0, 0, 0]"
    by (simp_all add: string_bytes_def i32_bytes_def)
  note s = Serialize_run [OF n(1), of zero_mem 20] Serialize_run [OF n(2)]
  show ?thesis
    using next_table_name_overwrites [OF n(1) _ n(2) s(1) s(2), of LogRecord_default] l s by simp
qed

end
