(* ===== verification/Record_Printer.thy ===== *)
theory Record_Printer
  imports Log_Manager
begin

text \<open>
  \<open>common/context.h\<close> and \<open>record_printer.h\<close>: the context of a statement with the buffer of the reply to the client, and the printer
  that lays out result tables in it. The context's pointers to the lock and log manager of the process are fixed
  for its lifetime and no operation below goes through them.
\<close>

section \<open>Context\<close>

record Context =
  ctx_txn :: "nat option"
  data_send :: "mem option"
  ctx_offset :: int

definition Context_new :: "nat option \<Rightarrow> mem option \<Rightarrow> int \<Rightarrow> Context" where
  "Context_new txn buf off = \<lparr>ctx_txn = txn, data_send = buf, ctx_offset = off\<rparr>"

text \<open>The \<open>memcpy\<close> to \<open>data_send_ + *offset_\<close> and the addition to \<open>*offset_\<close> that follow every piece of text.\<close>

definition send_text :: "string \<Rightarrow> (rb_error, Context, unit) op" where
  "send_text s c = (case data_send c of
       None \<Rightarrow> (Inl NullDereference, c)
     | Some m \<Rightarrow> if ctx_offset c < 0 then (Inl OutOfRange, c)
         else (Inr (), c\<lparr>data_send := Some (mwrite m (nat (ctx_offset c)) (string_bytes s)),
           ctx_offset := to_i32 (ctx_offset c + int (length s))\<rparr>))"

section \<open>RecordPrinter\<close>

definition COL_WIDTH :: nat where "COL_WIDTH = 16"

definition RecordPrinter_new :: "nat \<Rightarrow> rb_error + nat" where
  "RecordPrinter_new n = (if n > 0 then Inr n else Inl AssertionFailure)"

definition RecordPrinter_print_separator :: "nat \<Rightarrow> (rb_error, Context, unit) op" where
  "RecordPrinter_print_separator num_cols =
     andthen (for_each (\<lambda>_. send_text (''+'' @ replicate (COL_WIDTH + 2) CHR ''-'')) [0..<num_cols]) (\<lambda>_.
     send_text (''+'' @ newline))"

definition shorten :: "string \<Rightarrow> string" where
  "shorten col = (if length col > COL_WIDTH then take (COL_WIDTH - 3) col @ ''...'' else col)"

text \<open>\<open>std::setw\<close> pads a string on the left.\<close>

definition setw :: "nat \<Rightarrow> string \<Rightarrow> string" where
  "setw w s = replicate (w - length s) CHR '' '' @ s"

definition cell_text :: "string \<Rightarrow> string" where
  "cell_text col = ''| '' @ setw COL_WIDTH (shorten col) @ '' ''"

definition RecordPrinter_print_record :: "nat \<Rightarrow> string list \<Rightarrow> (rb_error, Context, unit) op" where
  "RecordPrinter_print_record num_cols row =
     andthen (guard AssertionFailure (\<lambda>_. length row = num_cols)) (\<lambda>_.
     andthen (for_each (\<lambda>col. send_text (cell_text col)) row) (\<lambda>_.
     send_text (''|'' @ newline)))"

definition RecordPrinter_print_record_count :: "nat \<Rightarrow> (rb_error, Context, unit) op" where
  "RecordPrinter_print_record_count num_rec = send_text (''Total record(s): '' @ to_string (int num_rec) @ newline)"

section \<open>What is sent\<close>

text \<open>\<open>sends f s\<close>: wherever there is room for the count of bytes in an \<open>int\<close>, the operation appends the text \<open>s\<close> to the reply.\<close>

definition sent :: "string \<Rightarrow> Context \<Rightarrow> Context \<Rightarrow> bool" where
  "sent s c c' \<longleftrightarrow> ctx_txn c' = ctx_txn c \<and> ctx_offset c' = ctx_offset c + int (length s) \<and>
     (\<exists>m m'. data_send c = Some m \<and> data_send c' = Some m' \<and> m' = mwrite m (nat (ctx_offset c)) (string_bytes s))"

definition room :: "string \<Rightarrow> Context \<Rightarrow> bool" where
  "room s c \<longleftrightarrow> data_send c \<noteq> None \<and> 0 \<le> ctx_offset c \<and> ctx_offset c + int (length s) < 2 ^ 31"

definition sends :: "(rb_error, Context, unit) op \<Rightarrow> string \<Rightarrow> bool" where
  "sends f s \<longleftrightarrow> (\<forall>c. room s c \<longrightarrow> (\<exists>c'. f c = (Inr (), c') \<and> sent s c c'))"

lemma length_string_bytes [simp]: "length (string_bytes s) = length s"
  by (simp add: string_bytes_def)

lemma string_bytes_append: "string_bytes (s @ t) = string_bytes s @ string_bytes t"
  by (simp add: string_bytes_def)

lemma mwrite_append: "mwrite (mwrite m off xs) (off + length xs) ys = mwrite m off (xs @ ys)"
  by (rule ext) (auto simp: mwrite_def nth_append)

lemma mwrite_nil [simp]: "mwrite m off [] = m"
  by (rule ext) (auto simp: mwrite_def)

lemma sends_text: "sends (send_text s) s"
  unfolding sends_def
proof (intro allI impI)
  fix c assume r: "room s c"
  then obtain m where m: "data_send c = Some m" by (auto simp: room_def)
  have "is_i32 (ctx_offset c + int (length s))" using r by (simp add: room_def is_i32_def)
  then show "\<exists>c'. send_text s c = (Inr (), c') \<and> sent s c c'" using r m by (simp add: send_text_def sent_def room_def)
qed

lemma sent_then:
  assumes "0 \<le> ctx_offset c" and "sent s c c'" and "sent t c' c''"
  shows "sent (s @ t) c c''"
proof -
  have "nat (ctx_offset c') = nat (ctx_offset c) + length (string_bytes s)" using assms(1,2) by (simp add: sent_def nat_add_distrib)
  then show ?thesis using assms(2,3) by (auto simp: sent_def string_bytes_append mwrite_append [of _ _ "string_bytes s", simplified])
qed

lemma room_after: "room (s @ t) c \<Longrightarrow> sent s c c' \<Longrightarrow> room t c'"
  by (auto simp: room_def sent_def)

lemma sends_then:
  assumes "sends f s" and "sends g t"
  shows "sends (andthen f (\<lambda>_. g)) (s @ t)"
  unfolding sends_def
proof (intro allI impI)
  fix c assume r: "room (s @ t) c"
  then have "room s c" by (simp add: room_def)
  then obtain c1 where c1: "f c = (Inr (), c1)" "sent s c c1" using assms(1) unfolding sends_def by blast
  then obtain c2 where "g c1 = (Inr (), c2)" "sent t c1 c2" using assms(2) room_after [OF r] unfolding sends_def by blast
  then show "\<exists>c'. andthen f (\<lambda>_. g) c = (Inr (), c') \<and> sent (s @ t) c c'"
    using c1 r sent_then by (auto simp: andthen_def room_def)
qed

lemma for_each_Cons: "for_each f (x # xs) = andthen (f x) (\<lambda>_. for_each f xs)"
  by (rule ext) (simp add: andthen_def)

lemma sends_each:
  assumes "\<And>x. x \<in> set xs \<Longrightarrow> sends (f x) (t x)"
  shows "sends (for_each f xs) (concat (map t xs))"
  using assms
proof (induction xs)
  case Nil
  then show ?case by (auto simp: sends_def sent_def room_def string_bytes_def)
next
  case (Cons x xs)
  then show ?case using sends_then [of "f x" "t x" "for_each f xs"] by (simp add: for_each_Cons)
qed

definition separator_text :: "nat \<Rightarrow> string" where
  "separator_text n = concat (replicate n (''+'' @ replicate 18 CHR ''-'')) @ ''+'' @ newline"

definition row_text :: "string list \<Rightarrow> string" where
  "row_text row = concat (map cell_text row) @ ''|'' @ newline"

lemma length_cell [simp]: "length (cell_text col) = 19"
  by (simp add: cell_text_def setw_def shorten_def COL_WIDTH_def)

lemma length_cell_texts: "length (concat (map cell_text row)) = 19 * length row"
  by (induction row) simp_all

lemma length_row [simp]: "length (row_text row) = 19 * length row + 2"
  by (simp add: row_text_def newline_def length_cell_texts)

lemma length_separator [simp]: "length (separator_text n) = 19 * n + 2"
  by (simp add: separator_text_def newline_def) (induction n; simp)

lemma sends_separator: "sends (RecordPrinter_print_separator n) (separator_text n)"
proof -
  have "concat (map (\<lambda>_. ''+'' @ replicate 18 CHR ''-'') [0..<n]) = concat (replicate n (''+'' @ replicate 18 CHR ''-''))"
    by (simp add: map_replicate_const)
  then show ?thesis unfolding RecordPrinter_print_separator_def separator_text_def
    using sends_then [OF sends_each [of "[0..<n]" "\<lambda>_. send_text (''+'' @ replicate (COL_WIDTH + 2) CHR ''-'')" "\<lambda>_. ''+'' @ replicate 18 CHR ''-''"]
        sends_text [of "''+'' @ newline"]] sends_text [of "''+'' @ replicate 18 CHR ''-''"]
    by (simp add: COL_WIDTH_def)
qed

lemma sends_row:
  assumes "length row = n"
  shows "sends (RecordPrinter_print_record n row) (row_text row)"
proof -
  have "sends (andthen (for_each (\<lambda>col. send_text (cell_text col)) row) (\<lambda>_. send_text (''|'' @ newline))) (row_text row)"
    unfolding row_text_def by (intro sends_then sends_each sends_text)
  then show ?thesis using assms by (simp add: sends_def RecordPrinter_print_record_def andthen_def guard_def)
qed

end
