(* ===== verification/Sm_Manager.thy ===== *)
theory Sm_Manager
  imports Sm_Meta Record_Printer Record_Manager Ix_Manager
begin

text \<open>
  The catalogue manager, \<open>system/sm_manager\<close>: databases, tables and indexes over the record and the index manager. The state has
  the catalogue, the open record and index handles by file name, and the buffer pool they share; a handle is brought up to date with the pool before it
  is used. \<open>create_db\<close>, \<open>close_db\<close> and \<open>drop_table\<close> have no body in the source. The shell behind \<open>drop_db\<close> and the effect of
  \<open>chdir\<close> on the names of files are parameters.
\<close>

section \<open>State\<close>

record ColDef =
  cd_name :: string
  cd_type :: ColType
  cd_len :: int

record SmManager =
  sm_db :: DbMeta
  fhs :: "string \<rightharpoonup> RmFileHandle"
  ihs :: "string \<rightharpoonup> IxIndexHandle"
  sm_bpm :: BufferPoolManager

definition SmManager_new :: "BufferPoolManager \<Rightarrow> SmManager" where
  "SmManager_new b = \<lparr>sm_db = \<lparr>db_name = [], db_tabs = []\<rparr>, fhs = Map.empty, ihs = Map.empty, sm_bpm = b\<rparr>"

definition on_pool :: "(BufferPoolManager \<Rightarrow> (rb_error + 'a) \<times> BufferPoolManager) \<Rightarrow> (rb_error, SmManager, 'a) op" where
  "on_pool f s = (let (r, b) = f (sm_bpm s) in (r, s\<lparr>sm_bpm := b\<rparr>))"

text \<open>\<open>unordered_map::emplace\<close> keeps an entry that is already there.\<close>

definition emplace :: "'k \<Rightarrow> 'v \<Rightarrow> ('k \<rightharpoonup> 'v) \<Rightarrow> 'k \<rightharpoonup> 'v" where
  "emplace k v m = (if m k = None then m(k \<mapsto> v) else m)"

definition lift_result :: "'e + 'a \<Rightarrow> ('e, 's, 'a) op" where
  "lift_result r s = (r, s)"

section \<open>Databases\<close>

definition DB_META_NAME :: string where "DB_META_NAME = ''db.meta''"

definition SmManager_is_dir :: "string \<Rightarrow> SmManager \<Rightarrow> bool" where
  "SmManager_is_dir name s = is_dir name (disk_manager (sm_bpm s))"

definition create_db :: "string \<Rightarrow> (rb_error, SmManager, unit) op" where
  "create_db name = ret ()"

definition drop_db :: "(string \<Rightarrow> os \<Rightarrow> int \<times> os) \<Rightarrow> string \<Rightarrow> (rb_error, SmManager, unit) op" where
  "drop_db sh name =
     andthen (guard (DatabaseNotFoundError name) (SmManager_is_dir name)) (\<lambda>_.
     on_pool (on_disk_manager (\<lambda>d. let (rc, s1) = sh (''rm -r '' @ name) (dm_os d)
       in if rc < 0 then (Inl UnixError, d\<lparr>dm_os := s1\<rparr>) else (Inr (), d\<lparr>dm_os := s1\<rparr>))))"

definition close_db :: "(rb_error, SmManager, unit) op" where
  "close_db = ret ()"

definition file_text :: "path \<Rightarrow> os \<Rightarrow> string" where
  "file_text p o1 = (case os_names o1 p of None \<Rightarrow> []
     | Some ino \<Rightarrow> map (\<lambda>b. char_of (unat b)) (mread (os_bytes o1 ino) 0 (os_size o1 ino)))"

text \<open>
  \<open>ifs >> db_\<close>. When the stream fails part-way (a missing or damaged file), the numbers that the loops run to or the members of the
  columns read after that point were never set: the model does not follow the code beyond it.
\<close>

definition load_meta :: "(rb_error, SmManager, unit) op" where
  "load_meta s = (case DbMeta_in (sm_db s) (file_text DB_META_NAME (dm_os (disk_manager (sm_bpm s)))) of
       None \<Rightarrow> (Inl Indeterminate, s)
     | Some (db, _) \<Rightarrow> (Inr (), s\<lparr>sm_db := db\<rparr>))"

definition open_col_index :: "TabMeta \<Rightarrow> nat \<Rightarrow> (rb_error, SmManager, unit) op" where
  "open_col_index tab i =
     (if cm_index (tm_cols tab ! i) then
        (let index_name = get_index_name (tm_name tab) (int i)
         in andthen (guard AssertionFailure (\<lambda>s. ihs s index_name = None)) (\<lambda>_.
            andthen (on_pool (open_index (tm_name tab) (int i))) (\<lambda>ih.
            modify_st (\<lambda>s. s\<lparr>ihs := emplace index_name ih (ihs s)\<rparr>))))
      else ret ())"

definition open_tab :: "TabMeta \<Rightarrow> (rb_error, SmManager, unit) op" where
  "open_tab tab =
     andthen (on_pool (RmManager_open_file (tm_name tab))) (\<lambda>fh.
     andthen (modify_st (\<lambda>s. s\<lparr>fhs := emplace (tm_name tab) fh (fhs s)\<rparr>)) (\<lambda>_.
     for_each (open_col_index tab) [0..<length (tm_cols tab)]))"

definition open_db :: "(string \<Rightarrow> os \<Rightarrow> os option) \<Rightarrow> string \<Rightarrow> (rb_error, SmManager, unit) op" where
  "open_db chdir name =
     andthen (guard (DatabaseNotFoundError name) (SmManager_is_dir name)) (\<lambda>_.
     andthen (on_pool (on_disk_manager (\<lambda>d. case chdir name (dm_os d) of
         None \<Rightarrow> (Inl UnixError, d) | Some s1 \<Rightarrow> (Inr (), d\<lparr>dm_os := s1\<rparr>)))) (\<lambda>_.
     andthen load_meta (\<lambda>_ s. for_each (\<lambda>(_, tab). open_tab tab) (db_tabs (sm_db s)) s)))"

section \<open>Tables\<close>

definition on_context :: "(rb_error, Context, 'a) op \<Rightarrow> (rb_error, SmManager \<times> Context, 'a) op" where
  "on_context f st = (let (r, c) = f (snd st) in (r, (fst st, c)))"

definition on_sm :: "(rb_error, SmManager, 'a) op \<Rightarrow> (rb_error, SmManager \<times> Context, 'a) op" where
  "on_sm f st = (let (r, s) = f (fst st) in (r, (s, snd st)))"

definition show_tables :: "(rb_error, SmManager \<times> Context, unit) op" where
  "show_tables st =
     on_context (andthen (RecordPrinter_print_separator 1) (\<lambda>_.
       andthen (RecordPrinter_print_record 1 [''Tables'']) (\<lambda>_.
       andthen (RecordPrinter_print_separator 1) (\<lambda>_.
       andthen (for_each (\<lambda>(_, tab). RecordPrinter_print_record 1 [tm_name tab]) (db_tabs (sm_db (fst st)))) (\<lambda>_.
       RecordPrinter_print_separator 1))))) st"

definition field_info :: "ColMeta \<Rightarrow> string list" where
  "field_info col = [cm_name col, coltype2str (cm_type col), if cm_index col then ''YES'' else ''NO'']"

definition desc_table :: "string \<Rightarrow> (rb_error, SmManager \<times> Context, unit) op" where
  "desc_table tab_name st =
     andthen (lift_result (get_table tab_name (sm_db (fst st)))) (\<lambda>tab.
     on_context (andthen (RecordPrinter_print_separator 3) (\<lambda>_.
       andthen (RecordPrinter_print_record 3 [''Field'', ''Type'', ''Index'']) (\<lambda>_.
       andthen (RecordPrinter_print_separator 3) (\<lambda>_.
       andthen (for_each (\<lambda>col. RecordPrinter_print_record 3 (field_info col)) (tm_cols tab)) (\<lambda>_.
       RecordPrinter_print_separator 3)))))) st"

text \<open>The loop over the column definitions lays the columns out one behind the other and returns the columns and the end offset.\<close>

fun layout_cols :: "string \<Rightarrow> int \<Rightarrow> ColDef list \<Rightarrow> ColMeta list \<times> int" where
  "layout_cols tab_name curr_offset [] = ([], curr_offset)"
| "layout_cols tab_name curr_offset (d # ds) =
     (let (cols, end_off) = layout_cols tab_name (to_i32 (curr_offset + cd_len d)) ds
      in (\<lparr>cm_tab_name = tab_name, cm_name = cd_name d, cm_type = cd_type d, cm_len = cd_len d, cm_offset = curr_offset, cm_index = False\<rparr> # cols,
          end_off))"

definition create_table :: "string \<Rightarrow> ColDef list \<Rightarrow> (rb_error, SmManager, unit) op" where
  "create_table tab_name col_defs =
     andthen (guard (TableExistsError tab_name) (\<lambda>s. \<not> is_table tab_name (sm_db s))) (\<lambda>_.
     let (cols, record_size) = layout_cols tab_name 0 col_defs
     in andthen (on_pool (RmManager_create_file tab_name record_size)) (\<lambda>_.
        andthen (modify_st (\<lambda>s. s\<lparr>sm_db := (sm_db s)\<lparr>db_tabs := map_assign tab_name \<lparr>tm_name = tab_name, tm_cols = cols\<rparr> (db_tabs (sm_db s))\<rparr>\<rparr>)) (\<lambda>_.
        andthen (on_pool (RmManager_open_file tab_name)) (\<lambda>fh.
        modify_st (\<lambda>s. s\<lparr>fhs := emplace tab_name fh (fhs s)\<rparr>)))))"

definition drop_table :: "string \<Rightarrow> (rb_error, SmManager, unit) op" where
  "drop_table tab_name = ret ()"

section \<open>Indexes\<close>

text \<open>
  The record and the index handle work on one pool: each operation starts from the pool the other left.
\<close>

definition on_fh :: "(rb_error, RmFileHandle, 'a) op \<Rightarrow> (rb_error, RmFileHandle \<times> IxIndexHandle, 'a) op" where
  "on_fh f st = (let (r, h) = f ((fst st)\<lparr>rm_bpm := ix_bpm (snd st)\<rparr>) in (r, (h, (snd st)\<lparr>ix_bpm := rm_bpm h\<rparr>)))"

definition on_ih :: "'a ix_op \<Rightarrow> (rb_error, RmFileHandle \<times> IxIndexHandle, 'a) op" where
  "on_ih f st = (let (r, h) = f (snd st) in (r, ((fst st)\<lparr>rm_bpm := ix_bpm h\<rparr>, h)))"

fun index_records :: "nat \<Rightarrow> ColMeta \<Rightarrow> Rid \<Rightarrow> (rb_error, RmFileHandle \<times> IxIndexHandle, unit) op" where
  "index_records fuel col rid =
     (if RmScan_is_end rid then ret ()
      else case fuel of
          0 \<Rightarrow> throw OutOfFuel
        | Suc k \<Rightarrow>
            andthen (on_fh (get_record rid)) (\<lambda>rec.
            andthen (on_ih (insert_entry k (take (nat (cm_len col)) (drop (nat (cm_offset col)) rec)) rid)) (\<lambda>_.
            andthen (on_fh (RmScan_next rid)) (\<lambda>next_rid.
            index_records k col next_rid))))"

text \<open>
  \<open>SmManager::create_index\<close>. \<open>junk\<close> is the uninitialised page buffer of the index manager, \<open>rid0\<close> the uninitialised position of
  the scan.
\<close>

definition SmManager_create_index :: "nat \<Rightarrow> mem \<Rightarrow> Rid \<Rightarrow> string \<Rightarrow> string \<Rightarrow> (rb_error, SmManager, unit) op" where
  "SmManager_create_index fuel junk rid0 tab_name col_name s =
     andthen (lift_result (get_table tab_name (sm_db s))) (\<lambda>tab.
     let it = TabMeta_get_col col_name tab
     in andthen (lift_result (deref_col tab it)) (\<lambda>col.
        if cm_index col then throw (IndexExistsError tab_name col_name)
        else let col_idx = (case it of Some i \<Rightarrow> i | None \<Rightarrow> 0); index_name = get_index_name tab_name (int col_idx)
        in andthen (on_pool (create_index junk tab_name (int col_idx) (cm_type col) (cm_len col))) (\<lambda>_.
           andthen (on_pool (open_index tab_name (int col_idx))) (\<lambda>ih t.
           case fhs t tab_name of None \<Rightarrow> (Inl OutOfRange, t)
           | Some fh \<Rightarrow>
               (case andthen (on_fh (RmScan_new rid0)) (index_records fuel col) (fh, ih) of
                  (Inl e, (fh', ih')) \<Rightarrow> (Inl e, t\<lparr>sm_bpm := ix_bpm ih', fhs := (fhs t)(tab_name \<mapsto> fh')\<rparr>)
                | (Inr _, (fh', ih')) \<Rightarrow>
                    andthen (guard AssertionFailure (\<lambda>t. ihs t index_name = None)) (\<lambda>_.
                    modify_st (\<lambda>t. t\<lparr>ihs := emplace index_name ih' (ihs t),
                      sm_db := (sm_db t)\<lparr>db_tabs := map_assign tab_name (tab\<lparr>tm_cols := (tm_cols tab)[col_idx := col\<lparr>cm_index := True\<rparr>]\<rparr>) (db_tabs (sm_db t))\<rparr>\<rparr>))
                      (t\<lparr>sm_bpm := ix_bpm ih', fhs := (fhs t)(tab_name \<mapsto> fh')\<rparr>)))))) s"

text \<open>\<open>db_.tabs_[tab_name]\<close> inserts an empty table when there is none of that name.\<close>

definition SmManager_drop_index :: "string \<Rightarrow> string \<Rightarrow> (rb_error, SmManager, unit) op" where
  "SmManager_drop_index tab_name col_name =
     andthen (modify_st (\<lambda>s. if is_table tab_name (sm_db s) then s
        else s\<lparr>sm_db := (sm_db s)\<lparr>db_tabs := map_assign tab_name \<lparr>tm_name = [], tm_cols = []\<rparr> (db_tabs (sm_db s))\<rparr>\<rparr>)) (\<lambda>_ s.
     andthen (lift_result (get_table tab_name (sm_db s))) (\<lambda>tab.
     let it = TabMeta_get_col col_name tab
     in andthen (lift_result (deref_col tab it)) (\<lambda>col.
        if \<not> cm_index col then throw (IndexNotFoundError tab_name col_name)
        else let col_idx = (case it of Some i \<Rightarrow> i | None \<Rightarrow> 0); index_name = get_index_name tab_name (int col_idx)
        in (\<lambda>t. case ihs t index_name of None \<Rightarrow> (Inl OutOfRange, t)
           | Some ih \<Rightarrow>
               andthen (on_pool (close_index ih)) (\<lambda>_.
               andthen (on_pool (destroy_index tab_name (int col_idx))) (\<lambda>_.
               modify_st (\<lambda>t. t\<lparr>ihs := (ihs t)(index_name := None),
                 sm_db := (sm_db t)\<lparr>db_tabs := map_assign tab_name (tab\<lparr>tm_cols := (tm_cols tab)[col_idx := col\<lparr>cm_index := False\<rparr>]\<rparr>) (db_tabs (sm_db t))\<rparr>\<rparr>))) t))) s)"

declare index_records.simps [simp del]

section \<open>Creating a table\<close>

lemma layout_cols_ok:
  assumes "list_all (\<lambda>d. 0 \<le> cd_len d) ds" and "0 \<le> off" and "off + sum_list (map cd_len ds) < 2 ^ 31"
  shows "\<exists>cols. layout_cols t off ds = (cols, off + sum_list (map cd_len ds)) \<and> length cols = length ds \<and>
    (\<forall>i < length ds. cols ! i = \<lparr>cm_tab_name = t, cm_name = cd_name (ds ! i), cm_type = cd_type (ds ! i),
      cm_len = cd_len (ds ! i), cm_offset = off + sum_list (map cd_len (take i ds)), cm_index = False\<rparr>)"
  using assms
proof (induction ds arbitrary: off)
  case (Cons d ds)
  have pos: "0 \<le> sum_list (map cd_len ds)" using Cons.prems by (intro sum_list_nonneg) (auto simp: list_all_iff)
  then have "is_i32 (off + cd_len d)" using Cons.prems by (auto simp: is_i32_def)
  then have off: "to_i32 (off + cd_len d) = off + cd_len d" by simp
  obtain cols where "layout_cols t (off + cd_len d) ds = (cols, off + cd_len d + sum_list (map cd_len ds))" "length cols = length ds"
    "\<forall>i < length ds. cols ! i = \<lparr>cm_tab_name = t, cm_name = cd_name (ds ! i), cm_type = cd_type (ds ! i),
      cm_len = cd_len (ds ! i), cm_offset = off + cd_len d + sum_list (map cd_len (take i ds)), cm_index = False\<rparr>"
    using Cons.IH [of "off + cd_len d"] Cons.prems by auto
  then show ?case by (auto simp: off nth_Cons' take_Cons' less_Suc_eq_0_disj)
qed simp

text \<open>
  C37. \<open>create_table\<close> of a new table whose record fits: the call succeeds, the catalogue has the table with the columns in the order given, each
  starting where the one before it ends and without an index, every other table is as before, and the record file is open with a header
  for records as long as the columns together.
\<close>

theorem create_table_correct:
  assumes new: "\<not> is_table tab_name (sm_db s)" "fhs s tab_name = None" "map_ok (db_tabs (sm_db s))"
    and disk: "os_names (dm_os (disk_manager (sm_bpm s))) tab_name = None" "tab_name \<notin> os_dirs (dm_os (disk_manager (sm_bpm s)))"
      "path2fd (disk_manager (sm_bpm s)) tab_name = None" "free_fd (dm_os (disk_manager (sm_bpm s))) = Some fd" "fd < MAX_FD"
    and lens: "list_all (\<lambda>d. 0 \<le> cd_len d) defs" "1 \<le> sum_list (map cd_len defs)" "sum_list (map cd_len defs) \<le> RM_MAX_RECORD_SIZE"
  shows "\<exists>s' tab b. create_table tab_name defs s = (Inr (), s') \<and> get_table tab_name (sm_db s') = Inr tab \<and> tm_name tab = tab_name \<and>
    length (tm_cols tab) = length defs \<and>
    (\<forall>i < length defs. tm_cols tab ! i = \<lparr>cm_tab_name = tab_name, cm_name = cd_name (defs ! i), cm_type = cd_type (defs ! i),
       cm_len = cd_len (defs ! i), cm_offset = sum_list (map cd_len (take i defs)), cm_index = False\<rparr>) \<and>
    fhs s' = (fhs s)(tab_name \<mapsto> \<lparr>rm_bpm = b, rm_fd = fd, rm_hdr = new_file_hdr (sum_list (map cd_len defs))\<rparr>) \<and>
    (\<forall>t. t \<noteq> tab_name \<longrightarrow> get_table t (sm_db s') = get_table t (sm_db s)) \<and> map_ok (db_tabs (sm_db s'))"
proof -
  let ?r = "sum_list (map cd_len defs)"
  obtain cols where L: "layout_cols tab_name 0 defs = (cols, ?r)" "length cols = length defs"
    "\<And>i. i < length defs \<Longrightarrow> cols ! i = \<lparr>cm_tab_name = tab_name, cm_name = cd_name (defs ! i), cm_type = cd_type (defs ! i),
       cm_len = cd_len (defs ! i), cm_offset = sum_list (map cd_len (take i defs)), cm_index = False\<rparr>"
    using layout_cols_ok [OF lens(1), where off = 0 and t = tab_name] lens(3) by (auto simp: RM_MAX_RECORD_SIZE_def)
  obtain b1 b2 where R: "RmManager_create_file tab_name ?r (sm_bpm s) = (Inr (), b1)"
    "RmManager_open_file tab_name b1 = (Inr \<lparr>rm_bpm = b2, rm_fd = fd, rm_hdr = new_file_hdr ?r\<rparr>, b2)"
    using RmManager_create_open [OF lens(2,3) disk] by blast
  let ?tab = "\<lparr>tm_name = tab_name, tm_cols = cols\<rparr>"
  let ?s = "s\<lparr>sm_db := (sm_db s)\<lparr>db_tabs := map_assign tab_name ?tab (db_tabs (sm_db s))\<rparr>,
    fhs := (fhs s)(tab_name \<mapsto> \<lparr>rm_bpm = b2, rm_fd = fd, rm_hdr = new_file_hdr ?r\<rparr>), sm_bpm := b2\<rparr>"
  have "create_table tab_name defs s = (Inr (), ?s)"
    using new(1,2) L(1) R by (simp add: create_table_def andthen_def guard_def on_pool_def modify_st_def emplace_def)
  moreover have "get_table t (sm_db ?s) = (if t = tab_name then Inr ?tab else get_table t (sm_db s))" for t
    using new(3) by (simp add: get_table_def map_of_assign)
  moreover have "map_ok (db_tabs (sm_db ?s))" using map_ok_assign [OF new(3)] by simp
  ultimately show ?thesis using L(2,3) by (intro exI [of _ ?s] exI [of _ ?tab] exI [of _ b2]) simp
qed

definition sample_sm :: SmManager where
  "sample_sm = (SmManager_new sample_pool)\<lparr>sm_db := sample_db\<rparr>"

definition sample_defs :: "ColDef list" where
  "sample_defs = [\<lparr>cd_name = ''id'', cd_type = TYPE_INT, cd_len = 4\<rparr>, \<lparr>cd_name = ''name'', cd_type = TYPE_STRING, cd_len = 20\<rparr>]"

theorem create_table_correct_witness:
  "\<exists>s' tab b. create_table ''u'' sample_defs sample_sm = (Inr (), s') \<and> get_table ''u'' (sm_db s') = Inr tab \<and> tm_name tab = ''u'' \<and>
    length (tm_cols tab) = length sample_defs \<and>
    (\<forall>i < length sample_defs. tm_cols tab ! i = \<lparr>cm_tab_name = ''u'', cm_name = cd_name (sample_defs ! i), cm_type = cd_type (sample_defs ! i),
       cm_len = cd_len (sample_defs ! i), cm_offset = sum_list (map cd_len (take i sample_defs)), cm_index = False\<rparr>) \<and>
    fhs s' = (fhs sample_sm)(''u'' \<mapsto> \<lparr>rm_bpm = b, rm_fd = 1, rm_hdr = new_file_hdr (sum_list (map cd_len sample_defs))\<rparr>) \<and>
    (\<forall>t. t \<noteq> ''u'' \<longrightarrow> get_table t (sm_db s') = get_table t (sm_db sample_sm)) \<and> map_ok (db_tabs (sm_db s'))"
  by (rule create_table_correct)
    (simp_all add: sample_sm_def SmManager_new_def sample_db_def is_table_def map_ok_def sample_defs_def RM_MAX_RECORD_SIZE_def
      sample_pool_simps sample_disk_eq sample_os_def MAX_FD_def free_fd_def upt_rec)

section \<open>Showing the tables\<close>

definition BUFFER_LENGTH :: int where "BUFFER_LENGTH = 8192"

definition tables_text :: "DbMeta \<Rightarrow> string" where
  "tables_text db = separator_text 1 @ row_text [''Tables''] @ separator_text 1 @
     concat (map (\<lambda>(_, tab). row_text [tm_name tab]) (db_tabs db)) @ separator_text 1"

lemma length_tables_text: "length (tables_text db) = 21 * (length (db_tabs db) + 4)"
proof -
  have "length (concat (map (\<lambda>(_, tab). row_text [tm_name tab]) ts)) = 21 * length ts" for ts :: "(string \<times> TabMeta) list"
    by (induction ts) auto
  then show ?thesis by (simp add: tables_text_def)
qed

lemma sends_tables:
  "sends (andthen (RecordPrinter_print_separator 1) (\<lambda>_. andthen (RecordPrinter_print_record 1 [''Tables'']) (\<lambda>_.
     andthen (RecordPrinter_print_separator 1) (\<lambda>_.
     andthen (for_each (\<lambda>(_, tab). RecordPrinter_print_record 1 [tm_name tab]) (db_tabs db)) (\<lambda>_. RecordPrinter_print_separator 1))))) (tables_text db)"
  unfolding tables_text_def by (intro sends_then sends_separator sends_each sends_row) (auto intro: sends_row)

text \<open>
  \<open>show_tables\<close> sends one boxed row of 21 bytes for every table under a header, whatever the length of the names, and changes nothing else.
  The reply buffer of the server has 8192 bytes and nothing checks it: from 387 tables on the reply runs past its end.
\<close>

lemma show_tables_output:
  assumes "room (tables_text (sm_db s)) c"
  shows "\<exists>c'. show_tables (s, c) = (Inr (), (s, c')) \<and> sent (tables_text (sm_db s)) c c' \<and>
    ctx_offset c' = ctx_offset c + 21 * (int (length (db_tabs (sm_db s))) + 4) \<and>
    (ctx_offset c = 0 \<longrightarrow> (BUFFER_LENGTH < ctx_offset c' \<longleftrightarrow> 386 < length (db_tabs (sm_db s))))"
proof -
  obtain c' where c': "andthen (RecordPrinter_print_separator 1) (\<lambda>_. andthen (RecordPrinter_print_record 1 [''Tables'']) (\<lambda>_.
     andthen (RecordPrinter_print_separator 1) (\<lambda>_.
     andthen (for_each (\<lambda>(_, tab). RecordPrinter_print_record 1 [tm_name tab]) (db_tabs (sm_db s))) (\<lambda>_. RecordPrinter_print_separator 1)))) c = (Inr (), c')"
    "sent (tables_text (sm_db s)) c c'"
    using sends_tables [of "sm_db s"] assms unfolding sends_def by blast
  have off: "ctx_offset c' = ctx_offset c + 21 * (int (length (db_tabs (sm_db s))) + 4)"
    using c'(2) by (simp add: sent_def length_tables_text)
  have "show_tables (s, c) = (Inr (), (s, c'))" using c'(1) by (simp add: show_tables_def on_context_def)
  then show ?thesis using c'(2) off by (intro exI [of _ c']) (auto simp: BUFFER_LENGTH_def)
qed

lemma show_tables_output_witness:
  "\<exists>c'. show_tables (sample_sm, Context_new None (Some zero_mem) 0) = (Inr (), (sample_sm, c')) \<and>
    sent (tables_text sample_db) (Context_new None (Some zero_mem) 0) c' \<and> ctx_offset c' = 105"
proof -
  have db: "sm_db sample_sm = sample_db" by (simp add: sample_sm_def)
  have "room (tables_text (sm_db sample_sm)) (Context_new None (Some zero_mem) 0)"
    by (simp add: room_def Context_new_def length_tables_text db sample_db_def)
  from show_tables_output [OF this] show ?thesis by (auto simp: db Context_new_def sample_db_def)
qed

end
