(* ===== verification/Ql_Conditions.thy ===== *)
theory Ql_Conditions
  imports Sm_Manager
begin

text \<open>
  Columns, values and conditions of a statement: the structures of \<open>execution/execution_manager.h\<close>, the checks and the distribution
  of conditions of \<open>execution/execution_manager.cpp\<close>, and the evaluation of conditions on a record in \<open>execution/executor_abstract.h\<close> and
  \<open>execution/executor_seq_scan.h\<close> (repeated word for word in \<open>execution/executor_index_scan.h\<close>). None of them changes state; they throw.
\<close>

section \<open>Exceptions without state\<close>

definition ebind :: "'e + 'a \<Rightarrow> ('a \<Rightarrow> 'e + 'b) \<Rightarrow> 'e + 'b" where
  "ebind r f = (case r of Inl e \<Rightarrow> Inl e | Inr x \<Rightarrow> f x)"

fun emap :: "('a \<Rightarrow> 'e + 'b) \<Rightarrow> 'a list \<Rightarrow> 'e + 'b list" where
  "emap f [] = Inr []"
| "emap f (x # xs) = ebind (f x) (\<lambda>y. ebind (emap f xs) (\<lambda>ys. Inr (y # ys)))"

lemma ebind_simps [simp]: "ebind (Inl e) f = Inl e" "ebind (Inr x) f = f x"
  by (simp_all add: ebind_def)

section \<open>Columns and values\<close>

record TabCol =
  tc_tab :: string
  tc_col :: string

definition TabCol_less :: "TabCol \<Rightarrow> TabCol \<Rightarrow> bool" where
  "TabCol_less x y \<longleftrightarrow> tc_tab x < tc_tab y \<or> (tc_tab x = tc_tab y \<and> tc_col x < tc_col y)"

text \<open>The union of an \<open>int\<close> and a \<open>float\<close> is its four bytes.\<close>

record Value =
  val_type :: "ColType option"
  val_num :: "byte list option"
  val_str :: string
  val_raw :: "RmRecord option"

definition Value_default :: Value where
  "Value_default = \<lparr>val_type = None, val_num = None, val_str = [], val_raw = None\<rparr>"

definition set_int :: "int \<Rightarrow> Value \<Rightarrow> Value" where
  "set_int i v = v\<lparr>val_type := Some TYPE_INT, val_num := Some (i32_bytes i)\<rparr>"

definition set_float :: "byte list \<Rightarrow> Value \<Rightarrow> Value" where
  "set_float f v = v\<lparr>val_type := Some TYPE_FLOAT, val_num := Some f\<rparr>"

definition set_str :: "string \<Rightarrow> Value \<Rightarrow> Value" where
  "set_str s v = v\<lparr>val_type := Some TYPE_STRING, val_str := s\<rparr>"

text \<open>A buffer of negative length is refused by \<open>new\<close>, here as \<open>OutOfRange\<close>.\<close>

definition init_raw :: "int \<Rightarrow> Value \<Rightarrow> rb_error + Value" where
  "init_raw len v =
     (if val_raw v \<noteq> None then Inl AssertionFailure
      else if len < 0 then Inl OutOfRange
      else case val_type v of
          None \<Rightarrow> Inl Indeterminate
        | Some TYPE_STRING \<Rightarrow>
            if len < int (length (val_str v)) then Inl StringOverflowError
            else Inr (v\<lparr>val_raw := Some (string_bytes (val_str v) @ replicate (nat len - length (val_str v)) 0)\<rparr>)
        | Some _ \<Rightarrow>
            if len \<noteq> 4 then Inl AssertionFailure
            else (case val_num v of None \<Rightarrow> Inl Indeterminate | Some bs \<Rightarrow> Inr (v\<lparr>val_raw := Some bs\<rparr>)))"

datatype CompOp = OP_EQ | OP_NE | OP_LT | OP_GT | OP_LE | OP_GE

record Condition =
  lhs_col :: TabCol
  cond_op :: CompOp
  is_rhs_val :: bool
  rhs_col :: TabCol
  rhs_val :: Value

record SetClause =
  sc_lhs :: TabCol
  sc_rhs :: Value

section \<open>Checking a statement\<close>

fun infer_tab :: "string \<Rightarrow> string \<Rightarrow> ColMeta list \<Rightarrow> rb_error + string" where
  "infer_tab col_name tab_name [] = Inr tab_name"
| "infer_tab col_name tab_name (c # cs) =
     (if cm_name c = col_name then
        (if tab_name \<noteq> [] then Inl (AmbiguousColumnError col_name) else infer_tab col_name (cm_tab_name c) cs)
      else infer_tab col_name tab_name cs)"

definition check_column :: "DbMeta \<Rightarrow> ColMeta list \<Rightarrow> TabCol \<Rightarrow> rb_error + TabCol" where
  "check_column db all_cols target =
     (if tc_tab target = [] then
        ebind (infer_tab (tc_col target) [] all_cols) (\<lambda>tab_name.
          if tab_name = [] then Inl (ColumnNotFoundError (tc_col target)) else Inr (target\<lparr>tc_tab := tab_name\<rparr>))
      else if \<not> is_table (tc_tab target) db then Inl (ColumnNotFoundError (tc_tab target @ ''.'' @ tc_col target))
      else ebind (get_table (tc_tab target) db) (\<lambda>tab.
        if is_col (tc_col target) tab then Inr target else Inl (ColumnNotFoundError (tc_tab target @ ''.'' @ tc_col target))))"

definition get_all_cols :: "DbMeta \<Rightarrow> string list \<Rightarrow> rb_error + ColMeta list" where
  "get_all_cols db tab_names = ebind (emap (\<lambda>t. ebind (get_table t db) (\<lambda>tab. Inr (tm_cols tab))) tab_names) (\<lambda>css. Inr (concat css))"

definition type_check :: "ColType \<Rightarrow> ColType option \<Rightarrow> 'a \<Rightarrow> rb_error + 'a" where
  "type_check lt rt x = (case rt of None \<Rightarrow> Inl Indeterminate
     | Some t \<Rightarrow> if lt \<noteq> t then Inl (IncompatibleTypeError (coltype2str lt) (coltype2str t)) else Inr x)"

definition check_condition :: "DbMeta \<Rightarrow> ColMeta list \<Rightarrow> Condition \<Rightarrow> rb_error + Condition" where
  "check_condition db all_cols cond =
     ebind (check_column db all_cols (lhs_col cond)) (\<lambda>lhs.
     ebind (if is_rhs_val cond then Inr (rhs_col cond) else check_column db all_cols (rhs_col cond)) (\<lambda>rhs.
     ebind (get_table (tc_tab lhs) db) (\<lambda>lhs_tab.
     ebind (deref_col lhs_tab (TabMeta_get_col (tc_col lhs) lhs_tab)) (\<lambda>lcol.
     let c = cond\<lparr>lhs_col := lhs, rhs_col := rhs\<rparr>
     in if is_rhs_val cond then
          ebind (init_raw (cm_len lcol) (rhs_val cond)) (\<lambda>v. type_check (cm_type lcol) (val_type v) (c\<lparr>rhs_val := v\<rparr>))
        else
          ebind (get_table (tc_tab rhs) db) (\<lambda>rhs_tab.
          ebind (deref_col rhs_tab (TabMeta_get_col (tc_col rhs) rhs_tab)) (\<lambda>rcol.
          type_check (cm_type lcol) (Some (cm_type rcol)) c))))))"

definition check_where_clause :: "DbMeta \<Rightarrow> string list \<Rightarrow> Condition list \<Rightarrow> rb_error + Condition list" where
  "check_where_clause db tab_names conds =
     ebind (get_all_cols db tab_names) (\<lambda>all_cols. emap (check_condition db all_cols) conds)"

text \<open>\<open>get_indexNo\<close>: the position of the first column that has an index and a usable condition, \<open>-1\<close> without one.\<close>

fun find_index :: "TabMeta \<Rightarrow> Condition list \<Rightarrow> rb_error + int" where
  "find_index tab [] = Inr (-1)"
| "find_index tab (cond # conds) =
     (if is_rhs_val cond \<and> cond_op cond \<noteq> OP_NE then
        (let it = TabMeta_get_col (tc_col (lhs_col cond)) tab
         in ebind (deref_col tab it) (\<lambda>col.
              if cm_index col then Inr (int (case it of Some i \<Rightarrow> i | None \<Rightarrow> 0)) else find_index tab conds))
      else find_index tab conds)"

definition get_indexNo :: "DbMeta \<Rightarrow> string \<Rightarrow> Condition list \<Rightarrow> rb_error + int" where
  "get_indexNo db tab_name curr_conds = ebind (get_table tab_name db) (\<lambda>tab. find_index tab curr_conds)"

section \<open>Distributing the conditions over the tables\<close>

definition solvable :: "string list \<Rightarrow> Condition \<Rightarrow> bool" where
  "solvable tab_names c \<longleftrightarrow> tc_tab (lhs_col c) \<in> set tab_names \<and> (is_rhs_val c \<or> tc_tab (rhs_col c) \<in> set tab_names)"

fun pop_conds :: "Condition list \<Rightarrow> string list \<Rightarrow> Condition list \<times> Condition list" where
  "pop_conds [] tab_names = ([], [])"
| "pop_conds (c # cs) tab_names =
     (let (solved_conds, conds) = pop_conds cs tab_names
      in if solvable tab_names c then (c # solved_conds, conds) else (solved_conds, c # conds))"

text \<open>The loop of \<open>select_from\<close> over the tables: table \<open>i\<close> takes the conditions over the first \<open>i + 1\<close> tables that are
  left. The lists \<open>curr_conds\<close> of all rounds are the result here; the code hands each to \<open>get_indexNo\<close> (\<open>plan_select\<close>) and then drops it.\<close>

fun place_conds :: "string list \<Rightarrow> nat list \<Rightarrow> Condition list \<Rightarrow> Condition list list \<times> Condition list" where
  "place_conds tab_names [] conds = ([], conds)"
| "place_conds tab_names (i # is) conds =
     (let (curr_conds, conds1) = pop_conds conds (take (i + 1) tab_names); (placed, rest) = place_conds tab_names is conds1
      in (curr_conds # placed, rest))"

section \<open>Conditions on a record\<close>

definition find_col :: "ColMeta list \<Rightarrow> TabCol \<Rightarrow> rb_error + nat" where
  "find_col rec_cols target =
     (case List.find (\<lambda>i. cm_tab_name (rec_cols ! i) = tc_tab target \<and> cm_name (rec_cols ! i) = tc_col target) [0..<length rec_cols] of
        None \<Rightarrow> Inl (ColumnNotFoundError (tc_tab target @ ''.'' @ tc_col target))
      | Some i \<Rightarrow> Inr i)"

definition field_bytes :: "ColMeta \<Rightarrow> RmRecord \<Rightarrow> byte list" where
  "field_bytes col rec = drop (nat (cm_offset col)) rec"

fun op_holds :: "CompOp \<Rightarrow> int \<Rightarrow> bool" where
  "op_holds OP_EQ cmp \<longleftrightarrow> cmp = 0"
| "op_holds OP_NE cmp \<longleftrightarrow> cmp \<noteq> 0"
| "op_holds OP_LT cmp \<longleftrightarrow> cmp < 0"
| "op_holds OP_GT cmp \<longleftrightarrow> cmp > 0"
| "op_holds OP_LE cmp \<longleftrightarrow> cmp \<le> 0"
| "op_holds OP_GE cmp \<longleftrightarrow> cmp \<ge> 0"

definition eval_cond :: "ColMeta list \<Rightarrow> RmRecord \<Rightarrow> Condition \<Rightarrow> rb_error + bool" where
  "eval_cond rec_cols rec cond =
     ebind (find_col rec_cols (lhs_col cond)) (\<lambda>l.
     let lcol = rec_cols ! l
     in ebind (if is_rhs_val cond then
                 (case (val_type (rhs_val cond), val_raw (rhs_val cond)) of
                    (None, _) \<Rightarrow> Inl Indeterminate | (_, None) \<Rightarrow> Inl NullDereference | (Some t, Some bs) \<Rightarrow> Inr (t, bs))
               else ebind (find_col rec_cols (rhs_col cond)) (\<lambda>r. Inr (cm_type (rec_cols ! r), field_bytes (rec_cols ! r) rec))) (\<lambda>(rhs_type, rhs).
        if rhs_type \<noteq> cm_type lcol then Inl AssertionFailure
        else Inr (op_holds (cond_op cond) (ix_compare rhs_type (nat (cm_len lcol)) (field_bytes lcol rec) rhs))))"

fun eval_conds :: "ColMeta list \<Rightarrow> Condition list \<Rightarrow> RmRecord \<Rightarrow> rb_error + bool" where
  "eval_conds rec_cols [] rec = Inr True"
| "eval_conds rec_cols (c # cs) rec = ebind (eval_cond rec_cols rec c) (\<lambda>b. if b then eval_conds rec_cols cs rec else Inr False)"

text \<open>\<open>rec2dict\<close>: the values of a record by column. A string ends at the first zero byte.\<close>

definition field_value :: "ColMeta \<Rightarrow> RmRecord \<Rightarrow> Value" where
  "field_value col rec = (case cm_type col of
       TYPE_INT \<Rightarrow> set_int (bytes_i32 (field_bytes col rec)) Value_default
     | TYPE_FLOAT \<Rightarrow> set_float (take 4 (field_bytes col rec)) Value_default
     | TYPE_STRING \<Rightarrow> set_str (map (\<lambda>b. char_of (unat b)) (takeWhile (\<lambda>b. b \<noteq> 0) (take (nat (cm_len col)) (field_bytes col rec)))) Value_default)"

fun rec2dict :: "ColMeta list \<Rightarrow> RmRecord \<Rightarrow> (TabCol \<rightharpoonup> Value) \<Rightarrow> rb_error + (TabCol \<rightharpoonup> Value)" where
  "rec2dict [] rec d = Inr d"
| "rec2dict (col # cols) rec d =
     (let key = \<lparr>tc_tab = cm_tab_name col, tc_col = cm_name col\<rparr>
      in if d key \<noteq> None then Inl AssertionFailure
         else ebind (init_raw (cm_len col) (field_value col rec)) (\<lambda>v. rec2dict cols rec (d(key \<mapsto> v))))"

section \<open>Every condition is evaluated at the first table that has its columns\<close>

lemma pop_conds_filter: "pop_conds cs ts = (filter (solvable ts) cs, filter (\<lambda>c. \<not> solvable ts c) cs)"
  by (induction cs) simp_all

lemma solvable_mono: "solvable (take i ts) c \<Longrightarrow> solvable (take (Suc i) ts) c"
  using set_take_subset_set_take [of i "Suc i" ts] by (auto simp: solvable_def)

lemma place_conds_from:
  assumes "a \<le> n"
  shows "place_conds ts [a..<n] (filter (\<lambda>c. \<not> solvable (take a ts) c) conds) =
    (map (\<lambda>i. filter (\<lambda>c. solvable (take (Suc i) ts) c \<and> \<not> solvable (take i ts) c) conds) [a..<n], filter (\<lambda>c. \<not> solvable (take n ts) c) conds)"
  using assms
proof (induction "n - a" arbitrary: a)
  case (Suc k)
  then have a: "[a..<n] = a # [Suc a..<n]" by (simp add: upt_conv_Cons)
  have "filter (\<lambda>c. \<not> solvable (take (Suc a) ts) c) (filter (\<lambda>c. \<not> solvable (take a ts) c) conds) = filter (\<lambda>c. \<not> solvable (take (Suc a) ts) c) conds"
    using solvable_mono by (auto simp: filter_filter intro: filter_cong)
  moreover have "filter (solvable (take (Suc a) ts)) (filter (\<lambda>c. \<not> solvable (take a ts) c) conds) =
      filter (\<lambda>c. solvable (take (Suc a) ts) c \<and> \<not> solvable (take a ts) c) conds"
    by (simp add: filter_filter conj_commute)
  ultimately show ?case using Suc.hyps(1) [of "Suc a"] Suc.hyps(2) Suc.prems by (simp add: a pop_conds_filter)
qed simp

text \<open>
  C35. The loop of \<open>select_from\<close> hands each condition to the scan of the first table at which all its columns are available, in
  the order of the statement, and to no other; what is left over is exactly the conditions that name a table outside the statement, so
  \<open>assert(conds.empty())\<close> after the loop holds exactly when there is none.
\<close>

theorem conditions_placed_at_first_table:
  "place_conds tab_names [0..<length tab_names] conds =
    (map (\<lambda>i. filter (\<lambda>c. solvable (take (Suc i) tab_names) c \<and> \<not> solvable (take i tab_names) c) conds) [0..<length tab_names],
     filter (\<lambda>c. \<not> solvable tab_names c) conds)"
  using place_conds_from [of 0 "length tab_names" tab_names conds] by (simp add: solvable_def)

section \<open>Conditions compare values\<close>

datatype sql_value = SqlInt int | SqlFloat int | SqlStr "byte list"

definition bytes_value :: "ColType \<Rightarrow> byte list \<Rightarrow> sql_value" where
  "bytes_value t bs = (case t of TYPE_INT \<Rightarrow> SqlInt (bytes_i32 bs) | TYPE_FLOAT \<Rightarrow> SqlFloat (f32_ord bs) | TYPE_STRING \<Rightarrow> SqlStr bs)"

fun sql_less :: "sql_value \<Rightarrow> sql_value \<Rightarrow> bool" where
  "sql_less (SqlInt a) (SqlInt b) \<longleftrightarrow> a < b"
| "sql_less (SqlFloat a) (SqlFloat b) \<longleftrightarrow> a < b"
| "sql_less (SqlStr a) (SqlStr b) \<longleftrightarrow> a < b"
| "sql_less _ _ \<longleftrightarrow> False"

fun sql_op :: "CompOp \<Rightarrow> sql_value \<Rightarrow> sql_value \<Rightarrow> bool" where
  "sql_op OP_EQ a b \<longleftrightarrow> a = b"
| "sql_op OP_NE a b \<longleftrightarrow> a \<noteq> b"
| "sql_op OP_LT a b \<longleftrightarrow> sql_less a b"
| "sql_op OP_GT a b \<longleftrightarrow> sql_less b a"
| "sql_op OP_LE a b \<longleftrightarrow> sql_less a b \<or> a = b"
| "sql_op OP_GE a b \<longleftrightarrow> sql_less b a \<or> a = b"

text \<open>
  The operands of a condition: the type and length of the left column, the bytes of its field, and as many bytes of the constant or of
  the right column. A condition is ready when both are there, of one type and of full length (four bytes for a number, which is not a NaN).
\<close>

definition cond_operands :: "ColMeta list \<Rightarrow> RmRecord \<Rightarrow> Condition \<Rightarrow> (ColType \<times> nat \<times> byte list \<times> byte list) option" where
  "cond_operands cols rec cond = (case find_col cols (lhs_col cond) of Inl _ \<Rightarrow> None
     | Inr l \<Rightarrow>
         let lcol = cols ! l; n = nat (cm_len lcol); a = take n (field_bytes lcol rec)
         in if is_rhs_val cond then
              (if val_type (rhs_val cond) = Some (cm_type lcol) then map_option (\<lambda>bs. (cm_type lcol, n, a, take n bs)) (val_raw (rhs_val cond)) else None)
            else (case find_col cols (rhs_col cond) of Inl _ \<Rightarrow> None
              | Inr r \<Rightarrow> if cm_type (cols ! r) = cm_type lcol then Some (cm_type lcol, n, a, take n (field_bytes (cols ! r) rec)) else None))"

definition cond_ready :: "ColMeta list \<Rightarrow> RmRecord \<Rightarrow> Condition \<Rightarrow> bool" where
  "cond_ready cols rec cond \<longleftrightarrow> (case cond_operands cols rec cond of None \<Rightarrow> False
     | Some (t, n, a, b) \<Rightarrow> valid_key t n a \<and> valid_key t n b \<and> (t = TYPE_STRING \<or> n = 4))"

definition sql_holds :: "ColMeta list \<Rightarrow> RmRecord \<Rightarrow> Condition \<Rightarrow> bool" where
  "sql_holds cols rec cond \<longleftrightarrow> (case cond_operands cols rec cond of None \<Rightarrow> False
     | Some (t, n, a, b) \<Rightarrow> sql_op (cond_op cond) (bytes_value t a) (bytes_value t b))"

lemma memcmp_lex:
  assumes "length a = length b"
  shows "memcmp a b < 0 \<longleftrightarrow> a < b" and "memcmp a b = 0 \<longleftrightarrow> a = b" and "0 < memcmp a b \<longleftrightarrow> b < a"
  using assms by (induction a b rule: list_induct2) (auto split: if_splits)

lemma op_holds_sql:
  assumes "c < 0 \<longleftrightarrow> sql_less a b" and "c = 0 \<longleftrightarrow> a = b" and "0 < c \<longleftrightarrow> sql_less b a"
  shows "op_holds p c = sql_op p a b"
  using assms by (cases p) auto

lemma ix_compare_sql:
  assumes "valid_key t n a" and "valid_key t n b"
  shows "op_holds p (ix_compare t n a b) = sql_op p (bytes_value t a) (bytes_value t b)"
proof (rule op_holds_sql)
  have len: "length a = n" "length b = n" "length a = length b" using assms by (simp_all add: valid_key_def)
  show "ix_compare t n a b < 0 \<longleftrightarrow> sql_less (bytes_value t a) (bytes_value t b)"
    "ix_compare t n a b = 0 \<longleftrightarrow> bytes_value t a = bytes_value t b" "0 < ix_compare t n a b \<longleftrightarrow> sql_less (bytes_value t b) (bytes_value t a)"
    using assms memcmp_lex [OF len(3)] len(1,2)
    by (cases t; auto simp: ix_compare_def bytes_value_def f32_less_def valid_key_def split: if_splits)+
qed

lemma ix_compare_take:
  assumes "t = TYPE_STRING \<or> n = 4" and "n \<le> length a" and "n \<le> length b"
  shows "ix_compare t n (take n a) (take n b) = ix_compare t n a b"
proof -
  have num: "bytes_i32 (take 4 xs) = bytes_i32 xs" "f32_bits (take 4 xs) = f32_bits xs" for xs :: "byte list"
    by (simp_all add: bytes_i32_def f32_bits_def)
  show ?thesis using assms
    by (cases t) (simp_all add: ix_compare_def num f32_less_def f32_nan_def f32_ord_def)
qed

lemma eval_cond_sql:
  assumes "cond_ready cols rec cond"
  shows "eval_cond cols rec cond = Inr (sql_holds cols rec cond)"
proof -
  obtain t n a b where o: "cond_operands cols rec cond = Some (t, n, a, b)" and k: "valid_key t n a" "valid_key t n b" "t = TYPE_STRING \<or> n = 4"
    using assms by (auto simp: cond_ready_def split: option.splits prod.splits)
  obtain l where l: "find_col cols (lhs_col cond) = Inr l" "t = cm_type (cols ! l)" "n = nat (cm_len (cols ! l))" "a = take n (field_bytes (cols ! l) rec)"
    using o by (auto simp: cond_operands_def Let_def split: sum.splits if_splits)
  obtain rhs where r: "b = take n rhs" "eval_cond cols rec cond = Inr (op_holds (cond_op cond) (ix_compare t n (field_bytes (cols ! l) rec) rhs))"
    using o l by (auto simp: cond_operands_def eval_cond_def Let_def split: sum.splits if_splits)
  have len: "n \<le> length (field_bytes (cols ! l) rec)" "n \<le> length rhs" using k(1,2) l(4) r(1) by (auto simp: valid_key_def)
  have "ix_compare t n a b = ix_compare t n (field_bytes (cols ! l) rec) rhs" using ix_compare_take [OF k(3) len] l(4) r(1) by simp
  then show ?thesis using r(2) o ix_compare_sql [OF k(1,2), of "cond_op cond"] by (simp add: sql_holds_def)
qed

text \<open>
  C36. On a record and conditions that are ready, \<open>eval_conds\<close> throws nothing and answers whether every condition holds of the
  values: signed integers and floating-point numbers by their order, strings byte by byte as unsigned numbers, all six operators.
\<close>

theorem eval_conds_correct:
  assumes "\<forall>c \<in> set conds. cond_ready cols rec c"
  shows "eval_conds cols conds rec = Inr (\<forall>c \<in> set conds. sql_holds cols rec c)"
  using assms by (induction conds) (simp_all add: eval_cond_sql)

definition sample_cols :: "ColMeta list" where
  "sample_cols = [\<lparr>cm_tab_name = ''t'', cm_name = ''a'', cm_type = TYPE_INT, cm_len = 4, cm_offset = 0, cm_index = False\<rparr>,
     \<lparr>cm_tab_name = ''t'', cm_name = ''b'', cm_type = TYPE_STRING, cm_len = 2, cm_offset = 4, cm_index = False\<rparr>]"

definition sample_cond :: "string \<Rightarrow> CompOp \<Rightarrow> ColType \<Rightarrow> byte list \<Rightarrow> Condition" where
  "sample_cond c p t bs = \<lparr>lhs_col = \<lparr>tc_tab = ''t'', tc_col = c\<rparr>, cond_op = p, is_rhs_val = True, rhs_col = \<lparr>tc_tab = [], tc_col = []\<rparr>,
     rhs_val = \<lparr>val_type = Some t, val_num = None, val_str = [], val_raw = Some bs\<rparr>\<rparr>"

theorem eval_conds_correct_witness:
  "eval_conds sample_cols [sample_cond ''a'' OP_LT TYPE_INT [7, 0, 0, 0], sample_cond ''b'' OP_GE TYPE_STRING [97, 0]] [255, 255, 255, 255, 97, 98] = Inr True"
proof -
  have f: "find_col sample_cols \<lparr>tc_tab = ''t'', tc_col = ''a''\<rparr> = Inr 0" "find_col sample_cols \<lparr>tc_tab = ''t'', tc_col = ''b''\<rparr> = Inr 1"
    by (simp_all add: find_col_def sample_cols_def upt_rec)
  let ?r = "[255, 255, 255, 255, 97, 98] :: byte list"
  have o: "cond_operands sample_cols ?r (sample_cond ''a'' OP_LT TYPE_INT [7, 0, 0, 0]) = Some (TYPE_INT, 4, [255, 255, 255, 255], [7, 0, 0, 0])"
    "cond_operands sample_cols ?r (sample_cond ''b'' OP_GE TYPE_STRING [97, 0]) = Some (TYPE_STRING, 2, [97, 98], [97, 0])"
    by (simp_all add: cond_operands_def sample_cond_def f) (simp_all add: sample_cols_def field_bytes_def numeral_eq_Suc)
  have ready: "\<forall>c \<in> set [sample_cond ''a'' OP_LT TYPE_INT [7, 0, 0, 0], sample_cond ''b'' OP_GE TYPE_STRING [97, 0]]. cond_ready sample_cols ?r c"
    using o by (simp add: cond_ready_def valid_key_def)
  have "sql_holds sample_cols ?r (sample_cond ''a'' OP_LT TYPE_INT [7, 0, 0, 0])" "sql_holds sample_cols ?r (sample_cond ''b'' OP_GE TYPE_STRING [97, 0])"
    using o by (simp_all add: sql_holds_def sample_cond_def bytes_value_def bytes_i32_def to_i32_def signed_take_bit_eq_if_positive)
  then show ?thesis using eval_conds_correct [OF ready] by simp
qed

end
