(* ===== verification/Executors.thy ===== *)
theory Executors
  imports Ql_Conditions
begin

text \<open>
  The query executors, \<open>execution/executor_*.h\<close>: sequential scan, index scan, nested-loop join and projection as one tree, and the
  executors of insert, delete and update. An executor is a value that its operations return changed; the pointers to a record file and
  an index are the names under which the catalogue manager keeps the handles. Bodies that are still missing in the source are modelled as
  they stand: a sequential scan stops at no record, its \<open>Next\<close> returns no value, and the records that a join and a projection return are
  fresh buffers, whose bytes are a parameter. Trees of any depth and loops of any length are covered through a bound; exceeding it is \<open>OutOfFuel\<close>.
\<close>

section \<open>Executors\<close>

record SeqScanExecutor =
  ss_tab_name :: string
  ss_conds :: "Condition list"
  ss_cols :: "ColMeta list"
  ss_len :: nat
  ss_fed_conds :: "Condition list"
  ss_rid :: "Rid option"
  ss_scan :: "Rid option"

record IndexScanExecutor =
  is_tab_name :: string
  is_conds :: "Condition list"
  is_cols :: "ColMeta list"
  is_len :: nat
  is_fed_conds :: "Condition list"
  is_index_no :: nat
  is_rid :: "Rid option"
  is_scan :: "IxScan option"

type_synonym feed_dict = "TabCol \<rightharpoonup> Value"

datatype executor =
    SeqE SeqScanExecutor
  | IndexE IndexScanExecutor
  | JoinE executor executor nat "ColMeta list" feed_dict
  | ProjE executor "ColMeta list" nat "nat list"

fun tupleLen :: "executor \<Rightarrow> nat" where
  "tupleLen (SeqE x) = ss_len x"
| "tupleLen (IndexE x) = is_len x"
| "tupleLen (JoinE l r len cols d) = len"
| "tupleLen (ProjE p cols len idxs) = len"

fun exec_cols :: "executor \<Rightarrow> ColMeta list" where
  "exec_cols (SeqE x) = ss_cols x"
| "exec_cols (IndexE x) = is_cols x"
| "exec_cols (JoinE l r len cols d) = cols"
| "exec_cols (ProjE p cols len idxs) = cols"

fun getType :: "executor \<Rightarrow> string" where
  "getType (SeqE x) = ''SeqScan''"
| "getType (IndexE x) = ''indexScan''"
| "getType (JoinE l r len cols d) = ''Join''"
| "getType (ProjE p cols len idxs) = ''Projection''"

fun exec_is_end :: "executor \<Rightarrow> rb_error + bool" where
  "exec_is_end (SeqE x) = (case ss_scan x of None \<Rightarrow> Inl NullDereference | Some rid \<Rightarrow> Inr (RmScan_is_end rid))"
| "exec_is_end (IndexE x) = (case is_scan x of None \<Rightarrow> Inl NullDereference | Some sc \<Rightarrow> Inr (IxScan_is_end sc))"
| "exec_is_end (JoinE l r len cols d) = exec_is_end l"
| "exec_is_end (ProjE p cols len idxs) = exec_is_end p"

section \<open>Conditions at run time\<close>

definition cond_local :: "string \<Rightarrow> Condition \<Rightarrow> bool" where
  "cond_local tab_name cond \<longleftrightarrow> tc_tab (lhs_col cond) = tab_name \<and> (is_rhs_val cond \<or> tc_tab (rhs_col cond) = tab_name)"

definition check_runtime_conds :: "string \<Rightarrow> Condition list \<Rightarrow> rb_error + unit" where
  "check_runtime_conds tab_name fed_conds = (if list_all (cond_local tab_name) fed_conds then Inr () else Inl AssertionFailure)"

fun swap_op :: "CompOp \<Rightarrow> CompOp" where
  "swap_op OP_EQ = OP_EQ"
| "swap_op OP_NE = OP_NE"
| "swap_op OP_LT = OP_GT"
| "swap_op OP_GT = OP_LT"
| "swap_op OP_LE = OP_GE"
| "swap_op OP_GE = OP_LE"

definition orient_cond :: "string \<Rightarrow> Condition \<Rightarrow> rb_error + Condition" where
  "orient_cond tab_name cond =
     (if tc_tab (lhs_col cond) \<noteq> tab_name then
        (if \<not> is_rhs_val cond \<and> tc_tab (rhs_col cond) = tab_name
         then Inr (cond\<lparr>lhs_col := rhs_col cond, rhs_col := lhs_col cond, cond_op := swap_op (cond_op cond)\<rparr>)
         else Inl AssertionFailure)
      else Inr cond)"

definition feed_cond :: "string \<Rightarrow> feed_dict \<Rightarrow> Condition \<Rightarrow> rb_error + Condition" where
  "feed_cond tab_name d cond =
     (if \<not> is_rhs_val cond \<and> tc_tab (rhs_col cond) \<noteq> tab_name then
        (case d (rhs_col cond) of None \<Rightarrow> Inl OutOfRange | Some v \<Rightarrow> Inr (cond\<lparr>is_rhs_val := True, rhs_val := v\<rparr>))
      else Inr cond)"

definition SeqScan_feed :: "feed_dict \<Rightarrow> SeqScanExecutor \<Rightarrow> rb_error + SeqScanExecutor" where
  "SeqScan_feed d x =
     ebind (emap (feed_cond (ss_tab_name x) d) (ss_conds x)) (\<lambda>fed.
     ebind (check_runtime_conds (ss_tab_name x) fed) (\<lambda>_. Inr (x\<lparr>ss_fed_conds := fed\<rparr>)))"

definition IndexScan_feed :: "feed_dict \<Rightarrow> IndexScanExecutor \<Rightarrow> rb_error + IndexScanExecutor" where
  "IndexScan_feed d x =
     ebind (check_runtime_conds (is_tab_name x) (is_conds x)) (\<lambda>_. Inr (x\<lparr>is_fed_conds := is_conds x\<rparr>))"

fun exec_feed :: "feed_dict \<Rightarrow> executor \<Rightarrow> rb_error + executor" where
  "exec_feed d (SeqE x) = ebind (SeqScan_feed d x) (\<lambda>y. Inr (SeqE y))"
| "exec_feed d (IndexE x) = ebind (IndexScan_feed d x) (\<lambda>y. Inr (IndexE y))"
| "exec_feed d (JoinE l r len cols d0) = ebind (exec_feed d l) (\<lambda>l'. Inr (JoinE l' r len cols d))"
| "exec_feed d (ProjE p cols len idxs) = Inl (InternalError ''Cannot feed a projection node'')"

section \<open>Constructors\<close>

definition SeqScanExecutor_new :: "SmManager \<Rightarrow> string \<Rightarrow> Condition list \<Rightarrow> rb_error + executor" where
  "SeqScanExecutor_new sm tab_name conds =
     ebind (get_table tab_name (sm_db sm)) (\<lambda>tab.
     ebind (case fhs sm tab_name of None \<Rightarrow> Inl OutOfRange | Some _ \<Rightarrow> Inr ()) (\<lambda>_.
     ebind (if tm_cols tab = [] then Inl Indeterminate else Inr (nat (cm_offset (last (tm_cols tab)) + cm_len (last (tm_cols tab))))) (\<lambda>len.
     ebind (emap (orient_cond tab_name) conds) (\<lambda>cs.
     Inr (SeqE \<lparr>ss_tab_name = tab_name, ss_conds = cs, ss_cols = tm_cols tab, ss_len = len, ss_fed_conds = cs, ss_rid = None, ss_scan = None\<rparr>)))))"

definition NestedLoopJoinExecutor_new :: "executor \<Rightarrow> executor \<Rightarrow> executor" where
  "NestedLoopJoinExecutor_new l r =
     JoinE l r (tupleLen l + tupleLen r)
       (exec_cols l @ map (\<lambda>col. col\<lparr>cm_offset := to_i32 (cm_offset col + int (tupleLen l))\<rparr>) (exec_cols r)) Map.empty"

fun project_cols :: "ColMeta list \<Rightarrow> nat \<Rightarrow> TabCol list \<Rightarrow> rb_error + (nat list \<times> ColMeta list \<times> nat)" where
  "project_cols prev_cols curr_offset [] = Inr ([], [], curr_offset)"
| "project_cols prev_cols curr_offset (c # cs) =
     ebind (find_col prev_cols c) (\<lambda>i.
     ebind (project_cols prev_cols (curr_offset + nat (cm_len (prev_cols ! i))) cs) (\<lambda>(idxs, cols, len).
     Inr (i # idxs, (prev_cols ! i)\<lparr>cm_offset := to_i32 (int curr_offset)\<rparr> # cols, len)))"

definition ProjectionExecutor_new :: "executor \<Rightarrow> TabCol list \<Rightarrow> rb_error + executor" where
  "ProjectionExecutor_new p sel_cols =
     ebind (project_cols (exec_cols p) 0 sel_cols) (\<lambda>(idxs, cols, len). Inr (ProjE p cols len idxs))"

section \<open>Moving the executors\<close>

definition on_table :: "string \<Rightarrow> (rb_error, RmFileHandle, 'a) op \<Rightarrow> (rb_error, SmManager, 'a) op" where
  "on_table tab_name f s = (case fhs s tab_name of None \<Rightarrow> (Inl OutOfRange, s)
     | Some fh \<Rightarrow> let (r, fh') = f (fh\<lparr>rm_bpm := sm_bpm s\<rparr>) in (r, s\<lparr>sm_bpm := rm_bpm fh', fhs := (fhs s)(tab_name \<mapsto> fh')\<rparr>))"

definition on_index :: "string \<Rightarrow> 'a ix_op \<Rightarrow> (rb_error, SmManager, 'a) op" where
  "on_index index_name f s = (case ihs s index_name of None \<Rightarrow> (Inl OutOfRange, s)
     | Some ih \<Rightarrow> let (r, ih') = f (ih\<lparr>ix_bpm := sm_bpm s\<rparr>) in (r, s\<lparr>sm_bpm := ix_bpm ih', ihs := (ihs s)(index_name \<mapsto> ih')\<rparr>))"

text \<open>The scan of \<open>beginTuple\<close> passes over a record that is gone; the record it reads is not looked at.\<close>

fun seq_scan_loop :: "nat \<Rightarrow> string \<Rightarrow> Rid option \<Rightarrow> Rid \<Rightarrow> (rb_error, SmManager, Rid option \<times> Rid) op" where
  "seq_scan_loop fuel tab rid sc =
     (if RmScan_is_end sc then ret (rid, sc)
      else case fuel of 0 \<Rightarrow> throw OutOfFuel
        | Suc k \<Rightarrow>
            (\<lambda>s. case on_table tab (get_record sc) s of
                (Inl (RecordNotFoundError p q), t) \<Rightarrow> andthen (on_table tab (RmScan_next sc)) (seq_scan_loop k tab (Some sc)) t
              | (Inl e, t) \<Rightarrow> (Inl e, t)
              | (Inr _, t) \<Rightarrow> andthen (on_table tab (RmScan_next sc)) (seq_scan_loop k tab (Some sc)) t))"

declare seq_scan_loop.simps [simp del]

definition SeqScan_beginTuple :: "nat \<Rightarrow> Rid \<Rightarrow> SeqScanExecutor \<Rightarrow> (rb_error, SmManager, SeqScanExecutor) op" where
  "SeqScan_beginTuple fuel rid0 x =
     andthen (lift_result (check_runtime_conds (ss_tab_name x) (ss_fed_conds x))) (\<lambda>_.
     andthen (on_table (ss_tab_name x) (RmScan_new rid0)) (\<lambda>sc.
     andthen (seq_scan_loop fuel (ss_tab_name x) (ss_rid x) sc) (\<lambda>(rid, sc').
     ret (x\<lparr>ss_rid := rid, ss_scan := Some sc'\<rparr>))))"

fun seq_next_loop :: "nat \<Rightarrow> string \<Rightarrow> Rid \<Rightarrow> (rb_error, SmManager, Rid) op" where
  "seq_next_loop fuel tab sc =
     (if RmScan_is_end sc then ret sc
      else case fuel of 0 \<Rightarrow> throw OutOfFuel | Suc k \<Rightarrow> andthen (on_table tab (RmScan_next sc)) (seq_next_loop k tab))"

declare seq_next_loop.simps [simp del]

definition SeqScan_nextTuple :: "nat \<Rightarrow> SeqScanExecutor \<Rightarrow> (rb_error, SmManager, SeqScanExecutor) op" where
  "SeqScan_nextTuple fuel x =
     andthen (lift_result (check_runtime_conds (ss_tab_name x) (ss_fed_conds x))) (\<lambda>_.
     case ss_scan x of None \<Rightarrow> throw NullDereference
     | Some sc \<Rightarrow>
         if RmScan_is_end sc then throw AssertionFailure
         else andthen (on_table (ss_tab_name x) (RmScan_next sc)) (\<lambda>sc1.
              andthen (seq_next_loop fuel (ss_tab_name x) sc1) (\<lambda>sc2. ret (x\<lparr>ss_scan := Some sc2\<rparr>))))"

text \<open>The bounds of an index scan come from the first usable condition on the indexed column, and only an equality narrows them.\<close>

fun index_range :: "nat \<Rightarrow> string \<Rightarrow> string \<Rightarrow> Condition list \<Rightarrow> Iid \<times> Iid \<Rightarrow> (rb_error, SmManager, Iid \<times> Iid) op" where
  "index_range fuel index_name col [] bds = ret bds"
| "index_range fuel index_name col (cond # conds) bds =
     (if is_rhs_val cond \<and> cond_op cond \<noteq> OP_NE \<and> tc_col (lhs_col cond) = col then
        (case val_raw (rhs_val cond) of None \<Rightarrow> throw NullDereference
         | Some rhs_key \<Rightarrow>
             if cond_op cond = OP_EQ then
               andthen (on_index index_name (IxIndex_lower_bound fuel rhs_key)) (\<lambda>lower.
               andthen (on_index index_name (IxIndex_upper_bound fuel rhs_key)) (\<lambda>upper. ret (lower, upper)))
             else ret bds)
      else index_range fuel index_name col conds bds)"

fun index_scan_loop :: "nat \<Rightarrow> string \<Rightarrow> IndexScanExecutor \<Rightarrow> IxScan \<Rightarrow> (rb_error, SmManager, IndexScanExecutor) op" where
  "index_scan_loop fuel index_name x sc =
     (if IxScan_is_end sc then ret (x\<lparr>is_scan := Some sc\<rparr>)
      else case fuel of 0 \<Rightarrow> throw OutOfFuel
        | Suc k \<Rightarrow>
            andthen (on_index index_name (IxScan_rid sc)) (\<lambda>rid.
            andthen (on_table (is_tab_name x) (get_record rid)) (\<lambda>rec.
            andthen (lift_result (eval_conds (is_cols x) (is_fed_conds x) rec)) (\<lambda>found.
            if found then ret (x\<lparr>is_rid := Some rid, is_scan := Some sc\<rparr>)
            else andthen (on_index index_name (IxScan_next sc)) (\<lambda>sc'. index_scan_loop k index_name (x\<lparr>is_rid := Some rid\<rparr>) sc')))))"

declare index_scan_loop.simps [simp del]

definition IndexScan_beginTuple :: "nat \<Rightarrow> IndexScanExecutor \<Rightarrow> (rb_error, SmManager, IndexScanExecutor) op" where
  "IndexScan_beginTuple fuel x =
     andthen (lift_result (check_runtime_conds (is_tab_name x) (is_fed_conds x))) (\<lambda>_.
     let index_name = get_index_name (is_tab_name x) (int (is_index_no x))
     in andthen (on_index index_name (read_st leaf_begin)) (\<lambda>lower.
        andthen (on_index index_name leaf_end) (\<lambda>upper.
        andthen (guard OutOfRange (\<lambda>_. is_index_no x < length (is_cols x))) (\<lambda>_.
        andthen (index_range fuel index_name (cm_name (is_cols x ! is_index_no x)) (is_fed_conds x) (lower, upper)) (\<lambda>(lo, hi).
        index_scan_loop fuel index_name x \<lparr>scan_iid = lo, scan_end = hi\<rparr>)))))"

definition IndexScan_nextTuple :: "IndexScanExecutor \<Rightarrow> (rb_error, SmManager, IndexScanExecutor) op" where
  "IndexScan_nextTuple x =
     andthen (lift_result (check_runtime_conds (is_tab_name x) (is_fed_conds x))) (\<lambda>_.
     andthen (lift_result (exec_is_end (IndexE x))) (\<lambda>e. if e then throw AssertionFailure else ret x))"

text \<open>\<open>junk\<close> is what a fresh record buffer holds.\<close>

fun exec_Next :: "mem \<Rightarrow> executor \<Rightarrow> (rb_error, SmManager, RmRecord) op" where
  "exec_Next junk (SeqE x) = throw Indeterminate"
| "exec_Next junk (IndexE x) =
     andthen (lift_result (exec_is_end (IndexE x))) (\<lambda>e. if e then throw AssertionFailure
       else case is_rid x of None \<Rightarrow> throw Indeterminate | Some rid \<Rightarrow> on_table (is_tab_name x) (get_record rid))"
| "exec_Next junk (JoinE l r len cols d) =
     andthen (lift_result (exec_is_end l)) (\<lambda>e. if e then throw AssertionFailure else ret (mread junk 0 len))"
| "exec_Next junk (ProjE p cols len idxs) =
     andthen (lift_result (exec_is_end p)) (\<lambda>e. if e then throw AssertionFailure
       else andthen (exec_Next junk p) (\<lambda>_. ret (mread junk 0 len)))"

text \<open>\<open>map::insert\<close> keeps the entries that are already there: the dictionary fed to the join wins over the left record.\<close>

definition feed_right :: "mem \<Rightarrow> executor \<Rightarrow> executor \<Rightarrow> feed_dict \<Rightarrow> (rb_error, SmManager, executor) op" where
  "feed_right junk l r prev_feed_dict =
     andthen (exec_Next junk l) (\<lambda>rec.
     lift_result (ebind (rec2dict (exec_cols l) rec Map.empty) (\<lambda>left_dict. exec_feed (left_dict ++ prev_feed_dict) r)))"

text \<open>
  In \<open>NestedLoopJoinExecutor::nextTuple\<close> the loop that runs while the right child is at its end has no body: it never ends, so that
  no bound is large enough.
\<close>

fun beginTuple :: "nat \<Rightarrow> mem \<Rightarrow> Rid \<Rightarrow> executor \<Rightarrow> (rb_error, SmManager, executor) op"
and join_settle :: "nat \<Rightarrow> mem \<Rightarrow> Rid \<Rightarrow> executor \<Rightarrow> executor \<Rightarrow> feed_dict \<Rightarrow> (rb_error, SmManager, executor \<times> executor) op"
and nextTuple :: "nat \<Rightarrow> mem \<Rightarrow> Rid \<Rightarrow> executor \<Rightarrow> (rb_error, SmManager, executor) op" where
  "beginTuple 0 junk rid0 e = throw OutOfFuel"
| "beginTuple (Suc k) junk rid0 (SeqE x) = andthen (SeqScan_beginTuple k rid0 x) (\<lambda>y. ret (SeqE y))"
| "beginTuple (Suc k) junk rid0 (IndexE x) = andthen (IndexScan_beginTuple k x) (\<lambda>y. ret (IndexE y))"
| "beginTuple (Suc k) junk rid0 (JoinE l r len cols d) =
     andthen (beginTuple k junk rid0 l) (\<lambda>l1.
     andthen (lift_result (exec_is_end l1)) (\<lambda>e.
     if e then ret (JoinE l1 r len cols d)
     else andthen (feed_right junk l1 r d) (\<lambda>r1.
          andthen (beginTuple k junk rid0 r1) (\<lambda>r2.
          andthen (join_settle k junk rid0 l1 r2 d) (\<lambda>(l3, r3). ret (JoinE l3 r3 len cols d))))))"
| "beginTuple (Suc k) junk rid0 (ProjE p cols len idxs) = andthen (beginTuple k junk rid0 p) (\<lambda>q. ret (ProjE q cols len idxs))"
| "join_settle 0 junk rid0 l r d = throw OutOfFuel"
| "join_settle (Suc k) junk rid0 l r d =
     andthen (lift_result (exec_is_end r)) (\<lambda>e.
     if \<not> e then ret (l, r)
     else andthen (nextTuple k junk rid0 l) (\<lambda>l1.
          andthen (lift_result (exec_is_end l1)) (\<lambda>e1.
          if e1 then ret (l1, r)
          else andthen (feed_right junk l1 r d) (\<lambda>r1.
               andthen (beginTuple k junk rid0 r1) (\<lambda>r2. join_settle k junk rid0 l1 r2 d)))))"
| "nextTuple 0 junk rid0 e = throw OutOfFuel"
| "nextTuple (Suc k) junk rid0 (SeqE x) = andthen (SeqScan_nextTuple k x) (\<lambda>y. ret (SeqE y))"
| "nextTuple (Suc k) junk rid0 (IndexE x) = andthen (IndexScan_nextTuple x) (\<lambda>y. ret (IndexE y))"
| "nextTuple (Suc k) junk rid0 (JoinE l r len cols d) =
     andthen (lift_result (exec_is_end l)) (\<lambda>e.
     if e then throw AssertionFailure
     else andthen (nextTuple k junk rid0 r) (\<lambda>r1.
          andthen (lift_result (exec_is_end r1)) (\<lambda>e1. if e1 then throw OutOfFuel else ret (JoinE l r1 len cols d))))"
| "nextTuple (Suc k) junk rid0 (ProjE p cols len idxs) =
     andthen (lift_result (exec_is_end p)) (\<lambda>e.
     if e then throw AssertionFailure else andthen (nextTuple k junk rid0 p) (\<lambda>q. ret (ProjE q cols len idxs)))"

section \<open>Insert, delete, update\<close>

record InsertExecutor =
  ie_tab :: TabMeta
  ie_values :: "Value list"
  ie_tab_name :: string

definition InsertExecutor_new :: "SmManager \<Rightarrow> string \<Rightarrow> Value list \<Rightarrow> rb_error + InsertExecutor" where
  "InsertExecutor_new sm tab_name values =
     ebind (get_table tab_name (sm_db sm)) (\<lambda>tab.
     if length values \<noteq> length (tm_cols tab) then Inl InvalidValueCountError
     else (case fhs sm tab_name of None \<Rightarrow> Inl OutOfRange | Some _ \<Rightarrow> Inr \<lparr>ie_tab = tab, ie_values = values, ie_tab_name = tab_name\<rparr>))"

definition InsertExecutor_Next :: "InsertExecutor \<Rightarrow> (rb_error, SmManager, unit) op" where
  "InsertExecutor_Next x = ret ()"

record DeleteExecutor =
  de_tab :: TabMeta
  de_conds :: "Condition list"
  de_rids :: "Rid list"
  de_tab_name :: string

definition DeleteExecutor_new :: "SmManager \<Rightarrow> string \<Rightarrow> Condition list \<Rightarrow> Rid list \<Rightarrow> rb_error + DeleteExecutor" where
  "DeleteExecutor_new sm tab_name conds rids =
     ebind (get_table tab_name (sm_db sm)) (\<lambda>tab.
     case fhs sm tab_name of None \<Rightarrow> Inl OutOfRange
     | Some _ \<Rightarrow> Inr \<lparr>de_tab = tab, de_conds = conds, de_rids = rids, de_tab_name = tab_name\<rparr>)"

text \<open>The copies of the records are dropped again, so reading each record is all that is left.\<close>

definition DeleteExecutor_Next :: "DeleteExecutor \<Rightarrow> (rb_error, SmManager, unit) op" where
  "DeleteExecutor_Next x = for_each (\<lambda>rid. andthen (on_table (de_tab_name x) (get_record rid)) (\<lambda>_. ret ())) (de_rids x)"

record UpdateExecutor =
  ue_tab :: TabMeta
  ue_conds :: "Condition list"
  ue_rids :: "Rid list"
  ue_tab_name :: string
  ue_set_clauses :: "SetClause list"

definition UpdateExecutor_new :: "SmManager \<Rightarrow> string \<Rightarrow> SetClause list \<Rightarrow> Condition list \<Rightarrow> Rid list \<Rightarrow> rb_error + UpdateExecutor" where
  "UpdateExecutor_new sm tab_name sets conds rids =
     ebind (get_table tab_name (sm_db sm)) (\<lambda>tab.
     case fhs sm tab_name of None \<Rightarrow> Inl OutOfRange
     | Some _ \<Rightarrow> Inr \<lparr>ue_tab = tab, ue_conds = conds, ue_rids = rids, ue_tab_name = tab_name, ue_set_clauses = sets\<rparr>)"

definition UpdateExecutor_Next :: "UpdateExecutor \<Rightarrow> (rb_error, SmManager, unit) op" where
  "UpdateExecutor_Next x =
     andthen (for_each (\<lambda>sc. andthen (lift_result (deref_col (ue_tab x) (TabMeta_get_col (tc_col (sc_lhs sc)) (ue_tab x)))) (\<lambda>_. ret ())) (ue_set_clauses x)) (\<lambda>_.
     for_each (\<lambda>rid. andthen (on_table (ue_tab_name x) (get_record rid)) (\<lambda>_. ret ())) (ue_rids x))"

section \<open>The layout of tuples\<close>

text \<open>\<open>contiguous off cols\<close>: the columns lie one behind the other from \<open>off\<close> on.\<close>

fun contiguous :: "int \<Rightarrow> ColMeta list \<Rightarrow> bool" where
  "contiguous off [] \<longleftrightarrow> True"
| "contiguous off (c # cs) \<longleftrightarrow> cm_offset c = off \<and> 0 \<le> cm_len c \<and> contiguous (off + cm_len c) cs"

definition tables_laid_out :: "DbMeta \<Rightarrow> bool" where
  "tables_laid_out db \<longleftrightarrow> list_all (\<lambda>(_, tab). contiguous 0 (tm_cols tab) \<and> sum_list (map cm_len (tm_cols tab)) < 2 ^ 31) (db_tabs db)"

inductive built :: "SmManager \<Rightarrow> executor \<Rightarrow> bool" for sm where
  scan: "SeqScanExecutor_new sm tab_name conds = Inr e \<Longrightarrow> built sm e"
| join: "built sm l \<Longrightarrow> built sm r \<Longrightarrow> tupleLen l + tupleLen r < 2 ^ 31 \<Longrightarrow> built sm (NestedLoopJoinExecutor_new l r)"
| proj: "built sm p \<Longrightarrow> ProjectionExecutor_new p sel_cols = Inr e \<Longrightarrow> tupleLen e < 2 ^ 31 \<Longrightarrow> built sm e"

lemma contiguous_append: "contiguous off (xs @ ys) \<longleftrightarrow> contiguous off xs \<and> contiguous (off + sum_list (map cm_len xs)) ys"
  by (induction xs arbitrary: off) (auto simp: algebra_simps)

lemma contiguous_nonneg: "contiguous off cols \<Longrightarrow> 0 \<le> sum_list (map cm_len cols)"
  by (induction cols arbitrary: off) (auto intro!: add_nonneg_nonneg)

lemma contiguous_last:
  assumes "contiguous off cols" and "cols \<noteq> []"
  shows "cm_offset (last cols) + cm_len (last cols) = off + sum_list (map cm_len cols)"
  using assms by (induction cols arbitrary: off) (auto simp: algebra_simps)

lemma contiguous_shift:
  assumes "contiguous off cols" and "0 \<le> off" and "0 \<le> d" and "off + d + sum_list (map cm_len cols) < 2 ^ 31"
  shows "contiguous (off + d) (map (\<lambda>col. col\<lparr>cm_offset := to_i32 (cm_offset col + d)\<rparr>) cols)"
  using assms
proof (induction cols arbitrary: off)
  case (Cons c cs)
  have "0 \<le> sum_list (map cm_len cs)" using Cons.prems(1) contiguous_nonneg by auto
  then have "is_i32 (off + d)" using Cons.prems by (auto simp: is_i32_def)
  then show ?case using Cons.IH [of "off + cm_len c"] Cons.prems by (simp add: algebra_simps)
qed simp

lemma contiguous_member: "contiguous off cols \<Longrightarrow> c \<in> set cols \<Longrightarrow> 0 \<le> cm_len c"
  by (induction cols arbitrary: off) auto

lemma find_col_bound: "find_col cols c = Inr i \<Longrightarrow> i < length cols"
  by (auto simp: find_col_def find_Some_iff split: option.splits)

lemma project_cols_layout:
  assumes "project_cols prev off sel = Inr (idxs, cols, len)" and "contiguous 0 prev" and "len < 2 ^ 31"
  shows "contiguous (int off) cols \<and> int len = int off + sum_list (map cm_len cols)"
  using assms
proof (induction sel arbitrary: off idxs cols)
  case (Cons c sel)
  obtain i where i: "find_col prev c = Inr i" using Cons.prems(1) by (cases "find_col prev c") auto
  obtain idxs' cols' where r: "project_cols prev (off + nat (cm_len (prev ! i))) sel = Inr (idxs', cols', len)"
    "cols = (prev ! i)\<lparr>cm_offset := to_i32 (int off)\<rparr> # cols'"
    using Cons.prems(1) i by (cases "project_cols prev (off + nat (cm_len (prev ! i))) sel") auto
  have pos: "0 \<le> cm_len (prev ! i)" using contiguous_member [OF Cons.prems(2)] find_col_bound [OF i] by simp
  have IH: "contiguous (int (off + nat (cm_len (prev ! i)))) cols'" "int len = int (off + nat (cm_len (prev ! i))) + sum_list (map cm_len cols')"
    using Cons.IH [OF r(1) Cons.prems(2,3)] by simp_all
  have "int off \<le> int len" using IH(2) pos contiguous_nonneg [OF IH(1)] by simp
  then have "is_i32 (int off)" using Cons.prems(3) by (simp add: is_i32_def)
  then show ?case using r(2) IH pos by simp
qed simp

lemma layout_cols_contiguous:
  assumes "list_all (\<lambda>d. 0 \<le> cd_len d) ds" and "0 \<le> off" and "off + sum_list (map cd_len ds) < 2 ^ 31"
  shows "contiguous off (fst (layout_cols t off ds))"
  using assms
proof (induction ds arbitrary: off)
  case (Cons d ds)
  have "0 \<le> sum_list (map cd_len ds)" using Cons.prems(1) by (intro sum_list_nonneg) (auto simp: list_all_iff)
  then have "is_i32 (off + cd_len d)" using Cons.prems by (auto simp: is_i32_def)
  then show ?case using Cons.IH [of "off + cd_len d"] Cons.prems by (simp add: case_prod_beta algebra_simps)
qed simp

text \<open>
  C34. Every tree of scans, joins and projections built over a catalogue whose tables are laid out as \<open>create_table\<close> lays them out has
  itself such a layout: its columns lie one behind the other from offset 0 on and together fill exactly \<open>tupleLen\<close> bytes, so that no two fields
  of a tuple overlap and none ends behind the tuple. Only trees whose tuples stay below 2 GiB are considered.
\<close>

theorem executor_tuples_laid_out:
  assumes "built sm e" and "tables_laid_out (sm_db sm)"
  shows "contiguous 0 (exec_cols e) \<and> int (tupleLen e) = sum_list (map cm_len (exec_cols e))"
  using assms(1)
proof (induction rule: built.induct)
  case (scan tab_name conds e)
  obtain tab len cs where e: "get_table tab_name (sm_db sm) = Inr tab" "tm_cols tab \<noteq> []" "exec_cols e = tm_cols tab"
    "tupleLen e = nat (cm_offset (last (tm_cols tab)) + cm_len (last (tm_cols tab)))"
    using scan by (auto simp: SeqScanExecutor_new_def ebind_def split: sum.splits option.splits if_splits)
  have "(tab_name, tab) \<in> set (db_tabs (sm_db sm))" using e(1) by (auto simp: get_table_def dest: map_of_SomeD split: option.splits)
  then have "contiguous 0 (tm_cols tab)" using assms(2) by (auto simp: tables_laid_out_def list_all_iff)
  then show ?case using e contiguous_last contiguous_nonneg by simp
next
  case (join l r)
  have "contiguous (0 + int (tupleLen l)) (map (\<lambda>col. col\<lparr>cm_offset := to_i32 (cm_offset col + int (tupleLen l))\<rparr>) (exec_cols r))"
    using join by (intro contiguous_shift) auto
  then show ?case using join by (simp add: NestedLoopJoinExecutor_new_def contiguous_append comp_def)
next
  case (proj p sel_cols e)
  then obtain idxs cols len where "project_cols (exec_cols p) 0 sel_cols = Inr (idxs, cols, len)" "e = ProjE p cols len idxs"
    by (auto simp: ProjectionExecutor_new_def ebind_def split: sum.splits)
  then show ?case using project_cols_layout [of "exec_cols p" 0] proj by simp
qed

definition sample_exec :: executor where
  "sample_exec = SeqE \<lparr>ss_tab_name = ''t'', ss_conds = [], ss_cols = tm_cols (snd (hd (db_tabs sample_db))), ss_len = 20, ss_fed_conds = [],
     ss_rid = None, ss_scan = None\<rparr>"

theorem executor_tuples_laid_out_witness:
  "contiguous 0 (exec_cols (NestedLoopJoinExecutor_new sample_exec sample_exec)) \<and>
    int (tupleLen (NestedLoopJoinExecutor_new sample_exec sample_exec)) = sum_list (map cm_len (exec_cols (NestedLoopJoinExecutor_new sample_exec sample_exec)))"
proof (rule executor_tuples_laid_out)
  let ?sm = "sample_sm\<lparr>fhs := [''t'' \<mapsto> sample_rm 2]\<rparr>"
  have "SeqScanExecutor_new ?sm ''t'' [] = Inr sample_exec"
    by (simp add: SeqScanExecutor_new_def sample_sm_def SmManager_new_def sample_db_def get_table_def sample_exec_def)
  then have "built ?sm sample_exec" by (rule scan)
  then show "built ?sm (NestedLoopJoinExecutor_new sample_exec sample_exec)" by (intro join) (simp_all add: sample_exec_def)
  show "tables_laid_out (sm_db ?sm)" by (simp add: tables_laid_out_def sample_sm_def sample_db_def)
qed

end
