(* ===== verification/Ql_Manager.thy ===== *)
theory Ql_Manager
  imports Executors
begin

text \<open>
  The statements of the query manager, \<open>QlManager\<close> in \<open>execution/execution_manager.cpp\<close>. In the source the statements do not build their
  executors yet: \<open>insert_into\<close> is empty, the scan of \<open>delete_from\<close> and the plan of \<open>select_from\<close> are null pointers, and
  \<open>update_set\<close> ends after its checks. The text of a floating-point number (\<open>std::to_string\<close>) is a parameter.
\<close>

type_synonym 'a ql_op = "(rb_error, SmManager \<times> Context, 'a) op"

definition insert_into :: "string \<Rightarrow> Value list \<Rightarrow> unit ql_op" where
  "insert_into tab_name values = ret ()"

text \<open>The loop over a scan; \<open>None\<close> is a null \<open>unique_ptr\<close>. The rids of the records are collected.\<close>

fun exec_rid :: "executor \<Rightarrow> Rid option" where
  "exec_rid (SeqE x) = ss_rid x"
| "exec_rid (IndexE x) = is_rid x"
| "exec_rid (JoinE l r len cols d) = None"
| "exec_rid (ProjE p cols len idxs) = None"

fun collect_rids :: "nat \<Rightarrow> mem \<Rightarrow> Rid \<Rightarrow> executor \<Rightarrow> (rb_error, SmManager, Rid list) op" where
  "collect_rids fuel junk rid0 e =
     andthen (lift_result (exec_is_end e)) (\<lambda>b.
     if b then ret []
     else case (fuel, exec_rid e) of
         (Suc k, Some rid) \<Rightarrow> andthen (nextTuple k junk rid0 e) (\<lambda>e'. andthen (collect_rids k junk rid0 e') (\<lambda>rids. ret (rid # rids)))
       | (Suc k, None) \<Rightarrow> throw Indeterminate
       | (0, _) \<Rightarrow> throw OutOfFuel)"

declare collect_rids.simps [simp del]

definition scan_rids :: "nat \<Rightarrow> mem \<Rightarrow> Rid \<Rightarrow> executor option \<Rightarrow> (rb_error, SmManager, Rid list) op" where
  "scan_rids fuel junk rid0 e = (case e of None \<Rightarrow> throw NullDereference
     | Some e0 \<Rightarrow> andthen (beginTuple fuel junk rid0 e0) (collect_rids fuel junk rid0))"

definition delete_from :: "nat \<Rightarrow> mem \<Rightarrow> Rid \<Rightarrow> string \<Rightarrow> Condition list \<Rightarrow> unit ql_op" where
  "delete_from fuel junk rid0 tab_name conds st =
     andthen (lift_result (check_where_clause (sm_db (fst st)) [tab_name] conds)) (\<lambda>_.
     let scanExecutor = None
     in andthen (on_sm (scan_rids fuel junk rid0 scanExecutor)) (\<lambda>rids. ret ())) st"

definition check_set_clause :: "TabMeta \<Rightarrow> SetClause \<Rightarrow> rb_error + SetClause" where
  "check_set_clause tab sc =
     ebind (deref_col tab (TabMeta_get_col (tc_col (sc_lhs sc)) tab)) (\<lambda>col.
     ebind (type_check (cm_type col) (val_type (sc_rhs sc)) ()) (\<lambda>_.
     ebind (init_raw (cm_len col) (sc_rhs sc)) (\<lambda>v. Inr (sc\<lparr>sc_rhs := v\<rparr>))))"

definition update_set :: "string \<Rightarrow> SetClause list \<Rightarrow> Condition list \<Rightarrow> unit ql_op" where
  "update_set tab_name set_clauses conds st =
     andthen (lift_result (get_table tab_name (sm_db (fst st)))) (\<lambda>tab.
     andthen (lift_result (check_where_clause (sm_db (fst st)) [tab_name] conds)) (\<lambda>_.
     andthen (lift_result (emap (check_set_clause tab) set_clauses)) (\<lambda>_. ret ()))) st"

definition select_columns :: "DbMeta \<Rightarrow> TabCol list \<Rightarrow> string list \<Rightarrow> rb_error + TabCol list" where
  "select_columns db sel_cols tab_names =
     ebind (get_all_cols db tab_names) (\<lambda>all_cols.
     if sel_cols = [] then Inr (map (\<lambda>col. \<lparr>tc_tab = cm_tab_name col, tc_col = cm_name col\<rparr>) all_cols)
     else emap (check_column db all_cols) sel_cols)"

text \<open>
  The plan: the conditions of each table and the index it may use; the executors of the tables are never created.
  \<open>back()\<close> of an empty vector has no value.
\<close>

definition plan_select :: "DbMeta \<Rightarrow> string list \<Rightarrow> Condition list \<Rightarrow> rb_error + executor option" where
  "plan_select db tab_names conds =
     (let (placed, rest) = place_conds tab_names [0..<length tab_names] conds
      in ebind (emap (\<lambda>(t, cs). get_indexNo db t cs) (zip tab_names placed)) (\<lambda>_.
         if rest \<noteq> [] then Inl AssertionFailure else if tab_names = [] then Inl Indeterminate else Inr None))"

definition column_text :: "(byte list \<Rightarrow> string) \<Rightarrow> RmRecord \<Rightarrow> ColMeta \<Rightarrow> string" where
  "column_text float_text rec col = (case cm_type col of
       TYPE_INT \<Rightarrow> to_string (bytes_i32 (field_bytes col rec))
     | TYPE_FLOAT \<Rightarrow> float_text (take 4 (field_bytes col rec))
     | TYPE_STRING \<Rightarrow> map (\<lambda>b. char_of (unat b)) (takeWhile (\<lambda>b. b \<noteq> 0) (take (nat (cm_len col)) (field_bytes col rec))))"

fun print_tuples :: "nat \<Rightarrow> (byte list \<Rightarrow> string) \<Rightarrow> mem \<Rightarrow> Rid \<Rightarrow> nat \<Rightarrow> nat \<Rightarrow> executor \<Rightarrow> nat ql_op" where
  "print_tuples fuel float_text junk rid0 n num_rec e =
     andthen (lift_result (exec_is_end e)) (\<lambda>b.
     if b then ret num_rec
     else case fuel of 0 \<Rightarrow> throw OutOfFuel
       | Suc k \<Rightarrow>
           andthen (on_sm (exec_Next junk e)) (\<lambda>rec.
           andthen (on_context (RecordPrinter_print_record n (map (column_text float_text rec) (exec_cols e)))) (\<lambda>_.
           andthen (on_sm (nextTuple k junk rid0 e)) (print_tuples k float_text junk rid0 n (num_rec + 1)))))"

declare print_tuples.simps [simp del]

definition print_result :: "nat \<Rightarrow> (byte list \<Rightarrow> string) \<Rightarrow> mem \<Rightarrow> Rid \<Rightarrow> TabCol list \<Rightarrow> executor option \<Rightarrow> unit ql_op" where
  "print_result fuel float_text junk rid0 sel_cols root =
     andthen (lift_result (RecordPrinter_new (length sel_cols))) (\<lambda>n.
     andthen (on_context (RecordPrinter_print_separator n)) (\<lambda>_.
     andthen (on_context (RecordPrinter_print_record n (map tc_col sel_cols))) (\<lambda>_.
     andthen (on_context (RecordPrinter_print_separator n)) (\<lambda>_.
     case root of None \<Rightarrow> throw NullDereference
     | Some e \<Rightarrow>
         andthen (on_sm (beginTuple fuel junk rid0 e)) (\<lambda>e1.
         andthen (print_tuples fuel float_text junk rid0 n 0 e1) (\<lambda>num_rec.
         andthen (on_context (RecordPrinter_print_separator n)) (\<lambda>_.
         on_context (RecordPrinter_print_record_count num_rec))))))))"

definition select_from :: "nat \<Rightarrow> (byte list \<Rightarrow> string) \<Rightarrow> mem \<Rightarrow> Rid \<Rightarrow> TabCol list \<Rightarrow> string list \<Rightarrow> Condition list \<Rightarrow> unit ql_op" where
  "select_from fuel float_text junk rid0 sel_cols tab_names conds st =
     andthen (lift_result (select_columns (sm_db (fst st)) sel_cols tab_names)) (\<lambda>sel.
     andthen (lift_result (check_where_clause (sm_db (fst st)) tab_names conds)) (\<lambda>cs.
     andthen (lift_result (plan_select (sm_db (fst st)) tab_names cs)) (\<lambda>root.
     print_result fuel float_text junk rid0 sel root))) st"

end
