(* ===== verification/Sql_Ast.thy ===== *)
theory Sql_Ast
  imports Sm_Meta
begin

text \<open>
  The parse tree of a statement, \<open>parser/ast.h\<close>, and its printer, \<open>parser/ast_printer.h\<close>. One datatype has every class of the
  source; \<open>BareNode\<close> is an object of one of the classes that only serve as bases. Which class may stand where (the static types of the
  pointers) is the predicate \<open>ast_ok\<close>. The text of a floating-point number is a parameter.
\<close>

datatype SvType = SV_TYPE_INT | SV_TYPE_FLOAT | SV_TYPE_STRING

datatype SvCompOp = SV_OP_EQ | SV_OP_NE | SV_OP_LT | SV_OP_GT | SV_OP_LE | SV_OP_GE

datatype base_class = BaseTreeNode | BaseField | BaseExpr | BaseValue

datatype TreeNode =
    Help
  | ShowTables
  | TxnBegin
  | TxnCommit
  | TxnAbort
  | TxnRollback
  | TypeLen SvType int
  | AstColDef string TreeNode
  | CreateTable string "TreeNode list"
  | DropTable string
  | DescTable string
  | CreateIndex string string
  | DropIndex string string
  | IntLit int
  | FloatLit "byte list"
  | StringLit string
  | Col string string
  | AstSetClause string TreeNode
  | BinaryExpr TreeNode SvCompOp TreeNode
  | InsertStmt string "TreeNode list"
  | DeleteStmt string "TreeNode list"
  | UpdateStmt string "TreeNode list" "TreeNode list"
  | SelectStmt "TreeNode list" "string list" "TreeNode list"
  | BareNode base_class

section \<open>Classes\<close>

fun is_Field :: "TreeNode \<Rightarrow> bool" where
  "is_Field (AstColDef _ _) \<longleftrightarrow> True"
| "is_Field (BareNode b) \<longleftrightarrow> b = BaseField"
| "is_Field _ \<longleftrightarrow> False"

fun is_Value :: "TreeNode \<Rightarrow> bool" where
  "is_Value (IntLit _) \<longleftrightarrow> True"
| "is_Value (FloatLit _) \<longleftrightarrow> True"
| "is_Value (StringLit _) \<longleftrightarrow> True"
| "is_Value (BareNode b) \<longleftrightarrow> b = BaseValue"
| "is_Value _ \<longleftrightarrow> False"

fun is_Col :: "TreeNode \<Rightarrow> bool" where
  "is_Col (Col _ _) \<longleftrightarrow> True"
| "is_Col _ \<longleftrightarrow> False"

fun is_Expr :: "TreeNode \<Rightarrow> bool" where
  "is_Expr (BareNode b) \<longleftrightarrow> b = BaseExpr \<or> b = BaseValue"
| "is_Expr n \<longleftrightarrow> is_Value n \<or> is_Col n"

fun is_TypeLen :: "TreeNode \<Rightarrow> bool" where
  "is_TypeLen (TypeLen _ _) \<longleftrightarrow> True"
| "is_TypeLen _ \<longleftrightarrow> False"

fun is_SetClause :: "TreeNode \<Rightarrow> bool" where
  "is_SetClause (AstSetClause _ _) \<longleftrightarrow> True"
| "is_SetClause _ \<longleftrightarrow> False"

fun is_BinaryExpr :: "TreeNode \<Rightarrow> bool" where
  "is_BinaryExpr (BinaryExpr _ _ _) \<longleftrightarrow> True"
| "is_BinaryExpr _ \<longleftrightarrow> False"

fun ast_ok :: "TreeNode \<Rightarrow> bool" where
  "ast_ok (AstColDef c t) \<longleftrightarrow> is_TypeLen t \<and> ast_ok t"
| "ast_ok (CreateTable t fs) \<longleftrightarrow> (\<forall>f \<in> set fs. is_Field f \<and> ast_ok f)"
| "ast_ok (AstSetClause c v) \<longleftrightarrow> is_Value v \<and> ast_ok v"
| "ast_ok (BinaryExpr l op r) \<longleftrightarrow> is_Col l \<and> ast_ok l \<and> is_Expr r \<and> ast_ok r"
| "ast_ok (InsertStmt t vs) \<longleftrightarrow> (\<forall>v \<in> set vs. is_Value v \<and> ast_ok v)"
| "ast_ok (DeleteStmt t cs) \<longleftrightarrow> (\<forall>c \<in> set cs. is_BinaryExpr c \<and> ast_ok c)"
| "ast_ok (UpdateStmt t ss cs) \<longleftrightarrow> (\<forall>s \<in> set ss. is_SetClause s \<and> ast_ok s) \<and> (\<forall>c \<in> set cs. is_BinaryExpr c \<and> ast_ok c)"
| "ast_ok (SelectStmt cols ts cs) \<longleftrightarrow> (\<forall>c \<in> set cols. is_Col c \<and> ast_ok c) \<and> (\<forall>c \<in> set cs. is_BinaryExpr c \<and> ast_ok c)"
| "ast_ok (BareNode b) \<longleftrightarrow> False"
| "ast_ok _ \<longleftrightarrow> True"

section \<open>TreePrinter\<close>

fun type2str :: "SvType \<Rightarrow> string" where
  "type2str SV_TYPE_INT = ''INT''"
| "type2str SV_TYPE_FLOAT = ''FLOAT''"
| "type2str SV_TYPE_STRING = ''STRING''"

fun op2str :: "SvCompOp \<Rightarrow> string" where
  "op2str SV_OP_EQ = ''==''"
| "op2str SV_OP_NE = ''!=''"
| "op2str SV_OP_LT = ''<''"
| "op2str SV_OP_GT = ''>''"
| "op2str SV_OP_LE = ''<=''"
| "op2str SV_OP_GE = ''>=''"

definition offset2string :: "nat \<Rightarrow> string" where
  "offset2string offset = replicate offset CHR '' ''"

definition print_val :: "string \<Rightarrow> nat \<Rightarrow> string" where
  "print_val val offset = offset2string offset @ val @ newline"

definition print_val_list :: "string list \<Rightarrow> nat \<Rightarrow> string" where
  "print_val_list vals offset = offset2string offset @ ''LIST'' @ newline @ concat (map (\<lambda>v. print_val v (offset + 2)) vals)"

definition after :: "string \<Rightarrow> rb_error + string \<Rightarrow> rb_error + string" where
  "after s r = (case r of Inl e \<Rightarrow> Inl e | Inr t \<Rightarrow> Inr (s @ t))"

definition both :: "rb_error + string \<Rightarrow> rb_error + string \<Rightarrow> rb_error + string" where
  "both r1 r2 = (case r1 of Inl e \<Rightarrow> Inl e | Inr s \<Rightarrow> after s r2)"

text \<open>The text printed; a tree with a node of no printable class ends in a failed assertion.\<close>

fun print_node :: "(byte list \<Rightarrow> string) \<Rightarrow> TreeNode \<Rightarrow> nat \<Rightarrow> rb_error + string"
and print_nodes :: "(byte list \<Rightarrow> string) \<Rightarrow> TreeNode list \<Rightarrow> nat \<Rightarrow> rb_error + string"
and print_node_list :: "(byte list \<Rightarrow> string) \<Rightarrow> TreeNode list \<Rightarrow> nat \<Rightarrow> rb_error + string" where
  "print_node ft Help n = Inr (offset2string n @ ''HELP'' @ newline)"
| "print_node ft ShowTables n = Inr (offset2string n @ ''SHOW_TABLES'' @ newline)"
| "print_node ft (CreateTable t fs) n =
     after (offset2string n @ ''CREATE_TABLE'' @ newline @ print_val t (n + 2)) (print_node_list ft fs (n + 2))"
| "print_node ft (DropTable t) n = Inr (offset2string n @ ''DROP_TABLE'' @ newline @ print_val t (n + 2))"
| "print_node ft (DescTable t) n = Inr (offset2string n @ ''DESC_TABLE'' @ newline @ print_val t (n + 2))"
| "print_node ft (CreateIndex t c) n = Inr (offset2string n @ ''CREATE_INDEX'' @ newline @ print_val t (n + 2) @ print_val c (n + 2))"
| "print_node ft (DropIndex t c) n = Inr (offset2string n @ ''DROP_INDEX'' @ newline @ print_val t (n + 2) @ print_val c (n + 2))"
| "print_node ft (AstColDef c ty) n = after (offset2string n @ ''COL_DEF'' @ newline @ print_val c (n + 2)) (print_node ft ty (n + 2))"
| "print_node ft (Col t c) n = Inr (offset2string n @ ''COL'' @ newline @ print_val t (n + 2) @ print_val c (n + 2))"
| "print_node ft (TypeLen ty len) n =
     Inr (offset2string n @ ''TYPE_LEN'' @ newline @ print_val (type2str ty) (n + 2) @ print_val (to_string len) (n + 2))"
| "print_node ft (IntLit v) n = Inr (offset2string n @ ''INT_LIT'' @ newline @ print_val (to_string v) (n + 2))"
| "print_node ft (FloatLit v) n = Inr (offset2string n @ ''FLOAT_LIT'' @ newline @ print_val (ft v) (n + 2))"
| "print_node ft (StringLit v) n = Inr (offset2string n @ ''STRING_LIT'' @ newline @ print_val v (n + 2))"
| "print_node ft (AstSetClause c v) n = after (offset2string n @ ''SET_CLAUSE'' @ newline @ print_val c (n + 2)) (print_node ft v (n + 2))"
| "print_node ft (BinaryExpr l p r) n =
     after (offset2string n @ ''BINARY_EXPR'' @ newline)
       (both (print_node ft l (n + 2)) (after (print_val (op2str p) (n + 2)) (print_node ft r (n + 2))))"
| "print_node ft (InsertStmt t vs) n = after (offset2string n @ ''INSERT'' @ newline @ print_val t (n + 2)) (print_node_list ft vs (n + 2))"
| "print_node ft (DeleteStmt t cs) n = after (offset2string n @ ''DELETE'' @ newline @ print_val t (n + 2)) (print_node_list ft cs (n + 2))"
| "print_node ft (UpdateStmt t ss cs) n =
     after (offset2string n @ ''UPDATE'' @ newline @ print_val t (n + 2)) (both (print_node_list ft ss (n + 2)) (print_node_list ft cs (n + 2)))"
| "print_node ft (SelectStmt cols ts cs) n =
     after (offset2string n @ ''SELECT'' @ newline)
       (both (print_node_list ft cols (n + 2)) (after (print_val_list ts (n + 2)) (print_node_list ft cs (n + 2))))"
| "print_node ft TxnBegin n = Inr (offset2string n @ ''BEGIN'' @ newline)"
| "print_node ft TxnCommit n = Inr (offset2string n @ ''COMMIT'' @ newline)"
| "print_node ft TxnAbort n = Inr (offset2string n @ ''ABORT'' @ newline)"
| "print_node ft TxnRollback n = Inr (offset2string n @ ''ROLLBACK'' @ newline)"
| "print_node ft (BareNode b) n = Inl AssertionFailure"
| "print_nodes ft [] n = Inr []"
| "print_nodes ft (x # xs) n = both (print_node ft x n) (print_nodes ft xs n)"
| "print_node_list ft xs n = after (offset2string n @ ''LIST'' @ newline) (print_nodes ft xs (n + 2))"

definition TreePrinter_print :: "(byte list \<Rightarrow> string) \<Rightarrow> TreeNode \<Rightarrow> rb_error + string" where
  "TreePrinter_print ft node = print_node ft node 0"

lemma after_Inr [simp]: "(\<exists>u. after s r = Inr u) \<longleftrightarrow> (\<exists>u. r = Inr u)"
  by (cases r) (simp_all add: after_def)

lemma both_Inr [simp]: "(\<exists>u. both r1 r2 = Inr u) \<longleftrightarrow> (\<exists>u. r1 = Inr u) \<and> (\<exists>u. r2 = Inr u)"
  by (cases r1) (simp_all add: both_def)

text \<open>A well-typed parse tree is printed; the final assertion of the printer does not fail.\<close>

lemma print_node_total: "ast_ok node \<Longrightarrow> \<exists>s. print_node ft node n = Inr s"
  and print_nodes_total: "(\<forall>x \<in> set nodes. ast_ok x) \<Longrightarrow> \<exists>s. print_nodes ft nodes n = Inr s"
  and print_node_list_total: "(\<forall>x \<in> set nodes. ast_ok x) \<Longrightarrow> \<exists>s. print_node_list ft nodes n = Inr s"
  by (induction ft node n and ft nodes n and ft nodes n rule: print_node_print_nodes_print_node_list.induct) auto

end
