(* ===== verification/Interp.thy ===== *)
theory Interp
  imports Ql_Manager Sql_Ast
begin

text \<open>
  The interpreter of statements, \<open>interp.h\<close>: from parse trees to columns, values and conditions, the transaction of a
  statement, and the dispatch to the catalogue and query managers. The state has the catalogue manager, the transaction manager, the context of
  the statement and the client's transaction id; the thread that runs the statement is a parameter, and so are those of
  the query manager.
\<close>

section \<open>From the parse tree\<close>

fun interp_sv_type :: "SvType \<Rightarrow> ColType" where
  "interp_sv_type SV_TYPE_INT = TYPE_INT"
| "interp_sv_type SV_TYPE_FLOAT = TYPE_FLOAT"
| "interp_sv_type SV_TYPE_STRING = TYPE_STRING"

fun interp_sv_comp_op :: "SvCompOp \<Rightarrow> CompOp" where
  "interp_sv_comp_op SV_OP_EQ = OP_EQ"
| "interp_sv_comp_op SV_OP_NE = OP_NE"
| "interp_sv_comp_op SV_OP_LT = OP_LT"
| "interp_sv_comp_op SV_OP_GT = OP_GT"
| "interp_sv_comp_op SV_OP_LE = OP_LE"
| "interp_sv_comp_op SV_OP_GE = OP_GE"

fun interp_sv_value :: "TreeNode \<Rightarrow> rb_error + Value" where
  "interp_sv_value (IntLit v) = Inr (set_int v Value_default)"
| "interp_sv_value (FloatLit v) = Inr (set_float v Value_default)"
| "interp_sv_value (StringLit v) = Inr (set_str v Value_default)"
| "interp_sv_value _ = Inl (InternalError ''Unexpected sv value type'')"

text \<open>A right-hand side that is neither a value nor a column leaves \<open>is_rhs_val\<close> unset.\<close>

fun interp_condition :: "TreeNode \<Rightarrow> rb_error + Condition" where
  "interp_condition (BinaryExpr (Col lt lc) p r) =
     (let cond = \<lparr>lhs_col = \<lparr>tc_tab = lt, tc_col = lc\<rparr>, cond_op = interp_sv_comp_op p, is_rhs_val = False, rhs_col = \<lparr>tc_tab = [], tc_col = []\<rparr>,
            rhs_val = Value_default\<rparr>
      in if is_Value r then ebind (interp_sv_value r) (\<lambda>v. Inr (cond\<lparr>is_rhs_val := True, rhs_val := v\<rparr>))
         else case r of Col rt rc \<Rightarrow> Inr (cond\<lparr>is_rhs_val := False, rhs_col := \<lparr>tc_tab = rt, tc_col = rc\<rparr>\<rparr>)
           | _ \<Rightarrow> Inl Indeterminate)"
| "interp_condition _ = Inl NullDereference"

definition interp_where_clause :: "TreeNode list \<Rightarrow> rb_error + Condition list" where
  "interp_where_clause sv_conds = emap interp_condition sv_conds"

fun interp_field :: "TreeNode \<Rightarrow> rb_error + ColDef" where
  "interp_field (AstColDef c (TypeLen ty len)) = Inr \<lparr>cd_name = c, cd_type = interp_sv_type ty, cd_len = len\<rparr>"
| "interp_field (AstColDef c _) = Inl NullDereference"
| "interp_field _ = Inl (InternalError ''Unexpected field type'')"

fun interp_set_clause :: "TreeNode \<Rightarrow> rb_error + SetClause" where
  "interp_set_clause (AstSetClause c v) = ebind (interp_sv_value v) (\<lambda>val. Inr \<lparr>sc_lhs = \<lparr>tc_tab = [], tc_col = c\<rparr>, sc_rhs = val\<rparr>)"
| "interp_set_clause _ = Inl NullDereference"

fun interp_sel_col :: "TreeNode \<Rightarrow> rb_error + TabCol" where
  "interp_sel_col (Col t c) = Inr \<lparr>tc_tab = t, tc_col = c\<rparr>"
| "interp_sel_col _ = Inl NullDereference"

section \<open>Transactions of statements\<close>

record interp_state =
  in_sm :: SmManager
  in_txn :: TransactionManager
  in_ctx :: Context
  in_txn_id :: int

type_synonym 'a in_op = "(rb_error, interp_state, 'a) op"

definition on_ql :: "'a ql_op \<Rightarrow> 'a in_op" where
  "on_ql f s = (let (r, (sm, c)) = f (in_sm s, in_ctx s) in (r, s\<lparr>in_sm := sm, in_ctx := c\<rparr>))"

definition update_txn :: "nat option \<Rightarrow> (Transaction \<Rightarrow> Transaction) \<Rightarrow> unit in_op" where
  "update_txn p f s = (case p of None \<Rightarrow> (Inl NullDereference, s)
     | Some a \<Rightarrow> (case txn_heap (in_txn s) a of None \<Rightarrow> (Inl NullDereference, s)
         | Some t \<Rightarrow> (Inr (), s\<lparr>in_txn := (in_txn s)\<lparr>txn_heap := (txn_heap (in_txn s))(a \<mapsto> f t)\<rparr>\<rparr>)))"

definition begin_txn :: "bool \<Rightarrow> unit in_op" where
  "begin_txn mode =
     andthen (\<lambda>s. let (p, tm) = Begin None (in_txn s) in (Inr p, s\<lparr>in_txn := tm, in_ctx := (in_ctx s)\<lparr>ctx_txn := p\<rparr>\<rparr>)) (\<lambda>p.
     andthen (\<lambda>s. (deref_txn p (in_txn s), s)) (\<lambda>t.
     andthen (modify_st (\<lambda>s. s\<lparr>in_txn_id := txn_id t\<rparr>)) (\<lambda>_.
     update_txn p (SetTxnMode mode))))"

definition fetch_txn :: "nat \<Rightarrow> unit in_op" where
  "fetch_txn this_thread s = (case GetTransaction this_thread (in_txn_id s) (in_txn s) of
       Inl e \<Rightarrow> (Inl e, s)
     | Inr p \<Rightarrow> (Inr (), s\<lparr>in_ctx := (in_ctx s)\<lparr>ctx_txn := p\<rparr>\<rparr>))"

definition SetTransaction :: "nat \<Rightarrow> unit in_op" where
  "SetTransaction this_thread =
     andthen (fetch_txn this_thread) (\<lambda>_ s.
     case ctx_txn (in_ctx s) of None \<Rightarrow> begin_txn False s
     | Some a \<Rightarrow> andthen (lift_result (deref_txn (Some a) (in_txn s))) (\<lambda>t.
         if txn_state t = COMMITTED \<or> txn_state t = ABORTED then begin_txn False else ret ()) s)"

text \<open>After a statement: commit when the transaction is not an explicit one.\<close>

definition auto_commit :: "unit in_op" where
  "auto_commit s =
     andthen (lift_result (deref_txn (ctx_txn (in_ctx s)) (in_txn s))) (\<lambda>t.
     case txn_mode t of None \<Rightarrow> throw Indeterminate
     | Some m \<Rightarrow> if \<not> m then modify_st (\<lambda>s. s\<lparr>in_txn := Commit (ctx_txn (in_ctx s)) (in_txn s)\<rparr>) else ret ()) s"

definition in_transaction :: "nat \<Rightarrow> unit ql_op \<Rightarrow> unit in_op" where
  "in_transaction this_thread f = andthen (SetTransaction this_thread) (\<lambda>_. andthen (on_ql f) (\<lambda>_. auto_commit))"

section \<open>Statements\<close>

definition help_info :: string where
  "help_info =
     ''Supported SQL syntax:'' @ newline @
     ''  command ;'' @ newline @
     ''command:'' @ newline @
     ''  CREATE TABLE table_name (column_name type [, column_name type ...])'' @ newline @
     ''  DROP TABLE table_name'' @ newline @
     ''  CREATE INDEX table_name (column_name)'' @ newline @
     ''  DROP INDEX table_name (column_name)'' @ newline @
     ''  INSERT INTO table_name VALUES (value [, value ...])'' @ newline @
     ''  DELETE FROM table_name [WHERE where_clause]'' @ newline @
     ''  UPDATE table_name SET column_name = value [, column_name = value ...] [WHERE where_clause]'' @ newline @
     ''  SELECT selector FROM table_name [WHERE where_clause]'' @ newline @
     ''type:'' @ newline @
     ''  {INT | FLOAT | CHAR(n)}'' @ newline @
     ''where_clause:'' @ newline @
     ''  condition [AND condition ...]'' @ newline @
     ''condition:'' @ newline @
     ''  column op {column | value}'' @ newline @
     ''column:'' @ newline @
     ''  [table_name.]column_name'' @ newline @
     ''op:'' @ newline @
     ''  {= | <> | < | > | <= | >=}'' @ newline @
     ''selector:'' @ newline @
     ''  {* | column [, column ...]}'' @ newline"

text \<open>\<open>help\<close> copies its page behind what is in the buffer but sets the offset to the length of the page.\<close>

definition send_help :: "unit in_op" where
  "send_help =
     andthen (on_ql (on_context (send_text help_info))) (\<lambda>_.
     modify_st (\<lambda>s. s\<lparr>in_ctx := (in_ctx s)\<lparr>ctx_offset := int (length help_info)\<rparr>\<rparr>))"

record interp_params =
  ip_thread :: nat
  ip_fuel :: nat
  ip_float :: "byte list \<Rightarrow> string"
  ip_junk :: mem
  ip_rid0 :: Rid

fun interp_sql :: "interp_params \<Rightarrow> TreeNode \<Rightarrow> unit in_op" where
  "interp_sql ps Help = send_help"
| "interp_sql ps ShowTables = in_transaction (ip_thread ps) show_tables"
| "interp_sql ps (DescTable t) = in_transaction (ip_thread ps) (desc_table t)"
| "interp_sql ps (CreateTable t fs) =
     andthen (lift_result (emap interp_field fs)) (\<lambda>col_defs. in_transaction (ip_thread ps) (on_sm (create_table t col_defs)))"
| "interp_sql ps (DropTable t) = in_transaction (ip_thread ps) (on_sm (drop_table t))"
| "interp_sql ps (CreateIndex t c) = in_transaction (ip_thread ps) (on_sm (SmManager_create_index (ip_fuel ps) (ip_junk ps) (ip_rid0 ps) t c))"
| "interp_sql ps (DropIndex t c) = in_transaction (ip_thread ps) (on_sm (SmManager_drop_index t c))"
| "interp_sql ps (InsertStmt t vals) =
     andthen (lift_result (emap interp_sv_value vals)) (\<lambda>values. in_transaction (ip_thread ps) (insert_into t values))"
| "interp_sql ps (DeleteStmt t conds) =
     andthen (lift_result (interp_where_clause conds)) (\<lambda>cs. in_transaction (ip_thread ps) (delete_from (ip_fuel ps) (ip_junk ps) (ip_rid0 ps) t cs))"
| "interp_sql ps (UpdateStmt t sets conds) =
     andthen (lift_result (interp_where_clause conds)) (\<lambda>cs.
     andthen (lift_result (emap interp_set_clause sets)) (\<lambda>ss. in_transaction (ip_thread ps) (update_set t ss cs)))"
| "interp_sql ps (SelectStmt cols tabs conds) =
     andthen (lift_result (interp_where_clause conds)) (\<lambda>cs.
     andthen (lift_result (emap interp_sel_col cols)) (\<lambda>sel.
     in_transaction (ip_thread ps) (select_from (ip_fuel ps) (ip_float ps) (ip_junk ps) (ip_rid0 ps) sel tabs cs)))"
| "interp_sql ps TxnBegin = begin_txn True"
| "interp_sql ps TxnAbort =
     andthen (fetch_txn (ip_thread ps)) (\<lambda>_. modify_st (\<lambda>s. s\<lparr>in_txn := Abort (ctx_txn (in_ctx s)) (in_txn s)\<rparr>))"
| "interp_sql ps TxnCommit =
     andthen (fetch_txn (ip_thread ps)) (\<lambda>_. modify_st (\<lambda>s. s\<lparr>in_txn := Commit (ctx_txn (in_ctx s)) (in_txn s)\<rparr>))"
| "interp_sql ps TxnRollback =
     andthen (fetch_txn (ip_thread ps)) (\<lambda>_. modify_st (\<lambda>s. s\<lparr>in_txn := Abort (ctx_txn (in_ctx s)) (in_txn s)\<rparr>))"
| "interp_sql ps _ = throw (InternalError ''Unexpected AST root'')"

section \<open>Statements outside a transaction\<close>

fun runs_in_transaction :: "TreeNode \<Rightarrow> bool" where
  "runs_in_transaction ShowTables \<longleftrightarrow> True"
| "runs_in_transaction (DescTable _) \<longleftrightarrow> True"
| "runs_in_transaction (CreateTable _ _) \<longleftrightarrow> True"
| "runs_in_transaction (DropTable _) \<longleftrightarrow> True"
| "runs_in_transaction (CreateIndex _ _) \<longleftrightarrow> True"
| "runs_in_transaction (DropIndex _ _) \<longleftrightarrow> True"
| "runs_in_transaction (InsertStmt _ _) \<longleftrightarrow> True"
| "runs_in_transaction (DeleteStmt _ _) \<longleftrightarrow> True"
| "runs_in_transaction (UpdateStmt _ _ _) \<longleftrightarrow> True"
| "runs_in_transaction (SelectStmt _ _ _) \<longleftrightarrow> True"
| "runs_in_transaction TxnBegin \<longleftrightarrow> True"
| "runs_in_transaction _ \<longleftrightarrow> False"

lemma emap_total: "(\<And>x. x \<in> set xs \<Longrightarrow> \<exists>y. f x = Inr y) \<Longrightarrow> \<exists>ys. emap f xs = Inr ys"
proof (induction xs)
  case (Cons x xs)
  then obtain y ys where "f x = Inr y" "emap f xs = Inr ys" by (metis list.set_intros(1,2))
  then show ?case by simp
qed simp

lemma interp_value_total: "is_Value n \<Longrightarrow> ast_ok n \<Longrightarrow> \<exists>v. interp_sv_value n = Inr v"
  by (cases n) simp_all

lemma interp_where_total:
  assumes "\<forall>c \<in> set cs. is_BinaryExpr c \<and> ast_ok c"
  shows "\<exists>conds. interp_where_clause cs = Inr conds"
  unfolding interp_where_clause_def
proof (rule emap_total)
  fix c assume "c \<in> set cs"
  then have b: "is_BinaryExpr c" "ast_ok c" using assms by simp_all
  then obtain l p r where c0: "c = BinaryExpr l p r" "is_Col l" "is_Expr r" "ast_ok r" by (cases c) simp_all
  then obtain lt lc where c: "c = BinaryExpr (Col lt lc) p r" "is_Expr r" "ast_ok r" by (cases l) simp_all
  show "\<exists>y. interp_condition c = Inr y"
  proof (cases "is_Value r")
    case True
    then show ?thesis using c interp_value_total [OF True c(3)] by (auto simp: Let_def)
  next
    case False
    then show ?thesis using c by (cases r) (auto simp: Let_def)
  qed
qed

lemma interp_lists_total:
  "(\<forall>f \<in> set fs. is_Field f \<and> ast_ok f) \<Longrightarrow> \<exists>ds. emap interp_field fs = Inr ds"
  "(\<forall>v \<in> set vs. is_Value v \<and> ast_ok v) \<Longrightarrow> \<exists>xs. emap interp_sv_value vs = Inr xs"
  "(\<forall>s \<in> set ss. is_SetClause s \<and> ast_ok s) \<Longrightarrow> \<exists>xs. emap interp_set_clause ss = Inr xs"
  "(\<forall>c \<in> set cs. is_Col c \<and> ast_ok c) \<Longrightarrow> \<exists>xs. emap interp_sel_col cs = Inr xs"
proof -
  have field: "\<exists>y. interp_field f = Inr y" if f: "is_Field f" "ast_ok f" for f
  proof -
    obtain c t where f': "f = AstColDef c t" "is_TypeLen t" using f by (cases f) simp_all
    then show ?thesis by (cases t) simp_all
  qed
  have clause: "\<exists>y. interp_set_clause s = Inr y" if s: "is_SetClause s" "ast_ok s" for s
  proof -
    obtain c v where s': "s = AstSetClause c v" "is_Value v" "ast_ok v" using s by (cases s) simp_all
    then show ?thesis using interp_value_total [OF s'(2,3)] by auto
  qed
  have col: "\<exists>y. interp_sel_col c = Inr y" if "is_Col c" for c using that by (cases c) simp_all
  show "(\<forall>f \<in> set fs. is_Field f \<and> ast_ok f) \<Longrightarrow> \<exists>ds. emap interp_field fs = Inr ds" by (rule emap_total) (simp add: field)
  show "(\<forall>v \<in> set vs. is_Value v \<and> ast_ok v) \<Longrightarrow> \<exists>xs. emap interp_sv_value vs = Inr xs" by (rule emap_total) (simp add: interp_value_total)
  show "(\<forall>s \<in> set ss. is_SetClause s \<and> ast_ok s) \<Longrightarrow> \<exists>xs. emap interp_set_clause ss = Inr xs" by (rule emap_total) (simp add: clause)
  show "(\<forall>c \<in> set cs. is_Col c \<and> ast_ok c) \<Longrightarrow> \<exists>xs. emap interp_sel_col cs = Inr xs" by (rule emap_total) (simp add: col)
qed

lemma begin_txn_null: "begin_txn m s = (Inl NullDereference, s\<lparr>in_ctx := (in_ctx s)\<lparr>ctx_txn := None\<rparr>\<rparr>)"
  by (simp add: begin_txn_def andthen_def Begin_def deref_txn_def)

lemma in_transaction_null:
  assumes "in_txn_id s = INVALID_TXN_ID"
  shows "in_transaction th f s = (Inl NullDereference, s\<lparr>in_ctx := (in_ctx s)\<lparr>ctx_txn := None\<rparr>\<rparr>)"
  using assms by (simp add: in_transaction_def SetTransaction_def andthen_def fetch_txn_def GetTransaction_def begin_txn_null)

lemma run_lift: "andthen (lift_result (Inr x)) f s = f x s"
  by (simp add: andthen_def lift_result_def)

text \<open>
  Because \<open>TransactionManager::Begin\<close> returns the null pointer it was given, every statement that runs in a transaction dereferences
  that pointer when the client has none open: for every well-typed parse tree of such a statement the interpreter stops there, before the catalogue
  or the query manager is reached.
\<close>

lemma interp_without_transaction:
  assumes "ast_ok node" and "runs_in_transaction node" and "in_txn_id s = INVALID_TXN_ID"
  shows "interp_sql ps node s = (Inl NullDereference, s\<lparr>in_ctx := (in_ctx s)\<lparr>ctx_txn := None\<rparr>\<rparr>)"
proof -
  note null = in_transaction_null [OF assms(3)] begin_txn_null run_lift
  show ?thesis
  proof (cases node)
    case (CreateTable t fs)
    then show ?thesis using interp_lists_total(1) [of fs] assms(1) by (auto simp: null)
  next
    case (InsertStmt t vs)
    then show ?thesis using interp_lists_total(2) [of vs] assms(1) by (auto simp: null)
  next
    case (DeleteStmt t cs)
    then show ?thesis using interp_where_total [of cs] assms(1) by (auto simp: null)
  next
    case (UpdateStmt t ss cs)
    then show ?thesis using interp_where_total [of cs] interp_lists_total(3) [of ss] assms(1) by (auto simp: null)
  next
    case (SelectStmt cols ts cs)
    then show ?thesis using interp_where_total [of cs] interp_lists_total(4) [of cols] assms(1) by (auto simp: null)
  qed (use assms(2) in \<open>simp_all add: null\<close>)
qed

definition sample_params :: interp_params where
  "sample_params = \<lparr>ip_thread = 0, ip_fuel = 10, ip_float = (\<lambda>_. []), ip_junk = zero_mem, ip_rid0 = \<lparr>rid_page = -1, rid_slot = -1\<rparr>\<rparr>"

definition sample_in :: interp_state where
  "sample_in = \<lparr>in_sm = sample_sm, in_txn = TransactionManager_new TWO_PHASE_LOCKING, in_ctx = Context_new None (Some zero_mem) 0, in_txn_id = INVALID_TXN_ID\<rparr>"

end
