(* ===== verification/Table_Lookup.thy ===== *)
theory Table_Lookup
  imports Main
begin

text \<open>
  Fast evaluation of constant tables. The generated scanner and parser index arrays of up to a few hundred numbers; a list is the right model of such an
  array, but walking down a list for every access makes checks over all entries slow. A table is stored once more as a binary tree that is indexed
  by the binary digits of the position; the code equations of a table use the tree.
\<close>

datatype 'a tab = Tip | Bin 'a "'a tab" "'a tab"

fun evens :: "'a list \<Rightarrow> 'a list" and odds :: "'a list \<Rightarrow> 'a list" where
  "evens [] = []"
| "evens (x # xs) = x # odds xs"
| "odds [] = []"
| "odds (x # xs) = evens xs"

lemma length_evens_odds [simp]: "length (evens xs) = (length xs + 1) div 2" "length (odds xs) = length xs div 2"
  by (induction xs) auto

lemma nth_evens_odds: "2 * i < length xs \<Longrightarrow> evens xs ! i = xs ! (2 * i)" "2 * i + 1 < length xs \<Longrightarrow> odds xs ! i = xs ! (2 * i + 1)"
  by (induction xs arbitrary: i) (auto simp: nth_Cons split: nat.splits)

fun tab_of :: "'a list \<Rightarrow> 'a tab" where
  "tab_of [] = Tip"
| "tab_of (x # xs) = Bin x (tab_of (evens xs)) (tab_of (odds xs))"

fun look :: "'a tab \<Rightarrow> num \<Rightarrow> 'a" where
  "look (Bin x l r) num.One = x"
| "look (Bin x l r) (num.Bit0 n) = look l n"
| "look (Bin x l r) (num.Bit1 n) = look r n"
| "look Tip n = undefined"

lemma look_tab_of: "nat_of_num n \<le> length xs \<Longrightarrow> look (tab_of xs) n = xs ! (nat_of_num n - 1)"
proof (induction xs arbitrary: n rule: tab_of.induct)
  case (1 n)
  then show ?case using nat_of_num_pos [of n] by simp
next
  case (2 x xs n)
  show ?case
  proof (cases n)
    case (Bit0 m)
    have m: "0 < nat_of_num m" by (rule nat_of_num_pos)
    have "nat_of_num m \<le> length (evens xs)" using 2(3) Bit0 by simp
    then have "look (tab_of (x # xs)) n = evens xs ! (nat_of_num m - 1)" using 2(1) Bit0 by simp
    also have "\<dots> = xs ! (2 * (nat_of_num m - 1))" using 2(3) Bit0 m by (intro nth_evens_odds) simp
    also have "2 * (nat_of_num m - 1) = nat_of_num m + nat_of_num m - 2" using m by simp
    finally show ?thesis using Bit0 m by (simp add: nth_Cons' numeral_2_eq_2)
  next
    case (Bit1 m)
    have m: "0 < nat_of_num m" by (rule nat_of_num_pos)
    have "nat_of_num m \<le> length (odds xs)" using 2(3) Bit1 by simp
    then have "look (tab_of (x # xs)) n = odds xs ! (nat_of_num m - 1)" using 2(2) Bit1 by simp
    also have "\<dots> = xs ! (2 * (nat_of_num m - 1) + 1)" using 2(3) Bit1 m by (intro nth_evens_odds) simp
    also have "2 * (nat_of_num m - 1) + 1 = nat_of_num m + nat_of_num m - 1" using m by simp
    finally show ?thesis using Bit1 m by (simp add: nth_Cons')
  qed simp
qed

lemma nth_beyond: "length xs \<le> i \<Longrightarrow> xs ! i = [] ! (i - length xs)"
  by (induction xs arbitrary: i) (auto simp: nth_Cons split: nat.splits)

definition tab_at :: "'a tab \<Rightarrow> int \<Rightarrow> int \<Rightarrow> 'a" where
  "tab_at t len i = (if i < len then look t (num_of_nat (nat (i + 1))) else [] ! nat (i - len))"

lemma nth_tab_at: "int (length xs) = len \<Longrightarrow> xs ! nat i = tab_at (tab_of xs) len (if i < 0 then 0 else i)"
proof (cases "nat i < length xs")
  case True
  assume len: "int (length xs) = len"
  have "look (tab_of xs) (num_of_nat (Suc (nat i))) = xs ! nat i"
    using look_tab_of [of "num_of_nat (Suc (nat i))" xs] True num_of_nat_inverse [of "Suc (nat i)"] by (simp del: num_of_nat.simps)
  moreover have "nat ((if i < 0 then 0 else i) + 1) = Suc (nat i)" by auto
  moreover have "(if i < 0 then 0 else i) < len" using True len by (auto simp: nat_less_iff)
  ultimately show ?thesis by (simp add: tab_at_def)
next
  case False
  assume "int (length xs) = len"
  then show ?thesis using False nth_beyond [of xs "nat i"] by (auto simp: tab_at_def nat_diff_distrib)
qed

lemma tab_at_code [code]:
  "tab_at t len 0 = (if 0 < len then look t num.One else [] ! nat (- len))"
  "tab_at t len (Int.Pos n) = (if Int.Pos n < len then look t (Num.inc n) else [] ! nat (Int.Pos n - len))"
  "tab_at t len (Int.Neg n) = (if Int.Neg n < len then look t (num_of_nat (nat (Int.Neg n + 1))) else [] ! nat (Int.Neg n - len))"
proof -
  have "nat (Int.Pos n + 1) = nat_of_num (Num.inc n)"
    by (simp add: nat_of_num_inc nat_of_num_numeral flip: add_One_commute add_One)
  then show "tab_at t len (Int.Pos n) = (if Int.Pos n < len then look t (Num.inc n) else [] ! nat (Int.Pos n - len))"
    unfolding tab_at_def by (simp only: nat_of_num_inverse)
qed (auto simp: tab_at_def num_of_nat.simps)

lemma list_all_upt: "list_all P [a..<b] \<Longrightarrow> a \<le> n \<Longrightarrow> n < b \<Longrightarrow> P n"
  by (simp add: list_all_iff)

lemma list_all_upto: "list_all P [a..b] \<Longrightarrow> a \<le> i \<Longrightarrow> i \<le> b \<Longrightarrow> P i"
  by (simp add: list_all_iff)

text \<open>The entries of a table one by one, as rewrite rules.\<close>

fun tab_facts :: "int \<Rightarrow> 'a list \<Rightarrow> (int \<Rightarrow> 'a \<Rightarrow> bool) \<Rightarrow> bool" where
  "tab_facts i [] P \<longleftrightarrow> True"
| "tab_facts i (x # xs) P \<longleftrightarrow> P i x \<and> tab_facts (i + 1) xs P"

lemma tab_facts_nth: "(\<And>k. k < length ys \<Longrightarrow> P (i + int k) (ys ! k)) \<Longrightarrow> tab_facts i ys P"
proof (induction ys arbitrary: i)
  case (Cons y ys)
  have "P (i + 1 + int k) (ys ! k)" if "k < length ys" for k using Cons.prems [of "Suc k"] that by (simp add: add.commute add.left_commute)
  then show ?case using Cons.IH [of "i + 1"] Cons.prems [of 0] by simp
qed simp

lemma table_nth: "xs = ys \<Longrightarrow> tab_facts 0 ys (\<lambda>i v. xs ! nat i = v)"
  by (rule tab_facts_nth) simp

end
