(* ===== verification/Sql_Parser.thy ===== *)
theory Sql_Parser
  imports Sql_Ast
begin

text \<open>
  The parser of statements, \<open>parser/yacc.tab.c\<close>: the tables, the semantic actions and the driver \<open>yyparse\<close> that bison generated from the grammar
  \<open>parser/yacc.y\<close>. The file is the output for an earlier revision of the grammar, without the transaction statements; the build generates the parser
  anew. The three stacks are lists with the top first; \<open>yyover\<close> has the cells of the value stack above the top, which keep what was stored there,
  because a reduction of the empty rule reads the cell above the top. The scanner is an argument: a function of the location
  of the last token, which it advances, and of its own state. The location stack is written but never read, and is left out.
\<close>

section \<open>Tokens and semantic values\<close>

abbreviation T_SHOW :: int where "T_SHOW \<equiv> 258"
abbreviation T_TABLES :: int where "T_TABLES \<equiv> 259"
abbreviation T_CREATE :: int where "T_CREATE \<equiv> 260"
abbreviation T_TABLE :: int where "T_TABLE \<equiv> 261"
abbreviation T_DROP :: int where "T_DROP \<equiv> 262"
abbreviation T_DESC :: int where "T_DESC \<equiv> 263"
abbreviation T_INSERT :: int where "T_INSERT \<equiv> 264"
abbreviation T_INTO :: int where "T_INTO \<equiv> 265"
abbreviation T_VALUES :: int where "T_VALUES \<equiv> 266"
abbreviation T_DELETE :: int where "T_DELETE \<equiv> 267"
abbreviation T_FROM :: int where "T_FROM \<equiv> 268"
abbreviation T_WHERE :: int where "T_WHERE \<equiv> 269"
abbreviation T_UPDATE :: int where "T_UPDATE \<equiv> 270"
abbreviation T_SET :: int where "T_SET \<equiv> 271"
abbreviation T_SELECT :: int where "T_SELECT \<equiv> 272"
abbreviation T_INT :: int where "T_INT \<equiv> 273"
abbreviation T_CHAR :: int where "T_CHAR \<equiv> 274"
abbreviation T_FLOAT :: int where "T_FLOAT \<equiv> 275"
abbreviation T_INDEX :: int where "T_INDEX \<equiv> 276"
abbreviation T_AND :: int where "T_AND \<equiv> 277"
abbreviation T_JOIN :: int where "T_JOIN \<equiv> 278"
abbreviation T_EXIT :: int where "T_EXIT \<equiv> 279"
abbreviation T_HELP :: int where "T_HELP \<equiv> 280"
abbreviation T_LEQ :: int where "T_LEQ \<equiv> 281"
abbreviation T_NEQ :: int where "T_NEQ \<equiv> 282"
abbreviation T_GEQ :: int where "T_GEQ \<equiv> 283"
abbreviation T_EOF :: int where "T_EOF \<equiv> 284"
abbreviation T_IDENTIFIER :: int where "T_IDENTIFIER \<equiv> 285"
abbreviation T_VALUE_STRING :: int where "T_VALUE_STRING \<equiv> 286"
abbreviation T_VALUE_INT :: int where "T_VALUE_INT \<equiv> 287"
abbreviation T_VALUE_FLOAT :: int where "T_VALUE_FLOAT \<equiv> 288"

text \<open>A call of \<open>yylex\<close>: the token number it returns and the field of \<open>yylval\<close> it sets.\<close>

datatype token = Tok int | TokStr int string | TokInt int | TokFloat "byte list"

fun tok_num :: "token \<Rightarrow> int" where
  "tok_num (Tok n) = n"
| "tok_num (TokStr n s) = n"
| "tok_num (TokInt i) = T_VALUE_INT"
| "tok_num (TokFloat f) = T_VALUE_FLOAT"

abbreviation ctok :: "char \<Rightarrow> token" where
  "ctok c \<equiv> Tok (of_char c)"

text \<open>A null pointer is \<open>None\<close>; the pointers inside a tree are its subtrees.\<close>

record SemValue =
  sv_int :: int
  sv_float :: "byte list"
  sv_str :: string
  sv_strs :: "string list"
  sv_node :: "TreeNode option"
  sv_comp_op :: SvCompOp
  sv_type_len :: "TreeNode option"
  sv_field :: "TreeNode option"
  sv_fields :: "TreeNode list"
  sv_expr :: "TreeNode option"
  sv_val :: "TreeNode option"
  sv_vals :: "TreeNode list"
  sv_col :: "TreeNode option"
  sv_cols :: "TreeNode list"
  sv_set_clause :: "TreeNode option"
  sv_set_clauses :: "TreeNode list"
  sv_cond :: "TreeNode option"
  sv_conds :: "TreeNode list"

text \<open>A value as its constructor leaves it: the numbers and the operator are not initialised.\<close>

definition SemValue_new :: "int \<times> byte list \<times> SvCompOp \<Rightarrow> SemValue" where
  "SemValue_new junk = \<lparr>sv_int = fst junk, sv_float = fst (snd junk), sv_str = [], sv_strs = [], sv_node = None, sv_comp_op = snd (snd junk),
     sv_type_len = None, sv_field = None, sv_fields = [], sv_expr = None, sv_val = None, sv_vals = [], sv_col = None, sv_cols = [],
     sv_set_clause = None, sv_set_clauses = [], sv_cond = None, sv_conds = []\<rparr>"

fun tok_val :: "token \<Rightarrow> SemValue \<Rightarrow> SemValue" where
  "tok_val (Tok n) v = v"
| "tok_val (TokStr n s) v = v\<lparr>sv_str := s\<rparr>"
| "tok_val (TokInt i) v = v\<lparr>sv_int := i\<rparr>"
| "tok_val (TokFloat f) v = v\<lparr>sv_float := f\<rparr>"

record YYLTYPE =
  first_line :: int
  first_column :: int
  last_line :: int
  last_column :: int

definition yyloc_default :: YYLTYPE where
  "yyloc_default = \<lparr>first_line = 1, first_column = 1, last_line = 1, last_column = 1\<rparr>"

text \<open>A scanner: from the last location and its state, the next token, its location and the new state, or nothing when the call does not return.\<close>

type_synonym 'l yylex_fun = "YYLTYPE \<Rightarrow> 'l \<Rightarrow> (token \<times> YYLTYPE \<times> 'l) option"


section \<open>Tables\<close>

definition YYFINAL :: int where [simp]: "YYFINAL = 34"
definition YYLAST :: int where [simp]: "YYLAST = 101"
definition YYNTOKENS :: int where [simp]: "YYNTOKENS = 43"
definition YYUNDEFTOK :: int where [simp]: "YYUNDEFTOK = 2"
definition YYMAXUTOK :: int where [simp]: "YYMAXUTOK = 288"
definition YYPACT_NINF :: int where [simp]: "YYPACT_NINF = -62"
definition YYEMPTY :: int where [simp]: "YYEMPTY = -2"
definition YYEOF :: int where [simp]: "YYEOF = 0"
definition YYTERROR :: int where [simp]: "YYTERROR = 1"
definition YYINITDEPTH :: nat where [simp]: "YYINITDEPTH = 200"

definition yytranslate :: "int list" where
  "yytranslate =
    [0, 2, 2, 2, 2, 2, 2, 2, 2, 2, 2, 2, 2, 2, 2, 2, 2, 2, 2, 2,
     2, 2, 2, 2, 2, 2, 2, 2, 2, 2, 2, 2, 2, 2, 2, 2, 2, 2, 2, 2,
     35, 36, 42, 2, 37, 2, 38, 2, 2, 2, 2, 2, 2, 2, 2, 2, 2, 2, 2, 34,
     40, 39, 41, 2, 2, 2, 2, 2, 2, 2, 2, 2, 2, 2, 2, 2, 2, 2, 2, 2,
     2, 2, 2, 2, 2, 2, 2, 2, 2, 2, 2, 2, 2, 2, 2, 2, 2, 2, 2, 2,
     2, 2, 2, 2, 2, 2, 2, 2, 2, 2, 2, 2, 2, 2, 2, 2, 2, 2, 2, 2,
     2, 2, 2, 2, 2, 2, 2, 2, 2, 2, 2, 2, 2, 2, 2, 2, 2, 2, 2, 2,
     2, 2, 2, 2, 2, 2, 2, 2, 2, 2, 2, 2, 2, 2, 2, 2, 2, 2, 2, 2,
     2, 2, 2, 2, 2, 2, 2, 2, 2, 2, 2, 2, 2, 2, 2, 2, 2, 2, 2, 2,
     2, 2, 2, 2, 2, 2, 2, 2, 2, 2, 2, 2, 2, 2, 2, 2, 2, 2, 2, 2,
     2, 2, 2, 2, 2, 2, 2, 2, 2, 2, 2, 2, 2, 2, 2, 2, 2, 2, 2, 2,
     2, 2, 2, 2, 2, 2, 2, 2, 2, 2, 2, 2, 2, 2, 2, 2, 2, 2, 2, 2,
     2, 2, 2, 2, 2, 2, 2, 2, 2, 2, 2, 2, 2, 2, 2, 2, 1, 2, 3, 4,
     5, 6, 7, 8, 9, 10, 11, 12, 13, 14, 15, 16, 17, 18, 19, 20, 21, 22, 23, 24,
     25, 26, 27, 28, 29, 30, 31, 32, 33]"

definition yypact :: "int list" where
  "yypact =
    [42, 10, 7, 17, -19, 9, 12, -19, 1, -62, -62, -62, 27, -4, -62, -62, -62, -62, -19, -19,
     -19, -19, -62, -62, -19, -19, 21, 6, -62, -62, 11, 20, 8, -62, -62, -62, 23, 33, -62, 37,
     44, 69, 26, 54, -19, 26, 26, 26, 26, 50, 54, -62, -62, -5, -62, 47, -62, -11, -62, -62,
     3, -62, 45, 52, 53, 49, -62, 68, 34, 26, -62, 49, -19, -19, -62, -62, 26, -62, 56, -62,
     -62, -62, -62, -62, -62, -62, 16, -62, 54, -62, -62, -62, -62, -62, -62, 46, -62, -62, -62, -62,
     -62, 60, -62, 49, -62, -62, -62, -62, 57, -62, -62]"

definition yydefact :: "int list" where
  "yydefact =
    [0, 0, 0, 0, 0, 0, 0, 0, 0, 4, 3, 5, 0, 0, 6, 7, 8, 9, 0, 0,
     0, 0, 55, 12, 0, 0, 0, 56, 50, 37, 51, 0, 0, 36, 1, 2, 0, 0, 11, 0,
     0, 31, 0, 0, 0, 0, 0, 0, 0, 0, 0, 16, 56, 31, 47, 0, 38, 31, 52, 35,
     0, 19, 0, 0, 0, 0, 33, 32, 0, 0, 17, 0, 0, 0, 18, 10, 0, 22, 0, 24,
     21, 13, 14, 29, 27, 28, 0, 25, 0, 43, 42, 44, 39, 40, 41, 0, 48, 49, 54, 53,
     20, 0, 15, 0, 34, 45, 46, 30, 0, 26, 23]"

definition yypgoto :: "int list" where
  "yypgoto =
    [-62, -62, -62, -62, -62, -62, -62, 18, -62, -62, -61, 13, -33, -62, -8, -62, -62, -62, -62, 28,
     -62, -62, -3, -40]"

definition yydefgoto :: "int list" where
  "yydefgoto =
    [-1, 12, 13, 14, 15, 16, 60, 61, 80, 86, 87, 66, 51, 67, 68, 30, 95, 107, 53, 54,
     31, 57, 32, 33]"

definition yytable :: "int list" where
  "yytable =
    [29, 23, 55, 50, 26, 59, 62, 63, 64, 50, 97, 22, 72, 18, 17, 36, 37, 38, 39, 24,
     70, 40, 41, 20, 74, 25, 73, 34, 19, 55, 35, 27, 69, 44, 105, 56, 62, 42, 21, 75,
     76, 58, 109, 28, -55, 1, 45, 2, 43, 3, 4, 5, 102, 103, 6, 49, 52, 7, 46, 8,
     89, 90, 91, 77, 78, 79, 9, 10, 47, 98, 99, 11, 48, 92, 93, 94, 27, 83, 84, 85,
     83, 84, 85, 50, 27, 65, 71, 106, 81, 82, 88, 101, 108, 110, 100, 0, 0, 96, 0, 0,
     0, 104]"

definition yycheck :: "int list" where
  "yycheck =
    [8, 4, 42, 14, 7, 45, 46, 47, 48, 14, 71, 30, 23, 6, 4, 18, 19, 20, 21, 10,
     53, 24, 25, 6, 57, 13, 37, 0, 21, 69, 34, 30, 37, 13, 95, 43, 76, 16, 21, 36,
     37, 44, 103, 42, 38, 3, 38, 5, 37, 7, 8, 9, 36, 37, 12, 11, 30, 15, 35, 17,
     26, 27, 28, 18, 19, 20, 24, 25, 35, 72, 73, 29, 35, 39, 40, 41, 30, 31, 32, 33,
     31, 32, 33, 14, 30, 35, 39, 95, 36, 36, 22, 35, 32, 36, 76, -1, -1, 69, -1, -1,
     -1, 88]"

definition yystos :: "int list" where
  "yystos =
    [0, 3, 5, 7, 8, 9, 12, 15, 17, 24, 25, 29, 44, 45, 46, 47, 48, 4, 6, 21,
     6, 21, 30, 65, 10, 13, 65, 30, 42, 57, 58, 63, 65, 66, 0, 34, 65, 65, 65, 65,
     65, 65, 16, 37, 13, 38, 35, 35, 35, 11, 14, 55, 30, 61, 62, 66, 57, 64, 65, 66,
     49, 50, 66, 66, 66, 35, 54, 56, 57, 37, 55, 39, 23, 37, 55, 36, 37, 18, 19, 20,
     51, 36, 36, 31, 32, 33, 52, 53, 22, 26, 27, 28, 39, 40, 41, 59, 62, 53, 65, 65,
     50, 35, 36, 37, 54, 53, 57, 60, 32, 53, 36]"

definition yyr1 :: "int list" where
  "yyr1 =
    [0, 43, 44, 44, 44, 44, 45, 45, 45, 46, 47, 47, 47, 47, 47, 48, 48, 48, 48, 49,
     49, 50, 51, 51, 51, 52, 52, 53, 53, 53, 54, 55, 55, 56, 56, 57, 57, 58, 58, 59,
     59, 59, 59, 59, 59, 60, 60, 61, 61, 62, 63, 63, 64, 64, 64, 65, 66]"

definition yyr2 :: "int list" where
  "yyr2 =
    [0, 2, 2, 1, 1, 1, 1, 1, 1, 2, 6, 3, 2, 6, 6, 7, 4, 5, 5, 1,
     3, 2, 1, 4, 1, 1, 3, 1, 1, 1, 3, 0, 2, 1, 3, 3, 1, 1, 3, 1,
     1, 1, 1, 1, 1, 1, 1, 1, 3, 3, 1, 1, 1, 3, 3, 1, 1]"

definition YYTRANSLATE :: "int \<Rightarrow> int" where
  "YYTRANSLATE x = (if 0 \<le> x \<and> x \<le> YYMAXUTOK then yytranslate ! nat x else YYUNDEFTOK)"

definition quoted :: "char \<Rightarrow> string" where
  "quoted c = [CHR 0x27, c, CHR 0x27]"

definition yytname :: "string list" where
  "yytname =
    [''$end'', ''error'', ''$undefined'', ''SHOW'', ''TABLES'', ''CREATE'', ''TABLE'', ''DROP'',
     ''DESC'', ''INSERT'', ''INTO'', ''VALUES'', ''DELETE'', ''FROM'', ''WHERE'', ''UPDATE'',
     ''SET'', ''SELECT'', ''INT'', ''CHAR'', ''FLOAT'', ''INDEX'', ''AND'', ''JOIN'',
     ''EXIT'', ''HELP'', ''LEQ'', ''NEQ'', ''GEQ'', ''T_EOF'', ''IDENTIFIER'', ''VALUE_STRING'',
     ''VALUE_INT'', ''VALUE_FLOAT'', quoted (CHR '';''), quoted (CHR ''(''), quoted (CHR '')''), quoted (CHR '',''), quoted (CHR ''.''), quoted (CHR ''=''),
     quoted (CHR ''<''), quoted (CHR ''>''), quoted (CHR ''*''), ''$accept'', ''start'', ''stmt'', ''dbStmt'', ''ddl'',
     ''dml'', ''fieldList'', ''field'', ''type'', ''valueList'', ''value'', ''condition'', ''optWhereClause'',
     ''whereClause'', ''col'', ''colList'', ''op'', ''expr'', ''setClauses'', ''setClause'', ''selector'',
     ''tableList'', ''tbName'', ''colName'']"

section \<open>Error messages\<close>

text \<open>The part of a quoted name up to its closing quote, none if the quotes are needed.\<close>

fun strip_quotes :: "string \<Rightarrow> string option" where
  "strip_quotes [] = None"
| "strip_quotes (c # cs) =
     (if c = CHR 0x27 \<or> c = CHR '','' then None
      else if c = CHR 0x5C then (case cs of [] \<Rightarrow> None
        | d # ds \<Rightarrow> if d = CHR 0x5C then map_option ((#) d) (strip_quotes ds) else None)
      else if c = CHR 0x22 then Some []
      else map_option ((#) c) (strip_quotes cs))"

definition yytnamerr :: "string \<Rightarrow> string" where
  "yytnamerr yystr = (case yystr of [] \<Rightarrow> []
     | c # cs \<Rightarrow> if c = CHR 0x22 then (case strip_quotes cs of Some s \<Rightarrow> s | None \<Rightarrow> yystr) else yystr)"

text \<open>The tokens a state has an entry for, at most four; with more none is named.\<close>

fun expected_tokens :: "int \<Rightarrow> int list \<Rightarrow> string list \<Rightarrow> string list" where
  "expected_tokens yyn [] yyarg = yyarg"
| "expected_tokens yyn (yyx # xs) yyarg =
     (if yycheck ! nat (yyx + yyn) = yyx \<and> yyx \<noteq> YYTERROR then
        if length yyarg = 5 then [hd yyarg] else expected_tokens yyn xs (yyarg @ [yytname ! nat yyx])
      else expected_tokens yyn xs yyarg)"

fun or_list :: "string list \<Rightarrow> string" where
  "or_list [] = []"
| "or_list [x] = yytnamerr x"
| "or_list (x # xs) = yytnamerr x @ '' or '' @ or_list xs"

text \<open>The message is never cut: a buffer that is too small is replaced by one that holds it.\<close>

definition yysyntax_error :: "int \<Rightarrow> int \<Rightarrow> string" where
  "yysyntax_error yystate yytoken =
     (if yytoken = YYEMPTY then ''syntax error''
      else let yyn = yypact ! nat yystate;
               unexpected = [yytname ! nat yytoken];
               yyarg = (if yyn = YYPACT_NINF then unexpected
                        else expected_tokens yyn [(if yyn < 0 then - yyn else 0)..min (YYLAST - yyn + 1) YYNTOKENS - 1] unexpected)
           in ''syntax error, unexpected '' @ yytnamerr (hd yyarg) @ (if tl yyarg = [] then [] else '', expecting '' @ or_list (tl yyarg)))"

definition yyerror :: "YYLTYPE \<Rightarrow> string \<Rightarrow> string" where
  "yyerror locp s = ''Parser Error at line '' @ to_string (first_line locp) @ '' column '' @ to_string (first_column locp) @ '': '' @ s @ newline"

section \<open>Semantic actions\<close>

text \<open>
  \<open>yyaction n v yyval\<close>: what the action of rule \<open>n\<close> makes of \<open>yyval\<close>, where \<open>v k\<close> is \<open>yyvsp[-k]\<close>. The rules 2 to 5, which end the parse, are in
  \<open>yyaccept\<close>; a rule without an action keeps \<open>yyval\<close>.
\<close>

definition yyaction :: "nat \<Rightarrow> (nat \<Rightarrow> SemValue) \<Rightarrow> SemValue \<Rightarrow> SemValue" where
  "yyaction n v yyval =
     (if n = 9 then yyval\<lparr>sv_node := Some ShowTables\<rparr>
      else if n = 10 then yyval\<lparr>sv_node := Some (CreateTable (sv_str (v 3)) (sv_fields (v 1)))\<rparr>
      else if n = 11 then yyval\<lparr>sv_node := Some (DropTable (sv_str (v 0)))\<rparr>
      else if n = 12 then yyval\<lparr>sv_node := Some (DescTable (sv_str (v 0)))\<rparr>
      else if n = 13 then yyval\<lparr>sv_node := Some (CreateIndex (sv_str (v 3)) (sv_str (v 1)))\<rparr>
      else if n = 14 then yyval\<lparr>sv_node := Some (DropIndex (sv_str (v 3)) (sv_str (v 1)))\<rparr>
      else if n = 15 then yyval\<lparr>sv_node := Some (InsertStmt (sv_str (v 4)) (sv_vals (v 1)))\<rparr>
      else if n = 16 then yyval\<lparr>sv_node := Some (DeleteStmt (sv_str (v 1)) (sv_conds (v 0)))\<rparr>
      else if n = 17 then yyval\<lparr>sv_node := Some (UpdateStmt (sv_str (v 3)) (sv_set_clauses (v 1)) (sv_conds (v 0)))\<rparr>
      else if n = 18 then yyval\<lparr>sv_node := Some (SelectStmt (sv_cols (v 3)) (sv_strs (v 1)) (sv_conds (v 0)))\<rparr>
      else if n = 19 then yyval\<lparr>sv_fields := [the (sv_field (v 0))]\<rparr>
      else if n = 20 then yyval\<lparr>sv_fields := sv_fields yyval @ [the (sv_field (v 0))]\<rparr>
      else if n = 21 then yyval\<lparr>sv_field := Some (AstColDef (sv_str (v 1)) (the (sv_type_len (v 0))))\<rparr>
      else if n = 22 then yyval\<lparr>sv_type_len := Some (TypeLen SV_TYPE_INT 4)\<rparr>
      else if n = 23 then yyval\<lparr>sv_type_len := Some (TypeLen SV_TYPE_STRING (sv_int (v 1)))\<rparr>
      else if n = 24 then yyval\<lparr>sv_type_len := Some (TypeLen SV_TYPE_FLOAT 4)\<rparr>
      else if n = 25 then yyval\<lparr>sv_vals := [the (sv_val (v 0))]\<rparr>
      else if n = 26 then yyval\<lparr>sv_vals := sv_vals yyval @ [the (sv_val (v 0))]\<rparr>
      else if n = 27 then yyval\<lparr>sv_val := Some (IntLit (sv_int (v 0)))\<rparr>
      else if n = 28 then yyval\<lparr>sv_val := Some (FloatLit (sv_float (v 0)))\<rparr>
      else if n = 29 then yyval\<lparr>sv_val := Some (StringLit (sv_str (v 0)))\<rparr>
      else if n = 30 then yyval\<lparr>sv_cond := Some (BinaryExpr (the (sv_col (v 2))) (sv_comp_op (v 1)) (the (sv_expr (v 0))))\<rparr>
      else if n = 32 then yyval\<lparr>sv_conds := sv_conds (v 0)\<rparr>
      else if n = 33 then yyval\<lparr>sv_conds := [the (sv_cond (v 0))]\<rparr>
      else if n = 34 then yyval\<lparr>sv_conds := sv_conds yyval @ [the (sv_cond (v 0))]\<rparr>
      else if n = 35 then yyval\<lparr>sv_col := Some (Col (sv_str (v 2)) (sv_str (v 0)))\<rparr>
      else if n = 36 then yyval\<lparr>sv_col := Some (Col [] (sv_str (v 0)))\<rparr>
      else if n = 37 then yyval\<lparr>sv_cols := [the (sv_col (v 0))]\<rparr>
      else if n = 38 then yyval\<lparr>sv_cols := sv_cols yyval @ [the (sv_col (v 0))]\<rparr>
      else if n = 39 then yyval\<lparr>sv_comp_op := SV_OP_EQ\<rparr>
      else if n = 40 then yyval\<lparr>sv_comp_op := SV_OP_LT\<rparr>
      else if n = 41 then yyval\<lparr>sv_comp_op := SV_OP_GT\<rparr>
      else if n = 42 then yyval\<lparr>sv_comp_op := SV_OP_NE\<rparr>
      else if n = 43 then yyval\<lparr>sv_comp_op := SV_OP_LE\<rparr>
      else if n = 44 then yyval\<lparr>sv_comp_op := SV_OP_GE\<rparr>
      else if n = 45 then yyval\<lparr>sv_expr := sv_val (v 0)\<rparr>
      else if n = 46 then yyval\<lparr>sv_expr := sv_col (v 0)\<rparr>
      else if n = 47 then yyval\<lparr>sv_set_clauses := [the (sv_set_clause (v 0))]\<rparr>
      else if n = 48 then yyval\<lparr>sv_set_clauses := sv_set_clauses yyval @ [the (sv_set_clause (v 0))]\<rparr>
      else if n = 49 then yyval\<lparr>sv_set_clause := Some (AstSetClause (sv_str (v 2)) (the (sv_val (v 0))))\<rparr>
      else if n = 50 then yyval\<lparr>sv_cols := []\<rparr>
      else if n = 52 then yyval\<lparr>sv_strs := [sv_str (v 0)]\<rparr>
      else if n = 53 then yyval\<lparr>sv_strs := sv_strs yyval @ [sv_str (v 0)]\<rparr>
      else if n = 54 then yyval\<lparr>sv_strs := sv_strs yyval @ [sv_str (v 0)]\<rparr>
      else yyval)"

definition yyaccept :: "nat \<Rightarrow> (nat \<Rightarrow> SemValue) \<Rightarrow> TreeNode option option" where
  "yyaccept n v =
     (if n = 2 then Some (sv_node (v 1)) else if n = 3 then Some (Some Help) else if n = 4 \<or> n = 5 then Some None else None)"

section \<open>The driver\<close>

record 'l yyparser =
  yyss :: "int list"
  yyvs :: "SemValue list"
  yyover :: "SemValue list"
  yychar :: int
  yylval :: SemValue
  yylloc :: YYLTYPE
  yyerrstatus :: int
  yyscan :: 'l
  yycerr :: "string list"

text \<open>What \<open>yyparse\<close> returns, what it assigns to \<open>parse_tree\<close> if it does, the messages and the scanner afterwards.\<close>

record 'l yyoutcome =
  yyresult :: int
  parse_tree :: "TreeNode option option"
  yyout_cerr :: "string list"
  yyout_scan :: 'l

type_synonym 'l yy_next = "'l yyparser + 'l yyoutcome"

definition yyreturn :: "int \<Rightarrow> TreeNode option option \<Rightarrow> 'l yyparser \<Rightarrow> 'l yy_next" where
  "yyreturn res tree s = Inr \<lparr>yyresult = res, parse_tree = tree, yyout_cerr = yycerr s, yyout_scan = yyscan s\<rparr>"

definition YYPOPSTACK :: "nat \<Rightarrow> 'l yyparser \<Rightarrow> 'l yyparser" where
  "YYPOPSTACK n s = s\<lparr>yyss := drop n (yyss s), yyvs := drop n (yyvs s), yyover := rev (take n (yyvs s)) @ yyover s\<rparr>"

definition yypush :: "int \<Rightarrow> SemValue \<Rightarrow> 'l yyparser \<Rightarrow> 'l yyparser" where
  "yypush yystate val s = s\<lparr>yyss := yystate # yyss s, yyvs := val # yyvs s, yyover := tl (yyover s)\<rparr>"

definition yygoto :: "int \<Rightarrow> int \<Rightarrow> int" where
  "yygoto yytop yysym =
     (let yylhs = yysym - YYNTOKENS; yyi = yypgoto ! nat yylhs + yytop
      in if 0 \<le> yyi \<and> yyi \<le> YYLAST \<and> yycheck ! nat yyi = yytop then yytable ! nat yyi else yydefgoto ! nat yylhs)"

text \<open>\<open>yyvsp[1-yylen]\<close>: the first cell of the right-hand side, the cell above the top when it is empty.\<close>

definition yyval_default :: "SemValue \<Rightarrow> nat \<Rightarrow> 'l yyparser \<Rightarrow> SemValue" where
  "yyval_default cell yylen s =
     (if yylen = 0 then (case yyover s of [] \<Rightarrow> cell | v # _ \<Rightarrow> v) else yyvs s ! (yylen - 1))"

definition yyreduce :: "SemValue \<Rightarrow> nat \<Rightarrow> 'l yyparser \<Rightarrow> 'l yy_next" where
  "yyreduce cell yyn s =
     (let yylen = nat (yyr2 ! yyn); v = (!) (yyvs s)
      in case yyaccept yyn v of
           Some tree \<Rightarrow> yyreturn 0 (Some tree) s
         | None \<Rightarrow>
             let yyval = yyaction yyn v (yyval_default cell yylen s); t = YYPOPSTACK yylen s
             in Inl (yypush (yygoto (hd (yyss t)) (yyr1 ! yyn)) yyval t))"

text \<open>The search of \<open>yyerrlab1\<close> for a state that shifts the error token: the states popped and the new state.\<close>

fun error_shift :: "int list \<Rightarrow> (nat \<times> int) option" where
  "error_shift [] = None"
| "error_shift (yystate # rest) =
     (let yyn = yypact ! nat yystate + YYTERROR
      in if yypact ! nat yystate \<noteq> YYPACT_NINF \<and> 0 \<le> yyn \<and> yyn \<le> YYLAST \<and> yycheck ! nat yyn = YYTERROR \<and> 0 < yytable ! nat yyn
         then Some (0, yytable ! nat yyn)
         else map_option (apfst Suc) (error_shift rest))"

definition yyerrlab1 :: "'l yyparser \<Rightarrow> 'l yy_next" where
  "yyerrlab1 s =
     (case error_shift (yyss s) of
        None \<Rightarrow> yyreturn 1 None (s\<lparr>yyerrstatus := 3\<rparr>)
      | Some (n, yystate) \<Rightarrow> let t = YYPOPSTACK n (s\<lparr>yyerrstatus := 3\<rparr>) in Inl (yypush yystate (yylval t) t))"

definition yyerrlab :: "'l yyparser \<Rightarrow> 'l yy_next" where
  "yyerrlab s =
     (let yytoken = (if yychar s = YYEMPTY then YYEMPTY else YYTRANSLATE (yychar s));
          s1 = (if yyerrstatus s = 0 then s\<lparr>yycerr := yycerr s @ [yyerror (yylloc s) (yysyntax_error (hd (yyss s)) yytoken)]\<rparr> else s)
      in if yyerrstatus s = 3 \<and> yychar s = YYEOF then yyreturn 1 None s1
         else yyerrlab1 (if yyerrstatus s = 3 \<and> yychar s > YYEOF then s1\<lparr>yychar := YYEMPTY\<rparr> else s1))"

definition yydefault :: "SemValue \<Rightarrow> 'l yyparser \<Rightarrow> 'l yy_next" where
  "yydefault cell s = (let yyn = yydefact ! nat (hd (yyss s)) in if yyn = 0 then yyerrlab s else yyreduce cell (nat yyn) s)"

definition read_token :: "'l yylex_fun \<Rightarrow> 'l yyparser \<Rightarrow> 'l yyparser option" where
  "read_token yylex s =
     (if yychar s = YYEMPTY then
        map_option (\<lambda>(t, loc, l). s\<lparr>yychar := tok_num t, yylval := tok_val t (yylval s), yylloc := loc, yyscan := l\<rparr>) (yylex (yylloc s) (yyscan s))
      else Some s)"

definition yydispatch :: "SemValue \<Rightarrow> 'l yyparser \<Rightarrow> 'l yy_next" where
  "yydispatch cell s0 =
     (let s = (if yychar s0 \<le> YYEOF then s0\<lparr>yychar := YYEOF\<rparr> else s0);
          yytoken = (if yychar s0 \<le> YYEOF then YYEOF else YYTRANSLATE (yychar s0));
          yyn = yypact ! nat (hd (yyss s)) + yytoken
      in if yyn < 0 \<or> YYLAST < yyn \<or> yycheck ! nat yyn \<noteq> yytoken then yydefault cell s
         else let k = yytable ! nat yyn
              in if k \<le> 0 then yyreduce cell (nat (- k)) s
                 else Inl (yypush k (yylval s)
                   (s\<lparr>yychar := YYEMPTY, yyerrstatus := (if yyerrstatus s \<noteq> 0 then yyerrstatus s - 1 else yyerrstatus s)\<rparr>)))"

definition yybackup :: "'l yylex_fun \<Rightarrow> SemValue \<Rightarrow> 'l yyparser \<Rightarrow> 'l yy_next option" where
  "yybackup yylex cell s =
     (if yypact ! nat (hd (yyss s)) = YYPACT_NINF then Some (yydefault cell s)
      else map_option (yydispatch cell) (read_token yylex s))"

text \<open>The stacks of values with destructors are not relocated, so their first size is the limit.\<close>

definition yysetstate :: "'l yylex_fun \<Rightarrow> SemValue \<Rightarrow> 'l yyparser \<Rightarrow> 'l yy_next option" where
  "yysetstate yylex cell s =
     (if YYINITDEPTH \<le> length (yyss s) then
        Some (yyreturn 2 None (s\<lparr>yycerr := yycerr s @ [yyerror (yylloc s) ''memory exhausted'']\<rparr>))
      else if hd (yyss s) = YYFINAL then Some (yyreturn 0 None s)
      else yybackup yylex cell s)"

partial_function (option) yyloop :: "'l yylex_fun \<Rightarrow> SemValue \<Rightarrow> 'l yyparser \<Rightarrow> 'l yyoutcome option" where
  "yyloop yylex cell s =
     (case yysetstate yylex cell s of
        None \<Rightarrow> None
      | Some (Inl t) \<Rightarrow> yyloop yylex cell t
      | Some (Inr out) \<Rightarrow> Some out)"

declare yyloop.simps [code]

definition yyparser_new :: "SemValue \<Rightarrow> 'l \<Rightarrow> 'l yyparser" where
  "yyparser_new cell l =
     \<lparr>yyss = [0], yyvs = [cell], yyover = [], yychar = YYEMPTY, yylval = cell,
      yylloc = yyloc_default, yyerrstatus = 0, yyscan = l, yycerr = []\<rparr>"

definition yyparse :: "'l yylex_fun \<Rightarrow> int \<times> byte list \<times> SvCompOp \<Rightarrow> 'l \<Rightarrow> 'l yyoutcome option" where
  "yyparse yylex junk l = yyloop yylex (SemValue_new junk) (yyparser_new (SemValue_new junk) l)"

end
