(* ===== verification/Sql_Grammar.thy ===== *)
theory Sql_Grammar
  imports Sql_Parser Table_Lookup
begin

text \<open>
  The grammar of statements, \<open>parser/yacc.y\<close>, with the value of every production, and the certificate that relates it to the tables of
  \<open>parser/yacc.tab.c\<close>. The grammar is the one that file was generated for, without the transaction statements that \<open>parser/yacc.y\<close> has got since.
  A symbol is named as in the grammar; a character is quoted. The certificate has for every state the states that may lie below it
  on the stack and, for every state and nonterminal that may be recognised from it, the tokens that may follow; what has to hold of it is
  checked by evaluation of the tables.
\<close>

section \<open>Productions\<close>

text \<open>The productions in the order of the file, numbered from 1, the number of the rule that accepts.\<close>

definition yygrammar :: "(string \<times> string list) list" where
  "yygrammar =
    [(''undef'', []), (''$accept'', [''start'', ''$end'']), (''start'', [''stmt'', quoted (CHR '';'')]), (''start'', [''HELP'']),
     (''start'', [''EXIT'']), (''start'', [''T_EOF'']), (''stmt'', [''dbStmt'']), (''stmt'', [''ddl'']), (''stmt'', [''dml'']),
     (''dbStmt'', [''SHOW'', ''TABLES'']), (''ddl'', [''CREATE'', ''TABLE'', ''tbName'', quoted (CHR ''(''), ''fieldList'', quoted (CHR '')'')]),
     (''ddl'', [''DROP'', ''TABLE'', ''tbName'']), (''ddl'', [''DESC'', ''tbName'']),
     (''ddl'', [''CREATE'', ''INDEX'', ''tbName'', quoted (CHR ''(''), ''colName'', quoted (CHR '')'')]),
     (''ddl'', [''DROP'', ''INDEX'', ''tbName'', quoted (CHR ''(''), ''colName'', quoted (CHR '')'')]),
     (''dml'', [''INSERT'', ''INTO'', ''tbName'', ''VALUES'', quoted (CHR ''(''), ''valueList'', quoted (CHR '')'')]),
     (''dml'', [''DELETE'', ''FROM'', ''tbName'', ''optWhereClause'']),
     (''dml'', [''UPDATE'', ''tbName'', ''SET'', ''setClauses'', ''optWhereClause'']),
     (''dml'', [''SELECT'', ''selector'', ''FROM'', ''tableList'', ''optWhereClause'']), (''fieldList'', [''field'']),
     (''fieldList'', [''fieldList'', quoted (CHR '',''), ''field'']), (''field'', [''colName'', ''type'']), (''type'', [''INT'']),
     (''type'', [''CHAR'', quoted (CHR ''(''), ''VALUE_INT'', quoted (CHR '')'')]), (''type'', [''FLOAT'']), (''valueList'', [''value'']),
     (''valueList'', [''valueList'', quoted (CHR '',''), ''value'']), (''value'', [''VALUE_INT'']), (''value'', [''VALUE_FLOAT'']),
     (''value'', [''VALUE_STRING'']), (''condition'', [''col'', ''op'', ''expr'']), (''optWhereClause'', []),
     (''optWhereClause'', [''WHERE'', ''whereClause'']), (''whereClause'', [''condition'']),
     (''whereClause'', [''whereClause'', ''AND'', ''condition'']), (''col'', [''tbName'', quoted (CHR ''.''), ''colName'']),
     (''col'', [''colName'']), (''colList'', [''col'']), (''colList'', [''colList'', quoted (CHR '',''), ''col'']), (''op'', [quoted (CHR ''='')]),
     (''op'', [quoted (CHR ''<'')]), (''op'', [quoted (CHR ''>'')]), (''op'', [''NEQ'']), (''op'', [''LEQ'']), (''op'', [''GEQ'']),
     (''expr'', [''value'']), (''expr'', [''col'']), (''setClauses'', [''setClause'']),
     (''setClauses'', [''setClauses'', quoted (CHR '',''), ''setClause'']), (''setClause'', [''colName'', quoted (CHR ''=''), ''value'']),
     (''selector'', [quoted (CHR ''*'')]), (''selector'', [''colList'']), (''tableList'', [''tbName'']),
     (''tableList'', [''tableList'', quoted (CHR '',''), ''tbName'']), (''tableList'', [''tableList'', ''JOIN'', ''tbName'']),
     (''tbName'', [''IDENTIFIER'']), (''colName'', [''IDENTIFIER''])]"

fun index_of :: "'a \<Rightarrow> 'a list \<Rightarrow> nat" where
  "index_of x [] = 0"
| "index_of x (y # ys) = (if x = y then 0 else Suc (index_of x ys))"

definition sym_no :: "string \<Rightarrow> int" where
  "sym_no name = int (index_of name yytname)"

definition yyrhs :: "int list list" where
  "yyrhs = map (map sym_no \<circ> snd) yygrammar"

text \<open>The values of the symbols, by the types of the grammar.\<close>

datatype attr = ANone | AStr string | AStrs "string list" | AInt int | AFloat "byte list" | AOp SvCompOp | ANode TreeNode | ANodes "TreeNode list"
  | ARoot "TreeNode option"

fun str_of :: "attr \<Rightarrow> string" where "str_of (AStr s) = s" | "str_of _ = []"
fun strs_of :: "attr \<Rightarrow> string list" where "strs_of (AStrs s) = s" | "strs_of _ = []"
fun int_of :: "attr \<Rightarrow> int" where "int_of (AInt s) = s" | "int_of _ = 0"
fun float_of :: "attr \<Rightarrow> byte list" where "float_of (AFloat s) = s" | "float_of _ = []"
fun op_of :: "attr \<Rightarrow> SvCompOp" where "op_of (AOp s) = s" | "op_of _ = SV_OP_EQ"
fun node_of :: "attr \<Rightarrow> TreeNode" where "node_of (ANode s) = s" | "node_of _ = BareNode BaseTreeNode"
fun nodes_of :: "attr \<Rightarrow> TreeNode list" where "nodes_of (ANodes s) = s" | "nodes_of _ = []"

fun tok_attr :: "token \<Rightarrow> attr" where
  "tok_attr (Tok n) = ANone"
| "tok_attr (TokStr n s) = AStr s"
| "tok_attr (TokInt i) = AInt i"
| "tok_attr (TokFloat f) = AFloat f"

text \<open>The value of the left-hand side of production \<open>n\<close>; \<open>d k\<close> is \<open>$k\<close>. A production without an action has the value of its first symbol.\<close>

definition rule_attr :: "nat \<Rightarrow> (nat \<Rightarrow> attr) \<Rightarrow> attr" where
  "rule_attr n d =
     (if n = 2 then ARoot (Some (node_of (d 1)))
      else if n = 3 then ARoot (Some Help)
      else if n = 4 \<or> n = 5 then ARoot None
      else if n = 9 then ANode ShowTables
      else if n = 10 then ANode (CreateTable (str_of (d 3)) (nodes_of (d 5)))
      else if n = 11 then ANode (DropTable (str_of (d 3)))
      else if n = 12 then ANode (DescTable (str_of (d 2)))
      else if n = 13 then ANode (CreateIndex (str_of (d 3)) (str_of (d 5)))
      else if n = 14 then ANode (DropIndex (str_of (d 3)) (str_of (d 5)))
      else if n = 15 then ANode (InsertStmt (str_of (d 3)) (nodes_of (d 6)))
      else if n = 16 then ANode (DeleteStmt (str_of (d 3)) (nodes_of (d 4)))
      else if n = 17 then ANode (UpdateStmt (str_of (d 2)) (nodes_of (d 4)) (nodes_of (d 5)))
      else if n = 18 then ANode (SelectStmt (nodes_of (d 2)) (strs_of (d 4)) (nodes_of (d 5)))
      else if n \<in> {19, 25, 33, 37, 47} then ANodes [node_of (d 1)]
      else if n \<in> {20, 26, 34, 38, 48} then ANodes (nodes_of (d 1) @ [node_of (d 3)])
      else if n = 21 then ANode (AstColDef (str_of (d 1)) (node_of (d 2)))
      else if n = 22 then ANode (TypeLen SV_TYPE_INT 4)
      else if n = 23 then ANode (TypeLen SV_TYPE_STRING (int_of (d 3)))
      else if n = 24 then ANode (TypeLen SV_TYPE_FLOAT 4)
      else if n = 27 then ANode (IntLit (int_of (d 1)))
      else if n = 28 then ANode (FloatLit (float_of (d 1)))
      else if n = 29 then ANode (StringLit (str_of (d 1)))
      else if n = 30 then ANode (BinaryExpr (node_of (d 1)) (op_of (d 2)) (node_of (d 3)))
      else if n = 31 \<or> n = 50 then ANodes []
      else if n = 32 then d 2
      else if n = 35 then ANode (Col (str_of (d 1)) (str_of (d 3)))
      else if n = 36 then ANode (Col [] (str_of (d 1)))
      else if n = 39 then AOp SV_OP_EQ else if n = 40 then AOp SV_OP_LT else if n = 41 then AOp SV_OP_GT
      else if n = 42 then AOp SV_OP_NE else if n = 43 then AOp SV_OP_LE else if n = 44 then AOp SV_OP_GE
      else if n = 49 then ANode (AstSetClause (str_of (d 1)) (node_of (d 3)))
      else if n = 52 then AStrs [str_of (d 1)]
      else if n = 53 \<or> n = 54 then AStrs (strs_of (d 1) @ [str_of (d 3)])
      else d 1)"

text \<open>\<open>derives X ts a\<close>: the tokens \<open>ts\<close> are derived from the symbol \<open>X\<close> and have the value \<open>a\<close>.\<close>

inductive derives :: "int \<Rightarrow> token list \<Rightarrow> attr \<Rightarrow> bool" and derives_all :: "int list \<Rightarrow> token list \<Rightarrow> attr list \<Rightarrow> bool" where
  derives_token: "derives (YYTRANSLATE (tok_num t)) [t] (tok_attr t)"
| derives_rule: "2 \<le> n \<Longrightarrow> n \<le> 56 \<Longrightarrow> derives_all (yyrhs ! n) ts as \<Longrightarrow> derives (sym_no (fst (yygrammar ! n))) ts (rule_attr n (\<lambda>k. as ! (k - 1)))"
| derives_Nil: "derives_all [] [] []"
| derives_Cons: "derives X ts a \<Longrightarrow> derives_all Xs us as \<Longrightarrow> derives_all (X # Xs) (ts @ us) (a # as)"

section \<open>The certificate\<close>

definition yypreds :: "int list list" where
  "yypreds =
    [[], [0], [0], [0], [0], [0], [0], [0], [0], [0], [0], [0], [], [0], [0], [0], [0], [1], [2], [2], [3], [3],
     [4, 7, 18, 19, 20, 21, 24, 25, 44, 72, 73], [4], [5], [6], [7], [8, 43, 50, 88, 95], [8], [8], [8], [8], [8, 43, 50, 88, 95],
     [8, 43, 50, 88, 95], [], [13], [18], [19], [20], [21], [24], [25], [26], [30], [31], [32], [36], [37], [39], [40], [41, 53, 57], [41],
     [42, 45, 46, 47, 48, 69, 76], [42], [42], [42, 69], [43], [44], [44], [45], [46], [46], [46, 76], [47], [48], [49], [50], [50], [50, 88],
     [53], [53], [55], [57], [57], [57], [60], [60], [62], [62], [62], [62], [63], [64], [65, 71, 95, 103], [65, 71, 95, 103], [65, 71, 95, 103],
     [65], [65], [67], [68], [68], [68], [68], [68], [68], [68], [69], [71], [72], [73], [76], [78], [86], [86], [88], [95], [95], [95], [101],
     [103], [108]]"

definition yylevel :: "nat list" where
  "yylevel =
    [0, 1, 1, 1, 1, 1, 1, 1, 1, 1, 1, 1, 1, 1, 1, 1, 1, 2, 2, 2, 2, 2, 6, 2, 2, 2, 2, 10, 2, 2, 2, 2, 10, 10, 1, 2, 3, 3, 3, 3, 3, 3, 3, 3, 3, 11,
     4, 4, 4, 4, 5, 4, 12, 4, 4, 6, 4, 4, 4, 12, 5, 5, 7, 5, 5, 5, 6, 6, 8, 5, 5, 7, 5, 5, 5, 6, 6, 8, 8, 8, 8, 6, 6, 10, 10, 10, 6, 6, 7, 9, 9, 9,
     9, 9, 9, 9, 6, 8, 6, 6, 7, 9, 7, 7, 8, 10, 10, 10, 10, 8, 11]"

definition yycontexts :: "(int \<times> int \<times> int list) list" where
  "yycontexts =
    [(0, 45, [34]), (0, 46, [34]), (0, 47, [34]), (0, 48, [34]), (4, 65, [34]), (7, 65, [16]), (8, 57, [13, 37]), (8, 58, [13, 37]), (8, 63, [13]),
     (8, 65, [38]), (8, 66, [13, 37]), (18, 65, [35]), (19, 65, [35]), (20, 65, [34]), (21, 65, [35]), (24, 65, [11]), (25, 65, [14, 34]),
     (41, 55, [34]), (42, 61, [14, 34, 37]), (42, 62, [14, 34, 37]), (42, 66, [39]), (43, 57, [13, 37]), (43, 65, [38]), (43, 66, [13, 37]),
     (44, 64, [14, 23, 34, 37]), (44, 65, [14, 23, 34, 37]), (45, 66, [13, 22, 26, 27, 28, 34, 37, 39, 40, 41]), (46, 49, [36, 37]),
     (46, 50, [36, 37]), (46, 66, [18, 19, 20]), (47, 66, [36]), (48, 66, [36]), (50, 54, [22, 34]), (50, 56, [22, 34]),
     (50, 57, [26, 27, 28, 39, 40, 41]), (50, 65, [38]), (50, 66, [26, 27, 28, 39, 40, 41]), (53, 55, [34]), (57, 55, [34]), (62, 51, [36, 37]),
     (65, 52, [36, 37]), (65, 53, [36, 37]), (68, 59, [30, 31, 32, 33]), (69, 62, [14, 34, 37]), (69, 66, [39]), (71, 53, [14, 34, 37]),
     (72, 65, [14, 23, 34, 37]), (73, 65, [14, 23, 34, 37]), (76, 50, [36, 37]), (76, 66, [18, 19, 20]), (88, 54, [22, 34]),
     (88, 57, [26, 27, 28, 39, 40, 41]), (88, 65, [38]), (88, 66, [26, 27, 28, 39, 40, 41]), (95, 53, [22, 34]), (95, 57, [22, 34]),
     (95, 60, [22, 34]), (95, 65, [38]), (95, 66, [22, 34]), (103, 53, [36, 37])]"

text \<open>The tokens a nonterminal may begin with, from 43 on.\<close>

definition yyfirst :: "int list list" where
  "yyfirst =
    [[], [], [3, 5, 7, 8, 9, 12, 15, 17], [3], [5, 7, 8], [9, 12, 15, 17], [30], [30], [18, 19, 20], [31, 32, 33], [31, 32, 33], [30], [14], [30],
     [30], [30], [26, 27, 28, 39, 40, 41], [30, 31, 32, 33], [30], [30], [30, 42], [30], [30], [30]]"

definition nullable :: "int \<Rightarrow> bool" where
  "nullable x \<longleftrightarrow> x = 55"

fun firsts :: "int list \<Rightarrow> int list \<Rightarrow> int list" where
  "firsts [] la = la"
| "firsts (x # xs) la = (if x < YYNTOKENS then [x] else yyfirst ! nat (x - YYNTOKENS) @ (if nullable x then firsts xs la else []))"

text \<open>What the driver does in a state on a token.\<close>

datatype yyact = Shift int | Reduce nat | Reject

definition yydefact_of :: "int \<Rightarrow> yyact" where
  "yydefact_of s = (let n = yydefact ! nat s in if n = 0 then Reject else Reduce (nat n))"

definition yydecide :: "int \<Rightarrow> int \<Rightarrow> yyact" where
  "yydecide s t =
     (let p = yypact ! nat s; n = p + t
      in if p = YYPACT_NINF \<or> n < 0 \<or> YYLAST < n \<or> yycheck ! nat n \<noteq> t then yydefact_of s
         else let k = yytable ! nat n in if k \<le> 0 then Reduce (nat (- k)) else Shift k)"

text \<open>Every path down the stack from \<open>s\<close> has the symbols \<open>xs\<close>, and what is below satisfies \<open>P\<close>.\<close>

fun spells :: "int \<Rightarrow> int list \<Rightarrow> (int \<Rightarrow> bool) \<Rightarrow> bool" where
  "spells s [] P \<longleftrightarrow> P s"
| "spells s (x # xs) P \<longleftrightarrow> yystos ! nat s = x \<and> list_all (\<lambda>p. spells p xs P) (yypreds ! nat s)"

definition reduce_ok :: "int \<Rightarrow> nat \<Rightarrow> bool" where
  "reduce_ok s n \<longleftrightarrow> 2 \<le> n \<and> n \<le> 56 \<and> spells s (rev (yyrhs ! n))
     (\<lambda>b. if n \<le> 5 then b = 0 else (let q = yygoto b (yyr1 ! n) in 0 \<le> q \<and> q < 111 \<and> yystos ! nat q = yyr1 ! n \<and> b \<in> set (yypreds ! nat q)))"

fun act_ok :: "int \<Rightarrow> int \<Rightarrow> yyact \<Rightarrow> bool" where
  "act_ok s t (Shift q) \<longleftrightarrow> 0 \<le> q \<and> q < 111 \<and> yystos ! nat q = t \<and> s \<in> set (yypreds ! nat q)"
| "act_ok s t (Reduce n) \<longleftrightarrow> reduce_ok s n"
| "act_ok s t Reject \<longleftrightarrow> True"

text \<open>From \<open>q\<close> the rest \<open>xs\<close> of production \<open>n\<close> is recognised, and the production is reduced when a token of \<open>la\<close> follows.\<close>

fun follows :: "nat \<Rightarrow> int list \<Rightarrow> int \<Rightarrow> int list \<Rightarrow> bool" where
  "follows n la q [] \<longleftrightarrow> list_all (\<lambda>t. yydecide q t = Reduce n) la"
| "follows n la q (x # xs) \<longleftrightarrow>
     (if x < YYNTOKENS then (case yydecide q x of Shift p \<Rightarrow> follows n la p xs | _ \<Rightarrow> False)
      else list_ex (\<lambda>(s, y, l). s = q \<and> y = x \<and> list_all (\<lambda>t. t \<in> set l) (firsts xs la)) yycontexts \<and> follows n la (yygoto q x) xs)"

section \<open>Evaluation of the tables\<close>

definition yypact_tab :: "int tab" where "yypact_tab = tab_of yypact"
definition yydefact_tab :: "int tab" where "yydefact_tab = tab_of yydefact"
definition yytable_tab :: "int tab" where "yytable_tab = tab_of yytable"
definition yycheck_tab :: "int tab" where "yycheck_tab = tab_of yycheck"
definition yystos_tab :: "int tab" where "yystos_tab = tab_of yystos"
definition yypreds_tab :: "int list tab" where "yypreds_tab = tab_of yypreds"
definition yylevel_tab :: "nat tab" where "yylevel_tab = tab_of yylevel"
definition yypgoto_tab :: "int tab" where "yypgoto_tab = tab_of yypgoto"
definition yydefgoto_tab :: "int tab" where "yydefgoto_tab = tab_of yydefgoto"
definition yyfirst_tab :: "int list tab" where "yyfirst_tab = tab_of yyfirst"

lemmas tab_evals [code] =
  yypact_tab_def [simplified yypact_def tab_of.simps evens.simps odds.simps]
  yydefact_tab_def [simplified yydefact_def tab_of.simps evens.simps odds.simps]
  yytable_tab_def [simplified yytable_def tab_of.simps evens.simps odds.simps]
  yycheck_tab_def [simplified yycheck_def tab_of.simps evens.simps odds.simps]
  yystos_tab_def [simplified yystos_def tab_of.simps evens.simps odds.simps]
  yypreds_tab_def [simplified yypreds_def tab_of.simps evens.simps odds.simps]
  yylevel_tab_def [simplified yylevel_def tab_of.simps evens.simps odds.simps]
  yypgoto_tab_def [simplified yypgoto_def tab_of.simps evens.simps odds.simps]
  yydefgoto_tab_def [simplified yydefgoto_def tab_of.simps evens.simps odds.simps]
  yyfirst_tab_def [simplified yyfirst_def tab_of.simps evens.simps odds.simps]

lemma tab_unfolds [code_unfold]:
  "yypact ! nat i = tab_at yypact_tab 111 (if i < 0 then 0 else i)"
  "yydefact ! nat i = tab_at yydefact_tab 111 (if i < 0 then 0 else i)"
  "yytable ! nat i = tab_at yytable_tab 102 (if i < 0 then 0 else i)"
  "yycheck ! nat i = tab_at yycheck_tab 102 (if i < 0 then 0 else i)"
  "yystos ! nat i = tab_at yystos_tab 111 (if i < 0 then 0 else i)"
  "yypreds ! nat i = tab_at yypreds_tab 111 (if i < 0 then 0 else i)"
  "yylevel ! nat i = tab_at yylevel_tab 111 (if i < 0 then 0 else i)"
  "yypgoto ! nat i = tab_at yypgoto_tab 24 (if i < 0 then 0 else i)"
  "yydefgoto ! nat i = tab_at yydefgoto_tab 24 (if i < 0 then 0 else i)"
  "yyfirst ! nat i = tab_at yyfirst_tab 24 (if i < 0 then 0 else i)"
  unfolding yypact_tab_def yydefact_tab_def yytable_tab_def yycheck_tab_def yystos_tab_def yypreds_tab_def yylevel_tab_def yypgoto_tab_def yydefgoto_tab_def yyfirst_tab_def
  by (rule nth_tab_at; simp add: yypact_def yydefact_def yytable_def yycheck_def yystos_def yypreds_def yylevel_def yypgoto_def yydefgoto_def yyfirst_def)+

section \<open>The checks\<close>

lemma yyrhs_eq [code]: "yyrhs =
    [[], [44, 0], [45, 34], [25], [24], [29], [46], [47], [48], [3, 4], [5, 6, 65, 35, 49, 36], [7, 6, 65], [8, 65], [5, 21, 65, 35, 66, 36],
     [7, 21, 65, 35, 66, 36], [9, 10, 65, 11, 35, 52, 36], [12, 13, 65, 55], [15, 65, 16, 61, 55], [17, 63, 13, 64, 55], [50], [49, 37, 50],
     [66, 51], [18], [19, 35, 32, 36], [20], [53], [52, 37, 53], [32], [33], [31], [57, 59, 60], [], [14, 56], [54], [56, 22, 54], [65, 38, 66],
     [66], [57], [58, 37, 57], [39], [40], [41], [27], [26], [28], [53], [57], [62], [61, 37, 62], [66, 39, 53], [42], [58], [65], [64, 37, 65],
     [64, 23, 65], [30], [30]]"
  by code_simp

text \<open>The left-hand sides and the lengths in the tables are those of the grammar.\<close>

lemma yyr1_eq: "map (sym_no \<circ> fst) (tl yygrammar) = tl yyr1"
  by code_simp

lemma yyr2_eq: "map (int \<circ> length) yyrhs = yyr2" and yyr1_nonterminal: "list_all (\<lambda>x. 43 \<le> x \<and> x < 67) (tl yyr1)"
  by code_simp+

definition yystates :: "int list" where
  "yystates = filter (\<lambda>s. s \<noteq> 12 \<and> s \<noteq> 34) [0..110]"

lemma default_check: "list_all (\<lambda>s. act_ok s 0 (yydefact_of s)) yystates"
  by code_simp

lemma entries_check:
  "list_all (\<lambda>s. yypact ! nat s = YYPACT_NINF \<or> list_all (\<lambda>t. yydecide s t = yydefact_of s \<or> act_ok s t (yydecide s t)) [0..42]) yystates"
  by code_simp

lemma contexts_check: "list_all (\<lambda>(s, x, la). list_all (\<lambda>n. follows n la s (yyrhs ! n)) (filter (\<lambda>n. yyr1 ! n = x) [6..<57])) yycontexts"
  by code_simp

lemma first_check: "list_all (\<lambda>n. list_all (\<lambda>t. t \<in> set (yyfirst ! nat (yyr1 ! n - 43))) (firsts (yyrhs ! n) []) \<and>
    (list_all nullable (yyrhs ! n) \<longrightarrow> nullable (yyr1 ! n))) [6..<57]"
  by code_simp

lemma level_check: "list_all (\<lambda>s. list_all (\<lambda>p. 0 \<le> p \<and> p < 111 \<and> yylevel ! nat p < yylevel ! nat s) (yypreds ! nat s) \<and> yylevel ! nat s \<le> 12) [0..110]"
  by code_simp

lemma yyrhs_symbols: "list_all (\<lambda>n. 0 \<notin> set (yyrhs ! n)) [2..<57]"
  by code_simp

lemma contexts_nonterminal: "list_all (\<lambda>(s, x, la). 43 \<le> x \<and> la \<noteq> []) yycontexts"
  by code_simp

lemma yytranslate_range: "list_all (\<lambda>x. 0 \<le> x \<and> x < 43) yytranslate"
  by code_simp

end
