(* ===== verification/Sql_Stack.thy ===== *)
theory Sql_Stack
  imports Sql_Grammar
begin

text \<open>
  The stacks of the parser of \<open>parser/yacc.tab.c\<close>: every stack of states that the driver builds is a path of the certificate, so it is at most 13
  states high, a reduction finds the right-hand side of its production on it, and the semantic action of the production computes the value that the
  grammar gives to its left-hand side.
\<close>

section \<open>Stacks\<close>

abbreviation yysym :: "int \<Rightarrow> int" where
  "yysym s \<equiv> yystos ! nat s"

fun chain :: "int list \<Rightarrow> bool" where
  "chain [] \<longleftrightarrow> False"
| "chain [s] \<longleftrightarrow> s = 0"
| "chain (s # p # ss) \<longleftrightarrow> 0 \<le> s \<and> s < 111 \<and> p \<in> set (yypreds ! nat s) \<and> chain (p # ss)"

lemma preds_empty: "yypreds ! 12 = []" "yypreds ! 34 = []" "yypreds ! 0 = []" "yystos ! 0 = 0"
  by code_simp+

lemma chain_state: "chain (s # ss) \<Longrightarrow> s \<in> set yystates"
  by (cases ss) (auto simp: yystates_def preds_empty)

lemma chain_zero: "chain (0 # ss) \<Longrightarrow> ss = []"
  by (cases ss) (simp_all add: preds_empty)

lemma chain_drop: "chain ss \<Longrightarrow> n < length ss \<Longrightarrow> chain (drop n ss)"
proof (induction ss arbitrary: n rule: chain.induct)
  case (3 s p ss)
  then show ?case by (cases n) auto
qed auto

lemma chain_length: "chain (s # ss) \<Longrightarrow> length ss \<le> yylevel ! nat s"
proof (induction ss arbitrary: s)
  case (Cons p ss)
  then have "length ss \<le> yylevel ! nat p" "p \<in> set (yypreds ! nat s)" "0 \<le> s" "s < 111" by auto
  moreover from this have "yylevel ! nat p < yylevel ! nat s" using level_check by (auto simp: list_all_iff)
  ultimately show ?case by simp
qed simp

lemma chain_bounded: "chain ss \<Longrightarrow> length ss \<le> 13"
proof (cases ss)
  case (Cons s rest)
  assume c: "chain ss"
  then have "s \<in> set yystates" using chain_state Cons by simp
  then have "yylevel ! nat s \<le> 12" using level_check by (auto simp: list_all_iff yystates_def)
  then show ?thesis using chain_length [of s rest] c Cons by simp
qed simp

lemma decide_ok:
  assumes "s \<in> set yystates" and "0 \<le> t" and "t < 43"
  shows "act_ok s t (yydecide s t)"
proof -
  have "act_ok s 0 (yydefact_of s)" using default_check assms(1) by (auto simp: list_all_iff)
  then have d: "act_ok s t (yydefact_of s)" by (simp add: yydefact_of_def Let_def split: if_splits)
  show ?thesis
  proof (cases "yypact ! nat s = YYPACT_NINF")
    case True
    then show ?thesis using d by (simp add: yydecide_def)
  next
    case False
    then have "list_all (\<lambda>t. yydecide s t = yydefact_of s \<or> act_ok s t (yydecide s t)) [0..42]"
      using entries_check assms(1) unfolding list_all_iff [of _ yystates] by blast
    from list_all_upto [OF this, of t] have "yydecide s t = yydefact_of s \<or> act_ok s t (yydecide s t)" using assms by simp
    then show ?thesis using d by auto
  qed
qed

lemma spells_chain:
  "chain ss \<Longrightarrow> spells (hd ss) xs P \<Longrightarrow> 0 \<notin> set xs \<Longrightarrow>
   length xs < length ss \<and> map yysym (take (length xs) ss) = xs \<and> P (ss ! length xs)"
proof (induction xs arbitrary: ss)
  case Nil
  then show ?case by (cases ss) auto
next
  case (Cons x xs)
  obtain s rest where ss: "ss = s # rest" using Cons.prems(1) by (cases ss) auto
  have x: "yysym s = x" "list_all (\<lambda>p. spells p xs P) (yypreds ! nat s)" using Cons.prems(2) ss by simp_all
  have "rest \<noteq> []" using Cons.prems x(1) ss preds_empty(4) by (cases rest) auto
  then obtain p rest' where r: "rest = p # rest'" by (cases rest) auto
  then have p: "p \<in> set (yypreds ! nat s)" "chain rest" using Cons.prems(1) ss by simp_all
  then show ?case using Cons.IH [of rest] Cons.prems(3) x r ss by (simp add: list_all_iff)
qed

lemma yyr1_at: "1 \<le> n \<Longrightarrow> n \<le> 56 \<Longrightarrow> sym_no (fst (yygrammar ! n)) = yyr1 ! n \<and> 43 \<le> yyr1 ! n \<and> yyr1 ! n < 67"
proof -
  assume n: "1 \<le> n" "n \<le> 56"
  have l: "length yygrammar = 57" "length yyr1 = 57" by (simp_all add: yygrammar_def yyr1_def)
  have "map (sym_no \<circ> fst) (tl yygrammar) ! (n - 1) = tl yyr1 ! (n - 1)" by (simp only: yyr1_eq)
  then have "sym_no (fst (yygrammar ! n)) = yyr1 ! n" using n l by (simp add: nth_tl)
  moreover have "tl yyr1 ! (n - 1) \<in> set (tl yyr1)" using n l by (intro nth_mem) simp
  ultimately show ?thesis using yyr1_nonterminal n l by (auto simp: list_all_iff nth_tl)
qed

lemma yyr2_at: "n \<le> 56 \<Longrightarrow> nat (yyr2 ! n) = length (yyrhs ! n)"
proof -
  assume n: "n \<le> 56"
  have "length yyrhs = 57" by (simp add: yyrhs_def yygrammar_def)
  then show ?thesis using n by (simp flip: yyr2_eq)
qed

lemma reduce_chain:
  assumes c: "chain ss" and ok: "reduce_ok (hd ss) n"
  defines "k \<equiv> length (yyrhs ! n)"
  shows "2 \<le> n" and "n \<le> 56" and "k < length ss" and "map yysym (take k ss) = rev (yyrhs ! n)"
    and "n \<le> 5 \<Longrightarrow> ss ! k = 0"
    and "6 \<le> n \<Longrightarrow> chain (yygoto (ss ! k) (yyr1 ! n) # drop k ss) \<and> yysym (yygoto (ss ! k) (yyr1 ! n)) = yyr1 ! n"
proof -
  let ?P = "\<lambda>b. if n \<le> 5 then b = 0 else (let q = yygoto b (yyr1 ! n) in 0 \<le> q \<and> q < 111 \<and> yystos ! nat q = yyr1 ! n \<and> b \<in> set (yypreds ! nat q))"
  show n: "2 \<le> n" "n \<le> 56" using ok by (simp_all add: reduce_ok_def)
  have "0 \<notin> set (rev (yyrhs ! n))" using list_all_upt [OF yyrhs_symbols, of n] n by simp
  then have S: "length (rev (yyrhs ! n)) < length ss \<and> map yysym (take (length (rev (yyrhs ! n))) ss) = rev (yyrhs ! n) \<and> ?P (ss ! length (rev (yyrhs ! n)))"
    using spells_chain [OF c] ok unfolding reduce_ok_def by blast
  then show k: "k < length ss" and "map yysym (take k ss) = rev (yyrhs ! n)" by (simp_all add: k_def)
  show "n \<le> 5 \<Longrightarrow> ss ! k = 0" using S by (simp add: k_def)
  have d: "drop k ss = ss ! k # drop (Suc k) ss" using k by (rule Cons_nth_drop_Suc [symmetric])
  show "chain (yygoto (ss ! k) (yyr1 ! n) # drop k ss) \<and> yysym (yygoto (ss ! k) (yyr1 ! n)) = yyr1 ! n" if "6 \<le> n"
    using S that chain_drop [OF c k] unfolding d by (simp add: k_def Let_def)
qed

section \<open>Steps of the driver\<close>

definition yyperform :: "SemValue \<Rightarrow> yyact \<Rightarrow> 'l yyparser \<Rightarrow> 'l yy_next" where
  "yyperform cell a s = (case a of
       Shift k \<Rightarrow> Inl (yypush k (yylval s) (s\<lparr>yychar := YYEMPTY, yyerrstatus := (if yyerrstatus s \<noteq> 0 then yyerrstatus s - 1 else yyerrstatus s)\<rparr>))
     | Reduce n \<Rightarrow> yyreduce cell n s
     | Reject \<Rightarrow> yyerrlab s)"

lemma yydefault_perform: "yydefault cell s = yyperform cell (yydefact_of (hd (yyss s))) s"
  by (simp add: yydefault_def yyperform_def yydefact_of_def Let_def)

lemma YYTRANSLATE_range: "0 \<le> YYTRANSLATE x \<and> YYTRANSLATE x < 43"
proof (cases "0 \<le> x \<and> x \<le> 288")
  case True
  then have "yytranslate ! nat x \<in> set yytranslate" by (intro nth_mem) (simp add: yytranslate_def nat_less_iff)
  then show ?thesis using yytranslate_range True by (simp add: YYTRANSLATE_def list_all_iff)
qed (auto simp: YYTRANSLATE_def)

lemma yydispatch_perform:
  assumes "0 < yychar s" and "yypact ! nat (hd (yyss s)) \<noteq> YYPACT_NINF"
  shows "yydispatch cell s = yyperform cell (yydecide (hd (yyss s)) (YYTRANSLATE (yychar s))) s"
  using assms by (auto simp: yydispatch_def yydecide_def yydefault_perform Let_def yyperform_def)

lemma no_error_shift: "(\<forall>q \<in> set ss. q \<in> set yystates) \<Longrightarrow> error_shift ss = None"
proof (induction ss)
  case (Cons q ss)
  have "list_all (\<lambda>s. let n = yypact ! nat s + 1 in yypact ! nat s = -62 \<or> n < 0 \<or> 101 < n \<or> yycheck ! nat n \<noteq> 1) yystates" by code_simp
  then have "let n = yypact ! nat q + 1 in yypact ! nat q = -62 \<or> n < 0 \<or> 101 < n \<or> yycheck ! nat n \<noteq> 1"
    using Cons.prems by (auto simp: list_all_iff)
  then show ?case using Cons by (auto simp: Let_def)
qed simp

lemma chain_states: "chain ss \<Longrightarrow> q \<in> set ss \<Longrightarrow> q \<in> set yystates"
proof (induction ss rule: chain.induct)
  case (3 s p ss)
  then show ?case using chain_state [OF 3(2)] by auto
qed (auto simp: yystates_def)

lemma yyerrlab_outcome:
  assumes "chain (yyss s)"
  shows "\<exists>out. yyerrlab s = Inr out \<and> yyresult out = 1 \<and> parse_tree out = None"
proof -
  have e: "error_shift (yyss s) = None" using no_error_shift chain_states [OF assms] by blast
  then show ?thesis by (auto simp: yyerrlab_def yyerrlab1_def yyreturn_def Let_def)
qed

section \<open>Values of symbols\<close>

text \<open>The cell \<open>v\<close> of the symbol \<open>x\<close> holds the value \<open>a\<close>, in the field the grammar names for the symbol.\<close>

definition cell_has :: "int \<Rightarrow> SemValue \<Rightarrow> attr \<Rightarrow> bool" where
  "cell_has x v a \<longleftrightarrow>
     (if x = 30 \<or> x = 31 \<or> x = 65 \<or> x = 66 then a = AStr (sv_str v)
      else if x = 32 then a = AInt (sv_int v)
      else if x = 33 then a = AFloat (sv_float v)
      else if x = 45 \<or> x = 46 \<or> x = 47 \<or> x = 48 then \<exists>t. a = ANode t \<and> sv_node v = Some t
      else if x = 49 then a = ANodes (sv_fields v)
      else if x = 50 then \<exists>t. a = ANode t \<and> sv_field v = Some t
      else if x = 51 then \<exists>t. a = ANode t \<and> sv_type_len v = Some t
      else if x = 52 then a = ANodes (sv_vals v)
      else if x = 53 then \<exists>t. a = ANode t \<and> sv_val v = Some t
      else if x = 54 then \<exists>t. a = ANode t \<and> sv_cond v = Some t
      else if x = 55 \<or> x = 56 then a = ANodes (sv_conds v)
      else if x = 57 then \<exists>t. a = ANode t \<and> sv_col v = Some t
      else if x = 58 \<or> x = 63 then a = ANodes (sv_cols v)
      else if x = 59 then a = AOp (sv_comp_op v)
      else if x = 60 then \<exists>t. a = ANode t \<and> sv_expr v = Some t
      else if x = 61 then a = ANodes (sv_set_clauses v)
      else if x = 62 then \<exists>t. a = ANode t \<and> sv_set_clause v = Some t
      else if x = 64 then a = AStrs (sv_strs v)
      else True)"

fun cells_have :: "int list \<Rightarrow> SemValue list \<Rightarrow> attr list \<Rightarrow> bool" where
  "cells_have [] vs as \<longleftrightarrow> vs = [] \<and> as = []"
| "cells_have (x # xs) vs as \<longleftrightarrow> (\<exists>v vs' a as'. vs = v # vs' \<and> as = a # as' \<and> cell_has x v a \<and> cells_have xs vs' as')"

lemma cells_have_append:
  "cells_have (xs @ ys) vs as \<longleftrightarrow>
   (\<exists>us ws bs cs. vs = us @ ws \<and> as = bs @ cs \<and> cells_have xs us bs \<and> cells_have ys ws cs)"
proof (induction xs arbitrary: vs as)
  case (Cons x xs)
  then show ?case by simp (metis append_Cons)
qed simp

lemma cells_have_length: "cells_have xs vs as \<Longrightarrow> length vs = length xs \<and> length as = length xs"
  by (induction xs arbitrary: vs as) auto

lemma rule_cases: "6 \<le> (n::nat) \<Longrightarrow> n \<le> 56 \<Longrightarrow> n \<in> set [6, 7, 8, 9, 10, 11, 12, 13, 14, 15, 16, 17, 18, 19, 20, 21, 22, 23, 24, 25, 26, 27, 28, 29, 30, 31, 32, 33, 34, 35, 36, 37, 38, 39, 40, 41, 42, 43, 44, 45, 46, 47, 48, 49, 50, 51, 52, 53, 54, 55, 56]"
proof -
  assume "6 \<le> n" "n \<le> 56"
  then have "n \<in> set [6..<57]" unfolding set_upt by simp
  also have "[6..<57] = [6, 7, 8, 9, 10, 11, 12, 13, 14, 15, 16, 17, 18, 19, 20, 21, 22, 23, 24, 25, 26, 27, 28, 29, 30, 31, 32, 33, 34, 35, 36, 37, 38, 39, 40, 41, 42, 43, 44, 45, 46, 47, 48, 49, 50, 51, 52, 53, 54, 55, 56]" by code_simp
  finally show ?thesis .
qed

text \<open>The action of a production computes its value.\<close>

lemma action_value:
  assumes n: "6 \<le> n" "n \<le> 56" and cells: "cells_have (yyrhs ! n) us as" and v: "\<forall>k < length us. v k = us ! (length us - 1 - k)"
    and val: "us \<noteq> [] \<Longrightarrow> yyval = hd us" "us = [] \<Longrightarrow> sv_conds yyval = []"
  shows "cell_has (yyr1 ! n) (yyaction n v yyval) (rule_attr n (\<lambda>k. as ! (k - 1)))"
  using rule_cases [OF n] cells v val
  by (simp only: set_simps insert_iff empty_iff simp_thms; elim disjE; simp add: yyrhs_eq yyr1_def)
    (auto simp: cell_has_def yyaction_def rule_attr_def nth_Cons' numeral_2_eq_2)

end
