(* ===== verification/Sql_Driver.thy ===== *)
theory Sql_Driver
  imports Sql_Stack
begin

text \<open>
  The driver \<open>yyparse\<close> of \<open>parser/yacc.tab.c\<close>: the invariant of its stacks, what a step does, and that a parse that ends has either reported one error
  or returned the tree that the grammar gives to the tokens it has read. The scanner is an interface, \<open>token_scanner\<close>. The invariant on conditions is
  there for the empty \<open>WHERE\<close> clause, whose reduction has no action and takes the value that happens to be in the cell above the stack: no cell holds
  conditions before a clause has been recognised.
\<close>

section \<open>The tokens of a scanner\<close>

text \<open>A token with a value carries it in the field of its kind, and no token is the end marker, which bison treats as the end of input.\<close>

fun tok_ok :: "token \<Rightarrow> bool" where
  "tok_ok (Tok n) \<longleftrightarrow> 0 < n \<and> (YYTRANSLATE n < 30 \<or> 33 < YYTRANSLATE n)"
| "tok_ok (TokStr n s) \<longleftrightarrow> n = T_IDENTIFIER \<or> n = T_VALUE_STRING"
| "tok_ok (TokInt i) \<longleftrightarrow> True"
| "tok_ok (TokFloat f) \<longleftrightarrow> True"

abbreviation tok_sym :: "token \<Rightarrow> int" where
  "tok_sym t \<equiv> YYTRANSLATE (tok_num t)"

text \<open>The tokens \<open>ts\<close> are the next ones of the scanner, from one location and state to another.\<close>

fun lexed :: "'l yylex_fun \<Rightarrow> YYLTYPE \<times> 'l \<Rightarrow> token list \<Rightarrow> YYLTYPE \<times> 'l \<Rightarrow> bool" where
  "lexed scan p [] p' \<longleftrightarrow> p' = p"
| "lexed scan p (t # ts) p' \<longleftrightarrow> (\<exists>loc l. scan (fst p) (snd p) = Some (t, loc, l) \<and> lexed scan (loc, l) ts p')"

lemma lexed_append: "lexed scan p (ts @ us) p' \<longleftrightarrow> (\<exists>q. lexed scan p ts q \<and> lexed scan q us p')"
  by (induction ts arbitrary: p) auto

lemma tok_sym_values: "YYTRANSLATE 285 = 30" "YYTRANSLATE 286 = 31" "YYTRANSLATE 287 = 32" "YYTRANSLATE 288 = 33" "YYTRANSLATE 284 = 29"
  by code_simp+

lemma tok_cell: "tok_ok t \<Longrightarrow> cell_has (tok_sym t) (tok_val t v) (tok_attr t)"
  using YYTRANSLATE_range [of "tok_num t"] by (cases t) (auto simp: cell_has_def tok_sym_values)

lemma tok_positive: "tok_ok t \<Longrightarrow> 0 < tok_num t"
  by (cases t) auto

lemma tok_val_conds [simp]: "sv_conds (tok_val t v) = sv_conds v"
  by (cases t) auto

section \<open>The invariant of the driver\<close>

definition where_syms :: "int list" where
  "where_syms = [45, 48, 55, 56]"

definition nowhere :: "int list" where
  "nowhere = [0, 6, 7, 8, 25, 26, 31, 41, 42, 44, 53, 57]"

lemma nowhere_check: "list_all (\<lambda>s. yystos ! nat s \<notin> set where_syms \<and> list_all (\<lambda>p. p \<in> set nowhere) (yypreds ! nat s)) nowhere"
  by code_simp

lemma where_check: "list_all (\<lambda>n. yyr1 ! n \<in> set where_syms) (filter (\<lambda>n. list_ex (\<lambda>x. x \<in> set where_syms) (yyrhs ! n)) [6..<57])"
  by code_simp

lemma where_rule: "6 \<le> n \<Longrightarrow> n \<le> 56 \<Longrightarrow> x \<in> set (yyrhs ! n) \<Longrightarrow> x \<in> set where_syms \<Longrightarrow> yyr1 ! n \<in> set where_syms"
  using where_check unfolding list_all_iff set_filter set_upt list_ex_iff by auto

lemma where_actions: "list_all (\<lambda>n. yyr1 ! n \<in> set where_syms) [32, 33, 34]"
  by code_simp

lemma empty_rules: "list_all (\<lambda>n. yyrhs ! n \<noteq> []) (filter (\<lambda>n. n \<noteq> 31) [2..<57])"
  by code_simp

lemma clause_states: "list_all (\<lambda>s. list_all (\<lambda>p. p \<in> set [41, 53, 57]) (yypreds ! nat s)) (filter (\<lambda>s. yystos ! nat s = 55) [0..110])"
  by code_simp

lemma nowhere_chain: "chain ss \<Longrightarrow> hd ss \<in> set nowhere \<Longrightarrow> q \<in> set ss \<Longrightarrow> yysym q \<notin> set where_syms"
proof (induction ss rule: chain.induct)
  case (2 s)
  then show ?case using nowhere_check by (auto simp: list_all_iff)
next
  case (3 s p ss)
  then show ?case using nowhere_check by (auto simp: list_all_iff)
qed simp

definition conds_ok :: "'l yyparser \<Rightarrow> bool" where
  "conds_ok s \<longleftrightarrow> (\<forall>v \<in> set (yyvs s) \<union> set (yyover s). sv_conds v \<noteq> [] \<longrightarrow> (\<exists>q \<in> set (yyss s). yysym q \<in> set where_syms))"

definition parser_core :: "('l \<Rightarrow> bool) \<Rightarrow> 'l yyparser \<Rightarrow> bool" where
  "parser_core good s \<longleftrightarrow> chain (yyss s) \<and> length (yyvs s) = length (yyss s) \<and> conds_ok s \<and> sv_conds (yylval s) = [] \<and> yyerrstatus s = 0 \<and> yycerr s = [] \<and>
     (yychar s = YYEMPTY \<or> 0 < yychar s) \<and> good (yyscan s)"

text \<open>Between two steps a token is pending only above a nonterminal.\<close>

definition parser_ok :: "('l \<Rightarrow> bool) \<Rightarrow> 'l yyparser \<Rightarrow> bool" where
  "parser_ok good s \<longleftrightarrow> parser_core good s \<and> (yychar s = YYEMPTY \<or> 43 \<le> yysym (hd (yyss s)))"

lemma yyaction_conds: "n \<noteq> 32 \<Longrightarrow> n \<noteq> 33 \<Longrightarrow> n \<noteq> 34 \<Longrightarrow> sv_conds (yyaction n v yyval) = sv_conds yyval"
  by (simp add: yyaction_def)

lemma reduce_clause:
  assumes "chain ss" and "reduce_ok (hd ss) 31" and "q \<in> set ss"
  shows "yysym q \<notin> set where_syms" and "hd ss \<in> set [41, 53, 57]"
proof -
  have "chain (yygoto (ss ! 0) (yyr1 ! 31) # drop 0 ss) \<and> yysym (yygoto (ss ! 0) (yyr1 ! 31)) = yyr1 ! 31"
    using reduce_chain(6) [OF assms(1,2)] by (simp add: yyrhs_eq)
  moreover have "yyr1 ! 31 = 55" by code_simp
  moreover obtain p rest where ss: "ss = p # rest" using assms(1) by (cases ss) auto
  ultimately have "yysym (yygoto p 55) = 55" "p \<in> set (yypreds ! nat (yygoto p 55))" "0 \<le> yygoto p 55" "yygoto p 55 < 111" by simp_all
  then show "hd ss \<in> set [41, 53, 57]" using clause_states ss by (auto simp: list_all_iff)
  then have "hd ss \<in> set nowhere" by (auto simp: nowhere_def)
  then show "yysym q \<notin> set where_syms" using nowhere_chain assms by blast
qed

text \<open>The reduction of a production that does not end the parse.\<close>

definition reduced :: "SemValue \<Rightarrow> nat \<Rightarrow> 'l yyparser \<Rightarrow> 'l yyparser" where
  "reduced cell n s = (let k = length (yyrhs ! n) in
     yypush (yygoto (yyss s ! k) (yyr1 ! n)) (yyaction n ((!) (yyvs s)) (yyval_default cell k s)) (YYPOPSTACK k s))"

lemma yyreduce_reduced: "6 \<le> n \<Longrightarrow> n \<le> 56 \<Longrightarrow> length (yyrhs ! n) < length (yyss s) \<Longrightarrow> yyreduce cell n s = Inl (reduced cell n s)"
  by (simp add: yyreduce_def reduced_def yyaccept_def yyr2_at Let_def YYPOPSTACK_def hd_drop_conv_nth)

lemma reduced_sel [simp]:
  "yyss (reduced cell n s) = yygoto (yyss s ! length (yyrhs ! n)) (yyr1 ! n) # drop (length (yyrhs ! n)) (yyss s)"
  "yyvs (reduced cell n s) =
     yyaction n ((!) (yyvs s)) (yyval_default cell (length (yyrhs ! n)) s) # drop (length (yyrhs ! n)) (yyvs s)"
  "yyover (reduced cell n s) = tl (rev (take (length (yyrhs ! n)) (yyvs s)) @ yyover s)"
  "yychar (reduced cell n s) = yychar s" "yylval (reduced cell n s) = yylval s" "yyerrstatus (reduced cell n s) = yyerrstatus s"
  "yyscan (reduced cell n s) = yyscan s" "yylloc (reduced cell n s) = yylloc s" "yycerr (reduced cell n s) = yycerr s"
  by (simp_all add: reduced_def yypush_def YYPOPSTACK_def Let_def)

lemma set_tl_subset: "set (tl xs) \<subseteq> set xs"
  by (cases xs) auto

lemma yyval_default_mem:
  assumes "sv_conds cell = []" and "k \<le> length (yyvs s)"
  shows "sv_conds (yyval_default cell k s) = [] \<or> yyval_default cell k s \<in> set (yyvs s) \<union> set (yyover s)"
  using assms by (auto simp: yyval_default_def split: list.splits)

lemma reduced_ok:
  assumes ok: "parser_core good s" and r: "reduce_ok (hd (yyss s)) n" and n: "6 \<le> n" and cell: "sv_conds cell = []"
  shows "parser_ok good (reduced cell n s)"
proof -
  let ?k = "length (yyrhs ! n)" and ?q = "yygoto (yyss s ! length (yyrhs ! n)) (yyr1 ! n)"
  have c: "chain (yyss s)" and l: "length (yyvs s) = length (yyss s)" and w: "conds_ok s" using ok by (simp_all add: parser_core_def)
  note R = reduce_chain [OF c r]
  have q: "chain (?q # drop ?k (yyss s))" "yysym ?q = yyr1 ! n" using R(6) n by simp_all
  have kept: "\<exists>p \<in> set (yyss (reduced cell n s)). yysym p \<in> set where_syms" if "\<exists>p \<in> set (yyss s). yysym p \<in> set where_syms"
  proof -
    from that obtain p where p: "p \<in> set (yyss s)" "yysym p \<in> set where_syms" by blast
    then consider "p \<in> set (take ?k (yyss s))" | "p \<in> set (drop ?k (yyss s))" by (metis Un_iff append_take_drop_id set_append)
    then show ?thesis
    proof cases
      case 1
      then have "yysym p \<in> set (map yysym (take ?k (yyss s)))" by auto
      then have "yysym p \<in> set (yyrhs ! n)" using R(4) by simp
      then have "yyr1 ! n \<in> set where_syms" using where_rule n R(2) p(2) by blast
      then show ?thesis using q by simp
    qed (use p in auto)
  qed
  have "conds_ok (reduced cell n s)" unfolding conds_ok_def
  proof (intro ballI impI)
    fix v assume v: "v \<in> set (yyvs (reduced cell n s)) \<union> set (yyover (reduced cell n s))" "sv_conds v \<noteq> []"
    have sub: "set (tl (rev (take ?k (yyvs s)) @ yyover s)) \<subseteq> set (yyvs s) \<union> set (yyover s)"
      using set_take_subset [of ?k "yyvs s"] set_tl_subset [of "rev (take ?k (yyvs s)) @ yyover s"] by auto
    have old: "\<exists>p \<in> set (yyss s). yysym p \<in> set where_syms" if "u \<in> set (yyvs s) \<union> set (yyover s)" "sv_conds u \<noteq> []" for u
      using w that unfolding conds_ok_def by blast
    consider "v \<in> set (yyvs s) \<union> set (yyover s)" | "v = yyaction n ((!) (yyvs s)) (yyval_default cell ?k s)"
      using v(1) sub by (auto dest: in_set_dropD)
    then show "\<exists>p \<in> set (yyss (reduced cell n s)). yysym p \<in> set where_syms"
    proof cases
      case 1
      then show ?thesis using kept old v(2) by blast
    next
      case 2
      show ?thesis
      proof (cases "n \<in> {32, 33, 34}")
        case True
        then have "yyr1 ! n \<in> set where_syms" using where_actions by auto
        then show ?thesis using q by simp
      next
        case False
        then have "sv_conds (yyval_default cell ?k s) \<noteq> []" using 2 v(2) by (simp add: yyaction_conds)
        then show ?thesis using yyval_default_mem [OF cell, of ?k s] R(3) l kept old by auto
      qed
    qed
  qed
  moreover have "43 \<le> yysym ?q" using q yyr1_at [of n] n R(2) by simp
  ultimately show ?thesis using ok q l R(3) by (auto simp: parser_ok_def parser_core_def)
qed

section \<open>Steps\<close>

text \<open>The state in which the driver acts, a token read if it needs one, and what it does there.\<close>

definition yylook :: "'l yylex_fun \<Rightarrow> 'l yyparser \<Rightarrow> ('l yyparser \<times> yyact) option" where
  "yylook scan s =
     (let q = hd (yyss s)
      in if yypact ! nat q = YYPACT_NINF then Some (s, yydefact_of q)
         else map_option (\<lambda>s1. (s1, yydecide q (YYTRANSLATE (yychar s1)))) (read_token scan s))"

locale token_scanner =
  fixes scan :: "'l yylex_fun" and good :: "'l \<Rightarrow> bool"
  assumes scan_ok: "good l \<Longrightarrow> scan loc0 l = Some (t, loc, l') \<Longrightarrow> tok_ok t"
    and scan_inv: "good l \<Longrightarrow> scan loc0 l = Some (t, loc, l') \<Longrightarrow> good l'"
begin

lemma read_core:
  assumes "parser_ok good s" and "read_token scan s = Some s1"
  shows "parser_core good s1" and "0 < yychar s1" and "yyss s1 = yyss s" and "yyvs s1 = yyvs s" and "yyover s1 = yyover s"
proof -
  have i: "good (yyscan s)" using assms(1) by (simp add: parser_ok_def parser_core_def)
  have "parser_core good s1 \<and> 0 < yychar s1 \<and> yyss s1 = yyss s \<and> yyvs s1 = yyvs s \<and> yyover s1 = yyover s"
  proof (cases "yychar s = YYEMPTY")
    case True
    then obtain t loc l where t: "scan (yylloc s) (yyscan s) = Some (t, loc, l)"
      "s1 = s\<lparr>yychar := tok_num t, yylval := tok_val t (yylval s), yylloc := loc, yyscan := l\<rparr>"
      using assms(2) by (auto simp: read_token_def)
    moreover have "0 < tok_num t" "good l" using scan_ok [OF i t(1)] scan_inv [OF i t(1)] by (simp_all add: tok_positive)
    ultimately show ?thesis using assms(1) by (simp add: parser_ok_def parser_core_def conds_ok_def)
  qed (use assms in \<open>auto simp: read_token_def parser_ok_def parser_core_def\<close>)
  then show "parser_core good s1" and "0 < yychar s1" and "yyss s1 = yyss s" and "yyvs s1 = yyvs s" and "yyover s1 = yyover s" by auto
qed

lemma yysetstate_look:
  assumes "parser_ok good s"
  shows "yysetstate scan cell s = map_option (\<lambda>(s1, a). yyperform cell a s1) (yylook scan s)"
proof -
  have c: "chain (yyss s)" using assms by (simp add: parser_ok_def parser_core_def)
  then have "length (yyss s) < 200" using chain_bounded by fastforce
  moreover have "hd (yyss s) \<noteq> 34" using chain_states [OF c, of "hd (yyss s)"] c by (cases "yyss s") (auto simp: yystates_def)
  moreover have "yydispatch cell s1 = yyperform cell (yydecide (hd (yyss s)) (YYTRANSLATE (yychar s1))) s1"
    if "read_token scan s = Some s1" "yypact ! nat (hd (yyss s)) \<noteq> YYPACT_NINF" for s1
    using yydispatch_perform [of s1] read_core [OF assms that(1)] that(2) by simp
  ultimately show ?thesis
    by (cases "read_token scan s") (auto simp: yysetstate_def yybackup_def yylook_def yydefault_perform Let_def)
qed

lemma yylook_ok:
  assumes ok: "parser_ok good s" and look: "yylook scan s = Some (s1, a)"
  shows "parser_core good s1" and "yyss s1 = yyss s" and "yyvs s1 = yyvs s" and "yyover s1 = yyover s"
    and "act_ok (hd (yyss s)) (YYTRANSLATE (yychar s1)) a" and "\<And>q. a = Shift q \<Longrightarrow> 0 < yychar s1"
proof -
  have c: "chain (yyss s)" using ok by (simp add: parser_ok_def parser_core_def)
  then have st: "hd (yyss s) \<in> set yystates" using chain_states [OF c, of "hd (yyss s)"] by (cases "yyss s") auto
  have D: "act_ok (hd (yyss s)) t (yydecide (hd (yyss s)) t)" if "0 \<le> t" "t < 43" for t using decide_ok [OF st that] .
  have "parser_core good s1 \<and> yyss s1 = yyss s \<and> yyvs s1 = yyvs s \<and> yyover s1 = yyover s \<and> act_ok (hd (yyss s)) (YYTRANSLATE (yychar s1)) a \<and>
    (\<forall>q. a = Shift q \<longrightarrow> 0 < yychar s1)"
  proof (cases "yypact ! nat (hd (yyss s)) = YYPACT_NINF")
    case True
    then have a: "s1 = s" "a = yydefact_of (hd (yyss s))" using look by (auto simp: yylook_def Let_def)
    moreover have "yydecide (hd (yyss s)) t = a" for t using True a by (simp add: yydecide_def)
    moreover have "a \<noteq> Shift q" for q using a by (simp add: yydefact_of_def Let_def)
    ultimately show ?thesis using ok D [of "YYTRANSLATE (yychar s)"] YYTRANSLATE_range [of "yychar s"] by (simp add: parser_ok_def)
  next
    case False
    then have r: "read_token scan s = Some s1" "a = yydecide (hd (yyss s)) (YYTRANSLATE (yychar s1))"
      using look by (auto simp: yylook_def Let_def)
    then show ?thesis using read_core [OF ok r(1)] D YYTRANSLATE_range by simp
  qed
  then show "parser_core good s1" and "yyss s1 = yyss s" and "yyvs s1 = yyvs s" and "yyover s1 = yyover s"
    and "act_ok (hd (yyss s)) (YYTRANSLATE (yychar s1)) a" and "\<And>q. a = Shift q \<Longrightarrow> 0 < yychar s1" by blast+
qed

end

lemma shift_ok:
  assumes ok: "parser_core good s" and a: "act_ok (hd (yyss s)) x (Shift q)"
  shows "\<exists>s'. yyperform cell (Shift q) s = Inl s' \<and> parser_ok good s' \<and> yyss s' = q # yyss s \<and> yyvs s' = yylval s # yyvs s \<and> yychar s' = YYEMPTY \<and>
    yylval s' = yylval s \<and> yyscan s' = yyscan s \<and> yylloc s' = yylloc s"
proof -
  have "chain (q # yyss s)" using ok a by (cases "yyss s") (auto simp: parser_core_def)
  moreover have "\<exists>p \<in> set (q # yyss s). yysym p \<in> set where_syms"
    if "v \<in> set (yylval s # yyvs s) \<union> set (tl (yyover s))" "sv_conds v \<noteq> []" for v
    using that ok set_tl_subset [of "yyover s"] by (auto simp: parser_core_def conds_ok_def)
  ultimately show ?thesis using ok by (auto simp: yyperform_def yypush_def parser_ok_def parser_core_def conds_ok_def)
qed

lemma reduce_outcome:
  assumes ok: "parser_core good s" and r: "reduce_ok (hd (yyss s)) n" and cell: "sv_conds cell = []"
  shows "6 \<le> n \<Longrightarrow> yyperform cell (Reduce n) s = Inl (reduced cell n s) \<and> parser_ok good (reduced cell n s)"
    and "n \<le> 5 \<Longrightarrow> yyperform cell (Reduce n) s = yyreturn 0 (yyaccept n ((!) (yyvs s))) s \<and> yyaccept n ((!) (yyvs s)) \<noteq> None"
proof -
  note R = reduce_chain [OF _ r]
  have c: "chain (yyss s)" using ok by (simp add: parser_core_def)
  show "yyperform cell (Reduce n) s = Inl (reduced cell n s) \<and> parser_ok good (reduced cell n s)" if "6 \<le> n"
    using reduced_ok [OF ok r that cell] yyreduce_reduced [OF that] R(2,3) [OF c] by (simp add: yyperform_def)
  have "n = 2 \<or> n = 3 \<or> n = 4 \<or> n = 5" if "n \<le> 5" using that R(1) [OF c] by linarith
  then show "yyperform cell (Reduce n) s = yyreturn 0 (yyaccept n ((!) (yyvs s))) s \<and> yyaccept n ((!) (yyvs s)) \<noteq> None" if "n \<le> 5"
    using that by (auto simp: yyperform_def yyreduce_def yyaccept_def)
qed

section \<open>What is accepted is derived\<close>

lemma derives_all_append: "derives_all Xs ts as \<Longrightarrow> derives_all Ys us bs \<Longrightarrow> derives_all (Xs @ Ys) (ts @ us) (as @ bs)"
proof (induction Xs arbitrary: ts as)
  case Nil
  then show ?case by (auto elim: derives_all.cases)
next
  case (Cons X Xs)
  from Cons.prems(1) obtain t1 t2 a as' where "ts = t1 @ t2" "as = a # as'" "derives X t1 a" "derives_all Xs t2 as'"
    by (auto elim: derives_all.cases)
  then show ?case using derives_Cons [OF _ Cons.IH] Cons.prems(2) by simp
qed

lemma derives_all_split:
  "derives_all (Xs @ Ys) ts as \<Longrightarrow> \<exists>t1 t2 a1 a2. ts = t1 @ t2 \<and> as = a1 @ a2 \<and> derives_all Xs t1 a1 \<and> derives_all Ys t2 a2"
proof (induction Xs arbitrary: ts as)
  case Nil
  then show ?case using derives_Nil by (metis append_Nil)
next
  case (Cons X Xs)
  from Cons.prems obtain t1 t2 a as' where X: "ts = t1 @ t2" "as = a # as'" "derives X t1 a" "derives_all (Xs @ Ys) t2 as'"
    by (auto elim: derives_all.cases)
  from Cons.IH [OF X(4)] obtain u1 u2 b1 b2 where "t2 = u1 @ u2" "as' = b1 @ b2" "derives_all Xs u1 b1" "derives_all Ys u2 b2" by blast
  then show ?case using X derives_Cons [of X t1 a Xs u1 b1] by (metis append.assoc append_Cons)
qed

lemma derives_all_length: "derives_all Xs ts as \<Longrightarrow> length as = length Xs"
  by (induction Xs arbitrary: ts as) (auto elim: derives_all.cases)

lemma cells_have_snoc: "cells_have xs vs as \<Longrightarrow> cell_has x v a \<Longrightarrow> cells_have (xs @ [x]) (vs @ [v]) (as @ [a])"
  by (induction xs arbitrary: vs as) auto

definition lookahead :: "token list \<Rightarrow> 'l yyparser \<Rightarrow> bool" where
  "lookahead la s \<longleftrightarrow> yychar s = YYEMPTY \<and> la = [] \<or> (\<exists>t v. la = [t] \<and> tok_ok t \<and> yychar s = tok_num t \<and> yylval s = tok_val t v)"

text \<open>The symbols of the stack, from the bottom, derive the tokens shifted so far, with the values of their cells.\<close>

definition recognised :: "'l yylex_fun \<Rightarrow> YYLTYPE \<times> 'l \<Rightarrow> 'l yyparser \<Rightarrow> token list \<Rightarrow> attr list \<Rightarrow> token list \<Rightarrow> bool" where
  "recognised scan p0 s ts as la \<longleftrightarrow>
     (let xs = map yysym (tl (rev (yyss s)))
      in derives_all xs ts as \<and> cells_have xs (tl (rev (yyvs s))) as \<and> lexed scan p0 (ts @ la) (yylloc s, yyscan s) \<and> lookahead la s)"

lemma recognised_shift:
  assumes ok: "parser_core good s" and r: "recognised scan p0 s ts as la" and c: "0 < yychar s" and q: "yysym q = YYTRANSLATE (yychar s)"
    and s': "yyss s' = q # yyss s" "yyvs s' = yylval s # yyvs s" "yychar s' = YYEMPTY" "yyscan s' = yyscan s" "yylloc s' = yylloc s"
  shows "\<exists>ts' as'. recognised scan p0 s' ts' as' []"
proof -
  from r c obtain t v where t: "la = [t]" "tok_ok t" "yychar s = tok_num t" "yylval s = tok_val t v"
    by (auto simp: recognised_def lookahead_def Let_def)
  have ne: "rev (yyss s) \<noteq> []" "rev (yyvs s) \<noteq> []" using ok by (auto simp: parser_core_def)
  have "derives (yysym q) [t] (tok_attr t)" using derives_token [of t] q t by simp
  moreover have "cell_has (yysym q) (yylval s) (tok_attr t)" using tok_cell [OF t(2)] q t by simp
  ultimately have "recognised scan p0 s' (ts @ [t]) (as @ [tok_attr t]) []"
    using r s' t(1) ne derives_all_append [of _ ts as "[yysym q]" "[t]" "[tok_attr t]"] derives_Cons [OF _ derives_Nil, of "yysym q" "[t]"]
    by (auto simp: recognised_def lookahead_def Let_def tl_append2 intro: cells_have_snoc)
  then show ?thesis by blast
qed

lemma stack_split:
  assumes "k < length xs"
  shows "tl (rev xs) = tl (rev (drop k xs)) @ rev (take k xs)"
proof -
  have "rev xs = rev (drop k xs) @ rev (take k xs)" by (metis append_take_drop_id rev_append)
  moreover have "rev (drop k xs) \<noteq> []" using assms by simp
  ultimately show ?thesis by (metis tl_append2)
qed

lemma recognised_split:
  assumes ok: "parser_core good s" and r: "reduce_ok (hd (yyss s)) n" and rec: "recognised scan p0 s ts as la"
  defines "k \<equiv> length (yyrhs ! n)"
  obtains t1 t2 a1 a2 where "ts = t1 @ t2" "as = a1 @ a2"
    "derives_all (map yysym (tl (rev (drop k (yyss s))))) t1 a1" "derives_all (yyrhs ! n) t2 a2"
    "cells_have (map yysym (tl (rev (drop k (yyss s))))) (tl (rev (drop k (yyvs s)))) a1" "cells_have (yyrhs ! n) (rev (take k (yyvs s))) a2"
proof -
  let ?bs = "map yysym (tl (rev (drop k (yyss s))))" and ?ws = "tl (rev (drop k (yyvs s)))"
  have c: "chain (yyss s)" and l: "length (yyvs s) = length (yyss s)" using ok by (simp_all add: parser_core_def)
  note R = reduce_chain [OF c r, folded k_def]
  have xs: "map yysym (tl (rev (yyss s))) = ?bs @ yyrhs ! n"
    using stack_split [OF R(3)] R(4) by (simp flip: rev_map)
  have vs: "tl (rev (yyvs s)) = ?ws @ rev (take k (yyvs s))" using stack_split [of k "yyvs s"] R(3) l by simp
  have d: "derives_all (?bs @ yyrhs ! n) ts as" and cs: "cells_have (?bs @ yyrhs ! n) (?ws @ rev (take k (yyvs s))) as"
    using rec xs vs by (simp_all add: recognised_def Let_def)
  from derives_all_split [OF d] obtain t1 t2 a1 a2 where D: "ts = t1 @ t2" "as = a1 @ a2" "derives_all ?bs t1 a1" "derives_all (yyrhs ! n) t2 a2" by blast
  from cs obtain us ws bs cs where C: "?ws @ rev (take k (yyvs s)) = us @ ws" "as = bs @ cs" "cells_have ?bs us bs" "cells_have (yyrhs ! n) ws cs"
    by (auto simp: cells_have_append)
  have "length us = length ?ws" using cells_have_length [OF C(3)] l by simp
  then have "us = ?ws" "ws = rev (take k (yyvs s))" using C(1) by (simp_all add: append_eq_append_conv)
  moreover have "length bs = length a1" using cells_have_length [OF C(3)] derives_all_length [OF D(3)] by simp
  then have "bs = a1" "cs = a2" using C(2) D(2) by (simp_all add: append_eq_append_conv)
  ultimately show thesis using that D C by blast
qed

lemma reduced_value:
  assumes ok: "parser_core good s" and r: "reduce_ok (hd (yyss s)) n" and n: "6 \<le> n" and cell: "sv_conds cell = []"
    and cs: "cells_have (yyrhs ! n) (rev (take (length (yyrhs ! n)) (yyvs s))) as"
  shows "cell_has (yyr1 ! n) (hd (yyvs (reduced cell n s))) (rule_attr n (\<lambda>k. as ! (k - 1)))"
proof -
  let ?k = "length (yyrhs ! n)"
  have c: "chain (yyss s)" and l: "length (yyvs s) = length (yyss s)" using ok by (simp_all add: parser_core_def)
  note R = reduce_chain [OF c r]
  have len: "length (rev (take ?k (yyvs s))) = ?k" using R(3) l by simp
  have "\<forall>k < length (rev (take ?k (yyvs s))). yyvs s ! k = rev (take ?k (yyvs s)) ! (length (rev (take ?k (yyvs s))) - 1 - k)"
    unfolding len using R(3) l by (auto simp: rev_nth)
  moreover have "yyval_default cell ?k s = hd (rev (take ?k (yyvs s)))" if "rev (take ?k (yyvs s)) \<noteq> []"
    using that R(3) l by (auto simp: yyval_default_def hd_rev last_conv_nth)
  moreover have "sv_conds (yyval_default cell ?k s) = []" if "rev (take ?k (yyvs s)) = []"
  proof -
    have k: "yyrhs ! n = []" using that len by (metis length_0_conv)
    then have "n = 31" using empty_rules R(1,2) unfolding list_all_iff set_filter set_upt by auto
    then have "\<forall>q \<in> set (yyss s). yysym q \<notin> set where_syms" using reduce_clause(1) [OF c] r by blast
    then show ?thesis using ok yyval_default_mem [OF cell, of ?k s] k unfolding parser_core_def conds_ok_def by auto
  qed
  ultimately show ?thesis using action_value [OF n R(2) cs, of "(!) (yyvs s)" "yyval_default cell ?k s"] by simp
qed

lemma recognised_reduce:
  assumes ok: "parser_core good s" and r: "reduce_ok (hd (yyss s)) n" and n: "6 \<le> n" and cell: "sv_conds cell = []"
    and rec: "recognised scan p0 s ts as la"
  shows "\<exists>as'. recognised scan p0 (reduced cell n s) ts as' la"
proof -
  let ?k = "length (yyrhs ! n)"
  have c: "chain (yyss s)" and l: "length (yyvs s) = length (yyss s)" using ok by (simp_all add: parser_core_def)
  note R = reduce_chain [OF c r]
  obtain t1 t2 a1 a2 where S: "ts = t1 @ t2" "as = a1 @ a2"
    "derives_all (map yysym (tl (rev (drop ?k (yyss s))))) t1 a1" "derives_all (yyrhs ! n) t2 a2"
    "cells_have (map yysym (tl (rev (drop ?k (yyss s))))) (tl (rev (drop ?k (yyvs s)))) a1" "cells_have (yyrhs ! n) (rev (take ?k (yyvs s))) a2"
    by (rule recognised_split [OF ok r rec])
  let ?a = "rule_attr n (\<lambda>k. a2 ! (k - 1))" and ?t = "reduced cell n s"
  have d: "derives (yyr1 ! n) t2 ?a" using derives_rule [OF R(1,2) S(4)] yyr1_at [of n] R(1,2) by simp
  have v: "cell_has (yyr1 ! n) (hd (yyvs ?t)) ?a" by (rule reduced_value [OF ok r n cell S(6)])
  have "map yysym (tl (rev (yyss ?t))) = map yysym (tl (rev (drop ?k (yyss s)))) @ [yyr1 ! n]" and
    "tl (rev (yyvs ?t)) = tl (rev (drop ?k (yyvs s))) @ [hd (yyvs ?t)]"
    using R(3) R(6) n l by (simp_all add: tl_append2)
  moreover have "derives_all (map yysym (tl (rev (drop ?k (yyss s)))) @ [yyr1 ! n]) ts (a1 @ [?a])"
    using derives_all_append [OF S(3) derives_Cons [OF d derives_Nil]] S(1) by simp
  ultimately have "recognised scan p0 ?t ts (a1 @ [?a]) la"
    using rec S(5) v by (auto simp: recognised_def lookahead_def Let_def intro: cells_have_snoc simp del: reduced_sel(1,2))
  then show ?thesis by blast
qed

lemma accept_states: "list_all (\<lambda>s. yypact ! nat s = YYPACT_NINF) (filter (\<lambda>s. yystos ! nat s \<in> set [24, 25, 29, 34]) [0..110])"
  by code_simp

lemma start_rules: "list_all (\<lambda>n. last (yyrhs ! n) \<in> set [24, 25, 29, 34] \<and> yyrhs ! n \<noteq> [] \<and> yyr1 ! n = 44) [2, 3, 4, 5]"
  by code_simp

text \<open>A state in which the parse ends does not look at the next token.\<close>

lemma accept_state:
  assumes c: "chain (yyss s)" and r: "reduce_ok (hd (yyss s)) n" and n: "n \<le> 5"
  shows "yypact ! nat (hd (yyss s)) = YYPACT_NINF" and "yysym (hd (yyss s)) < 43" and "yyr1 ! n = 44" and "drop (length (yyrhs ! n)) (yyss s) = [0]"
proof -
  let ?k = "length (yyrhs ! n)"
  note R = reduce_chain [OF c r]
  have "n = 2 \<or> n = 3 \<or> n = 4 \<or> n = 5" using n R(1) by linarith
  then have "n \<in> set [2, 3, 4, 5]" by simp
  then have N: "last (yyrhs ! n) \<in> set [24, 25, 29, 34]" "yyrhs ! n \<noteq> []" "yyr1 ! n = 44" using start_rules unfolding list_all_iff by blast+
  obtain q ss where ss: "yyss s = q # ss" using c by (cases "yyss s") auto
  then have q: "q \<in> set yystates" using chain_state c by simp
  have "hd (map yysym (take ?k (yyss s))) = last (yyrhs ! n)" using R(4) by (simp add: hd_rev)
  then have sym: "yysym q = last (yyrhs ! n)" using N(2) ss by (cases ?k) auto
  then have "q \<in> set (filter (\<lambda>s. yystos ! nat s \<in> set [24, 25, 29, 34]) [0..110])" using q N(1) by (auto simp: yystates_def)
  then show "yypact ! nat (hd (yyss s)) = YYPACT_NINF" using accept_states ss unfolding list_all_iff by simp
  show "yysym (hd (yyss s)) < 43" using sym ss N(1) by auto
  show "yyr1 ! n = 44" by (rule N(3))
  have "drop ?k (yyss s) = 0 # drop (Suc ?k) (yyss s)" using Cons_nth_drop_Suc [OF R(3)] R(5) [OF n] by simp
  then show "drop ?k (yyss s) = [0]" using chain_drop [OF c R(3)] chain_zero by metis
qed

lemma accepted_tree:
  assumes "n \<in> {2, 3, 4, 5}" and "cells_have (yyrhs ! n) us as" and "\<forall>k < length us. v k = us ! (length us - 1 - k)"
  shows "\<exists>r. yyaccept n v = Some r \<and> rule_attr n (\<lambda>k. as ! (k - 1)) = ARoot r"
  using assms by (elim insertE; simp add: yyrhs_eq yyaccept_def rule_attr_def) (auto simp: cell_has_def)

text \<open>A parse that ends: it reports one error, or returns the tree of the tokens that it has read.\<close>

definition outcome_ok :: "'l yylex_fun \<Rightarrow> YYLTYPE \<times> 'l \<Rightarrow> 'l yyoutcome \<Rightarrow> bool" where
  "outcome_ok scan p0 out \<longleftrightarrow> (\<exists>ts loc. lexed scan p0 ts (loc, yyout_scan out) \<and>
     (yyresult out = 1 \<and> parse_tree out = None \<and> length (yyout_cerr out) = 1 \<or>
      yyresult out = 0 \<and> yyout_cerr out = [] \<and> (\<exists>r. parse_tree out = Some r \<and> derives 44 ts (ARoot r))))"

context token_scanner
begin

lemma recognised_look:
  assumes ok: "parser_ok good s" and look: "yylook scan s = Some (s1, a)" and rec: "recognised scan p0 s ts as la"
  shows "\<exists>la'. recognised scan p0 s1 ts as la'"
proof (cases "s1 = s")
  case False
  then have r: "read_token scan s = Some s1" using look by (auto simp: yylook_def Let_def split: if_splits)
  with False have e: "yychar s = YYEMPTY" by (auto simp: read_token_def split: if_splits)
  with r obtain t loc l where t: "scan (yylloc s) (yyscan s) = Some (t, loc, l)"
    "s1 = s\<lparr>yychar := tok_num t, yylval := tok_val t (yylval s), yylloc := loc, yyscan := l\<rparr>"
    by (auto simp: read_token_def)
  have i: "good (yyscan s)" using ok by (simp add: parser_ok_def parser_core_def)
  have "la = []" using rec e by (auto simp: recognised_def lookahead_def Let_def dest: tok_positive)
  then have "recognised scan p0 s1 ts as [t]"
    using rec t scan_ok [OF i t(1)] by (auto simp: recognised_def lookahead_def Let_def lexed_append)
  then show ?thesis by blast
qed (use rec in blast)

lemma accept_ok:
  assumes ok: "parser_ok good s" and look: "yylook scan s = Some (s1, Reduce n)" and n: "n \<le> 5" and rec: "recognised scan p0 s ts as la"
    and cell: "sv_conds cell = []"
  shows "\<exists>out. yyperform cell (Reduce n) s1 = Inr out \<and> outcome_ok scan p0 out"
proof -
  let ?k = "length (yyrhs ! n)"
  note L = yylook_ok [OF ok look]
  have r: "reduce_ok (hd (yyss s)) n" using L(5) by simp
  have core: "parser_core good s" and c: "chain (yyss s)" and l: "length (yyvs s) = length (yyss s)"
    using ok by (simp_all add: parser_ok_def parser_core_def)
  note A = accept_state [OF c r n] and R = reduce_chain [OF c r]
  have s1: "s1 = s" using look A(1) by (simp add: yylook_def Let_def)
  have "yychar s = YYEMPTY" using ok A(2) by (auto simp: parser_ok_def)
  then have la: "la = []" using rec by (auto simp: recognised_def lookahead_def Let_def dest: tok_positive)
  obtain t1 t2 a1 a2 where S: "ts = t1 @ t2" "derives_all (map yysym (tl (rev (drop ?k (yyss s))))) t1 a1" "derives_all (yyrhs ! n) t2 a2"
    "cells_have (yyrhs ! n) (rev (take ?k (yyvs s))) a2"
    by (rule recognised_split [OF core r rec])
  have "t1 = []" using S(2) A(4) by (auto elim: derives_all.cases)
  then have d: "derives 44 ts (rule_attr n (\<lambda>k. a2 ! (k - 1)))"
    using derives_rule [OF R(1,2) S(3)] yyr1_at [of n] R(1,2) A(3) S(1) by simp
  have "\<forall>k < length (rev (take ?k (yyvs s))). yyvs s ! k = rev (take ?k (yyvs s)) ! (length (rev (take ?k (yyvs s))) - 1 - k)"
    using R(3) l by (auto simp: rev_nth)
  moreover have "n = 2 \<or> n = 3 \<or> n = 4 \<or> n = 5" using n R(1) by linarith
  ultimately obtain tree where "yyaccept n ((!) (yyvs s)) = Some tree" "rule_attr n (\<lambda>k. a2 ! (k - 1)) = ARoot tree"
    using accepted_tree [OF _ S(4), of "(!) (yyvs s)"] by auto
  moreover have "lexed scan p0 ts (yylloc s, yyscan s)" using rec la by (simp add: recognised_def Let_def)
  ultimately show ?thesis using reduce_outcome(2) [OF core r cell n] s1 d core
    by (auto simp: yyreturn_def outcome_ok_def parser_core_def)
qed

lemma step_ok:
  assumes ok: "parser_ok good s" and rec: "\<exists>ts as la. recognised scan p0 s ts as la" and cell: "sv_conds cell = []"
  shows "yysetstate scan cell s = Some (Inl s') \<Longrightarrow> parser_ok good s' \<and> (\<exists>ts as la. recognised scan p0 s' ts as la)"
    and "yysetstate scan cell s = Some (Inr out) \<Longrightarrow> outcome_ok scan p0 out"
proof -
  have "(\<forall>s'. yysetstate scan cell s = Some (Inl s') \<longrightarrow> parser_ok good s' \<and> (\<exists>ts as la. recognised scan p0 s' ts as la)) \<and>
    (\<forall>out. yysetstate scan cell s = Some (Inr out) \<longrightarrow> outcome_ok scan p0 out)"
  proof (cases "yylook scan s")
    case (Some p)
    obtain s1 a where p: "p = (s1, a)" by (cases p)
    note look = Some [unfolded p]
    note L = yylook_ok [OF ok look]
    have step: "yysetstate scan cell s = Some (yyperform cell a s1)" using yysetstate_look [OF ok] look by simp
    obtain ts as la0 where rec0: "recognised scan p0 s ts as la0" using rec by blast
    obtain la where rec1: "recognised scan p0 s1 ts as la" using recognised_look [OF ok look rec0] by blast
    show ?thesis
    proof (cases a)
      case (Shift q)
      have a: "act_ok (hd (yyss s1)) (YYTRANSLATE (yychar s1)) (Shift q)" using L(2,5) Shift by simp
      obtain s' where s': "yyperform cell (Shift q) s1 = Inl s'" "parser_ok good s'" "yyss s' = q # yyss s1" "yyvs s' = yylval s1 # yyvs s1"
        "yychar s' = YYEMPTY" "yyscan s' = yyscan s1" "yylloc s' = yylloc s1"
        using shift_ok [OF L(1) a] by blast
      then have "\<exists>ts' as'. recognised scan p0 s' ts' as' []"
        using recognised_shift [OF L(1) rec1 L(6) [OF Shift], of q s'] a by simp
      then show ?thesis using step Shift s' by auto
    next
      case (Reduce n)
      then have r: "reduce_ok (hd (yyss s1)) n" using L(2,5) by simp
      show ?thesis
      proof (cases "6 \<le> n")
        case True
        then show ?thesis using step Reduce reduce_outcome(1) [OF L(1) r cell] recognised_reduce [OF L(1) r True cell rec1] by auto
      next
        case False
        then show ?thesis using step Reduce accept_ok [OF ok _ _ rec0 cell] look by auto
      qed
    next
      case Reject
      have "chain (yyss s1)" "yyerrstatus s1 = 0" "yycerr s1 = []" using L(1) by (simp_all add: parser_core_def)
      moreover have "lexed scan p0 (ts @ la) (yylloc s1, yyscan s1)" using rec1 by (simp add: recognised_def Let_def)
      ultimately have "\<exists>out. yyerrlab s1 = Inr out \<and> outcome_ok scan p0 out"
        using no_error_shift [of "yyss s1"] chain_states by (auto simp: yyerrlab_def yyerrlab1_def yyreturn_def Let_def outcome_ok_def)
      then show ?thesis using step Reject by (auto simp: yyperform_def)
    qed
  qed (use yysetstate_look [OF ok] in simp)
  then show "yysetstate scan cell s = Some (Inl s') \<Longrightarrow> parser_ok good s' \<and> (\<exists>ts as la. recognised scan p0 s' ts as la)"
    and "yysetstate scan cell s = Some (Inr out) \<Longrightarrow> outcome_ok scan p0 out" by blast+
qed

lemma yyloop_ok:
  assumes "yyloop scan cell s = Some out" and "parser_ok good s" and "\<exists>ts as la. recognised scan p0 s ts as la" and "sv_conds cell = []"
  shows "outcome_ok scan p0 out"
proof -
  let ?P = "\<lambda>sc c s out. sc = scan \<longrightarrow> parser_ok good s \<longrightarrow> (\<exists>ts as la. recognised scan p0 s ts as la) \<longrightarrow> sv_conds c = [] \<longrightarrow> outcome_ok scan p0 out"
  have "?P scan cell s out" using assms(1)
  proof (rule yyloop.raw_induct [where P = ?P, rotated])
    fix loop sc c s out
    assume IH: "\<And>sc c s out. loop sc c s = Some out \<Longrightarrow> ?P sc c s out"
      and step: "(case yysetstate sc c s of None \<Rightarrow> None | Some (Inl t) \<Rightarrow> loop sc c t | Some (Inr out) \<Rightarrow> Some out) = Some out"
    show "?P sc c s out"
    proof (intro impI)
      assume h: "sc = scan" "parser_ok good s" "\<exists>ts as la. recognised scan p0 s ts as la" "sv_conds c = []"
      note S = step_ok [OF h(2,3,4)]
      from step consider t where "yysetstate scan c s = Some (Inl t)" "loop sc c t = Some out" | "yysetstate scan c s = Some (Inr out)"
        by (auto simp: h(1) split: option.splits sum.splits)
      then show "outcome_ok scan p0 out" using S IH h(1,4) by cases blast+
    qed
  qed
  then show ?thesis using assms(2-) by blast
qed

end

lemma parser_new_ok: "good l \<Longrightarrow> parser_ok good (yyparser_new (SemValue_new junk) l)"
  by (auto simp: yyparser_new_def SemValue_new_def parser_ok_def parser_core_def conds_ok_def)

lemma recognised_new: "\<exists>ts as la. recognised scan (yyloc_default, l) (yyparser_new (SemValue_new junk) l) ts as la"
  by (auto simp: yyparser_new_def recognised_def lookahead_def derives_Nil intro!: exI [of _ "[]"])

end
