(* ===== verification/Sql_Parsing.thy ===== *)
theory Sql_Parsing
  imports Sql_Driver
begin

text \<open>
  The parser of \<open>parser/yacc.tab.c\<close> recognises the language of the grammar \<open>parser/yacc.y\<close>: it accepts the tokens of a scanner with a tree exactly when
  the grammar derives the tokens with that tree, and with a scanner that reaches the end of its input every parse ends. Completeness follows the
  derivation; the certificate says what the driver does on the tokens that may follow. Termination is by the input that is left and by a weight of
  the stack, which every reduction lowers.
\<close>

section \<open>Every parse ends\<close>

text \<open>
  A weight for every symbol such that a reduction makes the stack lighter. The reduction of the empty clause does not; it is paid for by the state
  below it, which is heavier while it is on top.
\<close>

definition sym_weight :: "int \<Rightarrow> nat" where
  "sym_weight x =
     (if x < 43 then 20 else [0, 0, 2, 3, 3, 3, 7, 8, 5, 7, 8, 8, 1, 7, 8, 7, 5, 6, 5, 8, 6, 5, 9, 9] ! nat (x - 43))"

definition top_weight :: "int \<Rightarrow> nat" where
  "top_weight s = (if s = 41 \<or> s = 53 \<or> s = 57 then 2 else 0)"

definition stack_weight :: "int list \<Rightarrow> nat" where
  "stack_weight ss = sum_list (map (sym_weight \<circ> yysym) ss) + top_weight (hd ss)"

lemma weight_check:
  "list_all (\<lambda>n. sym_weight (yyr1 ! n) + (if yyr1 ! n \<in> set [61, 64, 65] then 2 else 0) < sum_list (map sym_weight (yyrhs ! n)))
     (filter (\<lambda>n. n \<noteq> 31) [6..<57])"
  by code_simp

lemma top_check: "map (\<lambda>s. yystos ! nat s) [41, 53, 57] = [65, 61, 64]" "yyr1 ! 31 = 55" "sym_weight 55 = 1"
  by code_simp+

lemma eof_state: "list_all (\<lambda>s. s = 11) (filter (\<lambda>s. yystos ! nat s = 29) [0..110])" "yystos ! 11 = 29"
  by code_simp+

lemma eof_accepts: "yypact ! 11 = YYPACT_NINF" "yydefact ! 11 = 5"
  by code_simp+

lemma weight_rule:
  "6 \<le> n \<Longrightarrow> n \<le> 56 \<Longrightarrow> n \<noteq> 31 \<Longrightarrow>
   sym_weight (yyr1 ! n) + (if yyr1 ! n \<in> set [61, 64, 65] then 2 else 0) < sum_list (map sym_weight (yyrhs ! n))"
  using weight_check unfolding list_all_iff set_filter set_upt by auto

lemma top_weight_le: "top_weight q \<le> (if yysym q \<in> set [61, 64, 65] then 2 else 0)"
  using top_check(1) by (auto simp: top_weight_def)

lemma stack_weight_reduced:
  assumes ok: "parser_core good s" and r: "reduce_ok (hd (yyss s)) n" and n: "6 \<le> n"
  shows "stack_weight (yyss (reduced cell n s)) < stack_weight (yyss s)"
proof -
  let ?k = "length (yyrhs ! n)" and ?q = "yygoto (yyss s ! length (yyrhs ! n)) (yyr1 ! n)" and ?w = "\<lambda>ss. sum_list (map (sym_weight \<circ> yysym) ss)"
  have c: "chain (yyss s)" using ok by (simp add: parser_core_def)
  note R = reduce_chain [OF c r]
  have q: "yysym ?q = yyr1 ! n" using R(6) n by simp
  have "?w (take ?k (yyss s)) = sum_list (map sym_weight (rev (yyrhs ! n)))" using R(4) by (simp flip: map_map)
  then have take: "?w (take ?k (yyss s)) = sum_list (map sym_weight (yyrhs ! n))" by (simp add: rev_map [symmetric])
  have split: "?w (yyss s) = ?w (take ?k (yyss s)) + ?w (drop ?k (yyss s))" by (metis append_take_drop_id map_append sum_list_append)
  show ?thesis
  proof (cases "n = 31")
    case True
    then have "hd (yyss s) \<in> set [41, 53, 57]" using reduce_clause(2) [OF c] r by (metis chain.simps(1) c list.set_intros(1) list.exhaust)
    then have "top_weight (hd (yyss s)) = 2" by (auto simp: top_weight_def)
    moreover have "top_weight ?q = 0" using top_weight_le [of ?q] q True top_check(2) by simp
    moreover have "?k = 0" using True by (simp add: yyrhs_eq)
    ultimately show ?thesis using q True top_check(2,3) by (simp add: stack_weight_def)
  next
    case False
    then show ?thesis using weight_rule [OF n R(2)] top_weight_le [of ?q] q take split by (simp add: stack_weight_def del: list.set)
  qed
qed

text \<open>The first component of the measure: what is left of the input, and the token that is pending.\<close>

definition input_left :: "('l \<Rightarrow> nat) \<Rightarrow> 'l yyparser \<Rightarrow> nat" where
  "input_left left s =
     (if hd (yyss s) = 11 then 0 else if yychar s = T_EOF then 1 else 2 + 2 * left (yyscan s) + (if yychar s = YYEMPTY then 0 else 1))"

locale token_source = token_scanner scan good for scan :: "'l yylex_fun" and good :: "'l \<Rightarrow> bool" +
  fixes left :: "'l \<Rightarrow> nat"
  assumes scan_total: "good l \<Longrightarrow> scan loc0 l \<noteq> None"
    and scan_less: "good l \<Longrightarrow> scan loc0 l = Some (t, loc, l') \<Longrightarrow> tok_num t \<noteq> T_EOF \<Longrightarrow> left l' < left l"
begin

lemma look_total: "parser_ok good s \<Longrightarrow> \<exists>s1 a. yylook scan s = Some (s1, a)"
  using scan_total [of "yyscan s" "yylloc s"] by (auto simp: parser_ok_def parser_core_def yylook_def read_token_def Let_def)

text \<open>Reading a token, if there is none, leaves less input, except for the end of the input.\<close>

lemma look_less:
  assumes ok: "parser_ok good s" and look: "yylook scan s = Some (s1, a)" and top: "hd (yyss s) \<noteq> 11"
  shows "s1 = s \<or> yychar s1 \<noteq> YYEMPTY \<and> input_left left s1 < input_left left s"
proof (cases "s1 = s")
  case False
  then have r: "read_token scan s = Some s1" using look by (auto simp: yylook_def Let_def split: if_splits)
  with False have e: "yychar s = YYEMPTY" by (auto simp: read_token_def split: if_splits)
  with r obtain t loc l where t: "scan (yylloc s) (yyscan s) = Some (t, loc, l)"
    "s1 = s\<lparr>yychar := tok_num t, yylval := tok_val t (yylval s), yylloc := loc, yyscan := l\<rparr>"
    by (auto simp: read_token_def)
  have i: "good (yyscan s)" using ok by (simp add: parser_ok_def parser_core_def)
  have "0 < tok_num t" using scan_ok [OF i t(1)] by (rule tok_positive)
  then show ?thesis using scan_less [OF i t(1)] e t(2) top by (auto simp: input_left_def)
qed simp

lemma step_less:
  assumes ok: "parser_ok good s" and cell: "sv_conds cell = []" and step: "yysetstate scan cell s = Some (Inl t)"
  shows "(t, s) \<in> measures [input_left left, stack_weight \<circ> yyss]"
proof -
  obtain s1 a where look: "yylook scan s = Some (s1, a)" using look_total [OF ok] by blast
  note L = yylook_ok [OF ok look]
  have t: "yyperform cell a s1 = Inl t" using step yysetstate_look [OF ok] look by simp
  have c: "chain (yyss s1)" using L(1) by (simp add: parser_core_def)
  have top: "hd (yyss s) \<noteq> 11"
    using look t eof_accepts by (auto simp: yylook_def yyperform_def yyreduce_def yyaccept_def yyreturn_def Let_def yydefact_of_def)
  have le: "input_left left s1 \<le> input_left left s" using look_less [OF ok look top] by auto
  show ?thesis
  proof (cases a)
    case (Shift q)
    have a: "act_ok (hd (yyss s1)) (YYTRANSLATE (yychar s1)) (Shift q)" using L(2,5) Shift by simp
    obtain t' where T: "yyperform cell (Shift q) s1 = Inl t'" "yyss t' = q # yyss s1" "yychar t' = YYEMPTY" "yyscan t' = yyscan s1"
      using shift_ok [OF L(1) a] by blast
    have "q = 11" if "yychar s1 = T_EOF" using eof_state(1) a that by (auto simp: list_all_iff tok_sym_values)
    then have "input_left left t < input_left left s1" using T t Shift L(2) L(6) [OF Shift] top by (auto simp: input_left_def)
    then show ?thesis using le by simp
  next
    case (Reduce n)
    then have r: "reduce_ok (hd (yyss s1)) n" using L(2,5) by simp
    have n: "6 \<le> n" using reduce_outcome(2) [OF L(1) r cell] t Reduce by (cases "6 \<le> n") (auto simp: yyreturn_def)
    then have "t = reduced cell n s1" using reduce_outcome(1) [OF L(1) r cell] t Reduce by simp
    moreover have "hd (yyss (reduced cell n s1)) \<noteq> 11"
      using reduce_chain(6) [OF c r n] yyr1_at [of n] reduce_chain(2) [OF c r] n eof_state(2) by auto
    ultimately have "input_left left t = input_left left s1" using top L(2) by (simp add: input_left_def)
    then show ?thesis using le stack_weight_reduced [OF L(1) r n, of cell] L(2) \<open>t = _\<close> by auto
  next
    case Reject
    then show ?thesis using yyerrlab_outcome [OF c] t by (auto simp: yyperform_def)
  qed
qed

lemma yyloop_total:
  assumes "parser_ok good s" and "\<exists>ts as la. recognised scan p0 s ts as la" and cell: "sv_conds cell = []"
  shows "\<exists>out. yyloop scan cell s = Some out"
  using wf_measures [of "[input_left left, stack_weight \<circ> yyss]"] assms(1,2)
proof (induction s rule: wf_induct_rule)
  case (less s)
  obtain s1 a where "yylook scan s = Some (s1, a)" using look_total [OF less.prems(1)] by blast
  then obtain r where r: "yysetstate scan cell s = Some r" using yysetstate_look [OF less.prems(1)] by simp
  show ?case
  proof (cases r)
    case (Inl t)
    then have "\<exists>out. yyloop scan cell t = Some out"
      using less.IH [OF step_less] step_ok(1) less.prems cell r by blast
    then show ?thesis using r Inl by (simp add: yyloop.simps [of scan cell s])
  qed (use r in \<open>simp add: yyloop.simps [of scan cell s]\<close>)
qed

end

section \<open>What is derived is accepted\<close>

lemma context_symbols: "list_all (\<lambda>(s, x, la). x \<noteq> 44) yycontexts"
  by code_simp

lemma rule_symbols: "list_all (\<lambda>n. yyr1 ! n \<noteq> 44 \<and> 44 \<notin> set (yyrhs ! n)) [6..<57]"
  by code_simp

lemma rule_at: "2 \<le> n \<Longrightarrow> n \<le> 56 \<Longrightarrow> yyr1 ! n \<noteq> 44 \<Longrightarrow> 6 \<le> n \<and> 44 \<notin> set (yyrhs ! n)"
proof (cases "6 \<le> n")
  case False
  moreover assume "2 \<le> n" "yyr1 ! n \<noteq> 44"
  ultimately have "n = 2 \<or> n = 3 \<or> n = 4 \<or> n = 5" by linarith
  then have "n \<in> set [2, 3, 4, 5]" by simp
  then show ?thesis using start_rules \<open>yyr1 ! n \<noteq> 44\<close> unfolding list_all_iff by blast
qed (use list_all_upt [OF rule_symbols, of n] in simp)

lemma derives_first:
  "derives X ts a \<Longrightarrow> X \<noteq> 44 \<Longrightarrow>
     (X < 43 \<longrightarrow> ts \<noteq> [] \<and> tok_sym (hd ts) = X) \<and>
     (43 \<le> X \<longrightarrow> (ts = [] \<longrightarrow> nullable X) \<and> (ts \<noteq> [] \<longrightarrow> tok_sym (hd ts) \<in> set (yyfirst ! nat (X - 43))))"
  "derives_all Xs ts as \<Longrightarrow> 44 \<notin> set Xs \<Longrightarrow>
     (ts = [] \<longrightarrow> list_all nullable Xs \<and> set la \<subseteq> set (firsts Xs la)) \<and> (ts \<noteq> [] \<longrightarrow> tok_sym (hd ts) \<in> set (firsts Xs la))"
proof (induction arbitrary: and la rule: derives_derives_all.inducts)
  case (derives_token t)
  then show ?case using YYTRANSLATE_range [of "tok_num t"] by simp
next
  case (derives_rule n ts as)
  have X: "sym_no (fst (yygrammar ! n)) = yyr1 ! n" "43 \<le> yyr1 ! n" using yyr1_at [of n] derives_rule by auto
  then have n: "6 \<le> n" "44 \<notin> set (yyrhs ! n)" using rule_at [of n] derives_rule by auto
  then have "list_all (\<lambda>t. t \<in> set (yyfirst ! nat (yyr1 ! n - 43))) (firsts (yyrhs ! n) []) \<and> (list_all nullable (yyrhs ! n) \<longrightarrow> nullable (yyr1 ! n))"
    using list_all_upt [OF first_check, of n] derives_rule(2) by simp
  then show ?case using derives_rule.IH [OF n(2), of "[]"] X by (auto simp: list_all_iff)
next
  case (derives_Cons X ts a Xs us as)
  then show ?case by (cases "X < 43"; cases ts) (auto simp: not_less)
qed simp

lemma derives_terminal:
  assumes "derives X ts a" and "X < 43"
  obtains t where "ts = [t]" "a = tok_attr t" "X = tok_sym t"
  using assms
proof (cases rule: derives.cases)
  case (derives_rule n as)
  then have "43 \<le> X" using yyr1_at [of n] by simp
  then show ?thesis using assms by simp
qed

lemma contexts_at:
  assumes "(q, yyr1 ! n, la) \<in> set yycontexts" and "6 \<le> n" and "n \<le> 56"
  shows "follows n la q (yyrhs ! n)"
proof -
  have "list_all (\<lambda>n'. follows n' la q (yyrhs ! n')) (filter (\<lambda>n'. yyr1 ! n' = yyr1 ! n) [6..<57])"
    using contexts_check assms(1) unfolding list_all_iff [of _ yycontexts] by fast
  then show ?thesis using assms(2,3) unfolding list_all_iff set_filter set_upt by auto
qed

definition ahead :: "'l yylex_fun \<Rightarrow> 'l yyparser \<Rightarrow> token list \<Rightarrow> YYLTYPE \<times> 'l \<Rightarrow> bool" where
  "ahead scan s us p \<longleftrightarrow> (\<exists>la rest. us = la @ rest \<and> lookahead la s \<and> lexed scan (yylloc s, yyscan s) rest p)"

abbreviation runs :: "'l yylex_fun \<Rightarrow> SemValue \<Rightarrow> 'l yyparser \<Rightarrow> 'l yyparser \<Rightarrow> bool" where
  "runs scan cell \<equiv> (\<lambda>s t. yysetstate scan cell s = Some (Inl t))\<^sup>*\<^sup>*"

lemma yyloop_runs: "runs scan cell s t \<Longrightarrow> yyloop scan cell s = yyloop scan cell t"
  by (induction rule: rtranclp_induct) (simp_all add: yyloop.simps)

text \<open>A state the driver reaches from the start of a parse.\<close>

definition sound_state :: "'l yylex_fun \<Rightarrow> ('l \<Rightarrow> bool) \<Rightarrow> YYLTYPE \<times> 'l \<Rightarrow> 'l yyparser \<Rightarrow> bool" where
  "sound_state scan good p0 s \<longleftrightarrow> parser_ok good s \<and> (\<exists>ts as la. recognised scan p0 s ts as la)"

context token_scanner
begin

lemma sound_runs:
  assumes "runs scan cell s t" and "sound_state scan good p0 s" and cell: "sv_conds cell = []"
  shows "sound_state scan good p0 t"
  using assms(1,2)
proof (induction rule: rtranclp_induct)
  case (step t u)
  then show ?case using step_ok(1) [OF _ _ cell] unfolding sound_state_def by blast
qed

lemma look_ahead:
  assumes ok: "parser_ok good s" and a: "ahead scan s (t # us) p"
  obtains s1 where "yylook scan s = Some (s1, yydecide (hd (yyss s)) (tok_sym t))" "ahead scan s1 (t # us) p"
    "yypact ! nat (hd (yyss s)) \<noteq> YYPACT_NINF \<Longrightarrow> lookahead [t] s1 \<and> lexed scan (yylloc s1, yyscan s1) us p"
proof (cases "yypact ! nat (hd (yyss s)) = YYPACT_NINF")
  case True
  then show ?thesis using that [of s] a by (simp add: yylook_def yydecide_def)
next
  case False
  obtain la rest where la: "t # us = la @ rest" "lookahead la s" "lexed scan (yylloc s, yyscan s) rest p" using a by (auto simp: ahead_def)
  have i: "good (yyscan s)" using ok by (simp add: parser_ok_def parser_core_def)
  show ?thesis
  proof (cases la)
    case Nil
    then obtain loc l where t: "scan (yylloc s) (yyscan s) = Some (t, loc, l)" "lexed scan (loc, l) us p" using la by (cases rest) auto
    let ?s1 = "s\<lparr>yychar := tok_num t, yylval := tok_val t (yylval s), yylloc := loc, yyscan := l\<rparr>"
    have e: "yychar s = YYEMPTY" using la(2) Nil by (auto simp: lookahead_def)
    have "lookahead [t] ?s1" using scan_ok [OF i t(1)] by (auto simp: lookahead_def)
    moreover from this have "ahead scan ?s1 (t # us) p" using t(2) unfolding ahead_def by (intro exI [of _ "[t]"] exI [of _ us]) simp
    ultimately show ?thesis using that [of ?s1] False e t by (simp add: yylook_def read_token_def)
  next
    case (Cons u la')
    then have t: "la = [t]" "rest = us" "yychar s = tok_num t" "tok_ok t" using la(1,2) by (auto simp: lookahead_def)
    then have "yychar s \<noteq> YYEMPTY" using tok_positive [OF t(4)] by simp
    then have "yylook scan s = Some (s, yydecide (hd (yyss s)) (tok_sym t))" using False t(3) by (simp add: yylook_def read_token_def)
    moreover have "lookahead [t] s \<and> lexed scan (yylloc s, yyscan s) us p" using la(2,3) unfolding t(1,2) by blast
    ultimately show ?thesis using that [of s] a by blast
  qed
qed

lemma shift_run:
  assumes s: "sound_state scan good p0 s" and a: "ahead scan s (t # us) p" and sh: "yydecide (hd (yyss s)) (tok_sym t) = Shift q"
  obtains s' v where "runs scan cell s s'" "yyss s' = q # yyss s" "yyvs s' = v # yyvs s" "cell_has (tok_sym t) v (tok_attr t)" "ahead scan s' us p"
proof -
  have ok: "parser_ok good s" using s by (simp add: sound_state_def)
  have "yypact ! nat (hd (yyss s)) \<noteq> YYPACT_NINF" using sh by (auto simp: yydecide_def yydefact_of_def Let_def split: if_splits)
  with look_ahead [OF ok a] obtain s1 where look: "yylook scan s = Some (s1, Shift q)" "lookahead [t] s1" "lexed scan (yylloc s1, yyscan s1) us p"
    unfolding sh by metis
  note L = yylook_ok [OF ok look(1)]
  have act: "act_ok (hd (yyss s1)) (YYTRANSLATE (yychar s1)) (Shift q)" using L(2,5) by simp
  obtain s' where s': "yyperform cell (Shift q) s1 = Inl s'" "yyss s' = q # yyss s1" "yyvs s' = yylval s1 # yyvs s1"
    "yychar s' = YYEMPTY" "yyscan s' = yyscan s1" "yylloc s' = yylloc s1"
    using shift_ok [OF L(1) act, of cell] by blast
  have "runs scan cell s s'" using s'(1) look(1) yysetstate_look [OF ok] by auto
  moreover have "ahead scan s' us p" using s' look(3) unfolding ahead_def lookahead_def by (intro exI [of _ "[]"] exI [of _ us]) simp
  moreover have "cell_has (tok_sym t) (yylval s1) (tok_attr t)" using look(2) tok_cell by (auto simp: lookahead_def)
  ultimately show ?thesis using that s' L by simp
qed

lemma reduce_run:
  assumes s: "sound_state scan good p0 s" and a: "ahead scan s (t # us) p" and r: "yydecide (hd (yyss s)) (tok_sym t) = Reduce n" and n: "6 \<le> n"
    and stack: "yyss s = ps @ ss" "length ps = length (yyrhs ! n)" "yyvs s = vs @ ws" "cells_have (yyrhs ! n) (rev vs) as" and cell: "sv_conds cell = []"
  shows "\<exists>s' v. runs scan cell s s' \<and> yyss s' = yygoto (hd ss) (yyr1 ! n) # ss \<and> yyvs s' = v # ws \<and>
    cell_has (yyr1 ! n) v (rule_attr n (\<lambda>k. as ! (k - 1))) \<and> ahead scan s' (t # us) p"
proof -
  have ok: "parser_ok good s" using s by (simp add: sound_state_def)
  obtain s1 where look: "yylook scan s = Some (s1, Reduce n)" "ahead scan s1 (t # us) p" using look_ahead [OF ok a] unfolding r by metis
  note L = yylook_ok [OF ok look(1)]
  have red: "reduce_ok (hd (yyss s1)) n" using L(2,5) by simp
  have c: "chain (yyss s1)" using L(1) by (simp add: parser_core_def)
  have "ss \<noteq> []" using reduce_chain(3) [OF c red] stack(1,2) L(2) by auto
  have lv: "length vs = length (yyrhs ! n)" using cells_have_length [OF stack(4)] by simp
  let ?t = "reduced cell n s1"
  have "yyperform cell (Reduce n) s1 = Inl ?t" using reduce_outcome(1) [OF L(1) red cell n] by simp
  then have "runs scan cell s ?t" using look(1) yysetstate_look [OF ok] by auto
  moreover have "cell_has (yyr1 ! n) (hd (yyvs ?t)) (rule_attr n (\<lambda>k. as ! (k - 1)))"
    using reduced_value [OF L(1) red n cell, of as] L(3) stack(3,4) lv by simp
  moreover have "ahead scan ?t (t # us) p" using look(2) by (simp add: ahead_def lookahead_def)
  moreover have "yyss ?t = yygoto (hd ss) (yyr1 ! n) # ss" using stack(1,2) L(2) \<open>ss \<noteq> []\<close> by (simp add: nth_append hd_conv_nth)
  moreover have "yyvs ?t = hd (yyvs ?t) # ws" using stack(3) lv L(3) by simp
  ultimately show ?thesis by blast
qed

lemma derives_run:
  assumes cell: "sv_conds cell = []"
  shows "derives X ts a \<Longrightarrow> 43 \<le> X \<Longrightarrow> (hd (yyss s), X, la) \<in> set yycontexts \<Longrightarrow> sound_state scan good p0 s \<Longrightarrow> ahead scan s (ts @ t # us) p \<Longrightarrow>
     tok_sym t \<in> set la \<Longrightarrow>
     \<exists>s' v. runs scan cell s s' \<and> yyss s' = yygoto (hd (yyss s)) X # yyss s \<and> yyvs s' = v # yyvs s \<and> cell_has X v a \<and> ahead scan s' (t # us) p"
  and "derives_all Xs ts as \<Longrightarrow> 44 \<notin> set Xs \<Longrightarrow> follows n la (hd (yyss s)) Xs \<Longrightarrow> sound_state scan good p0 s \<Longrightarrow> ahead scan s (ts @ t # us) p \<Longrightarrow>
     tok_sym t \<in> set la \<Longrightarrow>
     \<exists>s' ps vs. runs scan cell s s' \<and> yyss s' = ps @ yyss s \<and> length ps = length Xs \<and> yyvs s' = vs @ yyvs s \<and> cells_have Xs (rev vs) as \<and>
       ahead scan s' (t # us) p \<and> yydecide (hd (yyss s')) (tok_sym t) = Reduce n"
proof (induction arbitrary: s la t us and n s la t us rule: derives_derives_all.inducts)
  case (derives_token u)
  then show ?case using YYTRANSLATE_range [of "tok_num u"] by simp
next
  case (derives_rule n ts as)
  let ?q = "hd (yyss s)"
  have X: "sym_no (fst (yygrammar ! n)) = yyr1 ! n" using yyr1_at [of n] derives_rule by auto
  have "yyr1 ! n \<noteq> 44" using context_symbols derives_rule.prems(2) X by (auto simp: list_all_iff)
  then have n: "6 \<le> n" "44 \<notin> set (yyrhs ! n)" using rule_at [of n] derives_rule by auto
  have "follows n la ?q (yyrhs ! n)" using contexts_at n(1) derives_rule X by simp
  from derives_rule.IH [OF n(2) this derives_rule.prems(3,4,5)] obtain s' ps vs where
    s': "runs scan cell s s'" "yyss s' = ps @ yyss s" "length ps = length (yyrhs ! n)" "yyvs s' = vs @ yyvs s" "cells_have (yyrhs ! n) (rev vs) as"
      "ahead scan s' (t # us) p" "yydecide (hd (yyss s')) (tok_sym t) = Reduce n" by blast
  from reduce_run [OF sound_runs [OF s'(1) derives_rule.prems(3) cell] s'(6,7) n(1) s'(2,3,4,5) cell] obtain s'' v where
    "runs scan cell s' s''" "yyss s'' = yygoto ?q (yyr1 ! n) # yyss s" "yyvs s'' = v # yyvs s" "cell_has (yyr1 ! n) v (rule_attr n (\<lambda>k. as ! (k - 1)))"
    "ahead scan s'' (t # us) p" by blast
  then show ?case using X s'(1) by (auto intro: rtranclp_trans)
next
  case derives_Nil
  then show ?case by (intro exI [of _ s] exI [of _ "[]"]) (auto simp: list_all_iff)
next
  case (derives_Cons X ts1 a Xs ts2 as)
  let ?q = "hd (yyss s)"
  show ?case
  proof (cases "X < 43")
    case True
    obtain x where x: "ts1 = [x]" "a = tok_attr x" "X = tok_sym x" using derives_terminal [OF derives_Cons.hyps(1) True] .
    from derives_Cons.prems(2) True obtain q where q: "yydecide ?q X = Shift q" "follows n la q Xs" by (auto split: yyact.splits)
    have "ahead scan s (x # ts2 @ t # us) p" using derives_Cons.prems(4) x by simp
    from shift_run [OF derives_Cons.prems(3) this, of q cell] q(1) x obtain s1 v where
      s1: "runs scan cell s s1" "yyss s1 = q # yyss s" "yyvs s1 = v # yyvs s" "cell_has X v a" "ahead scan s1 (ts2 @ t # us) p" by metis
    have "44 \<notin> set Xs" "follows n la (hd (yyss s1)) Xs" using derives_Cons.prems(1) q(2) s1(2) by simp_all
    from derives_Cons.IH(2) [OF this sound_runs [OF s1(1) derives_Cons.prems(3) cell] s1(5) derives_Cons.prems(5)] obtain s' ps vs where
      s': "runs scan cell s1 s'" "yyss s' = ps @ yyss s1" "length ps = length Xs" "yyvs s' = vs @ yyvs s1" "cells_have Xs (rev vs) as"
        "ahead scan s' (t # us) p" "yydecide (hd (yyss s')) (tok_sym t) = Reduce n" by blast
    then show ?thesis using s1
      by (intro exI [of _ s'] exI [of _ "ps @ [q]"] exI [of _ "vs @ [v]"]) (auto intro: rtranclp_trans)
  next
    case False
    from derives_Cons.prems(2) False obtain l where l: "(?q, X, l) \<in> set yycontexts" "\<forall>x \<in> set (firsts Xs la). x \<in> set l" "follows n la (yygoto ?q X) Xs"
      by (auto simp: list_ex_iff list_all_iff)
    obtain x xs where x: "ts2 @ t # us = x # xs" by (cases ts2) auto
    have "44 \<notin> set Xs" using derives_Cons.prems(1) by simp
    then have "tok_sym x \<in> set (firsts Xs la)"
      using derives_first(2) [OF derives_Cons.hyps(2), of la] x derives_Cons.prems(5) by (cases ts2) auto
    then have "tok_sym x \<in> set l" using l(2) by blast
    moreover have "ahead scan s (ts1 @ x # xs) p" using derives_Cons.prems(4) by (simp add: x)
    ultimately obtain s1 v where
      s1: "runs scan cell s s1" "yyss s1 = yygoto ?q X # yyss s" "yyvs s1 = v # yyvs s" "cell_has X v a" "ahead scan s1 (x # xs) p"
      using derives_Cons.IH(1) [OF _ l(1) derives_Cons.prems(3)] False by (metis not_less)
    have "follows n la (hd (yyss s1)) Xs" using l(3) s1(2) by simp
    from derives_Cons.IH(2) [OF \<open>44 \<notin> set Xs\<close> this sound_runs [OF s1(1) derives_Cons.prems(3) cell] s1(5) [folded x] derives_Cons.prems(5)] obtain s' ps vs where
      s': "runs scan cell s1 s'" "yyss s' = ps @ yyss s1" "length ps = length Xs" "yyvs s' = vs @ yyvs s1" "cells_have Xs (rev vs) as"
        "ahead scan s' (t # us) p" "yydecide (hd (yyss s')) (tok_sym t) = Reduce n" by blast
    then show ?thesis using s1
      by (intro exI [of _ s'] exI [of _ "ps @ [yygoto ?q X]"] exI [of _ "vs @ [v]"]) (auto intro: rtranclp_trans)
  qed
qed

end

lemma start_tables: "yydecide 0 25 = Shift 10" "yydecide 0 24 = Shift 9" "yydecide 0 29 = Shift 11" "yygoto 0 45 = 13" "yydecide 13 34 = Shift 35"
  "map (\<lambda>s. yypact ! nat s) [35, 10, 9, 11] = [-62, -62, -62, -62]" "map (\<lambda>s. yydefact_of s) [35, 10, 9, 11] = [Reduce 2, Reduce 3, Reduce 4, Reduce 5]"
  by code_simp+

lemma start_context: "(0, 45, [34]) \<in> set yycontexts"
  by (simp add: yycontexts_def)

lemma derives_start:
  assumes "derives 44 ts a"
  obtains n as where "n \<in> {2, 3, 4, 5}" "derives_all (yyrhs ! n) ts as" "a = rule_attr n (\<lambda>k. as ! (k - 1))"
  using assms
proof (cases rule: derives.cases)
  case (derives_token t)
  then show ?thesis using YYTRANSLATE_range [of "tok_num t"] by simp
next
  case (derives_rule n as)
  then have "yyr1 ! n = 44" using yyr1_at [of n] by simp
  then have "n < 6" using list_all_upt [OF rule_symbols, of n] derives_rule by (cases "6 \<le> n") auto
  then have "n = 2 \<or> n = 3 \<or> n = 4 \<or> n = 5" using derives_rule by linarith
  then show ?thesis using that derives_rule by blast
qed

lemma derives_all_singleton: "derives_all [X] ts as \<Longrightarrow> \<exists>a. as = [a] \<and> derives X ts a"
  by (auto elim!: derives_all.cases [of "[X]"] derives_all.cases [of "[]"])

lemma derives_all_pair: "derives_all [X, Y] ts as \<Longrightarrow> \<exists>t1 t2 a b. ts = t1 @ t2 \<and> as = [a, b] \<and> derives X t1 a \<and> derives Y t2 b"
  by (erule derives_all.cases [of "[X, Y]"]) (use derives_all_singleton in \<open>blast+\<close>)

lemma SemValue_new_conds: "sv_conds (SemValue_new junk) = []"
  by (simp add: SemValue_new_def)

context token_scanner
begin

lemma accept_run:
  assumes s: "sound_state scan good p0 s" and a: "ahead scan s [] p" and q: "yypact ! nat (hd (yyss s)) = YYPACT_NINF" "yydefact_of (hd (yyss s)) = Reduce n"
    and n: "n \<in> {2, 3, 4, 5}" and v: "yyvs s = vs @ ws" "cells_have (yyrhs ! n) (rev vs) as" "rule_attr n (\<lambda>k. as ! (k - 1)) = ARoot r"
  shows "\<exists>out. yyloop scan cell s = Some out \<and> yyresult out = 0 \<and> parse_tree out = Some r \<and> yyout_scan out = snd p"
proof -
  have ok: "parser_ok good s" using s by (simp add: sound_state_def)
  have look: "yylook scan s = Some (s, Reduce n)" using q by (simp add: yylook_def)
  have "\<forall>k < length (rev vs). yyvs s ! k = rev vs ! (length (rev vs) - 1 - k)" using v(1) by (auto simp: rev_nth nth_append)
  from accepted_tree [OF n v(2) this] have "yyaccept n ((!) (yyvs s)) = Some r" using v(3) by auto
  then have "yyperform cell (Reduce n) s = yyreturn 0 (Some r) s" by (simp add: yyperform_def yyreduce_def)
  then have "yysetstate scan cell s = Some (yyreturn 0 (Some r) s)" using yysetstate_look [OF ok] look by simp
  moreover have "p = (yylloc s, yyscan s)" using a by (auto simp: ahead_def)
  ultimately show ?thesis by (simp add: yyloop.simps [of scan cell s] yyreturn_def)
qed

lemma start_run:
  assumes s: "sound_state scan good p0 s" and new: "yyss s = [0]" and d: "derives 44 ts (ARoot r)" and a: "ahead scan s ts p" and cell: "sv_conds cell = []"
  shows "\<exists>out. yyloop scan cell s = Some out \<and> yyresult out = 0 \<and> parse_tree out = Some r \<and> yyout_scan out = snd p"
proof -
  obtain n as where n: "n \<in> {2, 3, 4, 5}" "derives_all (yyrhs ! n) ts as" "ARoot r = rule_attr n (\<lambda>k. as ! (k - 1))"
    by (rule derives_start [OF d])
  have single: ?thesis if x: "yyrhs ! n = [x]" "x < 43" "yydecide 0 x = Shift q" "yypact ! nat q = YYPACT_NINF" "yydefact_of q = Reduce n" for x q
  proof -
    obtain b where b: "as = [b]" "derives x ts b" using derives_all_singleton n(2) x(1) by metis
    obtain t where t: "ts = [t]" "b = tok_attr t" "x = tok_sym t" by (rule derives_terminal [OF b(2) x(2)])
    obtain s' v where s': "runs scan cell s s'" "yyss s' = q # yyss s" "yyvs s' = v # yyvs s" "cell_has x v b" "ahead scan s' [] p"
      using shift_run [OF s, of t "[]" p q cell] a t x(3) new by auto
    have "cells_have (yyrhs ! n) (rev [v]) as" using x(1) b(1) s'(4) by simp
    from accept_run [OF sound_runs [OF s'(1) s cell] s'(5) _ _ n(1) _ this, of "yyvs s" r cell]
    show ?thesis using x s' n(3) yyloop_runs [OF s'(1)] by simp
  qed
  from n(1) consider "n = 2" | "n = 3" | "n = 4" | "n = 5" by blast
  then show ?thesis
  proof cases
    case 1
    then have rhs: "yyrhs ! n = [45, 34]" by (simp add: yyrhs_eq)
    obtain t1 t2 b c where b: "ts = t1 @ t2" "as = [b, c]" "derives 45 t1 b" "derives 34 t2 c" using derives_all_pair n(2) rhs by metis
    obtain t where t: "t2 = [t]" "c = tok_attr t" "34 = tok_sym t" by (rule derives_terminal [OF b(4)]) auto
    have "ahead scan s (t1 @ t # []) p" using a b(1) t(1) by simp
    with derives_run(1) [OF cell b(3) _ _ s this, of "[34]"] obtain s1 v1 where
      s1: "runs scan cell s s1" "yyss s1 = 13 # yyss s" "yyvs s1 = v1 # yyvs s" "cell_has 45 v1 b" "ahead scan s1 [t] p"
      using new start_context start_tables(4) t(3) by auto
    obtain s' v where s': "runs scan cell s1 s'" "yyss s' = 35 # yyss s1" "yyvs s' = v # yyvs s1" "cell_has 34 v c" "ahead scan s' [] p"
      using shift_run [OF sound_runs [OF s1(1) s cell] s1(5), of 35 cell] start_tables(5) s1(2) t by auto
    have run: "runs scan cell s s'" using s1(1) s'(1) by auto
    have "cells_have (yyrhs ! n) (rev [v, v1]) as" using rhs b(2) s1(4) s'(4) by simp
    from accept_run [OF sound_runs [OF run s cell] s'(5) _ _ n(1) _ this, of "yyvs s" r cell]
    show ?thesis using s1(3) s'(2,3) n(3) 1 start_tables(6,7) yyloop_runs [OF run] by simp
  next
    case 2
    show ?thesis by (rule single [of 25 10]) (use 2 start_tables in \<open>simp_all add: yyrhs_eq\<close>)
  next
    case 3
    show ?thesis by (rule single [of 24 9]) (use 3 start_tables in \<open>simp_all add: yyrhs_eq\<close>)
  next
    case 4
    show ?thesis by (rule single [of 29 11]) (use 4 start_tables in \<open>simp_all add: yyrhs_eq\<close>)
  qed
qed

lemma sound_new: "good l \<Longrightarrow> sound_state scan good (yyloc_default, l) (yyparser_new (SemValue_new junk) l)"
  by (simp add: sound_state_def parser_new_ok recognised_new)

lemma yyparse_outcome: "good l \<Longrightarrow> yyparse scan junk l = Some out \<Longrightarrow> outcome_ok scan (yyloc_default, l) out"
  unfolding yyparse_def by (rule yyloop_ok [OF _ parser_new_ok recognised_new SemValue_new_conds])

lemma yyparse_accepts:
  assumes g: "good l"
  shows "(\<exists>out. yyparse scan junk l = Some out \<and> yyresult out = 0 \<and> parse_tree out = Some r \<and> yyout_scan out = l') \<longleftrightarrow>
    (\<exists>ts loc. lexed scan (yyloc_default, l) ts (loc, l') \<and> derives 44 ts (ARoot r))"
proof
  assume "\<exists>out. yyparse scan junk l = Some out \<and> yyresult out = 0 \<and> parse_tree out = Some r \<and> yyout_scan out = l'"
  then show "\<exists>ts loc. lexed scan (yyloc_default, l) ts (loc, l') \<and> derives 44 ts (ARoot r)"
    using yyparse_outcome [OF g, of junk] by (fastforce simp: outcome_ok_def)
next
  assume "\<exists>ts loc. lexed scan (yyloc_default, l) ts (loc, l') \<and> derives 44 ts (ARoot r)"
  then obtain ts loc where ts: "lexed scan (yyloc_default, l) ts (loc, l')" "derives 44 ts (ARoot r)" by blast
  let ?s = "yyparser_new (SemValue_new junk) l"
  have "ahead scan ?s ts (loc, l')" using ts(1) by (auto simp: ahead_def lookahead_def yyparser_new_def)
  then show "\<exists>out. yyparse scan junk l = Some out \<and> yyresult out = 0 \<and> parse_tree out = Some r \<and> yyout_scan out = l'"
    using start_run [OF sound_new [OF g, of junk] _ ts(2), of "(loc, l')" "SemValue_new junk"]
    by (simp add: yyparse_def yyparser_new_def SemValue_new_conds)
qed

end

context token_source
begin

lemma yyparse_total: "good l \<Longrightarrow> \<exists>out. yyparse scan junk l = Some out"
  unfolding yyparse_def by (rule yyloop_total [OF parser_new_ok recognised_new SemValue_new_conds])

end

section \<open>The grammar is unambiguous\<close>

fun list_scan :: "token list yylex_fun" where
  "list_scan loc [] = None"
| "list_scan loc (t # ts) = Some (t, loc, ts)"

interpretation token_list: token_scanner list_scan "list_all tok_ok"
proof
  fix l loc0 t loc l'
  assume "list_all tok_ok l" "list_scan loc0 l = Some (t, loc, l')"
  then show "tok_ok t" and "list_all tok_ok l'" by (cases l; simp)+
qed

lemma lexed_list: "lexed list_scan (loc, ts) ts (loc, [])"
  by (induction ts) auto

lemma derives_unique:
  assumes "list_all tok_ok ts" and "derives 44 ts (ARoot r)" and "derives 44 ts (ARoot r')"
  shows "r = r'"
proof -
  fix junk
  have "\<exists>out. yyparse list_scan junk ts = Some out \<and> yyresult out = 0 \<and> parse_tree out = Some t \<and> yyout_scan out = []"
    if "derives 44 ts (ARoot t)" for t
    using token_list.yyparse_accepts [OF assms(1), of junk t "[]"] lexed_list that by blast
  from this [OF assms(2)] this [OF assms(3)] show ?thesis by auto
qed

end
