(* ===== verification/Sql_Lexer.thy ===== *)
theory Sql_Lexer
  imports Sql_Parser Table_Lookup
begin

text \<open>
  The scanner of statements, \<open>parser/lex.yy.c\<close>: the tables and the scanner \<open>yylex\<close> that flex generated from the rules \<open>parser/lex.l\<close>. Like the parser
  beside it the file is the output for an earlier revision of the rules, without the keywords of transactions. Pointers into the input buffer are
  indices. As in the code, the buffer is changed while it is scanned: the end of the last token is marked by a null character and \<open>yy_hold_char\<close> has
  the character it replaced. The buffer is the one \<open>yy_scan_string\<close> makes, the only kind the program uses; reading one from a file is not modelled.
  The gotos of \<open>yylex\<close> are a step function on labels; a call that does not return, because it loops, exits or leaves the buffer, has the value \<open>None\<close>.
\<close>

section \<open>Tables\<close>

definition yy_accept :: "int list" where
  "yy_accept =
    [0, 0, 0, 0, 0, 41, 39, 6, 7, 7, 39, 34, 39, 39, 39, 36, 34, 34, 35, 35, 35, 35, 35, 35,
     35, 35, 35, 35, 35, 35, 35, 35, 3, 4, 6, 7, 0, 38, 36, 5, 1, 37, 32, 33, 31, 35, 35, 35,
     35, 35, 35, 35, 35, 35, 35, 35, 35, 35, 35, 35, 35, 35, 35, 2, 5, 37, 27, 35, 35, 35, 35, 35,
     35, 35, 35, 35, 35, 35, 23, 35, 35, 21, 35, 35, 35, 35, 35, 24, 35, 35, 13, 12, 29, 35, 18, 30,
     35, 35, 15, 28, 35, 8, 35, 35, 35, 35, 35, 35, 25, 26, 35, 35, 11, 35, 35, 19, 10, 17, 14, 22,
     9, 20, 16, 0]"

definition yy_ec :: "int list" where
  "yy_ec =
    [0, 1, 1, 1, 1, 1, 1, 1, 1, 2, 3, 1, 1, 4, 1, 1, 1, 1, 1, 1, 1, 1, 1, 1,
     1, 1, 1, 1, 1, 1, 1, 1, 2, 1, 1, 1, 1, 1, 1, 5, 6, 7, 8, 9, 10, 11, 12, 13,
     14, 14, 14, 14, 14, 14, 14, 14, 14, 14, 1, 15, 16, 17, 18, 1, 1, 19, 20, 21, 22, 23, 24, 25,
     26, 27, 28, 25, 29, 30, 31, 32, 33, 25, 34, 35, 36, 37, 38, 39, 40, 25, 25, 1, 1, 1, 1, 41,
     1, 42, 43, 44, 45, 46, 47, 25, 48, 49, 50, 25, 51, 52, 53, 54, 55, 25, 56, 57, 58, 59, 60, 61,
     62, 25, 25, 1, 1, 1, 1, 1, 1, 1, 1, 1, 1, 1, 1, 1, 1, 1, 1, 1, 1, 1, 1, 1,
     1, 1, 1, 1, 1, 1, 1, 1, 1, 1, 1, 1, 1, 1, 1, 1, 1, 1, 1, 1, 1, 1, 1, 1,
     1, 1, 1, 1, 1, 1, 1, 1, 1, 1, 1, 1, 1, 1, 1, 1, 1, 1, 1, 1, 1, 1, 1, 1,
     1, 1, 1, 1, 1, 1, 1, 1, 1, 1, 1, 1, 1, 1, 1, 1, 1, 1, 1, 1, 1, 1, 1, 1,
     1, 1, 1, 1, 1, 1, 1, 1, 1, 1, 1, 1, 1, 1, 1, 1, 1, 1, 1, 1, 1, 1, 1, 1,
     1, 1, 1, 1, 1, 1, 1, 1, 1, 1, 1, 1, 1, 1, 1, 1]"

definition yy_meta :: "int list" where
  "yy_meta =
    [0, 1, 1, 2, 1, 1, 1, 1, 1, 1, 1, 1, 1, 1, 3, 1, 1, 1, 1, 3, 3, 3, 3, 3,
     3, 3, 3, 3, 3, 3, 3, 3, 3, 3, 3, 3, 3, 3, 3, 3, 3, 3, 3, 3, 3, 3, 3, 3,
     3, 3, 3, 3, 3, 3, 3, 3, 3, 3, 3, 3, 3, 3, 3]"

definition yy_base :: "int list" where
  "yy_base =
    [0, 0, 0, 223, 220, 223, 243, 219, 243, 217, 214, 243, 204, 52, 209, 53, 51, 198, 33, 0, 44, 48, 33, 45,
     52, 46, 48, 61, 64, 48, 66, 62, 243, 201, 211, 243, 124, 243, 77, 0, 243, 105, 243, 243, 243, 0, 68, 74,
     74, 76, 80, 87, 83, 85, 89, 106, 94, 94, 90, 104, 103, 102, 103, 243, 0, 62, 0, 98, 116, 115, 125, 117,
     119, 137, 129, 127, 134, 139, 133, 135, 144, 0, 131, 142, 149, 136, 140, 0, 139, 140, 0, 0, 0, 142, 0, 0,
     143, 150, 0, 0, 165, 0, 166, 158, 176, 178, 179, 180, 0, 0, 171, 172, 175, 181, 176, 0, 0, 0, 0, 0,
     0, 0, 0, 243, 233, 236, 69, 239]"

definition yy_def :: "int list" where
  "yy_def =
    [0, 123, 1, 124, 124, 123, 123, 123, 123, 123, 125, 123, 123, 123, 123, 123, 123, 123, 126, 126, 126, 126, 126, 126,
     126, 126, 126, 126, 126, 126, 126, 126, 123, 123, 123, 123, 125, 123, 123, 127, 123, 123, 123, 123, 123, 126, 126, 126,
     126, 126, 126, 126, 126, 126, 126, 126, 126, 126, 126, 126, 126, 126, 126, 123, 127, 123, 126, 126, 126, 126, 126, 126,
     126, 126, 126, 126, 126, 126, 126, 126, 126, 126, 126, 126, 126, 126, 126, 126, 126, 126, 126, 126, 126, 126, 126, 126,
     126, 126, 126, 126, 126, 126, 126, 126, 126, 126, 126, 126, 126, 126, 126, 126, 126, 126, 126, 126, 126, 126, 126, 126,
     126, 126, 126, 0, 123, 123, 123, 123]"

definition yy_nxt :: "int list" where
  "yy_nxt =
    [0, 6, 7, 8, 9, 10, 11, 11, 11, 12, 11, 13, 11, 14, 15, 11, 16, 11, 17, 18, 19, 20, 21, 22,
     23, 19, 24, 25, 26, 19, 19, 19, 19, 19, 19, 27, 28, 29, 30, 31, 19, 6, 18, 19, 20, 21, 22, 23,
     24, 25, 26, 19, 19, 19, 19, 19, 19, 27, 28, 29, 30, 31, 19, 39, 46, 41, 38, 38, 42, 43, 47, 49,
     45, 51, 52, 54, 65, 55, 48, 53, 56, 60, 50, 59, 57, 61, 46, 58, 62, 41, 66, 38, 47, 67, 49, 51,
     52, 68, 54, 55, 48, 53, 56, 60, 50, 69, 59, 57, 61, 58, 62, 70, 71, 66, 72, 73, 67, 74, 75, 65,
     68, 79, 82, 80, 83, 84, 86, 69, 76, 37, 81, 85, 87, 70, 71, 88, 72, 73, 89, 74, 75, 77, 78, 79,
     82, 80, 90, 83, 84, 86, 91, 76, 81, 85, 87, 92, 93, 96, 88, 94, 95, 89, 97, 77, 78, 98, 99, 100,
     103, 90, 101, 102, 91, 104, 105, 106, 107, 92, 108, 93, 96, 94, 95, 109, 110, 97, 111, 98, 99, 112, 100, 103,
     101, 102, 113, 104, 105, 106, 107, 114, 108, 115, 116, 117, 121, 109, 110, 118, 119, 111, 120, 122, 112, 34, 63, 44,
     113, 40, 38, 37, 35, 34, 114, 123, 115, 116, 117, 121, 33, 118, 119, 33, 120, 122, 32, 32, 32, 36, 36, 36,
     64, 123, 64, 5, 123, 123, 123, 123, 123, 123, 123, 123, 123, 123, 123, 123, 123, 123, 123, 123, 123, 123, 123, 123,
     123, 123, 123, 123, 123, 123, 123, 123, 123, 123, 123, 123, 123, 123, 123, 123, 123, 123, 123, 123, 123, 123, 123, 123,
     123, 123, 123, 123, 123, 123, 123, 123, 123, 123, 123, 123, 123, 123, 123, 123, 123, 123]"

definition yy_chk :: "int list" where
  "yy_chk =
    [0, 1, 1, 1, 1, 1, 1, 1, 1, 1, 1, 1, 1, 1, 1, 1, 1, 1, 1, 1, 1, 1, 1, 1,
     1, 1, 1, 1, 1, 1, 1, 1, 1, 1, 1, 1, 1, 1, 1, 1, 1, 1, 1, 1, 1, 1, 1, 1,
     1, 1, 1, 1, 1, 1, 1, 1, 1, 1, 1, 1, 1, 1, 1, 13, 18, 15, 13, 15, 16, 16, 20, 21,
     126, 22, 23, 24, 65, 25, 20, 23, 26, 29, 21, 28, 27, 30, 18, 27, 31, 38, 46, 38, 20, 47, 21, 22,
     23, 48, 24, 25, 20, 23, 26, 29, 21, 49, 28, 27, 30, 27, 31, 49, 50, 46, 51, 52, 47, 53, 54, 41,
     48, 56, 58, 57, 59, 60, 62, 49, 55, 36, 57, 61, 67, 49, 50, 68, 51, 52, 69, 53, 54, 55, 55, 56,
     58, 57, 70, 59, 60, 62, 71, 55, 57, 61, 67, 72, 73, 76, 68, 74, 75, 69, 77, 55, 55, 78, 79, 80,
     84, 70, 82, 83, 71, 85, 86, 88, 89, 72, 93, 73, 76, 74, 75, 96, 97, 77, 100, 78, 79, 102, 80, 84,
     82, 83, 103, 85, 86, 88, 89, 104, 93, 105, 106, 107, 113, 96, 97, 110, 111, 100, 112, 114, 102, 34, 33, 17,
     103, 14, 12, 10, 9, 7, 104, 5, 105, 106, 107, 113, 4, 110, 111, 3, 112, 114, 124, 124, 124, 125, 125, 125,
     127, 0, 127, 123, 123, 123, 123, 123, 123, 123, 123, 123, 123, 123, 123, 123, 123, 123, 123, 123, 123, 123, 123, 123,
     123, 123, 123, 123, 123, 123, 123, 123, 123, 123, 123, 123, 123, 123, 123, 123, 123, 123, 123, 123, 123, 123, 123, 123,
     123, 123, 123, 123, 123, 123, 123, 123, 123, 123, 123, 123, 123, 123, 123, 123, 123, 123]"

section \<open>The state of the scanner\<close>

record yy_buffer_state =
  yy_ch_buf :: string
  yy_buf_pos :: nat
  yy_buf_size :: nat
  yy_buf_n_chars :: nat
  yy_is_our_buffer :: bool
  yy_fill_buffer :: bool
  yy_buffer_new :: bool

text \<open>The globals; \<open>yy_buffer\<close> is \<open>YY_CURRENT_BUFFER\<close>, \<open>None\<close> the null pointer, and \<open>lex_cerr\<close> has the messages.\<close>

record yylexer =
  yy_buffer :: "yy_buffer_state option"
  yy_hold_char :: char
  yy_n_chars :: nat
  yy_c_buf_p :: nat
  yytext_ptr :: nat
  yyleng :: nat
  yy_init :: bool
  yy_start :: int
  yy_did_buffer_switch_on_eof :: bool
  yy_last_accepting_state :: int
  yy_last_accepting_cpos :: nat
  lex_cerr :: "string list"

definition yylexer_new :: yylexer where
  "yylexer_new = \<lparr>yy_buffer = None, yy_hold_char = CHR 0x00, yy_n_chars = 0, yy_c_buf_p = 0, yytext_ptr = 0, yyleng = 0, yy_init = False, yy_start = 0,
     yy_did_buffer_switch_on_eof = False, yy_last_accepting_state = 0, yy_last_accepting_cpos = 0, lex_cerr = []\<rparr>"

definition ch_buf :: "yylexer \<Rightarrow> string" where
  "ch_buf g = (case yy_buffer g of None \<Rightarrow> [] | Some b \<Rightarrow> yy_ch_buf b)"

definition put_ch :: "nat \<Rightarrow> char \<Rightarrow> yylexer \<Rightarrow> yylexer" where
  "put_ch i c g = g\<lparr>yy_buffer := map_option (\<lambda>b. b\<lparr>yy_ch_buf := (yy_ch_buf b)[i := c]\<rparr>) (yy_buffer g)\<rparr>"

section \<open>Buffers\<close>

definition yy_load_buffer_state :: "yylexer \<Rightarrow> yylexer" where
  "yy_load_buffer_state g = (case yy_buffer g of None \<Rightarrow> g
     | Some b \<Rightarrow> g\<lparr>yy_n_chars := yy_buf_n_chars b, yytext_ptr := yy_buf_pos b, yy_c_buf_p := yy_buf_pos b, yy_hold_char := yy_ch_buf b ! yy_buf_pos b\<rparr>)"

text \<open>The old buffer, whose position is saved in it, is not reached any more: the program keeps no pointer to it.\<close>

definition yy_switch_to_buffer :: "yy_buffer_state \<Rightarrow> yylexer \<Rightarrow> yylexer" where
  "yy_switch_to_buffer new_buffer g = (yy_load_buffer_state (g\<lparr>yy_buffer := Some new_buffer\<rparr>))\<lparr>yy_did_buffer_switch_on_eof := True\<rparr>"

definition yy_scan_buffer :: "string \<Rightarrow> yylexer \<Rightarrow> yylexer option" where
  "yy_scan_buffer base g =
     (let size = length base
      in if size < 2 \<or> base ! (size - 2) \<noteq> CHR 0x00 \<or> base ! (size - 1) \<noteq> CHR 0x00 then None
         else Some (yy_switch_to_buffer \<lparr>yy_ch_buf = base, yy_buf_pos = 0, yy_buf_size = size - 2, yy_buf_n_chars = size - 2, yy_is_our_buffer = False,
           yy_fill_buffer = False, yy_buffer_new = True\<rparr> g))"

definition yy_scan_bytes :: "string \<Rightarrow> yylexer \<Rightarrow> yylexer option" where
  "yy_scan_bytes yybytes g =
     map_option (\<lambda>g. g\<lparr>yy_buffer := map_option (\<lambda>b. b\<lparr>yy_is_our_buffer := True\<rparr>) (yy_buffer g)\<rparr>) (yy_scan_buffer (yybytes @ [CHR 0x00, CHR 0x00]) g)"

text \<open>The argument is a C string: its characters up to the first null character.\<close>

definition yy_scan_string :: "string \<Rightarrow> yylexer \<Rightarrow> yylexer option" where
  "yy_scan_string yystr g = yy_scan_bytes (takeWhile (\<lambda>c. c \<noteq> CHR 0x00) yystr) g"

text \<open>\<open>yy_delete_buffer\<close> of the current buffer.\<close>

definition yy_delete_buffer :: "yylexer \<Rightarrow> yylexer" where
  "yy_delete_buffer g = g\<lparr>yy_buffer := None\<rparr>"

section \<open>Matching\<close>

partial_function (option) yy_trans :: "int \<Rightarrow> int \<Rightarrow> int option" where
  "yy_trans yy_current_state yy_c =
     (if yy_chk ! nat (yy_base ! nat yy_current_state + yy_c) = yy_current_state
      then Some (yy_nxt ! nat (yy_base ! nat yy_current_state + yy_c))
      else let d = yy_def ! nat yy_current_state in yy_trans d (if 124 \<le> d then yy_meta ! nat yy_c else yy_c))"

declare yy_trans.simps [code]

definition yy_note :: "int \<Rightarrow> nat \<Rightarrow> yylexer \<Rightarrow> yylexer" where
  "yy_note yy_current_state yy_cp g =
     (if yy_accept ! nat yy_current_state \<noteq> 0 then g\<lparr>yy_last_accepting_state := yy_current_state, yy_last_accepting_cpos := yy_cp\<rparr> else g)"

definition yy_class :: "char \<Rightarrow> int" where
  "yy_class c = yy_ec ! nat (of_char c)"

text \<open>The loop at \<open>yy_match\<close>: the state and the position after it.\<close>

partial_function (option) yy_match :: "int \<Rightarrow> nat \<Rightarrow> yylexer \<Rightarrow> (int \<times> nat \<times> yylexer) option" where
  "yy_match yy_current_state yy_cp g =
     (if yy_cp < length (ch_buf g) then
        case yy_trans yy_current_state (yy_class (ch_buf g ! yy_cp)) of
          None \<Rightarrow> None
        | Some q \<Rightarrow> let h = yy_note yy_current_state yy_cp g
            in if yy_base ! nat q \<noteq> 243 then yy_match q (yy_cp + 1) h else Some (q, yy_cp + 1, h)
      else None)"

declare yy_match.simps [code]

text \<open>\<open>YY_DO_BEFORE_ACTION\<close>.\<close>

definition yy_do_before_action :: "nat \<Rightarrow> nat \<Rightarrow> yylexer \<Rightarrow> yylexer" where
  "yy_do_before_action yy_bp yy_cp g =
     put_ch yy_cp (CHR 0x00) (g\<lparr>yytext_ptr := yy_bp, yyleng := yy_cp - yy_bp, yy_hold_char := ch_buf g ! yy_cp, yy_c_buf_p := yy_cp\<rparr>)"

text \<open>The state before the end of the buffer: the token is read again up to \<open>yy_c_buf_p\<close>. A null character of the text counts as class 1.\<close>

fun yy_previous :: "string \<Rightarrow> int \<Rightarrow> nat \<Rightarrow> yylexer \<Rightarrow> (int \<times> yylexer) option" where
  "yy_previous [] yy_current_state yy_cp g = Some (yy_current_state, g)"
| "yy_previous (c # cs) yy_current_state yy_cp g =
     (case yy_trans yy_current_state (if c = CHR 0x00 then 1 else yy_class c) of
        None \<Rightarrow> None
      | Some q \<Rightarrow> yy_previous cs q (yy_cp + 1) (yy_note yy_current_state yy_cp g))"

definition yy_get_previous_state :: "yylexer \<Rightarrow> (int \<times> yylexer) option" where
  "yy_get_previous_state g = yy_previous (take (yy_c_buf_p g - yytext_ptr g) (drop (yytext_ptr g) (ch_buf g))) (yy_start g) (yytext_ptr g) g"

definition yy_try_NUL_trans :: "int \<Rightarrow> yylexer \<Rightarrow> (int \<times> yylexer) option" where
  "yy_try_NUL_trans yy_current_state g =
     map_option (\<lambda>q. (if q = 123 then 0 else q, yy_note yy_current_state (yy_c_buf_p g) g)) (yy_trans yy_current_state 1)"

section \<open>Actions\<close>

text \<open>\<open>atof\<close>, and \<open>atoi\<close> of a number outside the range of an \<open>int\<close>, whose value the language leaves open.\<close>

record lex_params =
  atof :: "string \<Rightarrow> byte list"
  atoi_out :: "string \<Rightarrow> int"

fun digits_val :: "int \<Rightarrow> string \<Rightarrow> int" where
  "digits_val acc [] = acc"
| "digits_val acc (c # cs) = digits_val (10 * acc + (of_char c - 48)) cs"

definition atoi_val :: "string \<Rightarrow> int" where
  "atoi_val s = (case s of [] \<Rightarrow> 0
     | c # cs \<Rightarrow> if c = CHR ''-'' then - digits_val 0 cs else if c = CHR ''+'' then digits_val 0 cs else digits_val 0 s)"

definition atoi :: "lex_params \<Rightarrow> string \<Rightarrow> int" where
  "atoi ps s = (let v = atoi_val s in if - (2 ^ 31) \<le> v \<and> v < 2 ^ 31 then v else atoi_out ps s)"

text \<open>\<open>yytext\<close> as a C string.\<close>

definition yytext :: "yylexer \<Rightarrow> string" where
  "yytext g = takeWhile (\<lambda>c. c \<noteq> CHR 0x00) (drop (yytext_ptr g) (ch_buf g))"

fun advance :: "YYLTYPE \<Rightarrow> string \<Rightarrow> YYLTYPE" where
  "advance loc [] = loc"
| "advance loc (c # cs) =
     advance (if c = CHR 0x0A then loc\<lparr>last_line := last_line loc + 1, last_column := 1\<rparr> else loc\<lparr>last_column := last_column loc + 1\<rparr>) cs"

definition yy_user_action :: "YYLTYPE \<Rightarrow> string \<Rightarrow> YYLTYPE" where
  "yy_user_action loc text = advance (loc\<lparr>first_line := last_line loc, first_column := last_column loc\<rparr>) text"

definition yy_keyword :: "int \<Rightarrow> int" where
  "yy_keyword yy_act =
     [T_SHOW, T_TABLES, T_CREATE, T_TABLE, T_DROP, T_DESC, T_INSERT, T_INTO, T_VALUES, T_DELETE, T_FROM, T_WHERE, T_UPDATE, T_SET, T_SELECT,
      T_INT, T_CHAR, T_FLOAT, T_INDEX, T_AND, T_JOIN, T_EXIT, T_HELP, T_GEQ, T_LEQ, T_NEQ] ! nat (yy_act - 8)"

text \<open>The token that the action of a rule returns, or nothing when it goes on scanning.\<close>

definition yy_token :: "lex_params \<Rightarrow> int \<Rightarrow> string \<Rightarrow> token option" where
  "yy_token ps yy_act text =
     (if 8 \<le> yy_act \<and> yy_act \<le> 33 then Some (Tok (yy_keyword yy_act))
      else if yy_act = 34 then Some (ctok (hd text))
      else if yy_act = 35 then Some (TokStr T_IDENTIFIER text)
      else if yy_act = 36 then Some (TokInt (atoi ps text))
      else if yy_act = 37 then Some (TokFloat (atof ps text))
      else if yy_act = 38 then Some (TokStr T_VALUE_STRING (take (length text - 2) (tl text)))
      else None)"

text \<open>What else an action does: the start condition, and the message for a character that no rule expects.\<close>

definition yy_effect :: "int \<Rightarrow> string \<Rightarrow> yylexer \<Rightarrow> yylexer" where
  "yy_effect yy_act text g =
     (if yy_act = 1 then g\<lparr>yy_start := 3\<rparr>
      else if yy_act = 2 then g\<lparr>yy_start := 1\<rparr>
      else if yy_act = 39 then g\<lparr>lex_cerr := lex_cerr g @ [''Lexer Error: unexpected character '' @ take 1 text @ newline]\<rparr>
      else g)"

section \<open>The scanner\<close>

datatype yylabel = Yy_next | Yy_match int nat nat | Yy_find_action int nat nat | Yy_do_action int nat

type_synonym yylex_next = "yylabel \<times> YYLTYPE \<times> yylexer + token \<times> YYLTYPE \<times> yylexer"

datatype eob_act = EOB_ACT_END_OF_FILE | EOB_ACT_LAST_MATCH

definition yy_get_next_buffer :: "yylexer \<Rightarrow> eob_act option" where
  "yy_get_next_buffer g =
     (case yy_buffer g of None \<Rightarrow> None
      | Some b \<Rightarrow>
          if yy_n_chars g + 1 < yy_c_buf_p g then None
          else if \<not> yy_fill_buffer b then Some (if yy_c_buf_p g - yytext_ptr g = 1 then EOB_ACT_END_OF_FILE else EOB_ACT_LAST_MATCH)
          else None)"

definition yy_buffer_status_normal :: "yylexer \<Rightarrow> yylexer" where
  "yy_buffer_status_normal g = (case yy_buffer g of None \<Rightarrow> g
     | Some b \<Rightarrow> if yy_buffer_new b then g\<lparr>yy_n_chars := yy_buf_n_chars b, yy_buffer := Some (b\<lparr>yy_buffer_new := False\<rparr>)\<rparr> else g)"

text \<open>\<open>YY_END_OF_BUFFER\<close>: a null character of the text, the end of the input, or the end of the last token.\<close>

definition yy_end_of_buffer :: "nat \<Rightarrow> yylexer \<Rightarrow> (yylabel \<times> yylexer) option" where
  "yy_end_of_buffer yy_cp g0 =
     (let amount = yy_cp - yytext_ptr g0 - 1;
          g = yy_buffer_status_normal (put_ch yy_cp (yy_hold_char g0) g0)
      in if yy_c_buf_p g \<le> yy_n_chars g then
           case yy_get_previous_state (g\<lparr>yy_c_buf_p := yytext_ptr g + amount\<rparr>) of None \<Rightarrow> None
           | Some (q, h) \<Rightarrow>
               (case yy_try_NUL_trans q h of None \<Rightarrow> None
                | Some (q', k) \<Rightarrow>
                    if q' \<noteq> 0 then Some (Yy_match q' (yy_c_buf_p k + 1) (yytext_ptr k), k\<lparr>yy_c_buf_p := yy_c_buf_p k + 1\<rparr>)
                    else Some (Yy_find_action q (yy_c_buf_p k) (yytext_ptr k), k))
         else
           case yy_get_next_buffer g of None \<Rightarrow> None
           | Some EOB_ACT_END_OF_FILE \<Rightarrow>
               Some (Yy_do_action (41 + (yy_start g - 1) div 2 + 1) yy_cp, g\<lparr>yy_did_buffer_switch_on_eof := False, yy_c_buf_p := yytext_ptr g\<rparr>)
           | Some EOB_ACT_LAST_MATCH \<Rightarrow>
               (case yy_get_previous_state (g\<lparr>yy_c_buf_p := yy_n_chars g\<rparr>) of None \<Rightarrow> None
                | Some (q, h) \<Rightarrow> Some (Yy_find_action q (yy_c_buf_p h) (yytext_ptr h), h)))"

fun yylex_step :: "lex_params \<Rightarrow> yylabel \<Rightarrow> YYLTYPE \<Rightarrow> yylexer \<Rightarrow> yylex_next option" where
  "yylex_step ps Yy_next loc g =
     (let yy_cp = yy_c_buf_p g in Some (Inl (Yy_match (yy_start g) yy_cp yy_cp, loc, put_ch yy_cp (yy_hold_char g) g)))"
| "yylex_step ps (Yy_match q yy_cp yy_bp) loc g =
     map_option (\<lambda>(q', cp, h). Inl (Yy_find_action q' cp yy_bp, loc, h)) (yy_match q yy_cp g)"
| "yylex_step ps (Yy_find_action q yy_cp yy_bp) loc g =
     (let back = yy_accept ! nat q = 0;
          cp = (if back then yy_last_accepting_cpos g else yy_cp);
          act = yy_accept ! nat (if back then yy_last_accepting_state g else q)
      in Some (Inl (Yy_do_action act cp, loc, yy_do_before_action yy_bp cp g)))"
| "yylex_step ps (Yy_do_action yy_act yy_cp) loc g =
     (if yy_act = 0 then
        Some (Inl (Yy_find_action (yy_last_accepting_state g) (yy_last_accepting_cpos g) (yytext_ptr g), loc, put_ch yy_cp (yy_hold_char g) g))
      else if 1 \<le> yy_act \<and> yy_act \<le> 40 then
        let text = yytext g; loc' = yy_user_action loc text; h = yy_effect yy_act text g
        in Some (case yy_token ps yy_act text of Some t \<Rightarrow> Inr (t, loc', h) | None \<Rightarrow> Inl (Yy_next, loc', h))
      else if yy_act = 41 then map_option (\<lambda>(lab, h). Inl (lab, loc, h)) (yy_end_of_buffer yy_cp g)
      else if yy_act = 42 \<or> yy_act = 43 then Some (Inr (Tok T_EOF, loc, g))
      else None)"

partial_function (option) yylex_loop :: "lex_params \<Rightarrow> yylabel \<Rightarrow> YYLTYPE \<Rightarrow> yylexer \<Rightarrow> (token \<times> YYLTYPE \<times> yylexer) option" where
  "yylex_loop ps lab loc g =
     (case yylex_step ps lab loc g of
        None \<Rightarrow> None
      | Some (Inl (lab', loc', h)) \<Rightarrow> yylex_loop ps lab' loc' h
      | Some (Inr r) \<Rightarrow> Some r)"

declare yylex_loop.simps [code]

definition yylex :: "lex_params \<Rightarrow> YYLTYPE \<Rightarrow> yylexer \<Rightarrow> (token \<times> YYLTYPE \<times> yylexer) option" where
  "yylex ps loc g =
     (let h = (if yy_init g then g else yy_load_buffer_state (g\<lparr>yy_init := True, yy_start := (if yy_start g = 0 then 1 else yy_start g)\<rparr>))
      in if yy_buffer h = None then None else yylex_loop ps Yy_next loc h)"

end
