(* ===== verification/Sql_Lex_Rules.thy ===== *)
theory Sql_Lex_Rules
  imports Sql_Lexer
begin

text \<open>
  The rules of \<open>parser/lex.l\<close>, without the keywords of transactions it has got since, as regular expressions, and the certificate that the tables of \<open>parser/lex.yy.c\<close> implement them: for every state of
  the automaton the rules that can still match, with what is left of them to match. The certificate is checked by evaluation: the step of a state on a
  class of characters is the derivative of its expressions, and a state accepts the first rule that is matched completely.
\<close>

section \<open>Regular expressions\<close>

text \<open>Sets of characters by their codes: letters match in both cases, \<open>But n\<close> is every character but one.\<close>

datatype lexset = Lit int | Alpha | Digit | Blank | But int

definition lower_code :: "int \<Rightarrow> int" where
  "lower_code n = (if 65 \<le> n \<and> n \<le> 90 then n + 32 else n)"

fun in_set :: "lexset \<Rightarrow> int \<Rightarrow> bool" where
  "in_set (Lit m) n \<longleftrightarrow> lower_code n = m"
| "in_set Alpha n \<longleftrightarrow> 65 \<le> n \<and> n \<le> 90 \<or> 97 \<le> n \<and> n \<le> 122"
| "in_set Digit n \<longleftrightarrow> 48 \<le> n \<and> n \<le> 57"
| "in_set Blank n \<longleftrightarrow> n = 32 \<or> n = 9"
| "in_set (But m) n \<longleftrightarrow> n \<noteq> m"

datatype rexp = Zero | One | Sym lexset | Alt rexp rexp | Seq rexp rexp | Rep rexp

inductive matches :: "rexp \<Rightarrow> int list \<Rightarrow> bool" where
  matches_One: "matches One []"
| matches_Sym: "in_set s n \<Longrightarrow> matches (Sym s) [n]"
| matches_Alt1: "matches r w \<Longrightarrow> matches (Alt r s) w"
| matches_Alt2: "matches s w \<Longrightarrow> matches (Alt r s) w"
| matches_Seq: "matches r u \<Longrightarrow> matches s v \<Longrightarrow> matches (Seq r s) (u @ v)"
| matches_Rep0: "matches (Rep r) []"
| matches_Rep: "matches r u \<Longrightarrow> matches (Rep r) v \<Longrightarrow> matches (Rep r) (u @ v)"

inductive_simps matches_simps [simp]: "matches Zero w" "matches One w" "matches (Sym s) w" "matches (Alt r s) w" "matches (Seq r s) w"

fun nullable_exp :: "rexp \<Rightarrow> bool" where
  "nullable_exp Zero \<longleftrightarrow> False"
| "nullable_exp One \<longleftrightarrow> True"
| "nullable_exp (Sym s) \<longleftrightarrow> False"
| "nullable_exp (Alt r s) \<longleftrightarrow> nullable_exp r \<or> nullable_exp s"
| "nullable_exp (Seq r s) \<longleftrightarrow> nullable_exp r \<and> nullable_exp s"
| "nullable_exp (Rep r) \<longleftrightarrow> True"

fun alt :: "rexp \<Rightarrow> rexp \<Rightarrow> rexp" where
  "alt Zero s = s"
| "alt r Zero = r"
| "alt r s = Alt r s"

fun seq :: "rexp \<Rightarrow> rexp \<Rightarrow> rexp" where
  "seq Zero s = Zero"
| "seq r Zero = Zero"
| "seq One s = s"
| "seq r One = r"
| "seq r s = Seq r s"

fun deriv :: "int \<Rightarrow> rexp \<Rightarrow> rexp" where
  "deriv n Zero = Zero"
| "deriv n One = Zero"
| "deriv n (Sym s) = (if in_set s n then One else Zero)"
| "deriv n (Alt r s) = alt (deriv n r) (deriv n s)"
| "deriv n (Seq r s) = (if nullable_exp r then alt (seq (deriv n r) s) (deriv n s) else seq (deriv n r) s)"
| "deriv n (Rep r) = seq (deriv n r) (Rep r)"

lemma matches_alt [simp]: "matches (alt r s) w \<longleftrightarrow> matches (Alt r s) w"
  by (induction r s rule: alt.induct) auto

lemma matches_seq [simp]: "matches (seq r s) w \<longleftrightarrow> matches (Seq r s) w"
  by (induction r s rule: seq.induct) auto

lemma matches_Nil: "matches r [] \<longleftrightarrow> nullable_exp r"
  by (induction r) (auto intro: matches_Rep0)

lemma matches_Rep_Cons: "matches (Rep r) (n # w) \<longleftrightarrow> (\<exists>u v. w = u @ v \<and> matches r (n # u) \<and> matches (Rep r) v)"
proof
  show "matches (Rep r) (n # w) \<Longrightarrow> \<exists>u v. w = u @ v \<and> matches r (n # u) \<and> matches (Rep r) v"
  proof (induction "Rep r" "n # w" rule: matches.induct)
    case (matches_Rep u v)
    then show ?case by (cases u) auto
  qed
  assume "\<exists>u v. w = u @ v \<and> matches r (n # u) \<and> matches (Rep r) v"
  then show "matches (Rep r) (n # w)" using matches_Rep [of r "n # u" for u] by fastforce
qed

lemma matches_Cons: "matches r (n # w) \<longleftrightarrow> matches (deriv n r) w"
proof (induction r arbitrary: w)
  case (Seq r s)
  have "matches (Seq r s) (n # w) \<longleftrightarrow> nullable_exp r \<and> matches s (n # w) \<or> (\<exists>u v. w = u @ v \<and> matches r (n # u) \<and> matches s v)"
    by (auto simp: Cons_eq_append_conv simp flip: matches_Nil)
  then show ?case using Seq by auto
next
  case (Rep r)
  then show ?case by (simp add: matches_Rep_Cons)
qed auto

section \<open>The rules\<close>

definition lit :: "char \<Rightarrow> rexp" where
  "lit c = Sym (Lit (lower_code (of_char c)))"

fun spell :: "string \<Rightarrow> rexp" where
  "spell [] = One"
| "spell [c] = lit c"
| "spell (c # cs) = Seq (lit c) (spell cs)"

fun alts :: "rexp list \<Rightarrow> rexp" where
  "alts [] = Zero"
| "alts [r] = r"
| "alts (r # rs) = Alt r (alts rs)"

definition plus_exp :: "rexp \<Rightarrow> rexp" where "plus_exp r = Seq r (Rep r)"
definition opt_exp :: "rexp \<Rightarrow> rexp" where "opt_exp r = Alt r One"

definition alpha_exp :: rexp where "alpha_exp = Sym Alpha"
definition digit_exp :: rexp where "digit_exp = Sym Digit"
definition white_space_exp :: rexp where "white_space_exp = plus_exp (Sym Blank)"
definition new_line_exp :: rexp where "new_line_exp = alts [lit (CHR 0x0D), lit (CHR 0x0A), spell [CHR 0x0D, CHR 0x0A]]"
definition sign_exp :: rexp where "sign_exp = Alt (lit (CHR ''+'')) (lit (CHR ''-''))"
definition identifier_exp :: rexp where "identifier_exp = Seq alpha_exp (Rep (alts [lit (CHR ''_''), alpha_exp, digit_exp]))"
definition value_int_exp :: rexp where "value_int_exp = Seq (opt_exp sign_exp) (plus_exp digit_exp)"
definition value_float_exp :: rexp where "value_float_exp = Seq (opt_exp sign_exp) (Seq (plus_exp digit_exp) (Seq (lit (CHR ''.'')) (opt_exp (plus_exp digit_exp))))"
definition value_string_exp :: rexp where "value_string_exp = Seq (lit (CHR 0x27)) (Seq (Rep (Sym (But 39))) (lit (CHR 0x27)))"
definition single_op_exp :: rexp where "single_op_exp = alts (map lit '';(),*=><.'')"

definition sql_keywords :: "string list" where
  "sql_keywords =
    [''SHOW'', ''TABLES'', ''CREATE'', ''TABLE'', ''DROP'', ''DESC'', ''INSERT'', ''INTO'', ''VALUES'', ''DELETE'', ''FROM'', ''WHERE'', ''UPDATE'', 
     ''SET'', ''SELECT'', ''INT'', ''CHAR'', ''FLOAT'', ''INDEX'', ''AND'', ''JOIN'', ''EXIT'', ''HELP'']"

text \<open>The rules of the two start conditions with their numbers.\<close>

definition rules_initial :: "(int \<times> rexp) list" where
  "rules_initial =
     [(1, spell ''/*''), (5, Seq (spell ''--'') (Rep (Sym (But 10)))), (6, white_space_exp), (7, new_line_exp)] @
     zip [8..30] (map spell sql_keywords) @
     [(31, spell ''>=''), (32, spell ''<=''), (33, spell ''<>''), (34, single_op_exp), (35, identifier_exp), (36, value_int_exp), (37, value_float_exp), (38, value_string_exp),
      (39, Sym (But 10))]"

definition rules_comment :: "(int \<times> rexp) list" where
  "rules_comment = [(2, spell ''*/''), (3, Sym (But 42)), (4, lit (CHR ''*''))]"

definition rules_of :: "int \<Rightarrow> (int \<times> rexp) list" where
  "rules_of start = (if start = 3 then rules_comment else rules_initial)"

section \<open>The certificate\<close>

definition word_rest :: rexp where
  "word_rest = Rep (Alt (Sym (Lit 95)) (Alt (Sym Alpha) (Sym Digit)))"

definition yy_initial :: "(int \<times> rexp) list" where
  "yy_initial =
    [(1, Seq (Sym (Lit 47)) (Sym (Lit 42))), (5, Seq (Seq (Sym (Lit 45)) (Sym (Lit 45))) (Rep (Sym (But 10)))), (6, Seq (Sym Blank) (Rep (Sym Blank))), 
     (7, Alt (Sym (Lit 13)) (Alt (Sym (Lit 10)) (Seq (Sym (Lit 13)) (Sym (Lit 10))))), 
     (8, Seq (Sym (Lit 115)) (Seq (Sym (Lit 104)) (Seq (Sym (Lit 111)) (Sym (Lit 119))))), 
     (9, Seq (Sym (Lit 116)) (Seq (Sym (Lit 97)) (Seq (Sym (Lit 98)) (Seq (Sym (Lit 108)) (Seq (Sym (Lit 101)) (Sym (Lit 115))))))), 
     (10, Seq (Sym (Lit 99)) (Seq (Sym (Lit 114)) (Seq (Sym (Lit 101)) (Seq (Sym (Lit 97)) (Seq (Sym (Lit 116)) (Sym (Lit 101))))))), 
     (11, Seq (Sym (Lit 116)) (Seq (Sym (Lit 97)) (Seq (Sym (Lit 98)) (Seq (Sym (Lit 108)) (Sym (Lit 101)))))), 
     (12, Seq (Sym (Lit 100)) (Seq (Sym (Lit 114)) (Seq (Sym (Lit 111)) (Sym (Lit 112))))), 
     (13, Seq (Sym (Lit 100)) (Seq (Sym (Lit 101)) (Seq (Sym (Lit 115)) (Sym (Lit 99))))), 
     (14, Seq (Sym (Lit 105)) (Seq (Sym (Lit 110)) (Seq (Sym (Lit 115)) (Seq (Sym (Lit 101)) (Seq (Sym (Lit 114)) (Sym (Lit 116))))))), 
     (15, Seq (Sym (Lit 105)) (Seq (Sym (Lit 110)) (Seq (Sym (Lit 116)) (Sym (Lit 111))))), 
     (16, Seq (Sym (Lit 118)) (Seq (Sym (Lit 97)) (Seq (Sym (Lit 108)) (Seq (Sym (Lit 117)) (Seq (Sym (Lit 101)) (Sym (Lit 115))))))), 
     (17, Seq (Sym (Lit 100)) (Seq (Sym (Lit 101)) (Seq (Sym (Lit 108)) (Seq (Sym (Lit 101)) (Seq (Sym (Lit 116)) (Sym (Lit 101))))))), 
     (18, Seq (Sym (Lit 102)) (Seq (Sym (Lit 114)) (Seq (Sym (Lit 111)) (Sym (Lit 109))))), 
     (19, Seq (Sym (Lit 119)) (Seq (Sym (Lit 104)) (Seq (Sym (Lit 101)) (Seq (Sym (Lit 114)) (Sym (Lit 101)))))), 
     (20, Seq (Sym (Lit 117)) (Seq (Sym (Lit 112)) (Seq (Sym (Lit 100)) (Seq (Sym (Lit 97)) (Seq (Sym (Lit 116)) (Sym (Lit 101))))))), 
     (21, Seq (Sym (Lit 115)) (Seq (Sym (Lit 101)) (Sym (Lit 116)))), 
     (22, Seq (Sym (Lit 115)) (Seq (Sym (Lit 101)) (Seq (Sym (Lit 108)) (Seq (Sym (Lit 101)) (Seq (Sym (Lit 99)) (Sym (Lit 116))))))), 
     (23, Seq (Sym (Lit 105)) (Seq (Sym (Lit 110)) (Sym (Lit 116)))), (24, Seq (Sym (Lit 99)) (Seq (Sym (Lit 104)) (Seq (Sym (Lit 97)) (Sym (Lit 114))))), 
     (25, Seq (Sym (Lit 102)) (Seq (Sym (Lit 108)) (Seq (Sym (Lit 111)) (Seq (Sym (Lit 97)) (Sym (Lit 116)))))), 
     (26, Seq (Sym (Lit 105)) (Seq (Sym (Lit 110)) (Seq (Sym (Lit 100)) (Seq (Sym (Lit 101)) (Sym (Lit 120)))))), 
     (27, Seq (Sym (Lit 97)) (Seq (Sym (Lit 110)) (Sym (Lit 100)))), 
     (28, Seq (Sym (Lit 106)) (Seq (Sym (Lit 111)) (Seq (Sym (Lit 105)) (Sym (Lit 110))))), 
     (29, Seq (Sym (Lit 101)) (Seq (Sym (Lit 120)) (Seq (Sym (Lit 105)) (Sym (Lit 116))))), 
     (30, Seq (Sym (Lit 104)) (Seq (Sym (Lit 101)) (Seq (Sym (Lit 108)) (Sym (Lit 112))))), (31, Seq (Sym (Lit 62)) (Sym (Lit 61))), 
     (32, Seq (Sym (Lit 60)) (Sym (Lit 61))), (33, Seq (Sym (Lit 60)) (Sym (Lit 62))), 
     (34, Alt (Sym (Lit 59)) (Alt (Sym (Lit 40)) (Alt (Sym (Lit 41)) (Alt (Sym (Lit 44)) (Alt (Sym (Lit 42)) (Alt (Sym (Lit 61)) (Alt (Sym (Lit 62)) (Alt (Sym (Lit 60)) (Sym (Lit 46)))))))))), 
     (35, Seq (Sym Alpha) word_rest), (36, Seq (Alt (Alt (Sym (Lit 43)) (Sym (Lit 45))) One) (Seq (Sym Digit) (Rep (Sym Digit)))), 
     (37, Seq (Alt (Alt (Sym (Lit 43)) (Sym (Lit 45))) One) (Seq (Seq (Sym Digit) (Rep (Sym Digit))) (Seq (Sym (Lit 46)) (Alt (Seq (Sym Digit) (Rep (Sym Digit))) One)))), 
     (38, Seq (Sym (Lit 39)) (Seq (Rep (Sym (But 39))) (Sym (Lit 39)))), (39, Sym (But 10))]"

definition yy_comment :: "(int \<times> rexp) list" where
  "yy_comment =
    [(2, Seq (Sym (Lit 42)) (Sym (Lit 47))), (3, Sym (But 42)), (4, Sym (Lit 42))]"

definition yy_items :: "(int \<times> rexp) list list" where
  "yy_items =
    [[], yy_initial, [], yy_comment, [], [], [(39, One)], [(6, Rep (Sym Blank)), (39, One)], [(7, One)], [(7, Alt One (Sym (Lit 10))), (39, One)], 
     [(38, Seq (Rep (Sym (But 39))) (Sym (Lit 39))), (39, One)], [(34, One), (39, One)], 
     [(36, Seq (Sym Digit) (Rep (Sym Digit))), (37, Seq (Seq (Sym Digit) (Rep (Sym Digit))) (Seq (Sym (Lit 46)) (Alt (Seq (Sym Digit) (Rep (Sym Digit))) One))), (39, One)], 
     [(5, Seq (Sym (Lit 45)) (Rep (Sym (But 10)))), (36, Seq (Sym Digit) (Rep (Sym Digit))), (37, Seq (Seq (Sym Digit) (Rep (Sym Digit))) (Seq (Sym (Lit 46)) (Alt (Seq (Sym Digit) (Rep (Sym Digit))) One))), (39, One)], 
     [(1, Sym (Lit 42)), (39, One)], 
     [(36, Rep (Sym Digit)), (37, Seq (Rep (Sym Digit)) (Seq (Sym (Lit 46)) (Alt (Seq (Sym Digit) (Rep (Sym Digit))) One))), (39, One)], 
     [(32, Sym (Lit 61)), (33, Sym (Lit 62)), (34, One), (39, One)], [(31, Sym (Lit 61)), (34, One), (39, One)], 
     [(27, Seq (Sym (Lit 110)) (Sym (Lit 100))), (35, word_rest), (39, One)], [(35, word_rest), (39, One)], 
     [(10, Seq (Sym (Lit 114)) (Seq (Sym (Lit 101)) (Seq (Sym (Lit 97)) (Seq (Sym (Lit 116)) (Sym (Lit 101)))))), (24, Seq (Sym (Lit 104)) (Seq (Sym (Lit 97)) (Sym (Lit 114)))), (35, word_rest), (39, One)], 
     [(12, Seq (Sym (Lit 114)) (Seq (Sym (Lit 111)) (Sym (Lit 112)))), (13, Seq (Sym (Lit 101)) (Seq (Sym (Lit 115)) (Sym (Lit 99)))), (17, Seq (Sym (Lit 101)) (Seq (Sym (Lit 108)) (Seq (Sym (Lit 101)) (Seq (Sym (Lit 116)) (Sym (Lit 101)))))), (35, word_rest), (39, One)], 
     [(29, Seq (Sym (Lit 120)) (Seq (Sym (Lit 105)) (Sym (Lit 116)))), (35, word_rest), (39, One)], 
     [(18, Seq (Sym (Lit 114)) (Seq (Sym (Lit 111)) (Sym (Lit 109)))), (25, Seq (Sym (Lit 108)) (Seq (Sym (Lit 111)) (Seq (Sym (Lit 97)) (Sym (Lit 116))))), (35, word_rest), (39, One)], 
     [(30, Seq (Sym (Lit 101)) (Seq (Sym (Lit 108)) (Sym (Lit 112)))), (35, word_rest), (39, One)], 
     [(14, Seq (Sym (Lit 110)) (Seq (Sym (Lit 115)) (Seq (Sym (Lit 101)) (Seq (Sym (Lit 114)) (Sym (Lit 116)))))), (15, Seq (Sym (Lit 110)) (Seq (Sym (Lit 116)) (Sym (Lit 111)))), (23, Seq (Sym (Lit 110)) (Sym (Lit 116))), (26, Seq (Sym (Lit 110)) (Seq (Sym (Lit 100)) (Seq (Sym (Lit 101)) (Sym (Lit 120))))), (35, word_rest), (39, One)], 
     [(28, Seq (Sym (Lit 111)) (Seq (Sym (Lit 105)) (Sym (Lit 110)))), (35, word_rest), (39, One)], 
     [(8, Seq (Sym (Lit 104)) (Seq (Sym (Lit 111)) (Sym (Lit 119)))), (21, Seq (Sym (Lit 101)) (Sym (Lit 116))), (22, Seq (Sym (Lit 101)) (Seq (Sym (Lit 108)) (Seq (Sym (Lit 101)) (Seq (Sym (Lit 99)) (Sym (Lit 116)))))), (35, word_rest), (39, One)], 
     [(9, Seq (Sym (Lit 97)) (Seq (Sym (Lit 98)) (Seq (Sym (Lit 108)) (Seq (Sym (Lit 101)) (Sym (Lit 115)))))), (11, Seq (Sym (Lit 97)) (Seq (Sym (Lit 98)) (Seq (Sym (Lit 108)) (Sym (Lit 101))))), (35, word_rest), (39, One)], 
     [(20, Seq (Sym (Lit 112)) (Seq (Sym (Lit 100)) (Seq (Sym (Lit 97)) (Seq (Sym (Lit 116)) (Sym (Lit 101)))))), (35, word_rest), (39, One)], 
     [(16, Seq (Sym (Lit 97)) (Seq (Sym (Lit 108)) (Seq (Sym (Lit 117)) (Seq (Sym (Lit 101)) (Sym (Lit 115)))))), (35, word_rest), (39, One)], 
     [(19, Seq (Sym (Lit 104)) (Seq (Sym (Lit 101)) (Seq (Sym (Lit 114)) (Sym (Lit 101))))), (35, word_rest), (39, One)], [(3, One)], 
     [(2, Sym (Lit 47)), (4, One)], [(6, Rep (Sym Blank))], [(7, One)], [(38, Seq (Rep (Sym (But 39))) (Sym (Lit 39)))], [(38, One)], 
     [(36, Rep (Sym Digit)), (37, Seq (Rep (Sym Digit)) (Seq (Sym (Lit 46)) (Alt (Seq (Sym Digit) (Rep (Sym Digit))) One)))], [(5, Rep (Sym (But 10)))], 
     [(1, One)], [(37, Alt (Seq (Sym Digit) (Rep (Sym Digit))) One)], [(32, One)], [(33, One)], [(31, One)], [(35, word_rest)], 
     [(27, Sym (Lit 100)), (35, word_rest)], [(24, Seq (Sym (Lit 97)) (Sym (Lit 114))), (35, word_rest)], 
     [(10, Seq (Sym (Lit 101)) (Seq (Sym (Lit 97)) (Seq (Sym (Lit 116)) (Sym (Lit 101))))), (35, word_rest)], 
     [(13, Seq (Sym (Lit 115)) (Sym (Lit 99))), (17, Seq (Sym (Lit 108)) (Seq (Sym (Lit 101)) (Seq (Sym (Lit 116)) (Sym (Lit 101))))), (35, word_rest)], 
     [(12, Seq (Sym (Lit 111)) (Sym (Lit 112))), (35, word_rest)], [(29, Seq (Sym (Lit 105)) (Sym (Lit 116))), (35, word_rest)], 
     [(25, Seq (Sym (Lit 111)) (Seq (Sym (Lit 97)) (Sym (Lit 116)))), (35, word_rest)], [(18, Seq (Sym (Lit 111)) (Sym (Lit 109))), (35, word_rest)], 
     [(30, Seq (Sym (Lit 108)) (Sym (Lit 112))), (35, word_rest)], 
     [(14, Seq (Sym (Lit 115)) (Seq (Sym (Lit 101)) (Seq (Sym (Lit 114)) (Sym (Lit 116))))), (15, Seq (Sym (Lit 116)) (Sym (Lit 111))), (23, Sym (Lit 116)), (26, Seq (Sym (Lit 100)) (Seq (Sym (Lit 101)) (Sym (Lit 120)))), (35, word_rest)], 
     [(28, Seq (Sym (Lit 105)) (Sym (Lit 110))), (35, word_rest)], 
     [(21, Sym (Lit 116)), (22, Seq (Sym (Lit 108)) (Seq (Sym (Lit 101)) (Seq (Sym (Lit 99)) (Sym (Lit 116))))), (35, word_rest)], 
     [(8, Seq (Sym (Lit 111)) (Sym (Lit 119))), (35, word_rest)], 
     [(9, Seq (Sym (Lit 98)) (Seq (Sym (Lit 108)) (Seq (Sym (Lit 101)) (Sym (Lit 115))))), (11, Seq (Sym (Lit 98)) (Seq (Sym (Lit 108)) (Sym (Lit 101)))), (35, word_rest)], 
     [(20, Seq (Sym (Lit 100)) (Seq (Sym (Lit 97)) (Seq (Sym (Lit 116)) (Sym (Lit 101))))), (35, word_rest)], 
     [(16, Seq (Sym (Lit 108)) (Seq (Sym (Lit 117)) (Seq (Sym (Lit 101)) (Sym (Lit 115))))), (35, word_rest)], 
     [(19, Seq (Sym (Lit 101)) (Seq (Sym (Lit 114)) (Sym (Lit 101)))), (35, word_rest)], [(2, One)], [(5, Rep (Sym (But 10)))], [(37, Rep (Sym Digit))], 
     [(27, One), (35, word_rest)], [(24, Sym (Lit 114)), (35, word_rest)], 
     [(10, Seq (Sym (Lit 97)) (Seq (Sym (Lit 116)) (Sym (Lit 101)))), (35, word_rest)], 
     [(17, Seq (Sym (Lit 101)) (Seq (Sym (Lit 116)) (Sym (Lit 101)))), (35, word_rest)], [(13, Sym (Lit 99)), (35, word_rest)], 
     [(12, Sym (Lit 112)), (35, word_rest)], [(29, Sym (Lit 116)), (35, word_rest)], [(25, Seq (Sym (Lit 97)) (Sym (Lit 116))), (35, word_rest)], 
     [(18, Sym (Lit 109)), (35, word_rest)], [(30, Sym (Lit 112)), (35, word_rest)], [(26, Seq (Sym (Lit 101)) (Sym (Lit 120))), (35, word_rest)], 
     [(14, Seq (Sym (Lit 101)) (Seq (Sym (Lit 114)) (Sym (Lit 116)))), (35, word_rest)], [(15, Sym (Lit 111)), (23, One), (35, word_rest)], 
     [(28, Sym (Lit 110)), (35, word_rest)], [(22, Seq (Sym (Lit 101)) (Seq (Sym (Lit 99)) (Sym (Lit 116)))), (35, word_rest)], 
     [(21, One), (35, word_rest)], [(8, Sym (Lit 119)), (35, word_rest)], 
     [(9, Seq (Sym (Lit 108)) (Seq (Sym (Lit 101)) (Sym (Lit 115)))), (11, Seq (Sym (Lit 108)) (Sym (Lit 101))), (35, word_rest)], 
     [(20, Seq (Sym (Lit 97)) (Seq (Sym (Lit 116)) (Sym (Lit 101)))), (35, word_rest)], 
     [(16, Seq (Sym (Lit 117)) (Seq (Sym (Lit 101)) (Sym (Lit 115)))), (35, word_rest)], [(19, Seq (Sym (Lit 114)) (Sym (Lit 101))), (35, word_rest)], 
     [(24, One), (35, word_rest)], [(10, Seq (Sym (Lit 116)) (Sym (Lit 101))), (35, word_rest)], 
     [(17, Seq (Sym (Lit 116)) (Sym (Lit 101))), (35, word_rest)], [(13, One), (35, word_rest)], [(12, One), (35, word_rest)], 
     [(29, One), (35, word_rest)], [(25, Sym (Lit 116)), (35, word_rest)], [(18, One), (35, word_rest)], [(30, One), (35, word_rest)], 
     [(26, Sym (Lit 120)), (35, word_rest)], [(14, Seq (Sym (Lit 114)) (Sym (Lit 116))), (35, word_rest)], [(15, One), (35, word_rest)], 
     [(28, One), (35, word_rest)], [(22, Seq (Sym (Lit 99)) (Sym (Lit 116))), (35, word_rest)], [(8, One), (35, word_rest)], 
     [(9, Seq (Sym (Lit 101)) (Sym (Lit 115))), (11, Sym (Lit 101)), (35, word_rest)], [(20, Seq (Sym (Lit 116)) (Sym (Lit 101))), (35, word_rest)], 
     [(16, Seq (Sym (Lit 101)) (Sym (Lit 115))), (35, word_rest)], [(19, Sym (Lit 101)), (35, word_rest)], [(10, Sym (Lit 101)), (35, word_rest)], 
     [(17, Sym (Lit 101)), (35, word_rest)], [(25, One), (35, word_rest)], [(26, One), (35, word_rest)], [(14, Sym (Lit 116)), (35, word_rest)], 
     [(22, Sym (Lit 116)), (35, word_rest)], [(9, Sym (Lit 115)), (11, One), (35, word_rest)], [(20, Sym (Lit 101)), (35, word_rest)], 
     [(16, Sym (Lit 115)), (35, word_rest)], [(19, One), (35, word_rest)], [(10, One), (35, word_rest)], [(17, One), (35, word_rest)], 
     [(14, One), (35, word_rest)], [(22, One), (35, word_rest)], [(9, One), (35, word_rest)], [(20, One), (35, word_rest)], [(16, One), (35, word_rest)], 
     []]"

definition yy_rep :: "int list" where
  "yy_rep =
    [1, 9, 10, 13, 39, 40, 41, 42, 43, 44, 45, 46, 47, 48, 59, 60, 61, 62, 65, 66, 67, 68, 69, 70, 71, 72, 73, 74, 76, 77, 78, 79, 80, 82, 83, 84, 85, 86, 
     87, 88, 95, 97, 98, 99, 100, 101, 102, 104, 105, 106, 108, 109, 110, 111, 112, 114, 115, 116, 117, 118, 119, 120]"

definition yy_sets :: "lexset list" where
  "yy_sets =
    [Lit 47, Lit 42, Lit 45, But 10, Blank, Lit 13, Lit 10, Lit 115, Lit 104, Lit 111, Lit 119, Lit 116, Lit 97, Lit 98, Lit 108, Lit 101, Lit 99, 
     Lit 114, Lit 100, Lit 112, Lit 105, Lit 110, Lit 118, Lit 117, Lit 102, Lit 109, Lit 120, Lit 106, Lit 62, Lit 61, Lit 60, Lit 59, Lit 40, Lit 41, 
     Lit 44, Lit 46, Alpha, Lit 95, Digit, Lit 43, Lit 39, But 39, But 42]"

definition derivs :: "int \<Rightarrow> (int \<times> rexp) list \<Rightarrow> (int \<times> rexp) list" where
  "derivs n its = filter (\<lambda>(k, r). r \<noteq> Zero) (map (\<lambda>(k, r). (k, deriv n r)) its)"

fun first_rule :: "(int \<times> rexp) list \<Rightarrow> int" where
  "first_rule [] = 0"
| "first_rule ((k, r) # its) = (if nullable_exp r then k else first_rule its)"

definition yy_hit :: "int \<Rightarrow> int \<Rightarrow> bool" where
  "yy_hit s c \<longleftrightarrow> yy_chk ! nat (yy_base ! nat s + c) = s"

definition yy_hop :: "int \<Rightarrow> int \<Rightarrow> int" where
  "yy_hop s c = (if 124 \<le> yy_def ! nat s then yy_meta ! nat c else c)"

text \<open>The step of the automaton, which follows at most two defaults.\<close>

definition yy_delta :: "int \<Rightarrow> int \<Rightarrow> int" where
  "yy_delta s c =
     (if yy_hit s c then yy_nxt ! nat (yy_base ! nat s + c)
      else let d = yy_def ! nat s; c1 = yy_hop s c
           in if yy_hit d c1 then yy_nxt ! nat (yy_base ! nat d + c1)
              else let e = yy_def ! nat d; c2 = yy_hop d c1 in if yy_hit e c2 then yy_nxt ! nat (yy_base ! nat e + c2) else 0)"

lemma yy_trans_hit: "yy_hit s c \<Longrightarrow> yy_trans s c = Some (yy_nxt ! nat (yy_base ! nat s + c))"
  by (subst yy_trans.simps) (simp add: yy_hit_def)

lemma yy_trans_miss: "\<not> yy_hit s c \<Longrightarrow> yy_trans s c = yy_trans (yy_def ! nat s) (yy_hop s c)"
  by (subst yy_trans.simps) (simp add: yy_hit_def yy_hop_def Let_def)

lemma yy_trans_delta: "yy_delta s c \<noteq> 0 \<Longrightarrow> yy_trans s c = Some (yy_delta s c)"
  by (auto simp: yy_delta_def Let_def yy_trans_hit yy_trans_miss split: if_splits)

section \<open>Evaluation of the tables\<close>

lemmas accept_at = table_nth [OF yy_accept_def, simplified]
lemmas ec_at = table_nth [OF yy_ec_def, simplified]
lemmas meta_at = table_nth [OF yy_meta_def, simplified]
lemmas base_at = table_nth [OF yy_base_def, simplified]
lemmas def_at = table_nth [OF yy_def_def, simplified]
lemmas nxt_at = table_nth [OF yy_nxt_def, simplified]
lemmas chk_at = table_nth [OF yy_chk_def, simplified]
lemmas rep_at = table_nth [OF yy_rep_def, simplified]
lemmas items_at = table_nth [OF yy_items_def, simplified]

definition word_code :: "int \<Rightarrow> bool" where
  "word_code n \<longleftrightarrow> n = 95 \<or> 65 \<le> n \<and> n \<le> 90 \<or> 97 \<le> n \<and> n \<le> 122 \<or> 48 \<le> n \<and> n \<le> 57"

lemma deriv_word_rest: "deriv n word_rest = (if word_code n then word_rest else Zero)"
  by (auto simp: word_rest_def word_code_def lower_code_def)

lemma word_rest_simps: "nullable_exp word_rest" "word_rest \<noteq> Zero" "Zero \<noteq> word_rest" "seq One word_rest = word_rest"
  by (simp_all add: word_rest_def)

lemma deriv_lit: "deriv n (Seq (Sym (Lit m)) (Sym s)) = (if lower_code n = m then Sym s else Zero)"
  "deriv n (Seq (Sym (Lit m)) (Seq r t)) = (if lower_code n = m then Seq r t else Zero)"
  by simp_all

lemmas delta_evals = meta_at base_at def_at nxt_at chk_at yy_delta_def yy_hit_def yy_hop_def
lemmas derivs_evals = rep_at items_at derivs_def lower_code_def word_code_def deriv_word_rest word_rest_simps deriv_lit

section \<open>The checks\<close>

lemma rules_initial_eq: "rules_initial = yy_initial"
  by code_simp

lemma rules_comment_eq: "rules_comment = yy_comment"
  by code_simp

definition yy_state :: "int \<Rightarrow> bool" where
  "yy_state q \<longleftrightarrow> 1 \<le> q \<and> q \<le> 123 \<and> q \<noteq> 2 \<and> q \<noteq> 4 \<and> q \<noteq> 5"

text \<open>The sets an expression mentions.\<close>

fun sets_in :: "rexp \<Rightarrow> lexset list" where
  "sets_in (Sym s) = [s]"
| "sets_in (Alt r s) = sets_in r @ sets_in s"
| "sets_in (Seq r s) = sets_in r @ sets_in s"
| "sets_in (Rep r) = sets_in r"
| "sets_in _ = []"

text \<open>A state accepts the first rule that is matched; at the end of the buffer it goes to state 5; a state at which the scanner stops has nothing left to match.\<close>

definition state_ok :: "int \<Rightarrow> bool" where
  "state_ok s \<longleftrightarrow> yy_state s \<longrightarrow>
     yy_accept ! nat s = first_rule (yy_items ! nat s) \<and> yy_delta s 0 = 5 \<and>
     (yy_base ! nat s = 243 \<longrightarrow> list_all (\<lambda>(k, r). r = One) (yy_items ! nat s)) \<and> (yy_base ! nat s = 243 \<longrightarrow> s = 123 \<or> yy_accept ! nat s \<noteq> 0)"

definition step_ok :: "int \<Rightarrow> int \<Rightarrow> bool" where
  "step_ok s c \<longleftrightarrow> (let q = yy_delta s c in yy_state q \<and> yy_items ! nat q = derivs (yy_rep ! nat (c - 1)) (yy_items ! nat s))"

definition class_ok :: "int \<Rightarrow> bool" where
  "class_ok n \<longleftrightarrow> (let c = yy_ec ! nat n; m = yy_rep ! nat (c - 1) in 1 \<le> c \<and> c \<le> 62 \<and> (n = m \<or> list_all (\<lambda>s. in_set s n = in_set s m) yy_sets))"

lemmas state_ok_at = state_ok_def [of "numeral m" for m] state_ok_def [of 1]
lemmas step_ok_at = step_ok_def [of "numeral m" "numeral n" for m n] step_ok_def [of "numeral m" 1 for m] step_ok_def [of 1 "numeral n" for n] step_ok_def [of 1 1]
lemmas class_ok_at = class_ok_def [of "numeral m" for m] class_ok_def [of 1]

lemma state_check: "list_all state_ok [1..123]"
  by (simp add: upto.simps state_ok_at yy_state_def accept_at items_at word_rest_simps delta_evals yy_initial_def yy_comment_def)

lemma class_check: "list_all class_ok [1..255]"
  by (simp add: upto.simps class_ok_at ec_at rep_at yy_sets_def lower_code_def)

lemma sets_check: "list_all (\<lambda>(k, r). list_all (\<lambda>s. s \<in> set yy_sets) (sets_in r)) (yy_initial @ yy_comment)"
  by code_simp

lemma first_char_check: "list_all (\<lambda>c. yy_accept ! nat (yy_delta 1 c) \<noteq> 0 \<and> yy_accept ! nat (yy_delta 3 c) \<noteq> 0) [1..62]"
  by (simp add: upto.simps delta_evals accept_at)

lemma start_check: "yy_accept ! 1 = 0" "yy_accept ! 3 = 0" "yy_base ! 1 \<noteq> 243" "yy_base ! 3 \<noteq> 243" "yy_accept ! 123 = 0" "yy_base ! 123 = 243"
  by (simp_all add: accept_at base_at)

lemma start_items: "yy_items ! 1 = yy_initial" "yy_items ! 3 = yy_comment" "yy_items ! 123 = []"
  by (simp_all add: items_at)

lemma end_check: "yy_delta 5 0 = 123" "yy_accept ! 5 = 41" "yy_base ! 5 = 223"
  by (simp_all add: delta_evals accept_at)

lemma step_check_1: "list_all (\<lambda>s. list_all (step_ok s) [1..62]) [1..1]"
  by (simp add: upto.simps step_ok_at yy_state_def delta_evals derivs_evals yy_initial_def)

lemma step_check_3: "list_all (\<lambda>s. list_all (step_ok s) [1..62]) [3..3]"
  by (simp add: upto.simps step_ok_at yy_state_def delta_evals derivs_evals yy_comment_def)

lemma step_check_25: "list_all (\<lambda>s. list_all (step_ok s) [1..62]) [6..25]"
  by (simp add: upto.simps step_ok_at yy_state_def delta_evals derivs_evals)

lemma step_check_45: "list_all (\<lambda>s. list_all (step_ok s) [1..62]) [26..45]"
  by (simp add: upto.simps step_ok_at yy_state_def delta_evals derivs_evals)

lemma step_check_65: "list_all (\<lambda>s. list_all (step_ok s) [1..62]) [46..65]"
  by (simp add: upto.simps step_ok_at yy_state_def delta_evals derivs_evals)

lemma step_check_85: "list_all (\<lambda>s. list_all (step_ok s) [1..62]) [66..85]"
  by (simp add: upto.simps step_ok_at yy_state_def delta_evals derivs_evals)

lemma step_check_105: "list_all (\<lambda>s. list_all (step_ok s) [1..62]) [86..105]"
  by (simp add: upto.simps step_ok_at yy_state_def delta_evals derivs_evals)

lemma step_check_123: "list_all (\<lambda>s. list_all (step_ok s) [1..62]) [106..123]"
  by (simp add: upto.simps step_ok_at yy_state_def delta_evals derivs_evals)

end
