(* ===== verification/Sql_Matching.thy ===== *)
theory Sql_Matching
  imports Sql_Lex_Rules
begin

text \<open>
  The match loop of \<open>parser/lex.yy.c\<close>: after a text the automaton is in a state that accepts the first rule matching it, and the globals for backing
  up have the last shorter text that a rule matches. So the longest match is found, also at the end of the buffer, where the token is read again.
\<close>

section \<open>The automaton and the rules\<close>

abbreviation code :: "char \<Rightarrow> int" where
  "code c \<equiv> of_char c"

abbreviation NUL :: char where
  "NUL \<equiv> CHR 0x00"

lemma code_range: "c \<noteq> NUL \<Longrightarrow> 1 \<le> code c \<and> code c \<le> 255"
proof -
  assume "c \<noteq> NUL"
  then have "code c \<noteq> code NUL" by (simp only: of_char_eq_iff not_False_eq_True)
  moreover have "code c mod 256 = code c" by simp
  then have "0 \<le> code c" "code c < 256" by presburger+
  ultimately show ?thesis by simp
qed

lemma deriv_agree: "(\<forall>s \<in> set (sets_in r). in_set s n = in_set s m) \<Longrightarrow> deriv n r = deriv m r"
  by (induction r) auto

lemma sets_alt: "set (sets_in (alt r s)) \<subseteq> set (sets_in r) \<union> set (sets_in s)"
  by (induction r s rule: alt.induct) auto

lemma sets_seq: "set (sets_in (seq r s)) \<subseteq> set (sets_in r) \<union> set (sets_in s)"
  by (induction r s rule: seq.induct) auto

lemma sets_deriv: "set (sets_in (deriv n r)) \<subseteq> set (sets_in r)"
proof (induction r)
  case (Seq r s)
  then show ?case using sets_alt [of "seq (deriv n r) s" "deriv n s"] sets_seq [of "deriv n r" s] by auto
next
  case (Alt r s)
  then show ?case using sets_alt [of "deriv n r" "deriv n s"] by auto
next
  case (Rep r)
  then show ?case using sets_seq [of "deriv n r" "Rep r"] by auto
qed auto

definition sets_ok :: "(int \<times> rexp) list \<Rightarrow> bool" where
  "sets_ok its \<longleftrightarrow> (\<forall>(k, r) \<in> set its. set (sets_in r) \<subseteq> set yy_sets)"

lemma sets_ok_derivs: "sets_ok its \<Longrightarrow> sets_ok (derivs n its)"
  using sets_deriv by (fastforce simp: sets_ok_def derivs_def)

lemma derivs_agree:
  assumes ok: "sets_ok its" and c: "c \<noteq> NUL"
  shows "derivs (yy_rep ! nat (yy_class c - 1)) its = derivs (code c) its" and "1 \<le> yy_class c" and "yy_class c \<le> 62"
proof -
  have "class_ok (code c)" using list_all_upto [OF class_check] code_range [OF c] by simp
  then have C: "1 \<le> yy_class c" "yy_class c \<le> 62" "\<forall>s \<in> set yy_sets. in_set s (code c) = in_set s (yy_rep ! nat (yy_class c - 1))"
    by (auto simp: class_ok_def yy_class_def Let_def list_all_iff)
  then show "1 \<le> yy_class c" and "yy_class c \<le> 62" by simp_all
  have "deriv (yy_rep ! nat (yy_class c - 1)) r = deriv (code c) r" if "(k, r) \<in> set its" for k r
    by (rule deriv_agree) (use ok that C(3) in \<open>fastforce simp: sets_ok_def\<close>)
  then show "derivs (yy_rep ! nat (yy_class c - 1)) its = derivs (code c) its"
    unfolding derivs_def by (intro arg_cong [where f = "filter _"] map_cong) auto
qed

lemma step_at: "yy_state s \<Longrightarrow> 1 \<le> c \<Longrightarrow> c \<le> 62 \<Longrightarrow> step_ok s c"
proof -
  assume s: "yy_state s" and c: "1 \<le> c" "c \<le> 62"
  have "s = 1 \<or> s = 3 \<or> 6 \<le> s \<and> s \<le> 25 \<or> 26 \<le> s \<and> s \<le> 45 \<or> 46 \<le> s \<and> s \<le> 65 \<or> 66 \<le> s \<and> s \<le> 85 \<or> 86 \<le> s \<and> s \<le> 105 \<or> 106 \<le> s \<and> s \<le> 123"
    using s by (auto simp: yy_state_def)
  then have "list_all (step_ok s) [1..62]"
    using list_all_upto [OF step_check_1] list_all_upto [OF step_check_3] list_all_upto [OF step_check_25] list_all_upto [OF step_check_45]
      list_all_upto [OF step_check_65] list_all_upto [OF step_check_85] list_all_upto [OF step_check_105] list_all_upto [OF step_check_123]
    by (elim disjE conjE) blast+
  then show ?thesis using list_all_upto c by blast
qed

abbreviation yy_step :: "int \<Rightarrow> char \<Rightarrow> int" where
  "yy_step s c \<equiv> yy_delta s (yy_class c)"

lemma yy_step:
  assumes s: "yy_state s" and ok: "sets_ok (yy_items ! nat s)" and c: "c \<noteq> NUL"
  shows "yy_trans s (yy_class c) = Some (yy_step s c)" and "yy_state (yy_step s c)"
    and "yy_items ! nat (yy_step s c) = derivs (code c) (yy_items ! nat s)" and "sets_ok (yy_items ! nat (yy_step s c))"
proof -
  note A = derivs_agree [OF ok c]
  have "step_ok s (yy_class c)" using step_at [OF s A(2,3)] .
  then show q: "yy_state (yy_step s c)" and i: "yy_items ! nat (yy_step s c) = derivs (code c) (yy_items ! nat s)"
    using A(1) by (simp_all add: step_ok_def Let_def)
  show "yy_trans s (yy_class c) = Some (yy_step s c)" by (rule yy_trans_delta) (use q in \<open>simp add: yy_state_def\<close>)
  show "sets_ok (yy_items ! nat (yy_step s c))" using i sets_ok_derivs [OF ok] by simp
qed

abbreviation yy_run :: "int \<Rightarrow> string \<Rightarrow> int" where
  "yy_run \<equiv> foldl yy_step"

text \<open>The number of the first rule that matches a text, 0 if none does.\<close>

fun rule_for :: "(int \<times> rexp) list \<Rightarrow> int list \<Rightarrow> int" where
  "rule_for [] w = 0"
| "rule_for ((k, r) # its) w = (if matches r w then k else rule_for its w)"

lemma rule_for_Nil: "rule_for its [] = first_rule its"
  by (induction its rule: first_rule.induct) (auto simp: matches_Nil)

lemma rule_for_Cons: "rule_for its (n # w) = rule_for (derivs n its) w"
  by (induction its) (auto simp: derivs_def matches_Cons)

definition start_state :: "int \<Rightarrow> bool" where
  "start_state st \<longleftrightarrow> st = 1 \<or> st = 3"

abbreviation rule_at :: "int \<Rightarrow> string \<Rightarrow> int" where
  "rule_at st w \<equiv> rule_for (rules_of st) (map code w)"

lemma sets_ok_rules: "sets_ok (rules_of st)"
  using sets_check by (fastforce simp: rules_of_def rules_initial_eq rules_comment_eq sets_ok_def list_all_iff)

lemma start_state: "start_state st \<Longrightarrow> yy_state st \<and> yy_items ! nat st = rules_of st \<and> sets_ok (yy_items ! nat st) \<and> yy_base ! nat st \<noteq> 243"
  using sets_ok_rules [of st] start_items start_check by (auto simp: start_state_def yy_state_def rules_of_def rules_initial_eq rules_comment_eq)

lemma yy_run:
  assumes "yy_state s" and "sets_ok (yy_items ! nat s)" and "NUL \<notin> set w"
  shows "yy_state (yy_run s w) \<and> sets_ok (yy_items ! nat (yy_run s w)) \<and>
    (\<forall>v. rule_for (yy_items ! nat (yy_run s w)) v = rule_for (yy_items ! nat s) (map code w @ v))"
  using assms
proof (induction w arbitrary: s)
  case (Cons c w)
  note Y = yy_step [OF Cons.prems(1,2), of c]
  then show ?case using Cons.IH [of "yy_step s c"] Cons.prems(3) by (auto simp: rule_for_Cons)
qed simp

lemma state_at: "yy_state s \<Longrightarrow> yy_accept ! nat s = first_rule (yy_items ! nat s) \<and> yy_delta s 0 = 5 \<and>
     (yy_base ! nat s = 243 \<longrightarrow> list_all (\<lambda>(k, r). r = One) (yy_items ! nat s) \<and> (s = 123 \<or> yy_accept ! nat s \<noteq> 0))"
  using list_all_upto [OF state_check, of s] by (auto simp: state_ok_def yy_state_def)

lemma yy_run_start:
  assumes st: "start_state st" and w: "NUL \<notin> set w"
  shows "yy_state (yy_run st w)" and "sets_ok (yy_items ! nat (yy_run st w))"
    and "rule_for (yy_items ! nat (yy_run st w)) v = rule_for (rules_of st) (map code w @ v)"
proof -
  have i: "yy_items ! nat st = rules_of st" and s: "yy_state st" and o: "sets_ok (yy_items ! nat st)" using start_state [OF st] by blast+
  show "yy_state (yy_run st w)" and "sets_ok (yy_items ! nat (yy_run st w))"
    and "rule_for (yy_items ! nat (yy_run st w)) v = rule_for (rules_of st) (map code w @ v)"
    using yy_run [OF s o w] unfolding i by blast+
qed

text \<open>The state after a text accepts the rule that matches it.\<close>

lemma yy_accept_run: "start_state st \<Longrightarrow> NUL \<notin> set w \<Longrightarrow> yy_state (yy_run st w) \<and> yy_accept ! nat (yy_run st w) = rule_at st w"
  using yy_run_start(1) [of st w] yy_run_start(3) [of st w "[]"] state_at [of "yy_run st w"] rule_for_Nil [of "yy_items ! nat (yy_run st w)"] by simp

text \<open>Nothing longer is matched after a state at which the scanner stops.\<close>

lemma stop_no_match:
  assumes "start_state st" and "NUL \<notin> set w" and "yy_base ! nat (yy_run st w) = 243" and "v \<noteq> []"
  shows "rule_at st (w @ v) = 0"
proof -
  have "list_all (\<lambda>(k, r). r = One) its \<Longrightarrow> u \<noteq> [] \<Longrightarrow> rule_for its u = 0" for its :: "(int \<times> rexp) list" and u
    by (induction its) auto
  then have "rule_for (yy_items ! nat (yy_run st w)) (map code v) = 0"
    using state_at [OF yy_run_start(1) [OF assms(1,2)]] assms(3,4) by simp
  then show ?thesis using yy_run_start(3) [OF assms(1,2), of "map code v"] by simp
qed

lemma first_match:
  assumes "start_state st" and "c \<noteq> NUL"
  shows "rule_at st [c] \<noteq> 0"
proof -
  have "sets_ok []" by (simp add: sets_ok_def)
  note C = derivs_agree(2,3) [OF this assms(2)]
  have "yy_accept ! nat (yy_step 1 c) \<noteq> 0 \<and> yy_accept ! nat (yy_step 3 c) \<noteq> 0" using list_all_upto [OF first_char_check C] .
  then show ?thesis using yy_accept_run [OF assms(1), of "[c]"] assms by (auto simp: start_state_def)
qed

lemma no_empty_match: "start_state st \<Longrightarrow> rule_at st [] = 0"
  using yy_accept_run [of st "[]"] start_check by (auto simp: start_state_def)

section \<open>Matching in the buffer\<close>

definition last_match :: "int \<Rightarrow> string \<Rightarrow> nat \<Rightarrow> bool" where
  "last_match st w j \<longleftrightarrow> j < length w \<and> rule_at st (take j w) \<noteq> 0 \<and> (\<forall>i. j < i \<and> i < length w \<longrightarrow> rule_at st (take i w) = 0)"

text \<open>The globals for backing up have the last prefix of \<open>w\<close>, itself excluded, that a rule matches.\<close>

definition noted :: "int \<Rightarrow> nat \<Rightarrow> string \<Rightarrow> yylexer \<Rightarrow> bool" where
  "noted st bp w g \<longleftrightarrow> (\<forall>j. last_match st w j \<longrightarrow> yy_last_accepting_state g = yy_run st (take j w) \<and> yy_last_accepting_cpos g = bp + j)"

lemma noted_Nil: "noted st bp [] g"
  by (simp add: noted_def last_match_def)

lemma noted_step:
  assumes st: "start_state st" and w: "NUL \<notin> set w" and n: "noted st bp w g"
  shows "noted st bp (w @ [c]) (yy_note (yy_run st w) (bp + length w) g)"
  unfolding noted_def
proof (intro allI impI)
  fix j assume j: "last_match st (w @ [c]) j"
  have a: "yy_accept ! nat (yy_run st w) = rule_at st w" using yy_accept_run [OF st w] by simp
  have "j < length w \<Longrightarrow> rule_at st w = 0" using j unfolding last_match_def by (auto dest!: spec [of _ "length w"])
  then consider "j = length w" | "j < length w" "rule_at st w = 0" using j by (fastforce simp: last_match_def)
  then show "yy_last_accepting_state (yy_note (yy_run st w) (bp + length w) g) = yy_run st (take j (w @ [c])) \<and>
      yy_last_accepting_cpos (yy_note (yy_run st w) (bp + length w) g) = bp + j"
  proof cases
    case 1
    then show ?thesis using j a by (simp add: last_match_def yy_note_def)
  next
    case 2
    then have "last_match st w j" using j by (auto simp: last_match_def)
    then show ?thesis using n 2 a by (simp add: noted_def yy_note_def)
  qed
qed

abbreviation noting :: "int \<Rightarrow> nat \<Rightarrow> yylexer \<Rightarrow> yylexer" where
  "noting a b g \<equiv> g\<lparr>yy_last_accepting_state := a, yy_last_accepting_cpos := b\<rparr>"

lemma yy_note_noting: "\<exists>a b. yy_note s cp g = noting a b g"
proof (cases "yy_accept ! nat s \<noteq> 0")
  case False
  then have "yy_note s cp g = noting (yy_last_accepting_state g) (yy_last_accepting_cpos g) g" by (simp add: yy_note_def)
  then show ?thesis by blast
qed (auto simp: yy_note_def)

lemma ch_buf_noting [simp]: "ch_buf (noting a b g) = ch_buf g"
  by (simp add: ch_buf_def)

lemma noting_noting [simp]: "noting a b (noting c d g) = noting a b g"
  by simp

lemma class_NUL: "yy_class NUL = 0"
  by (simp add: yy_class_def ec_at)

lemma match_end:
  assumes s: "yy_state s" and buf: "ch_buf g = pre @ [NUL, NUL]"
  shows "yy_match s (length pre) g = Some (123, length pre + 2, noting 5 (length pre + 1) g)"
proof -
  obtain a b where h: "yy_note s (length pre) g = noting a b g" using yy_note_noting by blast
  have t: "yy_trans s 0 = Some 5" "yy_trans 5 0 = Some 123"
    using yy_trans_delta [of s 0] yy_trans_delta [of 5 0] state_at [OF s] end_check by simp_all
  have "yy_match 5 (Suc (length pre)) (noting a b g) = Some (123, length pre + 2, noting 5 (length pre + 1) g)"
    by (subst yy_match.simps) (simp add: buf nth_append class_NUL t start_check end_check yy_note_def)
  then show ?thesis by (subst yy_match.simps) (simp add: buf nth_append class_NUL t end_check h)
qed

lemma match_text:
  assumes "start_state st" and "NUL \<notin> set (w @ v)" and "ch_buf g = pre @ w @ v @ [NUL, NUL]" and "noted st (length pre) w g"
    and "yy_base ! nat (yy_run st w) \<noteq> 243"
  shows "\<exists>q cp a b. yy_match (yy_run st w) (length pre + length w) g = Some (q, cp, noting a b g) \<and>
    ((\<exists>x y. v = x @ y \<and> x \<noteq> [] \<and> q = yy_run st (w @ x) \<and> yy_base ! nat q = 243 \<and> cp = length pre + length (w @ x) \<and>
        noted st (length pre) (w @ x) (noting a b g)) \<or>
     q = 123 \<and> cp = length pre + length (w @ v) + 2 \<and> a = 5 \<and> b = length pre + length (w @ v) + 1)"
  using assms
proof (induction v arbitrary: w g)
  case Nil
  have "yy_state (yy_run st w)" using yy_run_start Nil by simp
  from match_end [OF this, of g "pre @ w"] show ?case using Nil by auto
next
  case (Cons c v)
  let ?s = "yy_run st w" and ?cp = "length pre + length w"
  let ?q = "yy_step ?s c"
  have w: "NUL \<notin> set w" "c \<noteq> NUL" using Cons.prems(2) by auto
  note R = yy_run_start [OF Cons.prems(1) w(1)]
  note Y = yy_step [OF R(1) R(2) w(2)]
  obtain a b where h: "yy_note ?s ?cp g = noting a b g" using yy_note_noting by blast
  have n: "noted st (length pre) (w @ [c]) (noting a b g)" using noted_step [OF Cons.prems(1) w(1) Cons.prems(4), of c] h by simp
  have step: "yy_match ?s ?cp g = (if yy_base ! nat ?q \<noteq> 243 then yy_match ?q (Suc ?cp) (noting a b g) else Some (?q, Suc ?cp, noting a b g))"
    by (subst yy_match.simps) (use Cons.prems(3) in \<open>simp add: nth_append Y(1) h\<close>)
  show ?case
  proof (cases "yy_base ! nat ?q = 243")
    case True
    then have "yy_match ?s ?cp g = Some (?q, Suc ?cp, noting a b g)" using step by simp
    moreover have "\<exists>x y. c # v = x @ y \<and> x \<noteq> [] \<and> ?q = yy_run st (w @ x) \<and> yy_base ! nat ?q = 243 \<and> Suc ?cp = length pre + length (w @ x) \<and>
        noted st (length pre) (w @ x) (noting a b g)"
      using n True by (intro exI [of _ "[c]"] exI [of _ v]) simp
    ultimately show ?thesis by blast
  next
    case False
    have "NUL \<notin> set ((w @ [c]) @ v)" "ch_buf (noting a b g) = pre @ (w @ [c]) @ v @ [NUL, NUL]" "yy_base ! nat (yy_run st (w @ [c])) \<noteq> 243"
      using Cons.prems(2,3) False by simp_all
    from Cons.IH [OF Cons.prems(1) this(1,2) n this(3), unfolded noting_noting] obtain q cp a' b' where
      m: "yy_match (yy_run st (w @ [c])) (length pre + length (w @ [c])) (noting a b g) = Some (q, cp, noting a' b' g)" and
      r: "(\<exists>x y. v = x @ y \<and> x \<noteq> [] \<and> q = yy_run st ((w @ [c]) @ x) \<and> yy_base ! nat q = 243 \<and> cp = length pre + length ((w @ [c]) @ x) \<and>
        noted st (length pre) ((w @ [c]) @ x) (noting a' b' g)) \<or>
        q = 123 \<and> cp = length pre + length ((w @ [c]) @ v) + 2 \<and> a' = 5 \<and> b' = length pre + length ((w @ [c]) @ v) + 1"
      by blast
    have "(\<exists>x y. c # v = x @ y \<and> x \<noteq> [] \<and> q = yy_run st (w @ x) \<and> yy_base ! nat q = 243 \<and> cp = length pre + length (w @ x) \<and>
        noted st (length pre) (w @ x) (noting a' b' g)) \<or>
        q = 123 \<and> cp = length pre + length (w @ c # v) + 2 \<and> a' = 5 \<and> b' = length pre + length (w @ c # v) + 1"
      using r
    proof (elim disjE exE conjE)
      fix x y assume "v = x @ y" "q = yy_run st ((w @ [c]) @ x)" "yy_base ! nat q = 243" "cp = length pre + length ((w @ [c]) @ x)"
        "noted st (length pre) ((w @ [c]) @ x) (noting a' b' g)"
      then show ?thesis by (intro disjI1 exI [of _ "c # x"] exI [of _ y]) simp
    qed simp
    then show ?thesis using step m False by auto
  qed
qed

lemma previous_text:
  assumes "start_state st" and "NUL \<notin> set (w @ v)" and "noted st bp w g"
  shows "\<exists>a b. yy_previous v (yy_run st w) (bp + length w) g = Some (yy_run st (w @ v), noting a b g) \<and> noted st bp (w @ v) (noting a b g)"
  using assms
proof (induction v arbitrary: w g)
  case Nil
  then show ?case by (intro exI [of _ "yy_last_accepting_state g"] exI [of _ "yy_last_accepting_cpos g"]) simp
next
  case (Cons c v)
  have w: "NUL \<notin> set w" "c \<noteq> NUL" using Cons.prems(2) by auto
  note R = yy_run_start [OF Cons.prems(1) w(1)]
  obtain a b where h: "yy_note (yy_run st w) (bp + length w) g = noting a b g" using yy_note_noting by blast
  have "noted st bp (w @ [c]) (noting a b g)" using noted_step [OF Cons.prems(1) w(1) Cons.prems(3), of c] h by simp
  from Cons.IH [OF Cons.prems(1) _ this] show ?case using Cons.prems(2) w yy_step(1) [OF R(1,2) w(2)] h by simp
qed

text \<open>The longest prefix that a rule matches, and the first rule that matches it.\<close>

definition longest :: "int \<Rightarrow> string \<Rightarrow> nat \<Rightarrow> int \<Rightarrow> bool" where
  "longest st rest k act \<longleftrightarrow> 0 < k \<and> k \<le> length rest \<and> act = rule_at st (take k rest) \<and> act \<noteq> 0 \<and>
     (\<forall>i. k < i \<and> i \<le> length rest \<longrightarrow> rule_at st (take i rest) = 0)"

lemma longest_unique: "longest st rest k act \<Longrightarrow> longest st rest k' act' \<Longrightarrow> k = k' \<and> act = act'"
  unfolding longest_def by (metis linorder_neqE_nat)

lemma last_match_exists:
  assumes st: "start_state st" and w: "NUL \<notin> set w" and r: "rule_at st w = 0" and ne: "w \<noteq> []"
  shows "\<exists>j. last_match st w j"
proof -
  let ?P = "\<lambda>j. j < length w \<and> rule_at st (take j w) \<noteq> 0"
  obtain c w' where c: "w = c # w'" using ne by (cases w) auto
  then have m: "rule_at st [c] \<noteq> 0" using first_match [OF st, of c] w by auto
  then have "w' \<noteq> []" using r c by auto
  then have P: "?P 1" using m c by simp
  have "?P (GREATEST j. ?P j)" by (rule GreatestI_nat [of ?P, OF P, of "length w"]) simp
  moreover have "\<not> ?P i" if "(GREATEST j. ?P j) < i" for i
    using Greatest_le_nat [of ?P i "length w"] that by fastforce
  ultimately have "last_match st w (GREATEST j. ?P j)" unfolding last_match_def by blast
  then show ?thesis by blast
qed

end
