(* ===== verification/Sql_Scanner.thy ===== *)
theory Sql_Scanner
  imports Sql_Matching
begin

text \<open>
  The scanner \<open>yylex\<close> of \<open>parser/lex.yy.c\<close> on the buffer of \<open>yy_scan_string\<close>: from the state between two tokens it finds the longest match of the
  rules, runs the action of the rule and is again between two tokens; at the end of the text it returns the end token.
\<close>

section \<open>The buffer\<close>

definition ready :: "string \<Rightarrow> yylexer \<Rightarrow> bool" where
  "ready inp g \<longleftrightarrow> (\<exists>b. yy_buffer g = Some b \<and> yy_ch_buf b = inp @ [NUL, NUL] \<and> yy_buf_n_chars b = length inp \<and> \<not> yy_fill_buffer b) \<and>
     yy_n_chars g = length inp \<and> NUL \<notin> set inp \<and> start_state (yy_start g)"

text \<open>Between two tokens: the buffer is the text once the character at the end of the last token is put back.\<close>

definition scanning :: "string \<Rightarrow> yylexer \<Rightarrow> bool" where
  "scanning inp g \<longleftrightarrow> ready inp (put_ch (yy_c_buf_p g) (yy_hold_char g) g) \<and> yy_c_buf_p g \<le> length inp"

lemma ready_ch: "ready inp g \<Longrightarrow> ch_buf g = inp @ [NUL, NUL]"
  by (auto simp: ready_def ch_buf_def)

lemma ready_updates [simp]:
  "ready inp (g\<lparr>yy_last_accepting_state := a\<rparr>) = ready inp g" "ready inp (g\<lparr>yy_last_accepting_cpos := i\<rparr>) = ready inp g"
  "ready inp (g\<lparr>yytext_ptr := i\<rparr>) = ready inp g" "ready inp (g\<lparr>yyleng := i\<rparr>) = ready inp g" "ready inp (g\<lparr>yy_c_buf_p := i\<rparr>) = ready inp g"
  "ready inp (g\<lparr>yy_hold_char := c\<rparr>) = ready inp g" "ready inp (g\<lparr>yy_did_buffer_switch_on_eof := d\<rparr>) = ready inp g"
  "ready inp (g\<lparr>lex_cerr := e\<rparr>) = ready inp g"
  by (simp_all add: ready_def)

lemma put_ch_sel [simp]:
  "yy_c_buf_p (put_ch i c g) = yy_c_buf_p g" "yy_hold_char (put_ch i c g) = yy_hold_char g" "yy_start (put_ch i c g) = yy_start g"
  "yytext_ptr (put_ch i c g) = yytext_ptr g" "lex_cerr (put_ch i c g) = lex_cerr g" "yy_init (put_ch i c g) = yy_init g" "yy_n_chars (put_ch i c g) = yy_n_chars g"
  "yy_last_accepting_state (put_ch i c g) = yy_last_accepting_state g" "yy_last_accepting_cpos (put_ch i c g) = yy_last_accepting_cpos g"
  by (simp_all add: put_ch_def)

lemma ready_put_same: "ready inp g \<Longrightarrow> ch_buf g ! i = c \<Longrightarrow> ready inp (put_ch i c g)"
  by (auto simp: ready_def put_ch_def ch_buf_def)

lemma ready_put_put: "ready inp g \<Longrightarrow> ready inp (put_ch i (ch_buf g ! i) (put_ch i c g))"
  by (auto simp: ready_def put_ch_def ch_buf_def)

lemma put_ch_updates:
  "put_ch i c (g\<lparr>yytext_ptr := k\<rparr>) = (put_ch i c g)\<lparr>yytext_ptr := k\<rparr>" "put_ch i c (g\<lparr>yyleng := k\<rparr>) = (put_ch i c g)\<lparr>yyleng := k\<rparr>"
  "put_ch i c (g\<lparr>yy_c_buf_p := k\<rparr>) = (put_ch i c g)\<lparr>yy_c_buf_p := k\<rparr>" "put_ch i c (g\<lparr>yy_hold_char := d\<rparr>) = (put_ch i c g)\<lparr>yy_hold_char := d\<rparr>"
  "put_ch i c (g\<lparr>lex_cerr := e\<rparr>) = (put_ch i c g)\<lparr>lex_cerr := e\<rparr>" "put_ch i c (g\<lparr>yy_start := s\<rparr>) = (put_ch i c g)\<lparr>yy_start := s\<rparr>"
  "put_ch i c (g\<lparr>yy_did_buffer_switch_on_eof := b\<rparr>) = (put_ch i c g)\<lparr>yy_did_buffer_switch_on_eof := b\<rparr>"
  by (simp_all add: put_ch_def)

lemma before_sel [simp]:
  "yy_c_buf_p (yy_do_before_action bp cp g) = cp" "yy_hold_char (yy_do_before_action bp cp g) = ch_buf g ! cp"
  "yytext_ptr (yy_do_before_action bp cp g) = bp" "yy_start (yy_do_before_action bp cp g) = yy_start g"
  "lex_cerr (yy_do_before_action bp cp g) = lex_cerr g" "yy_init (yy_do_before_action bp cp g) = yy_init g"
  "yy_n_chars (yy_do_before_action bp cp g) = yy_n_chars g"
  by (simp_all add: yy_do_before_action_def)

lemma before_restored: "ready inp g \<Longrightarrow> ready inp (put_ch cp (ch_buf g ! cp) (yy_do_before_action bp cp g))"
  unfolding yy_do_before_action_def by (simp add: put_ch_updates ready_put_put)

lemma yytext_before:
  assumes r: "ready inp g" and k: "bp + k \<le> length inp"
  shows "yytext (yy_do_before_action bp (bp + k) g) = take k (drop bp inp)"
proof -
  have b: "ch_buf (yy_do_before_action bp (bp + k) g) = (inp @ [NUL, NUL])[bp + k := NUL]"
    using r by (auto simp: ready_def ch_buf_def yy_do_before_action_def put_ch_def)
  have "drop bp ((inp @ [NUL, NUL])[bp + k := NUL]) = (drop bp (inp @ [NUL, NUL]))[k := NUL]" by (simp add: drop_update_swap)
  also have "\<dots> = take k (drop bp inp) @ NUL # drop (Suc k) (drop bp (inp @ [NUL, NUL]))"
    using k by (subst upd_conv_take_nth_drop) (simp_all add: take_append)
  finally have "yytext (yy_do_before_action bp (bp + k) g) = takeWhile (\<lambda>c. c \<noteq> NUL) (take k (drop bp inp) @ NUL # drop (Suc k) (drop bp (inp @ [NUL, NUL])))"
    by (simp add: yytext_def b)
  also have "\<dots> = take k (drop bp inp)"
    using r by (subst takeWhile_append2) (auto simp: ready_def dest!: in_set_takeD in_set_dropD)
  finally show ?thesis .
qed

section \<open>One token\<close>

lemma find_action:
  fixes g bp inp
  defines "st \<equiv> yy_start g" and "rest \<equiv> drop bp inp"
  assumes r: "ready inp g" and k: "0 < k'" "k' \<le> length rest" and n: "noted st bp (take k' rest) g"
    and max: "\<And>i. k' < i \<Longrightarrow> i \<le> length rest \<Longrightarrow> rule_at st (take i rest) = 0"
  shows "\<exists>k act. longest st rest k act \<and>
    yylex_step ps (Yy_find_action (yy_run st (take k' rest)) (bp + k') bp) loc g = Some (Inl (Yy_do_action act (bp + k), loc, yy_do_before_action bp (bp + k) g))"
proof -
  let ?w = "take k' rest"
  have st: "start_state st" and rest: "NUL \<notin> set rest" using r by (auto simp: ready_def st_def rest_def dest!: in_set_dropD)
  have w: "NUL \<notin> set (take i rest)" for i using rest by (auto dest: in_set_takeD)
  note A = yy_accept_run [OF st w]
  show ?thesis
  proof (cases "rule_at st ?w = 0")
    case False
    then have "longest st rest k' (rule_at st ?w)" using k max by (simp add: longest_def)
    then show ?thesis using False A [of k'] by (intro exI [of _ k'] exI [of _ "rule_at st ?w"]) (simp add: Let_def)
  next
    case True
    then obtain j where j: "last_match st ?w j" using last_match_exists [OF st w] k by fastforce
    have lw: "length ?w = k'" using k by simp
    from j have j': "j < k'" "rule_at st (take j rest) \<noteq> 0" "\<And>i. j < i \<Longrightarrow> i < k' \<Longrightarrow> rule_at st (take i rest) = 0"
      unfolding last_match_def lw by (auto simp: min_absorb1)
    have "rule_at st (take i rest) = 0" if "j < i" "i \<le> length rest" for i
      using that j'(3) True max by (cases i k' rule: linorder_cases) auto
    moreover have "0 < j" using j'(2) no_empty_match [OF st] by (cases j) auto
    ultimately have "longest st rest j (rule_at st (take j rest))" using j' k by (simp add: longest_def)
    moreover have "yy_last_accepting_state g = yy_run st (take j rest)" "yy_last_accepting_cpos g = bp + j"
      using n j j'(1) by (auto simp: noted_def min_absorb1)
    ultimately show ?thesis using True A [of k'] A [of j] by (intro exI [of _ j] exI [of _ "rule_at st (take j rest)"]) (simp add: Let_def)
  qed
qed

definition next_start :: "int \<Rightarrow> int \<Rightarrow> int" where
  "next_start act st = (if act = 1 then 3 else if act = 2 then 1 else st)"

definition next_cerr :: "int \<Rightarrow> string \<Rightarrow> string list \<Rightarrow> string list" where
  "next_cerr act w e = (if act = 39 then e @ [''Lexer Error: unexpected character '' @ take 1 w @ newline] else e)"

lemma rule_numbers: "list_all (\<lambda>(k, r). 1 \<le> k \<and> k \<le> 39) (yy_initial @ yy_comment)"
  by (simp add: yy_initial_def yy_comment_def)

lemma longest_rule: "longest st rest k act \<Longrightarrow> 1 \<le> act \<and> act \<le> 39"
proof -
  assume l: "longest st rest k act"
  have "rule_for its v = 0 \<or> (\<exists>r. (rule_for its v, r) \<in> set its)" for its v by (induction its) fastforce+
  then have "\<exists>r. (act, r) \<in> set (rules_of st)" using l by (auto simp: longest_def)
  then show ?thesis using rule_numbers by (auto simp: rules_of_def rules_initial_eq rules_comment_eq list_all_iff split: if_splits)
qed

lemma effect_sel [simp]:
  "yy_c_buf_p (yy_effect act w g) = yy_c_buf_p g" "yy_hold_char (yy_effect act w g) = yy_hold_char g" "yy_init (yy_effect act w g) = yy_init g"
  "yy_start (yy_effect act w g) = next_start act (yy_start g)" "lex_cerr (yy_effect act w g) = next_cerr act w (lex_cerr g)"
  by (simp_all add: yy_effect_def next_start_def next_cerr_def)

lemma ready_effect: "ready inp (put_ch i c g) \<Longrightarrow> ready inp (put_ch i c (yy_effect act w g))"
  by (auto simp: yy_effect_def put_ch_updates ready_def put_ch_def start_state_def)

lemma do_action:
  fixes g bp inp act k
  defines "w \<equiv> take k (drop bp inp)"
  defines "h \<equiv> yy_effect act w (yy_do_before_action bp (bp + k) g)"
  assumes r: "ready inp g" and l: "longest (yy_start g) (drop bp inp) k act" and bp: "bp \<le> length inp"
  shows "yylex_step ps (Yy_do_action act (bp + k)) loc (yy_do_before_action bp (bp + k) g) =
      Some (case yy_token ps act w of Some t \<Rightarrow> Inr (t, yy_user_action loc w, h) | None \<Rightarrow> Inl (Yy_next, yy_user_action loc w, h))"
    and "scanning inp h" and "yy_c_buf_p h = bp + k"
proof -
  have k: "bp + k \<le> length inp" using l bp by (auto simp: longest_def)
  show "yylex_step ps (Yy_do_action act (bp + k)) loc (yy_do_before_action bp (bp + k) g) =
      Some (case yy_token ps act w of Some t \<Rightarrow> Inr (t, yy_user_action loc w, h) | None \<Rightarrow> Inl (Yy_next, yy_user_action loc w, h))"
    using longest_rule [OF l] yytext_before [OF r k] unfolding w_def h_def by (simp add: Let_def)
  show "yy_c_buf_p h = bp + k" by (simp add: h_def)
  show "scanning inp h" using ready_effect [OF before_restored [OF r]] k by (simp add: scanning_def h_def)
qed

section \<open>The end of the buffer\<close>

lemma loop_step: "yylex_step ps lab loc g = Some (Inl (lab', loc', h)) \<Longrightarrow> yylex_loop ps lab loc g = yylex_loop ps lab' loc' h"
  by (simp add: yylex_loop.simps [of ps lab loc g])

lemma loop_stop: "yylex_step ps lab loc g = Some (Inr r) \<Longrightarrow> yylex_loop ps lab loc g = Some r"
  by (simp add: yylex_loop.simps [of ps lab loc g])

lemma normal_sel [simp]:
  "yy_c_buf_p (yy_buffer_status_normal g) = yy_c_buf_p g" "yytext_ptr (yy_buffer_status_normal g) = yytext_ptr g"
  "yy_start (yy_buffer_status_normal g) = yy_start g" "lex_cerr (yy_buffer_status_normal g) = lex_cerr g"
  "yy_init (yy_buffer_status_normal g) = yy_init g" "yy_hold_char (yy_buffer_status_normal g) = yy_hold_char g"
  by (simp_all add: yy_buffer_status_normal_def split: option.splits)

lemma ready_normal: "ready inp g \<Longrightarrow> ready inp (yy_buffer_status_normal g)"
  by (auto simp: ready_def yy_buffer_status_normal_def)

lemma ready_next_buffer:
  "ready inp g \<Longrightarrow> yy_c_buf_p g = length inp + 1 \<Longrightarrow>
   yy_get_next_buffer g = Some (if yytext_ptr g = length inp then EOB_ACT_END_OF_FILE else EOB_ACT_LAST_MATCH) \<or> length inp < yytext_ptr g"
  by (auto simp: ready_def yy_get_next_buffer_def)

text \<open>The state in which the scanner handles the end of the buffer.\<close>

definition at_end :: "string \<Rightarrow> nat \<Rightarrow> yylexer \<Rightarrow> yylexer" where
  "at_end inp bp g = yy_buffer_status_normal (put_ch (length inp + 1) NUL (yy_do_before_action bp (length inp + 1) g))"

lemma at_end_sel:
  assumes "ready inp g"
  shows "ready inp (at_end inp bp g)" and "yy_c_buf_p (at_end inp bp g) = length inp + 1" and "yytext_ptr (at_end inp bp g) = bp"
    and "yy_n_chars (at_end inp bp g) = length inp" and "yy_start (at_end inp bp g) = yy_start g" and "lex_cerr (at_end inp bp g) = lex_cerr g"
    and "yy_init (at_end inp bp g) = yy_init g" and "yy_hold_char (at_end inp bp g) = NUL"
proof -
  have c: "ch_buf g ! (length inp + 1) = NUL" using ready_ch [OF assms] by (simp add: nth_append)
  show r: "ready inp (at_end inp bp g)" unfolding at_end_def using before_restored [OF assms, of "length inp + 1" bp] c by (simp add: ready_normal)
  show "yy_n_chars (at_end inp bp g) = length inp" using r by (simp add: ready_def)
  show "yy_c_buf_p (at_end inp bp g) = length inp + 1" and "yytext_ptr (at_end inp bp g) = bp" and "yy_start (at_end inp bp g) = yy_start g"
    and "lex_cerr (at_end inp bp g) = lex_cerr g" and "yy_init (at_end inp bp g) = yy_init g" and "yy_hold_char (at_end inp bp g) = NUL"
    using c by (simp_all add: at_end_def)
qed

lemma reach_end:
  assumes r: "ready inp g" and n: "yy_last_accepting_state g = 5" "yy_last_accepting_cpos g = length inp + 1"
    and e: "yy_end_of_buffer (length inp + 1) (yy_do_before_action bp (length inp + 1) g) = Some (lab, h)"
  shows "yylex_loop ps (Yy_find_action 123 cp bp) loc g = yylex_loop ps lab loc h"
proof -
  let ?g = "yy_do_before_action bp (length inp + 1) g"
  have "yylex_step ps (Yy_find_action 123 cp bp) loc g = Some (Inl (Yy_do_action 41 (length inp + 1), loc, ?g))"
    using n start_check end_check by (simp add: Let_def)
  moreover have "yylex_step ps (Yy_do_action 41 (length inp + 1)) loc ?g = Some (Inl (lab, loc, h))" using e by simp
  ultimately show ?thesis by (simp add: loop_step)
qed

lemma end_of_file:
  assumes r: "ready inp g"
  defines "k \<equiv> at_end inp (length inp) g"
  shows "yy_end_of_buffer (length inp + 1) (yy_do_before_action (length inp) (length inp + 1) g) =
    Some (Yy_do_action (41 + (yy_start g - 1) div 2 + 1) (length inp + 1), k\<lparr>yy_did_buffer_switch_on_eof := False, yy_c_buf_p := length inp\<rparr>)"
proof -
  have c: "ch_buf g ! (length inp + 1) = NUL" using ready_ch [OF r] by (simp add: nth_append)
  note K = at_end_sel [OF r, of "length inp", folded k_def]
  have "yy_get_next_buffer k = Some EOB_ACT_END_OF_FILE" using ready_next_buffer [OF K(1,2)] K(3) by simp
  then show ?thesis using K c unfolding yy_end_of_buffer_def at_end_def [symmetric] k_def by (simp add: at_end_def Let_def)
qed

lemma last_token:
  assumes r: "ready inp g" and bp: "bp < length inp"
  shows "\<exists>h. yy_end_of_buffer (length inp + 1) (yy_do_before_action bp (length inp + 1) g) =
      Some (Yy_find_action (yy_run (yy_start g) (drop bp inp)) (length inp) bp, h) \<and> ready inp h \<and> noted (yy_start g) bp (drop bp inp) h \<and>
      yy_start h = yy_start g \<and> lex_cerr h = lex_cerr g \<and> yy_init h = yy_init g"
proof -
  let ?k = "at_end inp bp g"
  have c: "ch_buf g ! (length inp + 1) = NUL" using ready_ch [OF r] by (simp add: nth_append)
  note K = at_end_sel [OF r, of bp]
  have b: "yy_get_next_buffer ?k = Some EOB_ACT_LAST_MATCH" using ready_next_buffer [OF K(1,2)] K(3) bp by simp
  have st: "start_state (yy_start g)" and nul: "NUL \<notin> set (drop bp inp)" using r by (auto simp: ready_def dest: in_set_dropD)
  let ?m = "?k\<lparr>yy_c_buf_p := length inp\<rparr>"
  have "take (length inp - bp) (drop bp (ch_buf ?m)) = drop bp inp" using ready_ch [of inp ?m] K(1) bp by simp
  moreover obtain a d where p: "yy_previous (drop bp inp) (yy_start g) bp ?m = Some (yy_run (yy_start g) (drop bp inp), noting a d ?m)"
      "noted (yy_start g) bp (drop bp inp) (noting a d ?m)"
    using previous_text [OF st, of "[]" "drop bp inp" bp ?m] nul noted_Nil by auto
  ultimately have "yy_get_previous_state ?m = Some (yy_run (yy_start g) (drop bp inp), noting a d ?m)"
    using K by (simp add: yy_get_previous_state_def)
  then have "yy_end_of_buffer (length inp + 1) (yy_do_before_action bp (length inp + 1) g) =
      Some (Yy_find_action (yy_run (yy_start g) (drop bp inp)) (length inp) bp, noting a d ?m)"
    using K b c unfolding yy_end_of_buffer_def by (simp add: at_end_def Let_def)
  then show ?thesis using p(2) K by auto
qed

section \<open>The next token\<close>

lemma match_start:
  assumes s: "scanning inp g"
  shows "yylex_loop ps Yy_next loc g =
    yylex_loop ps (Yy_match (yy_start g) (yy_c_buf_p g) (yy_c_buf_p g)) loc (put_ch (yy_c_buf_p g) (yy_hold_char g) g)"
  by (rule loop_step) (simp add: Let_def)

lemma scan_end:
  assumes s: "scanning inp g" and e: "yy_c_buf_p g = length inp"
  shows "\<exists>h. yylex_loop ps Yy_next loc g = Some (Tok T_EOF, loc, h) \<and> scanning inp h \<and> yy_c_buf_p h = length inp \<and> yy_start h = yy_start g \<and>
    lex_cerr h = lex_cerr g \<and> yy_init h = yy_init g"
proof -
  let ?g1 = "put_ch (yy_c_buf_p g) (yy_hold_char g) g" and ?n = "length inp"
  have r: "ready inp ?g1" using s by (simp add: scanning_def)
  have st: "start_state (yy_start g)" using r by (simp add: ready_def)
  let ?g2 = "noting 5 (?n + 1) ?g1"
  have m: "yy_match (yy_start g) ?n ?g1 = Some (123, ?n + 2, ?g2)"
    using match_end [of "yy_start g" ?g1 inp] ready_ch [OF r] start_state [OF st] by simp
  have r2: "ready inp ?g2" using r by simp
  let ?k = "(at_end inp ?n ?g2)\<lparr>yy_did_buffer_switch_on_eof := False, yy_c_buf_p := ?n\<rparr>"
  note K = at_end_sel [OF r2, of ?n]
  have "yylex_loop ps Yy_next loc g = yylex_loop ps (Yy_find_action 123 (?n + 2) ?n) loc ?g2"
    unfolding match_start [OF s] by (rule loop_step) (use m e in simp)
  also have "\<dots> = yylex_loop ps (Yy_do_action (41 + (yy_start ?g2 - 1) div 2 + 1) (?n + 1)) loc ?k"
    by (rule reach_end [OF r2]) (use end_of_file [OF r2] in simp_all)
  also have "\<dots> = Some (Tok T_EOF, loc, ?k)" by (rule loop_stop) (use st in \<open>auto simp: start_state_def\<close>)
  finally have "yylex_loop ps Yy_next loc g = Some (Tok T_EOF, loc, ?k)" .
  moreover have "ch_buf ?k ! ?n = NUL" using ready_ch [of inp ?k] K(1) by simp
  then have "ready inp (put_ch ?n NUL ?k)" using ready_put_same [of inp ?k ?n NUL] K(1) by simp
  then have "scanning inp ?k" using K(8) by (simp add: scanning_def)
  ultimately show ?thesis using K by auto
qed

lemma scan_find:
  fixes g inp
  defines "bp \<equiv> yy_c_buf_p g" and "st \<equiv> yy_start g" and "rest \<equiv> drop (yy_c_buf_p g) inp"
  assumes s: "scanning inp g" and ne: "bp < length inp"
  shows "\<exists>k h. yylex_loop ps Yy_next loc g = yylex_loop ps (Yy_find_action (yy_run st (take k rest)) (bp + k) bp) loc h \<and> ready inp h \<and> 0 < k \<and>
    k \<le> length rest \<and> noted st bp (take k rest) h \<and> (\<forall>i. k < i \<and> i \<le> length rest \<longrightarrow> rule_at st (take i rest) = 0) \<and>
    yy_start h = st \<and> lex_cerr h = lex_cerr g \<and> yy_init h = yy_init g"
proof -
  let ?g1 = "put_ch bp (yy_hold_char g) g"
  have r: "ready inp ?g1" using s by (simp add: scanning_def bp_def)
  have st: "start_state st" and nul: "NUL \<notin> set rest" using r by (auto simp: ready_def st_def rest_def dest: in_set_dropD)
  have buf: "ch_buf ?g1 = take bp inp @ [] @ rest @ [NUL, NUL]" using ready_ch [OF r] by (simp add: rest_def bp_def)
  have len: "length (take bp inp) = bp" using ne by simp
  have nul': "NUL \<notin> set ([] @ rest)" and base: "yy_base ! nat (yy_run st []) \<noteq> 243" using nul start_state [OF st] by simp_all
  obtain q cp a b where m: "yy_match st bp ?g1 = Some (q, cp, noting a b ?g1)" and
    alt: "(\<exists>x y. rest = x @ y \<and> x \<noteq> [] \<and> q = yy_run st x \<and> yy_base ! nat q = 243 \<and> cp = bp + length x \<and> noted st bp x (noting a b ?g1)) \<or>
      q = 123 \<and> cp = bp + length rest + 2 \<and> a = 5 \<and> b = bp + length rest + 1"
    using match_text [OF st nul' buf noted_Nil base, unfolded len append_Nil list.size(3) add_0_right foldl.simps] by blast
  have loop: "yylex_loop ps Yy_next loc g = yylex_loop ps (Yy_find_action q cp bp) loc (noting a b ?g1)"
    unfolding match_start [OF s] by (rule loop_step) (use m in \<open>simp add: bp_def st_def\<close>)
  from alt show ?thesis
  proof (elim disjE exE conjE)
    fix x y assume x: "rest = x @ y" "x \<noteq> []" "q = yy_run st x" "yy_base ! nat q = 243" "cp = bp + length x" "noted st bp x (noting a b ?g1)"
    have "rule_at st (take i rest) = 0" if "length x < i" "i \<le> length rest" for i
    proof -
      have "NUL \<notin> set x" "yy_base ! nat (yy_run st x) = 243" "take (i - length x) y \<noteq> []" using x that nul by auto
      from stop_no_match [OF st this] show ?thesis using x(1) that by simp
    qed
    then show ?thesis using loop x r by (intro exI [of _ "length x"] exI [of _ "noting a b ?g1"]) (simp add: st_def)
  next
    assume e: "q = 123" "cp = bp + length rest + 2" "a = 5" "b = bp + length rest + 1"
    have n: "bp + length rest = length inp" using ne by (simp add: rest_def bp_def)
    let ?g2 = "noting a b ?g1"
    have r2: "ready inp ?g2" using r by simp
    obtain h where h: "yy_end_of_buffer (length inp + 1) (yy_do_before_action bp (length inp + 1) ?g2) = Some (Yy_find_action (yy_run st rest) (length inp) bp, h)"
      "ready inp h" "noted st bp rest h" "yy_start h = st" "lex_cerr h = lex_cerr g" "yy_init h = yy_init g"
      using last_token [OF r2 ne] by (auto simp: rest_def st_def bp_def)
    have "yylex_loop ps (Yy_find_action q cp bp) loc ?g2 = yylex_loop ps (Yy_find_action (yy_run st rest) (length inp) bp) loc h"
      unfolding e(1) by (rule reach_end [OF r2 _ _ h(1)]) (use e n in simp_all)
    moreover have "rest \<noteq> []" using ne n by auto
    ultimately show ?thesis using loop h n by (intro exI [of _ "length rest"] exI [of _ h]) simp
  qed
qed

text \<open>The scanner finds the longest match, runs the action of its rule, and goes on if the action returns no token.\<close>

lemma scan_next:
  fixes g inp
  defines "bp \<equiv> yy_c_buf_p g" and "st \<equiv> yy_start g" and "rest \<equiv> drop (yy_c_buf_p g) inp"
  assumes s: "scanning inp g" and ne: "bp < length inp"
  shows "\<exists>k act h. longest st rest k act \<and> scanning inp h \<and> yy_c_buf_p h = bp + k \<and> yy_start h = next_start act st \<and>
    lex_cerr h = next_cerr act (take k rest) (lex_cerr g) \<and> yy_init h = yy_init g \<and>
    yylex_loop ps Yy_next loc g = (case yy_token ps act (take k rest) of Some t \<Rightarrow> Some (t, yy_user_action loc (take k rest), h)
      | None \<Rightarrow> yylex_loop ps Yy_next (yy_user_action loc (take k rest)) h)"
proof -
  obtain k' g3 where f: "yylex_loop ps Yy_next loc g = yylex_loop ps (Yy_find_action (yy_run st (take k' rest)) (bp + k') bp) loc g3" "ready inp g3"
    "0 < k'" "k' \<le> length rest" "noted st bp (take k' rest) g3" "\<And>i. k' < i \<Longrightarrow> i \<le> length rest \<Longrightarrow> rule_at st (take i rest) = 0"
    "yy_start g3 = st" "lex_cerr g3 = lex_cerr g" "yy_init g3 = yy_init g"
    using scan_find [OF s] ne unfolding bp_def st_def rest_def by blast
  have rest: "rest = drop bp inp" by (simp add: rest_def bp_def)
  obtain k act where k: "longest st rest k act"
    "yylex_step ps (Yy_find_action (yy_run st (take k' rest)) (bp + k') bp) loc g3 = Some (Inl (Yy_do_action act (bp + k), loc, yy_do_before_action bp (bp + k) g3))"
    using find_action [OF f(2), of k' bp ps loc] f(3-7) unfolding rest by blast
  let ?w = "take k rest"
  let ?h = "yy_effect act ?w (yy_do_before_action bp (bp + k) g3)"
  have l: "longest (yy_start g3) (drop bp inp) k act" using k(1) f(7) rest by simp
  note D = do_action [OF f(2) l less_imp_le [OF ne], folded rest]
  have "yylex_loop ps Yy_next loc g = (case yy_token ps act ?w of Some t \<Rightarrow> Some (t, yy_user_action loc ?w, ?h)
      | None \<Rightarrow> yylex_loop ps Yy_next (yy_user_action loc ?w) ?h)"
    unfolding f(1) loop_step [OF k(2)] using D(1) [of ps loc] by (simp add: yylex_loop.simps [of ps "Yy_do_action act (bp + k)"] split: option.splits)
  then show ?thesis using k(1) D(2,3) f(7,8,9) by (intro exI [of _ k] exI [of _ act] exI [of _ ?h]) simp
qed

end
