(* ===== verification/Sql_Text.thy ===== *)
theory Sql_Text
  imports Sql_Scanner Sql_Parsing
begin

text \<open>
  From the text of a request to its parse tree: \<open>yylex\<close> of \<open>parser/lex.yy.c\<close> returns the tokens that the rules of \<open>parser/lex.l\<close> find by longest match, and
  it satisfies the interface \<open>token_source\<close> of the parser, so that \<open>yyparse\<close> of \<open>parser/yacc.tab.c\<close> accepts a text exactly when the rules cut it into
  tokens that the grammar derives. The start condition of the scanner is a global that outlives a request.
\<close>

section \<open>The scanner and its rules\<close>

text \<open>What the scanner promises: the start condition, the text left, the location and the messages before and after a token.\<close>

inductive scans :: "lex_params \<Rightarrow> int \<times> string \<times> YYLTYPE \<times> string list \<Rightarrow> token \<Rightarrow> int \<times> string \<times> YYLTYPE \<times> string list \<Rightarrow> bool" for ps where
  scans_end: "scans ps (st, [], loc, e) (Tok T_EOF) (st, [], loc, e)"
| scans_token: "longest st rest k act \<Longrightarrow> yy_token ps act (take k rest) = Some t \<Longrightarrow>
    scans ps (st, rest, loc, e) t (st, drop k rest, yy_user_action loc (take k rest), e)"
| scans_skip: "longest st rest k act \<Longrightarrow> yy_token ps act (take k rest) = None \<Longrightarrow>
    scans ps (next_start act st, drop k rest, yy_user_action loc (take k rest), next_cerr act (take k rest) e) t s' \<Longrightarrow>
    scans ps (st, rest, loc, e) t s'"

inductive_cases scans_stepE: "scans ps (st, rest, loc, e) t s'"

lemma longest_nonempty: "longest st rest k act \<Longrightarrow> rest \<noteq> []"
  by (auto simp: longest_def)

lemma scans_nil: "scans ps (st, [], loc, e) t s' \<Longrightarrow> t = Tok T_EOF \<and> s' = (st, [], loc, e)"
  by (erule scans_stepE) (auto dest: longest_nonempty)

lemma scans_cons:
  assumes l: "longest st rest k act"
  shows "scans ps (st, rest, loc, e) t s' \<longleftrightarrow>
    (case yy_token ps act (take k rest) of
       Some u \<Rightarrow> t = u \<and> s' = (st, drop k rest, yy_user_action loc (take k rest), e)
     | None \<Rightarrow> scans ps (next_start act st, drop k rest, yy_user_action loc (take k rest), next_cerr act (take k rest) e) t s')"
  (is "?L \<longleftrightarrow> ?R")
proof
  assume ?L
  then show ?R
  proof (rule scans_stepE, goal_cases)
    case 1
    then show ?case using longest_nonempty [OF l] by simp
  next
    case (2 k' act')
    then show ?case using longest_unique [OF l, of k' act'] by simp
  next
    case (3 k' act')
    then show ?case using longest_unique [OF l, of k' act'] by simp
  qed
next
  assume ?R
  then show ?L using scans_token [OF l] scans_skip [OF l] by (auto split: option.splits)
qed

text \<open>The token is determined by the rules.\<close>

lemma scans_unique: "scans ps s t s' \<Longrightarrow> scans ps s t2 s2 \<Longrightarrow> t2 = t \<and> s2 = s'"
proof (induction arbitrary: t2 s2 rule: scans.induct)
  case (scans_end st loc e)
  then show ?case using scans_nil by blast
next
  case (scans_token st rest k act t loc e)
  then show ?case by (simp add: scans_cons [OF scans_token(1)])
next
  case (scans_skip st rest k act loc e t s')
  then show ?case by (simp add: scans_cons [OF scans_skip(1)])
qed

lemma scans_shorter: "scans ps s t s' \<Longrightarrow> length (fst (snd s')) \<le> length (fst (snd s)) \<and> (tok_num t \<noteq> T_EOF \<longrightarrow> length (fst (snd s')) < length (fst (snd s)))"
  by (induction rule: scans.induct) (auto simp: longest_def)

lemma yy_token_effect: "longest st rest k act \<Longrightarrow> yy_token ps act w = Some t \<Longrightarrow> next_start act st = st \<and> next_cerr act w' e = e"
  by (auto simp: yy_token_def next_start_def next_cerr_def split: if_splits)

lemma loop_scans:
  assumes "scanning inp g"
  shows "\<exists>t loc' h. yylex_loop ps Yy_next loc g = Some (t, loc', h) \<and> scanning inp h \<and> yy_init h = yy_init g \<and>
    scans ps (yy_start g, drop (yy_c_buf_p g) inp, loc, lex_cerr g) t (yy_start h, drop (yy_c_buf_p h) inp, loc', lex_cerr h)"
  using assms
proof (induction "length inp - yy_c_buf_p g" arbitrary: g loc rule: less_induct)
  case less
  show ?case
  proof (cases "yy_c_buf_p g < length inp")
    case False
    then have e: "yy_c_buf_p g = length inp" using less.prems by (simp add: scanning_def)
    from scan_end [OF less.prems e, of ps loc] show ?thesis using e by (auto intro: scans_end)
  next
    case True
    let ?rest = "drop (yy_c_buf_p g) inp"
    obtain k act h where s: "longest (yy_start g) ?rest k act" "scanning inp h" "yy_c_buf_p h = yy_c_buf_p g + k" "yy_start h = next_start act (yy_start g)"
      "lex_cerr h = next_cerr act (take k ?rest) (lex_cerr g)" "yy_init h = yy_init g"
      "yylex_loop ps Yy_next loc g = (case yy_token ps act (take k ?rest) of Some t \<Rightarrow> Some (t, yy_user_action loc (take k ?rest), h)
        | None \<Rightarrow> yylex_loop ps Yy_next (yy_user_action loc (take k ?rest)) h)"
      using scan_next [OF less.prems True, of ps loc] by blast
    have d: "drop (yy_c_buf_p h) inp = drop k ?rest" using s(3) by (simp add: add.commute)
    show ?thesis
    proof (cases "yy_token ps act (take k ?rest)")
      case (Some t)
      then show ?thesis using s(2,4,5,6,7) d scans_token [OF s(1) Some] yy_token_effect [OF s(1) Some] by auto
    next
      case None
      have "length inp - yy_c_buf_p h < length inp - yy_c_buf_p g" using s(1,3) True unfolding longest_def by linarith
      from less.hyps [OF this s(2), of "yy_user_action loc (take k ?rest)"] show ?thesis
        using s(4,5,6,7) None d scans_skip [OF s(1) None] by auto
    qed
  qed
qed

section \<open>The interface\<close>

definition lex_entry :: "yylexer \<Rightarrow> yylexer" where
  "lex_entry g = (if yy_init g then g else yy_load_buffer_state (g\<lparr>yy_init := True, yy_start := (if yy_start g = 0 then 1 else yy_start g)\<rparr>))"

definition lexing :: "yylexer \<Rightarrow> bool" where
  "lexing g \<longleftrightarrow> (\<exists>inp. scanning inp (lex_entry g))"

text \<open>The text that has not been scanned yet.\<close>

definition unread :: "yylexer \<Rightarrow> string" where
  "unread g = (let h = lex_entry g in drop (yy_c_buf_p h) (take (yy_n_chars h) (ch_buf (put_ch (yy_c_buf_p h) (yy_hold_char h) h))))"

lemma unread_scanning: "scanning inp (lex_entry g) \<Longrightarrow> unread g = drop (yy_c_buf_p (lex_entry g)) inp"
  using ready_ch by (auto simp: scanning_def unread_def Let_def ready_def)

lemma lex_entry_init: "yy_init (lex_entry g)" and lex_entry_id: "yy_init g \<Longrightarrow> lex_entry g = g"
  and lex_entry_cerr: "lex_cerr (lex_entry g) = lex_cerr g"
  by (simp_all add: lex_entry_def yy_load_buffer_state_def split: option.splits)

lemma yylex_scans:
  assumes "lexing g"
  shows "\<exists>t loc' h. yylex ps loc g = Some (t, loc', h) \<and> lexing h \<and> yy_init h \<and>
    scans ps (yy_start (lex_entry g), unread g, loc, lex_cerr g) t (yy_start h, unread h, loc', lex_cerr h)"
proof -
  obtain inp where s: "scanning inp (lex_entry g)" using assms by (auto simp: lexing_def)
  then have b: "yy_buffer (lex_entry g) \<noteq> None" by (auto simp: scanning_def ready_def put_ch_def)
  obtain t loc' h where l: "yylex_loop ps Yy_next loc (lex_entry g) = Some (t, loc', h)" "scanning inp h" "yy_init h"
    "scans ps (yy_start (lex_entry g), drop (yy_c_buf_p (lex_entry g)) inp, loc, lex_cerr (lex_entry g)) t (yy_start h, drop (yy_c_buf_p h) inp, loc', lex_cerr h)"
    using loop_scans [OF s, of ps loc] lex_entry_init by auto
  have "yylex ps loc g = Some (t, loc', h)" using l(1) b by (auto simp: yylex_def Let_def lex_entry_def split: if_splits)
  moreover have "lex_entry h = h" using l(3) by (rule lex_entry_id)
  ultimately show ?thesis using l unread_scanning [OF s] unread_scanning [of inp h] lex_entry_cerr by (auto simp: lexing_def)
qed

section \<open>Tokens\<close>

lemma longest_matches: "longest st rest k act \<Longrightarrow> \<exists>r. (act, r) \<in> set (rules_of st) \<and> matches r (map code (take k rest))"
proof -
  assume l: "longest st rest k act"
  have "rule_for its v \<noteq> 0 \<Longrightarrow> \<exists>r. (rule_for its v, r) \<in> set its \<and> matches r v" for its v by (induction its) (auto split: if_splits)
  then show ?thesis using l unfolding longest_def by blast
qed

lemma keyword_tokens: "list_all (\<lambda>a. tok_ok (Tok (yy_keyword a)) \<and> yy_keyword a \<noteq> T_EOF) [8..33]"
  by code_simp

lemma op_tokens: "list_all (\<lambda>n. tok_ok (Tok n)) [59, 40, 41, 44, 42, 61, 62, 60, 46]" "tok_ok (Tok T_EOF)"
  by code_simp+

lemma lower_code_fixed: "lower_code n = m \<Longrightarrow> m < 97 \<or> 122 < m \<Longrightarrow> n = m"
  by (auto simp: lower_code_def split: if_splits)

lemma op_rule: "(34, r) \<in> set (rules_of st) \<Longrightarrow> matches r v \<Longrightarrow> \<exists>n \<in> set [59, 40, 41, 44, 42, 61, 62, 60, 46]. v = [n]"
  by (auto simp: rules_of_def rules_initial_eq rules_comment_eq yy_initial_def yy_comment_def dest!: lower_code_fixed split: if_splits)

lemma yy_token_ok:
  assumes l: "longest st rest k act" and t: "yy_token ps act (take k rest) = Some t"
  shows "tok_ok t" and "tok_num t \<noteq> T_EOF"
proof -
  have "tok_ok t \<and> tok_num t \<noteq> T_EOF"
  proof (cases "8 \<le> act \<and> act \<le> 33")
    case True
    then show ?thesis using t list_all_upto [OF keyword_tokens, of act] by (auto simp: yy_token_def)
  next
    case False
    show ?thesis
    proof (cases "act = 34")
      case True
      obtain r where r: "(act, r) \<in> set (rules_of st)" "matches r (map code (take k rest))" using longest_matches [OF l] by blast
      obtain n where n: "n \<in> set [59, 40, 41, 44, 42, 61, 62, 60, 46]" "map code (take k rest) = [n]"
        using op_rule [OF r(1) [unfolded True] r(2)] by (elim bexE)
      then obtain c where "take k rest = [c]" "code c = n" by (auto simp: map_eq_Cons_conv)
      moreover have "tok_ok (Tok n)" using op_tokens(1) n(1) unfolding list_all_iff by blast
      ultimately show ?thesis using t True n(1) by (auto simp: yy_token_def)
    next
      case F: False
      then show ?thesis using t False by (auto simp: yy_token_def split: if_splits)
    qed
  qed
  then show "tok_ok t" and "tok_num t \<noteq> T_EOF" by simp_all
qed

lemma scans_tok_ok: "scans ps s t s' \<Longrightarrow> tok_ok t"
  by (induction rule: scans.induct) (use op_tokens(2) yy_token_ok(1) in blast)+

lemma scans_decrease: "scans ps s t s' \<Longrightarrow> tok_num t \<noteq> T_EOF \<Longrightarrow> length (fst (snd s')) < length (fst (snd s))"
  using scans_shorter by blast

lemma yylex_result:
  assumes "lexing g" and "yylex ps loc g = Some (t, loc', h)"
  shows "lexing h" and "scans ps (yy_start (lex_entry g), unread g, loc, lex_cerr g) t (yy_start (lex_entry h), unread h, loc', lex_cerr h)"
  using yylex_scans [OF assms(1), of ps loc] assms(2) lex_entry_id by auto

text \<open>The scanner of the rules keeps the contract of the parser.\<close>

interpretation sql_scanner: token_source "yylex ps" lexing "\<lambda>g. length (unread g)" for ps
proof
  fix l loc0 t loc l'
  assume g: "lexing l"
  show "yylex ps loc0 l \<noteq> None" using yylex_scans [OF g, of ps loc0] by auto
  assume y: "yylex ps loc0 l = Some (t, loc, l')"
  note R = yylex_result [OF g y]
  show "tok_ok t" by (rule scans_tok_ok [OF R(2)])
  show "lexing l'" by (rule R(1))
  show "length (unread l') < length (unread l)" if "tok_num t \<noteq> T_EOF" using scans_decrease [OF R(2) that] by simp
qed

section \<open>From the text to the tree\<close>

fun scans_all :: "lex_params \<Rightarrow> int \<times> string \<times> YYLTYPE \<times> string list \<Rightarrow> token list \<Rightarrow> int \<times> string \<times> YYLTYPE \<times> string list \<Rightarrow> bool" where
  "scans_all ps s [] s' \<longleftrightarrow> s' = s"
| "scans_all ps s (t # ts) s' \<longleftrightarrow> (\<exists>s1. scans ps s t s1 \<and> scans_all ps s1 ts s')"

lemma scans_all_append: "scans_all ps s (ts @ us) s' \<longleftrightarrow> (\<exists>s1. scans_all ps s ts s1 \<and> scans_all ps s1 us s')"
proof (induction ts arbitrary: s)
  case (Cons t ts)
  then show ?case unfolding append_Cons scans_all.simps by blast
qed simp

abbreviation lex_abs :: "YYLTYPE \<Rightarrow> yylexer \<Rightarrow> int \<times> string \<times> YYLTYPE \<times> string list" where
  "lex_abs loc g \<equiv> (yy_start (lex_entry g), unread g, loc, lex_cerr g)"

lemma lexed_scans:
  "lexing g \<Longrightarrow> (\<exists>h loc'. lexed (yylex ps) (loc, g) ts (loc', h) \<and> lexing h \<and> lex_abs loc' h = s') \<longleftrightarrow> scans_all ps (lex_abs loc g) ts s'"
proof (induction ts arbitrary: loc g)
  case Nil
  then show ?case by auto
next
  case (Cons t ts)
  obtain u loc1 g1 where y: "yylex ps loc g = Some (u, loc1, g1)" using yylex_scans [OF Cons.prems, of ps loc] by blast
  note R = yylex_result [OF Cons.prems y]
  have "scans_all ps (lex_abs loc g) (t # ts) s' \<longleftrightarrow> u = t \<and> scans_all ps (lex_abs loc1 g1) ts s'"
    unfolding scans_all.simps using R(2) scans_unique [OF R(2)] by blast
  moreover have "lexed (yylex ps) (loc, g) (t # ts) p \<longleftrightarrow> u = t \<and> lexed (yylex ps) (loc1, g1) ts p" for p using y by auto
  ultimately show ?case using Cons.IH [OF R(1)] by blast
qed

lemma lexed_lexing: "lexing g \<Longrightarrow> lexed (yylex ps) (loc, g) ts (loc', h) \<Longrightarrow> lexing h"
proof (induction ts arbitrary: loc g)
  case (Cons t ts)
  then obtain loc1 g1 where "yylex ps loc g = Some (t, loc1, g1)" "lexed (yylex ps) (loc1, g1) ts (loc', h)" by auto
  then show ?case using Cons.IH yylex_result(1) Cons.prems(1) by blast
qed simp

text \<open>The lexer between two requests: no buffer is needed, only the start condition matters.\<close>

definition lexer_ok :: "yylexer \<Rightarrow> bool" where
  "lexer_ok g \<longleftrightarrow> start_state (yy_start g) \<or> \<not> yy_init g \<and> yy_start g = 0"

abbreviation c_str :: "string \<Rightarrow> string" where
  "c_str s \<equiv> takeWhile (\<lambda>c. c \<noteq> NUL) s"

definition first_start :: "yylexer \<Rightarrow> int" where
  "first_start g = (if yy_init g \<or> yy_start g \<noteq> 0 then yy_start g else 1)"

lemma scan_string:
  assumes "lexer_ok g"
  shows "\<exists>h. yy_scan_string s g = Some h \<and> lexing h \<and> lex_abs loc h = (first_start g, c_str s, loc, lex_cerr g)"
proof -
  let ?t = "c_str s"
  let ?b = "\<lparr>yy_ch_buf = ?t @ [NUL, NUL], yy_buf_pos = 0, yy_buf_size = length ?t, yy_buf_n_chars = length ?t, yy_is_our_buffer = True,
      yy_fill_buffer = False, yy_buffer_new = True\<rparr>"
  let ?h = "g\<lparr>yy_buffer := Some ?b, yy_n_chars := length ?t, yytext_ptr := 0, yy_c_buf_p := 0, yy_hold_char := (?t @ [NUL, NUL]) ! 0,
      yy_did_buffer_switch_on_eof := True\<rparr>"
  have h: "yy_scan_string s g = Some ?h"
    by (simp add: yy_scan_string_def yy_scan_bytes_def yy_scan_buffer_def yy_switch_to_buffer_def yy_load_buffer_state_def Let_def nth_append)
  have e: "lex_entry ?h = (if yy_init g then ?h else ?h\<lparr>yy_init := True, yy_start := first_start g\<rparr>)"
    by (simp add: lex_entry_def yy_load_buffer_state_def first_start_def)
  have nul: "NUL \<notin> set ?t" by (auto dest: set_takeWhileD)
  have "scanning ?t (lex_entry ?h)"
    using assms nul unfolding e by (auto simp: scanning_def ready_def put_ch_def lexer_ok_def first_start_def start_state_def)
  moreover from this have "unread ?h = ?t" using unread_scanning [of ?t ?h] e by simp
  ultimately show ?thesis using h e by (auto simp: lexing_def first_start_def)
qed

text \<open>A request: its text is scanned and parsed, then the buffer is deleted.\<close>

definition parse_string :: "lex_params \<Rightarrow> int \<times> byte list \<times> SvCompOp \<Rightarrow> string \<Rightarrow> yylexer \<Rightarrow> (yylexer yyoutcome \<times> yylexer) option" where
  "parse_string ps junk s g =
     (case yy_scan_string s g of None \<Rightarrow> None
      | Some h \<Rightarrow> map_option (\<lambda>out. (out, yy_delete_buffer (yyout_scan out))) (yyparse (yylex ps) junk h))"

lemma parse_string_accepts:
  assumes "lexer_ok g"
  shows "(\<exists>out g'. parse_string ps junk s g = Some (out, g') \<and> yyresult out = 0 \<and> parse_tree out = Some r) \<longleftrightarrow>
    (\<exists>ts s'. scans_all ps (first_start g, c_str s, yyloc_default, lex_cerr g) ts s' \<and> derives 44 ts (ARoot r))"
proof -
  obtain h where h: "yy_scan_string s g = Some h" "lexing h" "lex_abs yyloc_default h = (first_start g, c_str s, yyloc_default, lex_cerr g)"
    using scan_string [OF assms, of s yyloc_default] by blast
  have "(\<exists>out g'. parse_string ps junk s g = Some (out, g') \<and> yyresult out = 0 \<and> parse_tree out = Some r) \<longleftrightarrow>
      (\<exists>l'. \<exists>out. yyparse (yylex ps) junk h = Some out \<and> yyresult out = 0 \<and> parse_tree out = Some r \<and> yyout_scan out = l')"
    using h(1) by (auto simp: parse_string_def)
  also have "\<dots> \<longleftrightarrow> (\<exists>ts l' loc. lexed (yylex ps) (yyloc_default, h) ts (loc, l') \<and> derives 44 ts (ARoot r))"
    unfolding sql_scanner.yyparse_accepts [OF h(2)] by blast
  also have "\<dots> \<longleftrightarrow> (\<exists>ts s'. scans_all ps (lex_abs yyloc_default h) ts s' \<and> derives 44 ts (ARoot r))"
    using lexed_scans [OF h(2), of ps yyloc_default] lexed_lexing [OF h(2)] by blast
  finally show ?thesis unfolding h(3) .
qed

lemma lexing_ok: "lexing h \<Longrightarrow> lexer_ok (yy_delete_buffer h)"
  by (auto simp: lexing_def scanning_def ready_def lexer_ok_def yy_delete_buffer_def lex_entry_def yy_load_buffer_state_def split: if_splits option.splits)

lemma parse_string_total:
  assumes "lexer_ok g"
  shows "\<exists>out g'. parse_string ps junk s g = Some (out, g') \<and> lexer_ok g' \<and>
    (yyresult out = 1 \<and> parse_tree out = None \<and> length (yyout_cerr out) = 1 \<or>
     yyresult out = 0 \<and> parse_tree out \<noteq> None \<and> yyout_cerr out = [])"
proof -
  obtain h where h: "yy_scan_string s g = Some h" "lexing h" using scan_string [OF assms] by blast
  obtain out where out: "yyparse (yylex ps) junk h = Some out" using sql_scanner.yyparse_total [OF h(2)] by blast
  from sql_scanner.yyparse_outcome [OF h(2) out] obtain ts loc where
    "lexed (yylex ps) (yyloc_default, h) ts (loc, yyout_scan out)" and
    o: "yyresult out = 1 \<and> parse_tree out = None \<and> length (yyout_cerr out) = 1 \<or> yyresult out = 0 \<and> parse_tree out \<noteq> None \<and> yyout_cerr out = []"
    by (auto simp: outcome_ok_def)
  then have "lexer_ok (yy_delete_buffer (yyout_scan out))" using lexed_lexing [OF h(2)] lexing_ok by blast
  then show ?thesis using h(1) out o by (auto simp: parse_string_def)
qed

section \<open>Block comments\<close>

lemma lower_code_lit: "m < 97 \<or> 122 < m \<Longrightarrow> m < 65 \<or> 90 < m \<Longrightarrow> lower_code n = m \<longleftrightarrow> n = m"
  by (auto simp: lower_code_def)

lemma rules_comment_one: "rule_for (rules_of 3) [n] = (if n = 42 then 4 else 3)"
  by (simp add: rules_of_def rules_comment_eq yy_comment_def lower_code_lit)

lemma rules_comment_more: "rule_for (rules_of 3) (n # m # v) = (if v = [] \<and> n = 42 \<and> m = 47 then 2 else 0)"
  by (auto simp: rules_of_def rules_comment_eq yy_comment_def lower_code_lit Cons_eq_append_conv)

lemma comment_rule:
  assumes "\<forall>u. rest \<noteq> ''*/'' @ u" and r: "rest = c # cs"
  shows "\<exists>act. longest 3 rest 1 act \<and> yy_token ps act w = None \<and> next_start act 3 = 3 \<and> next_cerr act w e = e"
proof -
  have more: "rule_at 3 (take i rest) = 0" if i1: "1 < i" and i2: "i \<le> length rest" for i
  proof -
    obtain j where i: "i = Suc (Suc j)" using i1 by (cases i; cases "i - 1") auto
    obtain d ds where cs: "cs = d # ds" using i2 i r by (cases cs) auto
    have "\<not> (c = CHR ''*'' \<and> d = CHR ''/'')" using assms(1) r cs by auto
    then have "\<not> (code c = 42 \<and> code d = 47)"
      using of_char_eq_iff [of c "CHR ''*''", where 'a = int] of_char_eq_iff [of d "CHR ''/''", where 'a = int] by simp
    then show ?thesis using r cs i rules_comment_more [of "code c" "code d"] by auto
  qed
  let ?act = "rule_at 3 [c]"
  have one: "?act = 4 \<or> ?act = 3" using rules_comment_one [of "code c"] by simp
  then have "longest 3 rest 1 ?act" using more r by (auto simp: longest_def)
  then show ?thesis using one by (intro exI [of _ ?act]) (auto simp: yy_token_def next_start_def next_cerr_def)
qed

text \<open>Inside a comment the text is skipped up to its end, and the start condition stays.\<close>

lemma comment_skips: "(\<forall>u v. rest \<noteq> u @ ''*/'' @ v) \<Longrightarrow> \<exists>loc'. scans ps (3, rest, loc, e) (Tok T_EOF) (3, [], loc', e)"
proof (induction rest arbitrary: loc)
  case Nil
  then show ?case using scans_end by blast
next
  case (Cons c cs)
  have "\<forall>u. c # cs \<noteq> ''*/'' @ u" using Cons.prems by (metis append_Nil)
  from comment_rule [OF this refl] obtain act where a: "longest 3 (c # cs) 1 act" "yy_token ps act [c] = None" "next_start act 3 = 3" "next_cerr act [c] e = e"
    by blast
  have "\<forall>u v. cs \<noteq> u @ ''*/'' @ v" using Cons.prems by (metis append_Cons)
  from Cons.IH [OF this, of "yy_user_action loc [c]"] obtain loc' where "scans ps (3, cs, yy_user_action loc [c], e) (Tok T_EOF) (3, [], loc', e)" by blast
  then have "scans ps (3, c # cs, loc, e) (Tok T_EOF) (3, [], loc', e)" by (intro scans_skip [OF a(1)]) (use a in simp_all)
  then show ?case by blast
qed

lemma derives_eof: "derives 44 [Tok T_EOF] (ARoot None)"
proof -
  have "derives 29 [Tok T_EOF] ANone" using derives_token [of "Tok T_EOF"] by (simp add: tok_sym_values)
  then have "derives_all (yyrhs ! 5) [Tok T_EOF] [ANone]" using derives_Cons [OF _ derives_Nil] by (simp add: yyrhs_eq)
  from derives_rule [OF _ _ this] yyr1_at [of 5] show ?thesis by (simp add: yyr1_def rule_attr_def)
qed

lemma first_start_delete: "first_start (yy_delete_buffer h) = yy_start (lex_entry h)" and delete_cerr: "lex_cerr (yy_delete_buffer h) = lex_cerr h"
  by (auto simp: first_start_def yy_delete_buffer_def lex_entry_def yy_load_buffer_state_def split: option.splits)

lemma parse_string_tokens:
  assumes ok: "lexer_ok g" and s: "scans_all ps (first_start g, c_str s, yyloc_default, lex_cerr g) ts (st, rest, loc, e)" and d: "derives 44 ts (ARoot r)"
  shows "\<exists>out g'. parse_string ps junk s g = Some (out, g') \<and> yyresult out = 0 \<and> parse_tree out = Some r \<and> lexer_ok g' \<and> first_start g' = st \<and>
    lex_cerr g' = e"
proof -
  obtain h where h: "yy_scan_string s g = Some h" "lexing h" "lex_abs yyloc_default h = (first_start g, c_str s, yyloc_default, lex_cerr g)"
    using scan_string [OF ok, of s yyloc_default] by blast
  obtain k loc' where k: "lexed (yylex ps) (yyloc_default, h) ts (loc', k)" "lexing k" "lex_abs loc' k = (st, rest, loc, e)"
    using lexed_scans [OF h(2), of ps yyloc_default ts "(st, rest, loc, e)"] s unfolding h(3) by blast
  obtain out where "yyparse (yylex ps) junk h = Some out" "yyresult out = 0" "parse_tree out = Some r" "yyout_scan out = k"
    using sql_scanner.yyparse_accepts [OF h(2), of ps junk r k] k(1) d by blast
  then show ?thesis using h(1) k(3) lexing_ok [OF k(2)] first_start_delete delete_cerr by (auto simp: parse_string_def)
qed

text \<open>After a comment that is not closed, a request without a closing delimiter is taken for the rest of the comment.\<close>

lemma comment_swallows:
  assumes "lexer_ok g" and "first_start g = 3" and "\<forall>u v. c_str s \<noteq> u @ ''*/'' @ v"
  shows "\<exists>out g'. parse_string ps junk s g = Some (out, g') \<and> yyresult out = 0 \<and> parse_tree out = Some None \<and> lexer_ok g' \<and> first_start g' = 3"
proof -
  obtain loc' where "scans ps (3, c_str s, yyloc_default, lex_cerr g) (Tok T_EOF) (3, [], loc', lex_cerr g)" using comment_skips [OF assms(3)] by blast
  then have "scans_all ps (first_start g, c_str s, yyloc_default, lex_cerr g) [Tok T_EOF] (3, [], loc', lex_cerr g)" using assms(2) by simp
  from parse_string_tokens [OF assms(1) this derives_eof] show ?thesis by blast
qed

lemma comment_derivs: "derivs 42 (derivs 47 yy_initial) = [(1, One)]"
  by code_simp

lemma opening_rule: "rule_for (rules_of 1) [47, 42] = 1" "rule_for (rules_of 1) (47 # 42 # n # v) = 0"
proof -
  have r: "rules_of 1 = yy_initial" by (simp add: rules_of_def rules_initial_eq)
  show "rule_for (rules_of 1) [47, 42] = 1" "rule_for (rules_of 1) (47 # 42 # n # v) = 0"
    unfolding r rule_for_Cons comment_derivs by (simp_all add: derivs_def)
qed

lemma comment_opens: "longest 1 (''/*'' @ u) 2 1"
proof -
  have "rule_at 1 (take i (''/*'' @ u)) = 0" if i: "2 < i" "i \<le> length (''/*'' @ u)" for i
  proof -
    have "i = Suc (Suc (Suc (i - 3)))" using i(1) by linarith
    then obtain j where "i = Suc (Suc (Suc j))" by blast
    moreover from this obtain c cs where "u = c # cs" using i(2) by (cases u) auto
    ultimately show ?thesis using opening_rule(2) by simp
  qed
  then show ?thesis using opening_rule(1) by (simp add: longest_def)
qed

lemma comment_starts:
  assumes "\<forall>a b. u \<noteq> a @ ''*/'' @ b"
  shows "\<exists>loc'. scans ps (1, ''/*'' @ u, loc, e) (Tok T_EOF) (3, [], loc', e)"
proof -
  obtain loc' where "scans ps (3, u, yy_user_action loc ''/*'', e) (Tok T_EOF) (3, [], loc', e)"
    using comment_skips [OF assms] by blast
  then have "scans ps (1, ''/*'' @ u, loc, e) (Tok T_EOF) (3, [], loc', e)"
    by (intro scans_skip [OF comment_opens]) (simp_all add: yy_token_def next_start_def next_cerr_def)
  then show ?thesis by blast
qed

text \<open>A sequence of requests: the parse trees, \<open>None\<close> where the parse failed, and the scanner left behind.\<close>

fun parse_requests :: "lex_params \<Rightarrow> int \<times> byte list \<times> SvCompOp \<Rightarrow> string list \<Rightarrow> yylexer \<Rightarrow> (TreeNode option option list \<times> yylexer) option" where
  "parse_requests ps junk [] g = Some ([], g)"
| "parse_requests ps junk (s # ss) g =
     (case parse_string ps junk s g of None \<Rightarrow> None
      | Some (out, g') \<Rightarrow> map_option (\<lambda>(rs, h). ((if yyresult out = 0 then parse_tree out else None) # rs, h)) (parse_requests ps junk ss g'))"

lemma comment_swallows_all:
  assumes "lexer_ok g" and "first_start g = 3" and "\<forall>s \<in> set ss. \<forall>u v. c_str s \<noteq> u @ ''*/'' @ v"
  shows "\<exists>h. parse_requests ps junk ss g = Some (replicate (length ss) (Some None), h)"
  using assms
proof (induction ss arbitrary: g)
  case (Cons s ss)
  obtain out g' where p: "parse_string ps junk s g = Some (out, g')" "yyresult out = 0" "parse_tree out = Some None" "lexer_ok g'" "first_start g' = 3"
    using comment_swallows [OF Cons.prems(1,2), of s ps junk] Cons.prems(3) by auto
  from Cons.IH [OF p(4,5)] Cons.prems(3) p(1-3) show ?case by auto
qed simp

text \<open>
  C39. A comment that is not closed swallows the requests that follow. The start condition of the scanner is a global that no request resets: after a
  request \<open>/* ...\<close> without \<open>*/\<close> every following request, of whichever client, up to one with \<open>*/\<close> in it is taken for the rest of the comment. The parse succeeds
  each time, with no tree, so that the statement is dropped without a message.
\<close>

theorem unclosed_comment_swallows_requests:
  assumes "lexer_ok g" and "first_start g = 1" and "c_str s = ''/*'' @ u" and "\<forall>a b. u \<noteq> a @ ''*/'' @ b"
    and "\<forall>s \<in> set ss. \<forall>a b. c_str s \<noteq> a @ ''*/'' @ b"
  shows "\<exists>h. parse_requests ps junk (s # ss) g = Some (replicate (Suc (length ss)) (Some None), h)"
proof -
  obtain loc' where "scans ps (1, ''/*'' @ u, yyloc_default, lex_cerr g) (Tok T_EOF) (3, [], loc', lex_cerr g)"
    using comment_starts [OF assms(4)] by blast
  then have "scans_all ps (first_start g, c_str s, yyloc_default, lex_cerr g) [Tok T_EOF] (3, [], loc', lex_cerr g)"
    using assms(2,3) by simp
  from parse_string_tokens [OF assms(1) this derives_eof, of junk] obtain out g' where
    p: "parse_string ps junk s g = Some (out, g')" "yyresult out = 0" "parse_tree out = Some None" "lexer_ok g'" "first_start g' = 3"
    by blast
  from comment_swallows_all [OF p(4,5) assms(5), of ps junk] p(1-3) show ?thesis by auto
qed

definition sample_lex :: lex_params where
  "sample_lex = \<lparr>atof = (\<lambda>_. []), atoi_out = (\<lambda>_. 0)\<rparr>"

lemma new_lexer_ok: "lexer_ok yylexer_new" "first_start yylexer_new = 1"
  by (simp_all add: lexer_ok_def first_start_def yylexer_new_def)

lemma sample_parse:
  "map_option (\<lambda>(out, g). (yyresult out, parse_tree out)) (parse_string sample_lex (0, [], SV_OP_EQ) ''select a,t.b from t where a<7 and t.b='' yylexer_new)
    = Some (1, None)"
  "map_option (\<lambda>(out, g). (yyresult out, parse_tree out)) (parse_string sample_lex (0, [], SV_OP_EQ) ''select a,t.b from t where a<7;'' yylexer_new)
    = Some (0, Some (Some (SelectStmt [Col [] ''a'', Col ''t'' ''b''] [''t''] [BinaryExpr (Col [] ''a'') SV_OP_LT (IntLit 7)])))"
  by code_simp+

theorem unclosed_comment_swallows_requests_witness:
  "\<exists>h. parse_requests sample_lex (0, [], SV_OP_EQ) [''/* select'', ''desc t;'', ''show tables;''] yylexer_new = Some ([Some None, Some None, Some None], h)"
proof -
  have no: "\<forall>a b. s \<noteq> a @ ''*/'' @ b" if "CHR ''*'' \<notin> set s" for s using that by auto
  show ?thesis
    using unclosed_comment_swallows_requests [OF new_lexer_ok, of "''/* select''" "'' select''" "[''desc t;'', ''show tables;'']" sample_lex "(0, [], SV_OP_EQ)"]
      no [of "'' select''"] no [of "''desc t;''"] no [of "''show tables;''"] by (simp add: numeral_eq_Suc)
qed

text \<open>
  C19. Parsing a request, \<open>yy_scan_string\<close>, \<open>yyparse\<close> and \<open>yy_delete_buffer\<close>, returns for every text and from every state that earlier requests can leave
  behind. It succeeds with the tree \<open>r\<close> exactly when the rules of the scanner cut the text (or a beginning of it) into tokens that the grammar derives
  with the tree \<open>r\<close>; otherwise it fails with one message, and it never runs out of stack.
\<close>

theorem parse_string_correct:
  assumes "lexer_ok g"
  shows "\<exists>out g'. parse_string ps junk s g = Some (out, g') \<and> lexer_ok g' \<and>
    (\<forall>r. yyresult out = 0 \<and> parse_tree out = Some r \<longleftrightarrow>
       (\<exists>ts s'. scans_all ps (first_start g, c_str s, yyloc_default, lex_cerr g) ts s' \<and> derives 44 ts (ARoot r))) \<and>
    (yyresult out = 0 \<and> parse_tree out \<noteq> None \<and> yyout_cerr out = [] \<or>
     yyresult out = 1 \<and> parse_tree out = None \<and> length (yyout_cerr out) = 1)"
proof -
  obtain out g' where o: "parse_string ps junk s g = Some (out, g')" "lexer_ok g'"
    "yyresult out = 1 \<and> parse_tree out = None \<and> length (yyout_cerr out) = 1 \<or> yyresult out = 0 \<and> parse_tree out \<noteq> None \<and> yyout_cerr out = []"
    using parse_string_total [OF assms] by blast
  moreover have "yyresult out = 0 \<and> parse_tree out = Some r \<longleftrightarrow>
      (\<exists>ts s'. scans_all ps (first_start g, c_str s, yyloc_default, lex_cerr g) ts s' \<and> derives 44 ts (ARoot r))" for r
    using parse_string_accepts [OF assms, of ps junk s r] o(1) by auto
  ultimately show ?thesis by blast
qed

theorem parse_string_correct_witness:
  "\<exists>ts s'. scans_all sample_lex (1, ''select a,t.b from t where a<7;'', yyloc_default, []) ts s' \<and>
    derives 44 ts (ARoot (Some (SelectStmt [Col [] ''a'', Col ''t'' ''b''] [''t''] [BinaryExpr (Col [] ''a'') SV_OP_LT (IntLit 7)])))"
proof -
  let ?s = "''select a,t.b from t where a<7;''"
  obtain out g' where "parse_string sample_lex (0, [], SV_OP_EQ) ?s yylexer_new = Some (out, g')"
    and "\<forall>r. yyresult out = 0 \<and> parse_tree out = Some r \<longleftrightarrow>
       (\<exists>ts s'. scans_all sample_lex (first_start yylexer_new, c_str ?s, yyloc_default, lex_cerr yylexer_new) ts s' \<and> derives 44 ts (ARoot r))"
    using parse_string_correct [OF new_lexer_ok(1), of sample_lex "(0, [], SV_OP_EQ)" ?s] by blast
  moreover have "lex_cerr yylexer_new = []" by (simp add: yylexer_new_def)
  ultimately show ?thesis using sample_parse(2) by (simp add: new_lexer_ok)
qed

text \<open>
  C20. The scanner driven by the compressed tables of \<open>lex.yy.c\<close> is the one its rules describe: every call of \<open>yylex\<close> returns, with the token, the location,
  the text left, the start condition and the messages that follow from taking, in turn, the longest text that a rule of the start condition
  matches, the first such rule, and its action. This includes the ways out of the table loop: backing up to the last accepting state, and reading a token
  again at the end of the buffer.
\<close>

theorem yylex_longest_match:
  assumes "lexing g"
  shows "\<exists>t loc' h. yylex ps loc g = Some (t, loc', h) \<and> lexing h \<and> tok_ok t \<and>
    scans ps (yy_start (lex_entry g), unread g, loc, lex_cerr g) t (yy_start (lex_entry h), unread h, loc', lex_cerr h)"
proof -
  obtain t loc' h where y: "yylex ps loc g = Some (t, loc', h)" using yylex_scans [OF assms] by blast
  from yylex_result [OF assms y] y scans_tok_ok show ?thesis by blast
qed

theorem yylex_longest_match_witness:
  "\<exists>g t loc' h. yy_scan_string ''desc t;'' yylexer_new = Some g \<and> yylex sample_lex yyloc_default g = Some (t, loc', h) \<and>
    scans sample_lex (1, ''desc t;'', yyloc_default, []) t (yy_start (lex_entry h), unread h, loc', lex_cerr h)"
proof -
  obtain g where g: "yy_scan_string ''desc t;'' yylexer_new = Some g" "lexing g"
    "(yy_start (lex_entry g), unread g, yyloc_default, lex_cerr g) = (first_start yylexer_new, c_str ''desc t;'', yyloc_default, lex_cerr yylexer_new)"
    using scan_string [OF new_lexer_ok(1), of "''desc t;''" yyloc_default] by blast
  moreover have "lex_cerr yylexer_new = []" by (simp add: yylexer_new_def)
  ultimately show ?thesis using yylex_longest_match [OF g(2), of sample_lex yyloc_default] by (auto simp: new_lexer_ok)
qed

end
