(* ===== verification/Server.thy ===== *)
theory Server
  imports Interp Sql_Text
begin

text \<open>
  The client loop of \<open>rucbase.cpp\<close>, from the bytes received to the bytes sent: a request is parsed, its tree runs in the interpreter, and the reply is written. The
  trees of the parser have the classes the interpreter expects. Sockets, threads and signals are outside; a connection is the list of
  what \<open>read\<close> returns.
\<close>

section \<open>The trees of the parser\<close>









section \<open>Requests\<close>















end
