(* ===== verification/Spec2Isabelle.thy ===== *)
theory Spec2Isabelle
  imports Rb_Prelude Rb_Defs Lru_Replacer Disk_Manager Buffer_Pool Bitmap Record_File Record_Scan Record_Manager
    Ix_Node Ix_Index Ix_Tree Ix_Split Ix_Insert Ix_Manager Sm_Meta Rw_Latch Txn_Manager Log_Manager Record_Printer Sm_Manager
    Ql_Conditions Executors Ql_Manager Sql_Ast Interp
    Table_Lookup Sql_Parser Sql_Grammar Sql_Stack Sql_Driver Sql_Parsing Sql_Lexer Sql_Lex_Rules Sql_Matching Sql_Scanner Sql_Text Server
begin

text \<open>
  RucBase, a relational database server. File names below are relative to \<open>src/src\<close>.

  \<^bold>\<open>The program.\<close> A client sends the text of a statement; \<open>rucbase.cpp\<close> has it scanned (\<open>parser/lex.yy.c\<close>) and parsed (\<open>parser/yacc.tab.c\<close>) and gives the parse tree
  (\<open>parser/ast.h\<close>) to
  the interpreter (\<open>interp.h\<close>), which runs it in a transaction (\<open>transaction/\<close>) through the catalogue manager (\<open>system/\<close>) or the query manager
  (\<open>execution/\<close>). Those work on record files (\<open>record/\<close>) and B+ tree indexes (\<open>index/\<close>), both stored in pages of the buffer pool
  (\<open>storage/buffer_pool_manager\<close>), which takes frames from the replacer (\<open>replacer/\<close>) and reads and writes pages through the disk
  manager (\<open>storage/disk_manager\<close>). The reply is laid out by the record printer into a buffer of the context (\<open>common/context.h\<close>).

  \<^bold>\<open>How the code is modelled.\<close> A class is a record with the members of the class, an enum a datatype, an exception class a constructor of
  \<open>rb_error\<close>. An operation is a function of the state that returns the result or the exception and the state at that point (the type \<open>op\<close> of
  \<open>Rb_Prelude\<close>), composed by \<open>andthen\<close> the way the code composes statements. Bytes of pages, files and buffers are functions from offsets to
  bytes; an \<open>int\<close> in a page is its four bytes, so wrap-around and casts are those of the bytes. A pointer to a page is the number of its
  frame, a null pointer is \<open>None\<close>, and using one is the outcome \<open>NullDereference\<close>; a failed \<open>assert\<close>, an index out of range and the use of a variable
  that was never set are outcomes as well. Functions that are empty or unfinished in the source are modelled exactly as they stand.

  \<^item> \<open>Rb_Prelude\<close>, \<open>Rb_Defs\<close>: memory, integers in bytes, the operation type, lists of steps; the locale \<open>content_store\<close> of anything
    that keeps contents under identifiers; \<open>common/config.h\<close>, \<open>defs.h\<close>, \<open>errors.h\<close>.
  \<^item> \<open>Lru_Replacer\<close>: \<open>replacer/\<close>. The locale \<open>replacer\<close> is the contract of \<open>replacer.h\<close>, interpreted on the LRU list with its hash. After any
    history the victim is the frame that has been evictable longest.
  \<^item> \<open>Disk_Manager\<close>: \<open>storage/disk_manager\<close> on a model of the system calls. Pages and log entries are read back as written; the open-file tables
    stay consistent over every history, failed calls included. The offset of a page is an \<open>int\<close> product, whose overflow is undefined in C++; it is taken
    as wrap-around, and from 2 GiB on no page is written at its place.
  \<^item> \<open>Buffer_Pool\<close>: \<open>storage/page.h\<close>, \<open>storage/buffer_pool_manager\<close>. The invariant \<open>bpm_inv\<close> ties frames, page table, free list, replacer and
    disk together; \<open>page_view\<close> is the content of a page wherever it is. Every run of calls refines a plain store of pages (the interpretation of
    \<open>content_store\<close>); what each operation does on every branch; what a failed read leaves behind. Pin counts are unbounded integers: the
    \<open>int\<close> of the code overflows only after \<open>2^31\<close> fetches of a page without an unpin.
  \<^item> \<open>Bitmap\<close>, \<open>Record_File\<close>, \<open>Record_Scan\<close>, \<open>Record_Manager\<close>: \<open>record/\<close>. A file is a finite map from record ids to bytes (\<open>rm_table\<close>); the locale
    \<open>slotted_page\<close> states the laws of a page with slots. The operations refine the map, a scan visits every record once, headers survive
    creation and opening, slots stay inside their page; where free pages are mismanaged is proved as such (a page linked to itself, a record
    written behind the last slot).
  \<^item> \<open>Ix_Node\<close>, \<open>Ix_Index\<close>, \<open>Ix_Tree\<close>, \<open>Ix_Split\<close>, \<open>Ix_Insert\<close>, \<open>Ix_Manager\<close>: \<open>index/\<close>. The locale \<open>key_order\<close> has the laws of a key
    comparison. The binary searches are the counts of smaller keys, \<open>Insert\<close> and \<open>Remove\<close> are updates of a finite map, \<open>GetValue\<close> decides
    membership in a search tree of pages, \<open>insert_entry\<close> adds an entry to a leaf with room, and an entry that fills the root leaf makes
    a tree of height one; \<open>Redistribute\<close> and \<open>Coalesce\<close> keep all entries of two neighbours in order; \<open>create_index\<close> accepts the column lengths
    from \<open>-7\<close> to 512, and from 1 on nodes stay inside their page. A header with a negative length is written as the code writes it; opening such
    a file is an \<open>OutOfRange\<close> outcome, since its nodes reach outside their pages. Splits below an inner node and the rebalancing after a deletion are modelled; their effect on a whole tree is not proved
    (a split of a leftmost child whose keys went below the first key of its parent loses entries).
  \<^item> \<open>Rw_Latch\<close>: \<open>common/rwlatch\<close> as a step relation of any number of threads, with exclusion as an invariant and termination of all waits.
  \<^item> \<open>Sm_Meta\<close>, \<open>Sm_Manager\<close>: \<open>system/\<close>. The catalogue survives writing and reading (an integer that is no column type makes the read fail, where
    the code casts it); \<open>create_table\<close> lays columns out one behind the other.
  \<^item> \<open>Txn_Manager\<close>, \<open>Log_Manager\<close>: \<open>transaction/\<close> and \<open>recovery/\<close>. Lock identifiers, the values of an \<open>int64_t\<close>, are unique within bounds; table names
    in log records.
  \<^item> \<open>Record_Printer\<close>: \<open>common/context.h\<close>, \<open>record_printer.h\<close>. What a sequence of prints leaves in the reply buffer.
  \<^item> \<open>Ql_Conditions\<close>, \<open>Executors\<close>, \<open>Ql_Manager\<close>: \<open>execution/\<close>. Conditions are placed at the first table that can decide them and evaluated
    as the comparison of values; the tuples of every executor tree are laid out without gaps.
  \<^item> \<open>Sql_Ast\<close>, \<open>Interp\<close>: \<open>parser/ast.h\<close>, \<open>parser/ast_printer.h\<close>, \<open>interp.h\<close>.
  \<^item> \<open>Sql_Lexer\<close>, \<open>Sql_Lex_Rules\<close>, \<open>Sql_Matching\<close>, \<open>Sql_Scanner\<close>: \<open>parser/lex.yy.c\<close>, its tables and its code, against the rules of \<open>parser/lex.l\<close> as regular
    expressions. A certificate gives every state of the automaton the derivatives of the rules it stands for; \<open>yylex\<close> returns the token of the
    longest match of the first rule.
  \<^item> \<open>Sql_Parser\<close>, \<open>Sql_Grammar\<close>, \<open>Sql_Stack\<close>, \<open>Sql_Driver\<close>, \<open>Sql_Parsing\<close>: \<open>parser/yacc.tab.c\<close>, its tables, actions and driver, against the grammar with its values.
    A certificate has the states that may lie below a state and the tokens that may follow a nonterminal; the driver is sound, complete and total
    over every scanner that meets the locale \<open>token_source\<close> (an extension of \<open>token_scanner\<close>). \<open>Table_Lookup\<close> makes the checks of the tables fast.
  \<^item> \<open>Sql_Text\<close>: the interpretation of \<open>token_source\<close> on \<open>yylex\<close>; a request parses to a tree exactly when its tokens derive it; an unclosed comment swallows
    the requests that follow. \<open>Server\<close>: the client loop of \<open>rucbase.cpp\<close>, from the bytes received to the replies.

  The checked-in \<open>lex.yy.c\<close> and \<open>yacc.tab.c\<close> are the output for earlier revisions of \<open>lex.l\<close> and \<open>yacc.y\<close>, without the keywords and statements of transactions;
  the build generates both anew. The model is of the checked-in files.

  \<^bold>\<open>Bounds.\<close> The loops that follow pointers of a tree or walk a scan may run for ever on damaged data; these definitions take a bound
  on the rounds and fail with \<open>OutOfFuel\<close> when it is used up. The theorems on \<open>GetValue\<close> and \<open>insert_entry\<close> say which bound is enough (the height
  of the tree) and that the call then returns; the scan theorem does so with the number of records (the driver of the scan loop is
  no code of the program and stops at its bound). The loops of \<open>yylex\<close> and \<open>yyparse\<close> are partial functions, \<open>None\<close> when they do not return, and proved
  to return for every text. Every other function terminates.

  \<^bold>\<open>Parameters.\<close> Code that is not part of the program or whose values the language leaves open is an argument: the shell behind
  \<open>system\<close>, the effect of \<open>chdir\<close>, the text of a floating-point number, \<open>atof\<close> and \<open>atoi\<close> of a number that is no \<open>int\<close>, the bytes of
  uninitialised buffers and variables.

  \<^bold>\<open>Not modelled.\<close> Reading statements from a file and the stack of buffers in \<open>lex.yy.c\<close>, which the program does not use, and the debug output of
  \<open>yacc.tab.c\<close>; the sockets, threads and signals of \<open>rucbase.cpp\<close>, the console macros \<open>common/logger.h\<close>, the tests and their drivers, the client, and the vendored GoogleTest. Media
  errors and a full disk do not occur in the model of the system calls. Mutexes held for a whole operation have no state: a
  history of the component is then a sequence of operations.
\<close>

end
